(* ===== verification/Vice_Prelude.thy ===== *)
theory Vice_Prelude
  imports Main "HOL-Library.Word"
begin

text \<open>
  Shared vocabulary of the development: the machine integers of
  \<^verbatim>\<open>src/src/types.h\<close> as words, byte arrays as functions from indices, and the
  generic lemmas on words, arrays and folds that the component theories use.
\<close>

unbundle bit_operations_syntax

section \<open>Machine integers\<close>

type_synonym u8 = "8 word"
type_synonym u16 = "16 word"
type_synonym u32 = "32 word"
type_synonym u64 = "64 word"

text \<open>\<^verbatim>\<open>CLOCK\<close> is \<^verbatim>\<open>uint64_t\<close>; \<^verbatim>\<open>CLOCK_MAX\<close> is \<^verbatim>\<open>~((CLOCK)0)\<close>.\<close>

type_synonym clock = "64 word"

definition CLOCK_MAX :: clock where
  "CLOCK_MAX = NOT 0"

lemma le_CLOCK_MAX [simp]: "c \<le> CLOCK_MAX"
  by (simp add: CLOCK_MAX_def)

lemma CLOCK_MAX_le [simp]: "CLOCK_MAX \<le> c \<longleftrightarrow> c = CLOCK_MAX"
  using le_CLOCK_MAX [of c] by (auto dest: order_antisym)

lemma less_CLOCK_MAX [simp]: "c < CLOCK_MAX \<longleftrightarrow> c \<noteq> CLOCK_MAX"
  by (simp add: order.strict_iff_order)

text \<open>Masks of low bits as \<^verbatim>\<open>take_bit\<close>, in the collection \<open>masks\<close>.\<close>

named_theorems masks \<open>conjunctions with a low mask\<close>

lemma and_mask_numerals [masks]:
  "w AND 0xf = take_bit 4 (w :: 'a::len word)"
  "w AND 0x7 = take_bit 3 (w :: 'a::len word)"
  "w AND 0x1f = take_bit 5 (w :: 'a::len word)"
  "w AND 0xff = take_bit 8 (w :: 'a::len word)"
  "w AND 0xffff = take_bit 16 (w :: 'a::len word)"
  "w AND 0xffffffff = take_bit 32 (w :: 'a::len word)"
  by (simp_all add: take_bit_eq_mask mask_eq_exp_minus_1)

text \<open>A word is the disjunction of its low part and its shifted high part.\<close>

lemma or_high_low: "take_bit n w OR push_bit n (drop_bit n w) = (w :: 'a::len word)"
proof (rule bit_word_eqI)
  fix k
  show "bit (take_bit n w OR push_bit n (drop_bit n w)) k \<longleftrightarrow> bit w k" if "k < LENGTH('a)"
    using that by (cases "k < n") (auto simp: bit_simps not_less)
qed

section \<open>Bits on a line\<close>

text \<open>The low \<open>n\<close> bits of a word, the highest first.\<close>

definition msb_first :: "nat \<Rightarrow> u32 \<Rightarrow> bool list" where
  "msb_first n w = map (bit w) (rev [0..<n])"

lemma msb_first_Suc: "msb_first (Suc n) w = bit w n # msb_first n w"
  by (simp add: msb_first_def)

lemma msb_first_split: "msb_first (Suc n) w = msb_first n (drop_bit 1 w) @ [bit w 0]"
  by (induction n) (simp_all add: msb_first_Suc bit_simps, simp add: msb_first_def)

lemma shift_value:
  "push_bit n (push_bit 1 r OR of_bool (bit w n)) OR take_bit n w = push_bit (Suc n) r OR take_bit (Suc n) (w :: u32)"
  by (rule bit_word_eqI) (auto simp: bit_simps less_Suc_eq not_less le_Suc_eq)

lemma msb_first_0: "msb_first 0 w = []"
  by (simp add: msb_first_def)

lemma shift_last: "push_bit 1 (push_bit n r OR take_bit n (drop_bit 1 w)) OR of_bool (bit w 0)
    = push_bit (Suc n) r OR take_bit (Suc n) (w :: u32)"
proof (rule bit_word_eqI)
  fix k
  show "bit (push_bit 1 (push_bit n r OR take_bit n (drop_bit 1 w)) OR of_bool (bit w 0)) k
      \<longleftrightarrow> bit (push_bit (Suc n) r OR take_bit (Suc n) w) k" if "k < LENGTH(32)"
    using that by (cases k) (auto simp: bit_simps simp del: push_bit_Suc)
qed

section \<open>Arrays as functions\<close>

text \<open>A C array is a function from indices; \<open>memset\<close> over a range of it.\<close>

definition memset :: "(nat \<Rightarrow> 'a) \<Rightarrow> nat \<Rightarrow> 'a \<Rightarrow> nat \<Rightarrow> nat \<Rightarrow> 'a" where
  "memset a start v n = (\<lambda>i. if start \<le> i \<and> i < start + n then v else a i)"

lemma memset_in [simp]: "start \<le> i \<Longrightarrow> i < start + n \<Longrightarrow> memset a start v n i = v"
  by (simp add: memset_def)

lemma memset_out: "i < start \<or> start + n \<le> i \<Longrightarrow> memset a start v n i = a i"
  by (auto simp: memset_def)

section \<open>Memory blocks\<close>

text \<open>Storing a block of bytes at an offset; \<open>None\<close> when it does not fit the memory.\<close>

definition store_bytes :: "nat \<Rightarrow> u8 list \<Rightarrow> u8 list \<Rightarrow> u8 list option" where
  "store_bytes at bs mem =
     (if at + length bs \<le> length mem then Some (take at mem @ bs @ drop (at + length bs) mem) else None)"

end
