(* ===== verification/Cbmdos.thy ===== *)
theory Cbmdos
  imports Vice_Prelude
begin

text \<open>
  File names of the disk operating system, \<^verbatim>\<open>src/src/cbmdos.c\<close>: wild cards in directory slots, and
  the parser of names with drive, type and mode. A C string is the list of the bytes of its
  buffer, and a pointer into it is an index; \<open>None\<close> is a read outside the buffer.
\<close>

section \<open>Directory slots\<close>

definition CBMDOS_SLOT_NAME_LENGTH :: nat where "CBMDOS_SLOT_NAME_LENGTH = 16"

definition cbmdos_parse_wildcard_check :: "u8 list \<Rightarrow> nat" where
  "cbmdos_parse_wildcard_check name = (if \<exists>c\<in>set name. c = 0x2a \<or> c = 0x3f then 1 else 0)"

text \<open>The loop from an index on, which is at the head of both lists.\<close>

fun wildcard_loop :: "nat \<Rightarrow> u8 list \<Rightarrow> u8 list \<Rightarrow> nat option" where
  "wildcard_loop 0 name1 name2 = Some 1"
| "wildcard_loop (Suc n) (c # name1) (d # name2) =
     (if c = 0x2a then Some 1
      else if c = 0x3f then if d = 0xa0 then Some 0 else wildcard_loop n name1 name2
      else if c = 0xa0 then Some (if d = 0xa0 then 1 else 0)
      else if c \<noteq> d then Some 0
      else wildcard_loop n name1 name2)"
| "wildcard_loop (Suc n) name1 name2 = None"

definition cbmdos_parse_wildcard_compare :: "u8 list \<Rightarrow> u8 list \<Rightarrow> nat option" where
  "cbmdos_parse_wildcard_compare name1 name2 = wildcard_loop CBMDOS_SLOT_NAME_LENGTH name1 name2"

definition cbmdos_dir_slot_create :: "u8 list \<Rightarrow> u8 list" where
  "cbmdos_dir_slot_create name =
     (let len = min (length name) CBMDOS_SLOT_NAME_LENGTH
      in take len name @ replicate (CBMDOS_SLOT_NAME_LENGTH - len) 0xa0)"

section \<open>Commands\<close>

definition CBMDOS_IPE_INVAL :: nat where "CBMDOS_IPE_INVAL = 31"
definition CBMDOS_IPE_NO_NAME :: nat where "CBMDOS_IPE_NO_NAME = 34"
definition CBMDOS_IPE_OVERFLOW :: nat where "CBMDOS_IPE_OVERFLOW = 51"

definition CBMDOS_FT_SEQ :: nat where "CBMDOS_FT_SEQ = 1"
definition CBMDOS_FT_PRG :: nat where "CBMDOS_FT_PRG = 2"
definition CBMDOS_FT_USR :: nat where "CBMDOS_FT_USR = 3"
definition CBMDOS_FT_REL :: nat where "CBMDOS_FT_REL = 4"

definition CBMDOS_FAM_READ :: nat where "CBMDOS_FAM_READ = 0"
definition CBMDOS_FAM_WRITE :: nat where "CBMDOS_FAM_WRITE = 1"
definition CBMDOS_FAM_APPEND :: nat where "CBMDOS_FAM_APPEND = 2"

lemmas cbmdos_consts = CBMDOS_IPE_INVAL_def CBMDOS_IPE_NO_NAME_def CBMDOS_IPE_OVERFLOW_def CBMDOS_FT_SEQ_def
  CBMDOS_FT_PRG_def CBMDOS_FT_USR_def CBMDOS_FT_REL_def CBMDOS_FAM_READ_def CBMDOS_FAM_WRITE_def CBMDOS_FAM_APPEND_def

record cmd_parse =
  cmdlength :: nat
  parsecmd :: "u8 list"
  secondary :: nat
  parselength :: nat
  readmode :: nat
  filetype :: nat
  recordlength :: nat
  drive :: int
  atsign :: nat

definition peek :: "u8 list \<Rightarrow> nat \<Rightarrow> u8 option" where
  "peek buf i = (if i < length buf then Some (buf ! i) else None)"

text \<open>\<^verbatim>\<open>memchr\<close>: the first of \<open>n\<close> bytes from \<open>p\<close> on that is \<open>c\<close>.\<close>

fun memchr :: "u8 list \<Rightarrow> nat \<Rightarrow> u8 \<Rightarrow> nat \<Rightarrow> nat option option" where
  "memchr buf p c 0 = Some None"
| "memchr buf p c (Suc n) = Option.bind (peek buf p) (\<lambda>x. if x = c then Some (Some p) else memchr buf (p + 1) c n)"

text \<open>Where the pattern starts, the drive, and the length, which \<^verbatim>\<open>$:\<close> with nothing after it raises.\<close>

definition pattern_start :: "u8 list \<Rightarrow> cmd_parse \<Rightarrow> (nat \<times> cmd_parse) option" where
  "pattern_start cmd cp =
     Option.bind (peek cmd 0) (\<lambda>c.
       if c = 0x24 then
         if cmdlength cp > 1 then
           Option.bind (peek cmd 1) (\<lambda>c1.
           let (p, cp) = (if c1 = 0x30 \<or> c1 = 0x31 then (2, cp\<lparr>drive := uint c1 - 0x30\<rparr>) else (1, cp))
           in Option.bind (peek cmd p) (\<lambda>c2.
              if c2 = 0x3a then
                map_option (\<lambda>c3. (p + 1, if c3 = 0 then cp\<lparr>cmdlength := cmdlength cp + 1\<rparr> else cp)) (peek cmd (p + 1))
              else Some (p, cp)))
         else Some (1, cp)
       else
         Option.bind (memchr cmd 0 0x3a (cmdlength cp)) (\<lambda>found. case found of
           Some p \<Rightarrow>
             if p = 0 then Some (1, cp)
             else map_option (\<lambda>d. (p + 1, if d = 0x30 \<or> d = 0x31 then cp\<lparr>drive := uint d - 0x30\<rparr> else cp)) (peek cmd (p - 1))
         | None \<Rightarrow> Some (0, cp)))"

text \<open>Copying up to the first comma: the copy, the pointer and what is left of \<open>cmdlen\<close>.\<close>

fun copy_pattern :: "u8 list \<Rightarrow> nat \<Rightarrow> nat \<Rightarrow> (u8 list \<times> nat \<times> int) option" where
  "copy_pattern cmd p 0 = map_option (\<lambda>c. ([], p, if c \<noteq> 0x2c then -1 else 0)) (peek cmd p)"
| "copy_pattern cmd p (Suc n) =
     Option.bind (peek cmd p) (\<lambda>c.
       if c \<noteq> 0x2c then map_option (\<lambda>(cs, q, k). (c # cs, q, k)) (copy_pattern cmd (p + 1) n)
       else Some ([], p, int n + 1))"

text \<open>
  One letter after a comma, at \<open>p\<close> with \<open>n\<close> bytes left: \<open>Inl\<close> is an error, \<open>Inr\<close> the parse and
  whether the rest is skipped.
\<close>

definition parse_letter :: "u8 list \<Rightarrow> nat \<Rightarrow> nat \<Rightarrow> cmd_parse \<Rightarrow> ((nat \<times> cmd_parse) + (bool \<times> cmd_parse)) option" where
  "parse_letter cmd p n cp =
     Option.bind (peek cmd p) (\<lambda>c.
       if c = 0x53 then Some (Inr (False, cp\<lparr>filetype := CBMDOS_FT_SEQ\<rparr>))
       else if c = 0x50 then Some (Inr (False, cp\<lparr>filetype := CBMDOS_FT_PRG\<rparr>))
       else if c = 0x55 then Some (Inr (False, cp\<lparr>filetype := CBMDOS_FT_USR\<rparr>))
       else if c = 0xcc \<or> c = 0x4c then
         Option.bind (memchr cmd (p + 1) 0x2c n) (\<lambda>found. case found of
           Some comma \<Rightarrow>
             if p + n > comma + 1 then
               Option.bind (peek cmd (comma + 1)) (\<lambda>r.
                 let cp = cp\<lparr>recordlength := unat r\<rparr>
                 in if unat r < 2 \<or> unat r > 254 then Some (Inl (CBMDOS_IPE_OVERFLOW, cp))
                    else Some (Inr (True, cp\<lparr>filetype := CBMDOS_FT_REL\<rparr>)))
             else Some (Inr (False, cp\<lparr>readmode := CBMDOS_FAM_READ, filetype := CBMDOS_FT_REL\<rparr>))
         | None \<Rightarrow> Some (Inr (False, cp\<lparr>readmode := CBMDOS_FAM_READ, filetype := CBMDOS_FT_REL\<rparr>)))
       else if c = 0x52 then Some (Inr (False, cp\<lparr>readmode := CBMDOS_FAM_READ\<rparr>))
       else if c = 0x57 then Some (Inr (False, cp\<lparr>readmode := CBMDOS_FAM_WRITE\<rparr>))
       else if c = 0x41 then Some (Inr (False, cp\<lparr>readmode := CBMDOS_FAM_APPEND\<rparr>))
       else if readmode cp \<noteq> CBMDOS_FAM_READ \<and> readmode cp \<noteq> CBMDOS_FAM_WRITE then Some (Inl (CBMDOS_IPE_INVAL, cp))
       else Some (Inr (False, cp)))"

text \<open>The loop over the commas, at a comma with \<open>n\<close> bytes left; the fuel is the number of bytes.\<close>

fun parse_letters :: "nat \<Rightarrow> u8 list \<Rightarrow> nat \<Rightarrow> nat \<Rightarrow> cmd_parse \<Rightarrow> ((nat \<times> cmd_parse) + cmd_parse) option" where
  "parse_letters fuel cmd p 0 cp = Some (Inr cp)"
| "parse_letters 0 cmd p (Suc n) cp = None"
| "parse_letters (Suc fuel) cmd p (Suc n) cp =
     (if n = 0 then Some (Inl (CBMDOS_IPE_INVAL, cp))
      else Option.bind (parse_letter cmd (p + 1) n cp) (\<lambda>r. case r of
        Inl e \<Rightarrow> Some (Inl e)
      | Inr (skip, cp) \<Rightarrow>
          if skip then Some (Inr cp)
          else Option.bind (memchr cmd (p + 1) 0x2c n) (\<lambda>found. case found of
            Some q \<Rightarrow> parse_letters fuel cmd q (n - (q - (p + 1))) cp
          | None \<Rightarrow> Some (Inr cp))))"

definition cbmdos_command_parse :: "u8 list \<Rightarrow> cmd_parse \<Rightarrow> (nat \<times> cmd_parse) option" where
  "cbmdos_command_parse cmd cp =
     (let cp = cp\<lparr>atsign := 0, parsecmd := [], recordlength := 0,
            readmode := if secondary cp = 1 then CBMDOS_FAM_WRITE else CBMDOS_FAM_READ\<rparr>
      in if cmdlength cp = 0 then Some (CBMDOS_IPE_NO_NAME, cp)
         else
           Option.bind (pattern_start cmd cp) (\<lambda>(p, cp).
           Option.bind (copy_pattern cmd p (cmdlength cp - p)) (\<lambda>(name, q, cmdlen).
           let cp = cp\<lparr>parsecmd := name, parselength := length name,
                filetype := if secondary cp < 2 then CBMDOS_FT_PRG else 0\<rparr>
           in Option.bind (parse_letters (nat cmdlen) cmd q (nat cmdlen) cp) (\<lambda>r. case r of
                Inl (err, cp) \<Rightarrow> Some (err, cp)
              | Inr cp \<Rightarrow>
                  let cp = (if secondary cp = 0 then cp\<lparr>readmode := CBMDOS_FAM_READ\<rparr> else cp);
                      cp = (if secondary cp = 1 then cp\<lparr>readmode := CBMDOS_FAM_WRITE\<rparr> else cp)
                  in Some (0, cp)))))"

end
