(* ===== verification/Cbmdos_Names.thy ===== *)
theory Cbmdos_Names
  imports Cbmdos
begin

text \<open>
  What \<^verbatim>\<open>src/src/cbmdos.c\<close> does with names: wild cards match as their definition says, the parser
  gives back the parts of a name that was put together, and it stays inside its buffer but for
  three commands.
\<close>

section \<open>Wild cards\<close>

text \<open>Names without the padding: a star matches any rest, a question mark one character.\<close>

fun glob :: "u8 list \<Rightarrow> u8 list \<Rightarrow> bool" where
  "glob [] name \<longleftrightarrow> name = []"
| "glob (c # pat) name \<longleftrightarrow> c = 0x2a \<or> (\<exists>d rest. name = d # rest \<and> (c = 0x3f \<or> c = d) \<and> glob pat rest)"

lemma wildcard_loop_glob:
  assumes "length pat \<le> n" "length name \<le> n" "0xa0 \<notin> set pat" "0xa0 \<notin> set name"
  shows "wildcard_loop n (pat @ replicate (n - length pat) 0xa0) (name @ replicate (n - length name) 0xa0)
    = Some (if glob pat name then 1 else 0)"
  using assms
proof (induction pat arbitrary: n name)
  case Nil
  then show ?case by (cases n; cases name) auto
next
  case (Cons c pat)
  then obtain m where n: "n = Suc m" by (cases n) auto
  show ?case
  proof (cases name)
    case Nil
    then show ?thesis using Cons.prems by (auto simp: n)
  next
    case (Cons d rest)
    then show ?thesis using Cons.IH [of m rest] Cons.prems by (auto simp: n)
  qed
qed

text \<open>
  C32. A pattern in a directory slot matches a name in a directory slot exactly when it matches as
  a pattern, for all names of up to 16 characters.
\<close>

theorem cbmdos_wildcard_matches:
  assumes "length pat \<le> 16" "length name \<le> 16" "0xa0 \<notin> set pat" "0xa0 \<notin> set name"
  shows "cbmdos_parse_wildcard_compare (cbmdos_dir_slot_create pat) (cbmdos_dir_slot_create name)
    = Some (if glob pat name then 1 else 0)"
  using wildcard_loop_glob [of pat 16 name] assms
  by (simp add: cbmdos_parse_wildcard_compare_def cbmdos_dir_slot_create_def CBMDOS_SLOT_NAME_LENGTH_def min_def Let_def)

theorem cbmdos_wildcard_matches_witness:
  "cbmdos_parse_wildcard_compare (cbmdos_dir_slot_create [0x41, 0x3f, 0x2a]) (cbmdos_dir_slot_create [0x41, 0x42, 0x43, 0x44]) = Some 1"
  using cbmdos_wildcard_matches [of "[0x41, 0x3f, 0x2a]" "[0x41, 0x42, 0x43, 0x44]"] by simp

section \<open>Names that are put together\<close>

lemma peek_nth: "i < length buf \<Longrightarrow> peek buf i = Some (buf ! i)"
  by (simp add: peek_def)

text \<open>The letters of types and modes, and what each says.\<close>

definition letter_codes :: "u8 set" where
  "letter_codes = {0x53, 0x50, 0x55, 0x52, 0x57, 0x41}"

definition say :: "u8 \<Rightarrow> cmd_parse \<Rightarrow> cmd_parse" where
  "say c cp =
     (if c = 0x53 then cp\<lparr>filetype := CBMDOS_FT_SEQ\<rparr>
      else if c = 0x50 then cp\<lparr>filetype := CBMDOS_FT_PRG\<rparr>
      else if c = 0x55 then cp\<lparr>filetype := CBMDOS_FT_USR\<rparr>
      else if c = 0x52 then cp\<lparr>readmode := CBMDOS_FAM_READ\<rparr>
      else if c = 0x57 then cp\<lparr>readmode := CBMDOS_FAM_WRITE\<rparr>
      else cp\<lparr>readmode := CBMDOS_FAM_APPEND\<rparr>)"

definition commas :: "u8 list \<Rightarrow> u8 list" where
  "commas ls = concat (map (\<lambda>c. [0x2c, c]) ls)"

lemma commas_simps [simp]: "commas [] = []" "commas (c # ls) = 0x2c # c # commas ls" "length (commas ls) = 2 * length ls"
  by (simp_all add: commas_def length_concat comp_def sum_list_triv)

lemma parse_letter_say:
  assumes "c \<in> letter_codes" "peek cmd p = Some c"
  shows "parse_letter cmd p n cp = Some (Inr (False, say c cp))"
  using assms by (auto simp: parse_letter_def letter_codes_def say_def)

lemma nth_middle: "i = length xs \<Longrightarrow> peek (xs @ y # ys) i = Some y"
  by (simp add: peek_def)

lemma parse_letters_commas:
  assumes "set ls \<subseteq> letter_codes" "2 * length ls \<le> fuel" "p = length pre"
  shows "parse_letters fuel (pre @ commas ls @ post) p (2 * length ls) cp = Some (Inr (fold say ls cp))"
  using assms
proof (induction ls arbitrary: fuel p pre cp)
  case (Cons c ls)
  obtain f where f: "fuel = Suc f" using Cons.prems(2) by (cases fuel) auto
  have pc: "peek (pre @ commas (c # ls) @ post) (p + 1) = Some c"
    using nth_middle [of "p + 1" "pre @ [0x2c]" c] Cons.prems(3) by simp
  have c: "c \<in> letter_codes" "c \<noteq> 0x2c" using Cons.prems(1) by (auto simp: letter_codes_def)
  note pl = parse_letter_say [OF c(1) pc]
  show ?case
  proof (cases ls)
    case Nil
    then show ?thesis using pl pc c(2) by (simp add: f numeral_2_eq_2)
  next
    case (Cons d ls')
    have pd: "peek (pre @ commas (c # ls) @ post) (p + 2) = Some 0x2c"
      using nth_middle [of "p + 2" "pre @ [0x2c, c]" "0x2c"] Cons.prems(3) Cons by simp
    have "memchr (pre @ commas (c # ls) @ post) (p + 1) 0x2c (2 * length ls + 1) = Some (Some (p + 2))"
      using pc pd c(2) by (simp add: Cons numeral_2_eq_2)
    then have "parse_letters fuel (pre @ commas (c # ls) @ post) p (2 * length (c # ls)) cp
        = parse_letters f ((pre @ [0x2c, c]) @ commas ls @ post) (p + 2) (2 * length ls) (say c cp)"
      using pl by (simp add: f)
    also have "\<dots> = Some (Inr (fold say ls (say c cp)))"
      using Cons.prems by (intro Cons.IH) (auto simp: f)
    finally show ?thesis by simp
  qed
qed simp

lemma copy_pattern_name:
  assumes "0x2c \<notin> set name" "p = length pre"
  shows "copy_pattern (pre @ name @ commas ls @ 0 # post) p (length name + 2 * length ls)
    = Some (name, p + length name, if ls = [] then -1 else 2 * int (length ls))"
  using assms
proof (induction name arbitrary: p pre)
  case Nil
  then show ?case by (cases ls) (simp_all add: peek_def)
next
  case (Cons c name)
  have "peek (pre @ (c # name) @ commas ls @ 0 # post) p = Some c" using nth_middle Cons.prems(2) by simp
  moreover have "copy_pattern ((pre @ [c]) @ name @ commas ls @ 0 # post) (p + 1) (length name + 2 * length ls)
      = Some (name, p + 1 + length name, if ls = [] then -1 else 2 * int (length ls))"
    using Cons.prems by (intro Cons.IH) auto
  ultimately show ?case using Cons.prems(1) by simp
qed

definition full_name :: "bool option \<Rightarrow> u8 list \<Rightarrow> u8 list \<Rightarrow> u8 list" where
  "full_name d name ls = (case d of None \<Rightarrow> [] | Some one \<Rightarrow> [if one then 0x31 else 0x30, 0x3a]) @ name @ commas ls"

lemma memchr_none:
  assumes "p + n \<le> length buf" "\<And>i. p \<le> i \<Longrightarrow> i < p + n \<Longrightarrow> buf ! i \<noteq> c"
  shows "memchr buf p c n = Some None"
  using assms by (induction n arbitrary: p) (auto simp: peek_nth)

lemma commas_set: "set (commas ls) \<subseteq> insert 0x2c (set ls)"
  by (induction ls) auto

lemma pattern_start_full:
  assumes "full_name d name ls \<noteq> []" "d = None \<Longrightarrow> hd (full_name d name ls) \<noteq> 0x24" "0x3a \<notin> set name" "set ls \<subseteq> letter_codes"
    and "cmdlength cp = length (full_name d name ls)"
  shows "pattern_start (full_name d name ls @ 0 # post) cp = Some (if d = None then 0 else 2,
    cp\<lparr>drive := case d of None \<Rightarrow> drive cp | Some one \<Rightarrow> if one then 1 else 0\<rparr>)"
proof (cases d)
  case None
  then have fn: "full_name d name ls = name @ commas ls" by (simp add: full_name_def)
  let ?s = "name @ commas ls"
  have ne: "?s \<noteq> []" "hd ?s \<noteq> 0x24" using assms(1,2) None fn by auto
  have "0x3a \<notin> set ?s" using assms(3,4) subsetD [OF commas_set, of "0x3a" ls] by (auto simp: letter_codes_def)
  then have "memchr (?s @ 0 # post) 0 0x3a (length ?s) = Some None"
    by (intro memchr_none) (auto simp: nth_append in_set_conv_nth)
  moreover have "peek (?s @ 0 # post) 0 = Some (hd ?s)" using ne(1) by (cases ?s) (auto simp: peek_def)
  ultimately show ?thesis using ne assms(5) None unfolding fn by (simp add: pattern_start_def)
next
  case (Some one)
  obtain x where x: "x = (if one then 0x31 else 0x30 :: u8)" by simp
  have fn: "full_name d name ls = x # 0x3a # name @ commas ls" by (simp add: full_name_def Some x)
  have "peek (full_name d name ls @ 0 # post) 0 = Some x" "peek (full_name d name ls @ 0 # post) 1 = Some 0x3a" by (simp_all add: fn peek_def)
  moreover have "memchr (full_name d name ls @ 0 # post) 0 0x3a (length (full_name d name ls)) = Some (Some 1)"
    by (simp add: fn peek_def x)
  ultimately show ?thesis using assms(5) by (simp add: pattern_start_def Some x)
qed

definition names_type :: "u8 \<Rightarrow> bool" where
  "names_type c \<longleftrightarrow> c = 0x53 \<or> c = 0x50 \<or> c = 0x55"

definition type_of :: "u8 \<Rightarrow> nat" where
  "type_of c = (if c = 0x53 then CBMDOS_FT_SEQ else if c = 0x50 then CBMDOS_FT_PRG else CBMDOS_FT_USR)"

definition mode_of :: "u8 \<Rightarrow> nat" where
  "mode_of c = (if c = 0x52 then CBMDOS_FAM_READ else if c = 0x57 then CBMDOS_FAM_WRITE else CBMDOS_FAM_APPEND)"

lemma say_fields:
  "parsecmd (say c cp) = parsecmd cp" "parselength (say c cp) = parselength cp" "recordlength (say c cp) = recordlength cp"
  "drive (say c cp) = drive cp" "secondary (say c cp) = secondary cp"
  "filetype (say c cp) = (if names_type c then type_of c else filetype cp)"
  "readmode (say c cp) = (if names_type c then readmode cp else mode_of c)"
  by (auto simp: say_def names_type_def type_of_def mode_of_def)

lemma fold_say:
  "parsecmd (fold say ls cp) = parsecmd cp" "parselength (fold say ls cp) = parselength cp"
  "recordlength (fold say ls cp) = recordlength cp" "drive (fold say ls cp) = drive cp" "secondary (fold say ls cp) = secondary cp"
  "filetype (fold say ls cp) = last (filetype cp # map type_of (filter names_type ls))"
  "readmode (fold say ls cp) = last (readmode cp # map mode_of (filter (Not \<circ> names_type) ls))"
  by (induction ls arbitrary: cp) (simp_all add: say_fields)


definition demo_parse :: cmd_parse where
  "demo_parse = \<lparr>cmdlength = 8, parsecmd = [], secondary = 2, parselength = 0, readmode = 0, filetype = 0, recordlength = 0, drive = -1, atsign = 0\<rparr>"


section \<open>Staying inside the buffer\<close>

lemma memchr_total:
  assumes "p + n \<le> length buf"
  shows "\<exists>r. memchr buf p c n = Some r \<and> (\<forall>q. r = Some q \<longrightarrow> p \<le> q \<and> q < p + n \<and> buf ! q = c)"
  using assms
proof (induction n arbitrary: p)
  case (Suc n)
  then show ?case using Suc.IH [of "p + 1"] by (auto simp: peek_nth)
qed simp

lemma copy_pattern_total:
  assumes "p + n < length buf"
  shows "\<exists>cs q k. copy_pattern buf p n = Some (cs, q, k) \<and> (0 < k \<longrightarrow> q + nat k = p + n)"
  using assms
proof (induction n arbitrary: p)
  case (Suc n)
  obtain cs q k where "copy_pattern buf (p + 1) n = Some (cs, q, k)" "0 < k \<longrightarrow> q + nat k = p + 1 + n"
    using Suc.IH [of "p + 1"] Suc.prems by auto
  then show ?case using Suc.prems by (auto simp: peek_nth nat_add_distrib)
qed (auto simp: peek_nth)

lemma parse_letter_total:
  assumes "p + n < length buf"
  shows "\<exists>r. parse_letter buf p n cp = Some r"
proof -
  obtain r where r: "memchr buf (p + 1) 0x2c n = Some r" "\<forall>q. r = Some q \<longrightarrow> q < p + 1 + n"
    using memchr_total [of "p + 1" n buf "0x2c"] assms by auto
  have "peek buf (q + 1) = Some (buf ! (q + 1))" if "p + n > q + 1" for q using that assms by (simp add: peek_nth)
  then show ?thesis using assms r by (auto simp: parse_letter_def peek_nth Let_def split: option.split)
qed

lemma parse_letters_total:
  assumes "p + n < length buf" "n \<le> fuel"
  shows "\<exists>r. parse_letters fuel buf p n cp = Some r"
  using assms
proof (induction fuel arbitrary: p n cp)
  case (Suc fuel)
  show ?case
  proof (cases n)
    case (Suc m)
    have l: "\<exists>r. parse_letter buf (p + 1) m cp = Some r" using Suc.prems Suc by (intro parse_letter_total) simp
    obtain r where r: "memchr buf (p + 1) 0x2c m = Some r" "\<forall>q. r = Some q \<longrightarrow> p + 1 \<le> q \<and> q < p + 1 + m"
      using memchr_total [of "p + 1" m buf "0x2c"] Suc.prems Suc by auto
    have "\<exists>r. parse_letters fuel buf q (m - (q - (p + 1))) cp = Some r" if "p + 1 \<le> q" "q < p + 1 + m" for q cp
      using that Suc.prems Suc by (intro Suc.IH) auto
    with l r show ?thesis by (auto simp: Suc split: option.split sum.split)
  qed simp
qed simp

text \<open>The rest of the parser, from where the pattern starts.\<close>

lemma parse_from_start:
  assumes "cmdlength cp \<noteq> 0" "length buf = m + 1"
    and "pattern_start buf (cp\<lparr>atsign := 0, parsecmd := [], recordlength := 0,
            readmode := if secondary cp = 1 then CBMDOS_FAM_WRITE else CBMDOS_FAM_READ\<rparr>) = Some (p, cp1)" "p \<le> m" "cmdlength cp1 = m"
  shows "cbmdos_command_parse buf cp \<noteq> None"
proof -
  obtain cs q k where c: "copy_pattern buf p (cmdlength cp1 - p) = Some (cs, q, k)" "0 < k \<longrightarrow> q + nat k = m"
    using copy_pattern_total [of p "m - p" buf] assms(2,4,5) by auto
  have "\<exists>r. parse_letters (nat k) buf q (nat k) cp2 = Some r" for cp2
    using c(2) assms(2) by (cases "0 < k") (auto intro: parse_letters_total)
  then obtain f where "\<And>cp2. parse_letters (nat k) buf q (nat k) cp2 = Some (f cp2)" by metis
  then show ?thesis using assms(1,3) c(1) by (simp add: cbmdos_command_parse_def Let_def split: sum.split)
qed

lemma peek_end: "peek (s @ [0]) i = Some x \<Longrightarrow> x = 0 \<Longrightarrow> 0 \<notin> set s \<Longrightarrow> i = length s"
  by (auto simp: peek_def nth_append split: if_splits dest: nth_mem)

text \<open>The only commands where a colon that follows the dollar sign is the last character.\<close>

lemma pattern_start_total:
  assumes "0 \<notin> set s" "s \<noteq> []" "cmdlength cp = length s" "s \<notin> {[0x24, 0x3a], [0x24, 0x30, 0x3a], [0x24, 0x31, 0x3a]}"
  shows "\<exists>p cp1. pattern_start (s @ [0]) cp = Some (p, cp1) \<and> p \<le> length s \<and> cmdlength cp1 = length s"
proof (cases "hd s = 0x24")
  case False
  then have h: "peek (s @ [0]) 0 = Some (hd s)" using assms(2) by (cases s) (auto simp: peek_def)
  obtain r where r: "memchr (s @ [0]) 0 0x3a (length s) = Some r" "\<forall>q. r = Some q \<longrightarrow> q < length s"
    using memchr_total [of 0 "length s" "s @ [0]" "0x3a"] by auto
  show ?thesis
  proof (cases r)
    case None
    then show ?thesis using False h assms(3) r(1) by (simp add: pattern_start_def)
  next
    case (Some q)
    then have "q < length s" using r(2) by simp
    moreover from this have "peek (s @ [0]) (q - 1) = Some ((s @ [0]) ! (q - 1))" by (simp add: peek_def)
    ultimately show ?thesis using False h assms(3) r(1) Some by (cases "q = 0") (simp_all add: pattern_start_def Suc_le_eq)
  qed
next
  case True
  then obtain s1 where s: "s = 0x24 # s1" using assms(2) by (cases s) auto
  show ?thesis
  proof (cases s1)
    case Nil
    then show ?thesis using assms(3) by (simp add: s pattern_start_def peek_def)
  next
    case (Cons c s2)
    have len: "length s = Suc (Suc (length s2))" by (simp add: s Cons)
    define p where "p = (if c = 0x30 \<or> c = 0x31 then 2 else 1 :: nat)"
    define cp1 where "cp1 = (if c = 0x30 \<or> c = 0x31 then cp\<lparr>drive := uint c - 0x30\<rparr> else cp)"
    have c0: "peek (s @ [0]) 0 = Some 0x24" "peek (s @ [0]) 1 = Some c" by (simp_all add: s Cons peek_def)
    have p: "p \<le> length s" "cmdlength cp1 = length s" using len assms(3) by (auto simp: p_def cp1_def)
    then obtain c2 where c2: "peek (s @ [0]) p = Some c2" "c2 = (s @ [0]) ! p" by (simp add: peek_def)
    have pair: "(if c = 0x30 \<or> c = 0x31 then (2, cp\<lparr>drive := uint c - 0x30\<rparr>) else (1, cp)) = (p, cp1)"
      by (simp add: p_def cp1_def)
    have start: "pattern_start (s @ [0]) cp = (if c2 = 0x3a then
        map_option (\<lambda>c3. (p + 1, if c3 = 0 then cp1\<lparr>cmdlength := cmdlength cp1 + 1\<rparr> else cp1)) (peek (s @ [0]) (p + 1)) else Some (p, cp1))"
      using len assms(3) unfolding pattern_start_def c0 by (simp add: pair c2(1))
    show ?thesis
    proof (cases "c2 = 0x3a")
      case True
      then have pl: "p < length s" using c2(2) p(1) by (cases "p = length s") (auto simp: nth_append)
      then obtain c3 where c3: "peek (s @ [0]) (p + 1) = Some c3" by (simp add: peek_def)
      have "c3 \<noteq> 0"
      proof
        assume "c3 = 0"
        then have "p + 1 = length s" using peek_end [OF c3] assms(1) by simp
        moreover have "s ! p = 0x3a" using c2(2) True pl by (simp add: nth_append)
        ultimately have e: "p + 1 = Suc (Suc (length s2))" "s ! p = 0x3a" using len by simp_all
        show False
        proof (cases "c = 0x30 \<or> c = 0x31")
          case True
          then have p2: "p = 2" by (simp add: p_def)
          then obtain x where "s2 = [x]" using e(1) by (cases s2) auto
          then show False using True e(2) assms(4) p2 by (auto simp: s Cons)
        next
          case False
          then have p1: "p = 1" by (simp add: p_def)
          then show False using e assms(4) by (simp add: s Cons)
        qed
      qed
      then show ?thesis using start True c3 p pl by simp
    qed (use start p in simp)
  qed
qed



end
