(* ===== verification/Charset.thy ===== *)
theory Charset
  imports Vice_Prelude
begin

text \<open>
  The conversions between ASCII, PETSCII, screen codes and UTF-8 of \<^verbatim>\<open>src/src/charset.c\<close>.
  A C string is the list of its bytes before the terminating 0. Characters are unsigned
  bytes, and \<^verbatim>\<open>isprint\<close>, \<^verbatim>\<open>isdigit\<close> and \<^verbatim>\<open>toupper\<close> are those of the C locale.
\<close>

section \<open>Characters\<close>

definition petcii_fix_dupes :: "u8 \<Rightarrow> u8" where
  "petcii_fix_dupes c =
     (if c \<ge> 0x60 \<and> c \<le> 0x7f then (c - 0x60) + 0xc0
      else if c \<ge> 0xe0 then (c - 0xe0) + 0xa0
      else c)"

definition ASCII_UNMAPPED :: u8 where "ASCII_UNMAPPED = 0x2e"
definition PETSCII_UNMAPPED :: u8 where "PETSCII_UNMAPPED = 0x3f"

definition isprint :: "u8 \<Rightarrow> bool" where
  "isprint c \<longleftrightarrow> 0x20 \<le> c \<and> c \<le> 0x7e"

definition charset_p_toascii :: "u8 \<Rightarrow> bool \<Rightarrow> u8" where
  "charset_p_toascii c mode =
     (let c = (if mode \<and> c \<le> 0x1f then c + 0x40 else c);
          c = petcii_fix_dupes c
      in if c = 0x0d then 0x0a
         else if c = 0x0a then 0x0d
         else if c \<le> 0x1f then ASCII_UNMAPPED
         else if c = 0xa0 then 0x20
         else if c \<ge> 0xc1 \<and> c \<le> 0xda then (c - 0xc1) + 0x41
         else if c \<ge> 0x41 \<and> c \<le> 0x5a then (c - 0x41) + 0x61
         else if isprint c then c else ASCII_UNMAPPED)"

definition charset_p_topetscii :: "u8 \<Rightarrow> u8" where
  "charset_p_topetscii c =
     (if c = 0x0a then 0x0d
      else if c = 0x0d then 0x0a
      else if c \<le> 0x1f then PETSCII_UNMAPPED
      else if c = 0x60 then 0x27
      else if c \<ge> 0x61 \<and> c \<le> 0x7a then (c - 0x61) + 0x41
      else if c \<ge> 0x41 \<and> c \<le> 0x5a then (c - 0x41) + 0xc1
      else if c \<ge> 0x7b then PETSCII_UNMAPPED
      else petcii_fix_dupes c)"

definition charset_screencode_to_petscii :: "u8 \<Rightarrow> u8" where
  "charset_screencode_to_petscii code =
     (let code = code AND 0x7f
      in if code \<le> 0x1f then code + 0x40
         else if code \<ge> 0x40 \<and> code \<le> 0x5f then code + 0x20
         else code)"

definition charset_petscii_to_screencode :: "u8 \<Rightarrow> bool \<Rightarrow> u8" where
  "charset_petscii_to_screencode code reverse_mode =
     (let rev = (if reverse_mode then 0x80 else 0)
      in if code \<ge> 0x40 \<and> code \<le> 0x5f then (code - 0x40) OR rev
         else if code \<ge> 0x60 \<and> code \<le> 0x7f then (code - 0x20) OR rev
         else if code \<ge> 0xa0 \<and> code \<le> 0xbf then (code - 0x40) OR rev
         else if code \<ge> 0xc0 \<and> code \<le> 0xfe then (code - 0x80) OR rev
         else if code = 0xff then 0x5e OR rev
         else code OR rev)"

definition charset_petscii_to_screencode_line :: "u8 list \<Rightarrow> u8 list" where
  "charset_petscii_to_screencode_line line = map (\<lambda>c. charset_petscii_to_screencode c False) line"

section \<open>Strings\<close>

datatype charset_mode = CONVERT_TO_PETSCII | CONVERT_TO_ASCII | CONVERT_TO_ASCII_WITH_CTRLCODES | CONVERT_TO_UTF8

text \<open>The bytes of the string from \<^verbatim>\<open>s\<close> on; behind the last one is the terminating 0.\<close>

fun test_lineend :: "u8 list \<Rightarrow> nat" where
  "test_lineend (c # d # s) = (if c = 0x0d \<and> d = 0x0a then 2 else if c = 0x0a then 1 else if c = 0x0d then 1 else 0)"
| "test_lineend [c] = (if c = 0x0a then 1 else if c = 0x0d then 1 else 0)"
| "test_lineend [] = 0"

text \<open>The loop of the conversion to PETSCII.\<close>

function to_petscii :: "u8 list \<Rightarrow> u8 list" where
  "to_petscii [] = []"
| "to_petscii (c # s) =
     (let ch = test_lineend (c # s)
      in if ch \<noteq> 0 then 0x0d # to_petscii (drop ch (c # s)) else charset_p_topetscii c # to_petscii s)"
  by pat_completeness auto
termination by (relation "measure length") auto

fun charset_petconvstring :: "u8 list \<Rightarrow> charset_mode \<Rightarrow> u8 list" where
  "charset_petconvstring c CONVERT_TO_PETSCII = to_petscii c"
| "charset_petconvstring c CONVERT_TO_ASCII = map (\<lambda>x. charset_p_toascii x False) c"
| "charset_petconvstring c CONVERT_TO_ASCII_WITH_CTRLCODES = map (\<lambda>x. charset_p_toascii x True) c"
| "charset_petconvstring c CONVERT_TO_UTF8 = []"

section \<open>UTF-8\<close>

text \<open>\<open>pet\<close> is \<^verbatim>\<open>machine_class == VICE_MACHINE_PET\<close>.\<close>

definition charset_petscii_to_ucs :: "bool \<Rightarrow> u8 \<Rightarrow> int" where
  "charset_petscii_to_ucs pet c =
     (if c = 0x5c then if pet then 0x5c else 0xa3
      else if c = 0x5e then 0x2191
      else if c = 0x5f then 0x2190
      else if c = 0xa0 \<or> c = 0xe0 then 0xa0
      else if c = 0xc0 then 0x2500
      else if c = 0xde \<or> c = 0xff then 0x3c0
      else uint (charset_p_toascii c False))"

text \<open>
  The number of bytes of a code point and the memory behind \<^verbatim>\<open>out\<close>, which is the position
  \<open>out\<close> of a buffer; \<open>None\<close> is a store outside the buffer.
\<close>

definition charset_ucs_to_utf8 :: "u8 list \<Rightarrow> nat \<Rightarrow> int \<Rightarrow> u64 \<Rightarrow> (nat \<times> u8 list) option" where
  "charset_ucs_to_utf8 buf out code len =
     (if code \<ge> 0 \<and> code \<le> 0x7f then
        map_option (Pair 1) (if len \<ge> 1 then store_bytes out [word_of_int code] buf else Some buf)
      else if code \<ge> 0x80 \<and> code \<le> 0x7ff then
        map_option (Pair 2) (if len \<ge> 2 then store_bytes out
          [0xc0 OR word_of_int (code div 2 ^ 6), 0x80 OR (word_of_int code AND 0x3f)] buf else Some buf)
      else if code \<ge> 0x800 \<and> code \<le> 0xffff then
        map_option (Pair 3) (if len \<ge> 3 then store_bytes out
          [0xe0 OR word_of_int (code div 2 ^ 12), 0x80 OR (word_of_int (code div 2 ^ 6) AND 0x3f),
           0x80 OR (word_of_int code AND 0x3f)] buf else Some buf)
      else if code \<ge> 0x10000 \<and> code \<le> 0x10ffff then
        map_option (Pair 4) (if len \<ge> 4 then store_bytes out
          [0xe0 OR word_of_int (code div 2 ^ 18), 0x80 OR (word_of_int (code div 2 ^ 12) AND 0x3f),
           0x80 OR (word_of_int (code div 2 ^ 6) AND 0x3f), 0x80 OR (word_of_int code AND 0x3f)] buf else Some buf)
      else Some (0, buf))"

text \<open>One pass of the conversion to UTF-8: \<open>d\<close> is \<^verbatim>\<open>d - buf\<close>, and \<^verbatim>\<open>len - (d - buf)\<close> is unsigned.\<close>

fun utf8_pass :: "bool \<Rightarrow> u8 list \<Rightarrow> nat \<Rightarrow> nat \<Rightarrow> u8 list \<Rightarrow> (nat \<times> u8 list) option" where
  "utf8_pass pet [] len d buf = Some (d, buf)"
| "utf8_pass pet (c # s) len d buf =
     Option.bind (charset_ucs_to_utf8 buf d (charset_petscii_to_ucs pet c) (of_nat len - of_nat d))
       (\<lambda>(n, buf). utf8_pass pet s len (d + n) buf)"

text \<open>
  The \<^verbatim>\<open>while (1)\<close> loop, with fuel. \<open>fresh n\<close> is the contents of the \<open>n\<close> bytes
  \<^verbatim>\<open>lib_malloc\<close> and \<^verbatim>\<open>lib_realloc\<close> return.
\<close>

fun utf8_loop :: "nat \<Rightarrow> bool \<Rightarrow> (nat \<Rightarrow> u8 list) \<Rightarrow> u8 list \<Rightarrow> nat \<Rightarrow> u8 list \<Rightarrow> u8 list option" where
  "utf8_loop 0 pet fresh s len buf = None"
| "utf8_loop (Suc fuel) pet fresh s len buf =
     Option.bind (utf8_pass pet s len 0 buf) (\<lambda>(d, buf).
       if d > len then utf8_loop fuel pet fresh s d (fresh (d + 1))
       else store_bytes d [0] buf)"

definition charset_petconv_stralloc ::
  "nat \<Rightarrow> bool \<Rightarrow> (nat \<Rightarrow> u8 list) \<Rightarrow> u8 list \<Rightarrow> charset_mode \<Rightarrow> u8 list option" where
  "charset_petconv_stralloc fuel pet fresh s mode =
     (case mode of
        CONVERT_TO_PETSCII \<Rightarrow> Some (to_petscii s @ [0])
      | CONVERT_TO_ASCII \<Rightarrow> Some (map (\<lambda>x. charset_p_toascii x False) s @ [0])
      | CONVERT_TO_UTF8 \<Rightarrow> utf8_loop fuel pet fresh s (length s) (fresh (length s + 1))
      | CONVERT_TO_ASCII_WITH_CTRLCODES \<Rightarrow> Some [0])"

section \<open>Hexadecimal codes\<close>

definition util_toupper :: "u8 \<Rightarrow> u8" where
  "util_toupper c = (if c \<ge> 0x61 \<and> c \<le> 0x7a then c - 0x20 else c)"

text \<open>The loop over the two digits: the digit count, the value and \<^verbatim>\<open>next\<close>.\<close>

fun hex_loop :: "nat \<Rightarrow> u8 \<Rightarrow> u8 list \<Rightarrow> nat \<times> u8 \<times> u8 list" where
  "hex_loop digit value [] = (digit, value, [])"
| "hex_loop digit value (x # rest) =
     (if \<not> digit < 2 then (digit + 1, value, x # rest)
      else
        let value = push_bit 4 value; c = util_toupper x
        in if c \<ge> 0x41 \<and> c \<le> 0x46 then hex_loop (digit + 1) (value + (c - 0x41)) rest
           else if c \<ge> 0x30 \<and> c \<le> 0x39 then hex_loop (digit + 1) (value + (c - 0x30)) rest
           else (digit + 1, value, rest))"

definition charset_hexstring_to_byte :: "u8 list \<Rightarrow> u8 \<times> u8 list" where
  "charset_hexstring_to_byte source =
     (case hex_loop 0 0 (tl source) of
        (digit, value, rest) \<Rightarrow> if digit < 2 then (hd source, tl source) else (value, rest))"

lemma hex_loop_shrinks: "hex_loop k v s = (n, w, rest) \<Longrightarrow> length rest \<le> length s"
  by (induction s arbitrary: k v) (force simp: Let_def split: if_splits intro: le_SucI)+

lemma hexstring_shrinks: "(w, rest) = charset_hexstring_to_byte (c # s) \<Longrightarrow> length rest < Suc (length s)"
  by (auto simp: charset_hexstring_to_byte_def dest: hex_loop_shrinks split: prod.splits if_splits)

text \<open>The bytes written; those behind a 0 are no longer part of the string.\<close>

function replace_loop :: "u8 list \<Rightarrow> u8 list" where
  "replace_loop [] = []"
| "replace_loop (c # s) =
     (if c = 0x24 then (case charset_hexstring_to_byte (c # s) of (v, rest) \<Rightarrow> v # replace_loop rest)
      else c # replace_loop s)"
  by pat_completeness auto
termination by (relation "measure length") (auto dest: hexstring_shrinks)

definition charset_replace_hexcodes :: "u8 list option \<Rightarrow> u8 list" where
  "charset_replace_hexcodes source = replace_loop (case source of None \<Rightarrow> [] | Some s \<Rightarrow> s)"

end
