(* ===== verification/Charset_Conv.thy ===== *)
theory Charset_Conv
  imports Charset
begin

text \<open>
  What the conversions of \<^verbatim>\<open>src/src/charset.c\<close> keep: the characters that come back, the UTF-8
  bytes and the room they need, and the hexadecimal codes.
\<close>

section \<open>Bytes\<close>

text \<open>Comparisons of bytes as comparisons of numbers, and sums and differences that do not wrap.\<close>

lemma byte_plus: "unat (x :: u8) + unat k < 256 \<Longrightarrow> unat (x + k) = unat x + unat k"
  by (simp add: unat_word_ariths)

lemma byte_minus: "k \<le> (x :: u8) \<Longrightarrow> unat (x - k) = unat x - unat k"
  by (rule unat_sub)

lemmas byte_nat = word_le_nat_alt word_less_nat_alt

section \<open>UTF-8\<close>

definition utf8_bytes :: "int \<Rightarrow> u8 list" where
  "utf8_bytes code =
     (if code \<le> 0x7f then [word_of_int code]
      else if code \<le> 0x7ff then [0xc0 OR word_of_int (code div 2 ^ 6), 0x80 OR (word_of_int code AND 0x3f)]
      else if code \<le> 0xffff then [0xe0 OR word_of_int (code div 2 ^ 12),
        0x80 OR (word_of_int (code div 2 ^ 6) AND 0x3f), 0x80 OR (word_of_int code AND 0x3f)]
      else [0xe0 OR word_of_int (code div 2 ^ 18), 0x80 OR (word_of_int (code div 2 ^ 12) AND 0x3f),
        0x80 OR (word_of_int (code div 2 ^ 6) AND 0x3f), 0x80 OR (word_of_int code AND 0x3f)])"

lemma utf8_bytes_length: "0 < length (utf8_bytes code)" "length (utf8_bytes code) \<le> 4"
  "Suc 0 \<le> length (utf8_bytes code)"
  by (simp_all add: utf8_bytes_def)

lemma length_234: "length [a] = 1" "length [a, b] = 2" "length [a, b, c] = 3" "length [a, b, c, d] = 4"
  by simp_all

lemma ucs_to_utf8_bytes:
  assumes "0 \<le> code" "code \<le> 0x10ffff"
  shows "charset_ucs_to_utf8 buf out code len = map_option (Pair (length (utf8_bytes code)))
    (if of_nat (length (utf8_bytes code)) \<le> len then store_bytes out (utf8_bytes code) buf else Some buf)"
  using assms by (simp add: charset_ucs_to_utf8_def utf8_bytes_def length_234 del: list.size(4))

lemma petscii_ucs_range: "0 \<le> charset_petscii_to_ucs pet c" "charset_petscii_to_ucs pet c \<le> 0xffff"
  using uint_lt2p [of "charset_p_toascii c False"] by (auto simp: charset_petscii_to_ucs_def)

text \<open>The UTF-8 form of a PETSCII string.\<close>

definition utf8_form :: "bool \<Rightarrow> u8 list \<Rightarrow> u8 list" where
  "utf8_form pet s = concat (map (\<lambda>c. utf8_bytes (charset_petscii_to_ucs pet c)) s)"

lemma utf8_form_simps [simp]:
  "utf8_form pet [] = []"
  "utf8_form pet (c # s) = utf8_bytes (charset_petscii_to_ucs pet c) @ utf8_form pet s"
  by (simp_all add: utf8_form_def)

lemma utf8_form_length: "length s \<le> length (utf8_form pet s)"
proof (induction s)
  case (Cons c s)
  then show ?case using utf8_bytes_length(3) [of "charset_petscii_to_ucs pet c"] by simp
qed simp

text \<open>
  A pass over a string whose form fits what is left of the buffer stores it; a pass that
  runs out of room still counts, and leaves the buffer only when it goes on behind its end.
\<close>

lemma room_wraps:
  assumes "d \<le> n + 2 ^ 62" "n < 2 ^ 62" "k \<le> 4"
  shows "(of_nat k :: u64) \<le> of_nat n - of_nat d \<longleftrightarrow> n < d \<or> d + k \<le> n"
proof -
  have u: "unat (of_nat k :: u64) = k" using assms(3) by (simp add: unat_of_nat take_bit_nat_eq_self)
  show ?thesis
  proof (cases "n < d")
    case True
    define r where "r = 2 ^ 64 - (d - n)"
    have "(of_nat r :: u64) = of_nat (2 ^ 64) - of_nat (d - n)"
      unfolding r_def using assms by (intro of_nat_diff) simp
    then have e: "of_nat n - of_nat d = (of_nat r :: u64)" using True by simp
    have "unat (of_nat r :: u64) = r" using True by (simp add: r_def unat_of_nat take_bit_nat_eq_self)
    moreover have "k \<le> r" using assms True by (simp add: r_def)
    ultimately show ?thesis using True u unfolding e word_le_nat_alt by simp
  next
    case False
    then have e: "of_nat n - of_nat d = (of_nat (n - d) :: u64)" by simp
    have "unat (of_nat (n - d) :: u64) = n - d" using assms by (simp add: unat_of_nat take_bit_nat_eq_self)
    then show ?thesis using False u unfolding e word_le_nat_alt by auto
  qed
qed

lemma utf8_pass_step:
  assumes "d \<le> n + 2 ^ 62" "n < 2 ^ 62"
  shows "utf8_pass pet (c # s) n d buf =
    (let bs = utf8_bytes (charset_petscii_to_ucs pet c)
     in Option.bind (if n < d \<or> d + length bs \<le> n then store_bytes d bs buf else Some buf)
          (utf8_pass pet s n (d + length bs)))"
proof -
  let ?bs = "utf8_bytes (charset_petscii_to_ucs pet c)"
  have "charset_ucs_to_utf8 buf d (charset_petscii_to_ucs pet c) (of_nat n - of_nat d) = map_option (Pair (length ?bs))
     (if n < d \<or> d + length ?bs \<le> n then store_bytes d ?bs buf else Some buf)"
    using ucs_to_utf8_bytes [of "charset_petscii_to_ucs pet c" buf d "of_nat n - of_nat d"]
      petscii_ucs_range [of pet c] room_wraps [OF assms utf8_bytes_length(2)] by simp
  then show ?thesis by (auto simp: Let_def split: Option.bind_split)
qed

lemma utf8_pass_fits:
  assumes "d + length (utf8_form pet s) \<le> n" "n < 2 ^ 62" "n \<le> length buf"
  shows "utf8_pass pet s n d buf = Some (d + length (utf8_form pet s),
    take d buf @ utf8_form pet s @ drop (d + length (utf8_form pet s)) buf)"
  using assms
proof (induction s arbitrary: d buf)
  case (Cons c s)
  let ?bs = "utf8_bytes (charset_petscii_to_ucs pet c)"
  let ?buf = "take d buf @ ?bs @ drop (d + length ?bs) buf"
  have "store_bytes d ?bs buf = Some ?buf" using Cons.prems by (simp add: store_bytes_def)
  then have step: "utf8_pass pet (c # s) n d buf = utf8_pass pet s n (d + length ?bs) ?buf"
    using Cons.prems by (subst utf8_pass_step) (auto simp: Let_def)
  show ?case unfolding step
    using Cons.IH [of "d + length ?bs" ?buf] Cons.prems by (simp add: ac_simps)
qed simp

lemma utf8_pass_overflows:
  assumes "d > n" "s \<noteq> []" "d \<le> n + 2 ^ 62" "n < 2 ^ 62" "length buf = n + 1"
  shows "utf8_pass pet s n d buf = None"
proof -
  obtain c s' where s: "s = c # s'" using assms(2) by (cases s) auto
  have "store_bytes d (utf8_bytes (charset_petscii_to_ucs pet c)) buf = None"
    using assms(1,5) utf8_bytes_length(3) [of "charset_petscii_to_ucs pet c"] by (simp add: store_bytes_def)
  then show ?thesis unfolding s using assms by (subst utf8_pass_step) (simp_all add: Let_def)
qed

text \<open>A pass that runs out of room exactly with its last character only counts.\<close>

lemma utf8_pass_counts:
  assumes "s \<noteq> []" "d + length (utf8_form pet (butlast s)) \<le> n" "n < d + length (utf8_form pet s)" "n < 2 ^ 62"
    and "length buf = n + 1"
  shows "\<exists>buf'. utf8_pass pet s n d buf = Some (d + length (utf8_form pet s), buf') \<and> length buf' = n + 1"
  using assms
proof (induction s arbitrary: d buf)
  case (Cons c s)
  let ?bs = "utf8_bytes (charset_petscii_to_ucs pet c)"
  have d: "d \<le> n" using Cons.prems(2) by simp
  show ?case
  proof (cases "s = []")
    case True
    then have "utf8_pass pet (c # s) n d buf = Some (d + length ?bs, buf)"
      using Cons.prems d by (subst utf8_pass_step) (auto simp: Let_def)
    then show ?thesis using Cons.prems(5) True by simp
  next
    case False
    let ?buf = "take d buf @ ?bs @ drop (d + length ?bs) buf"
    have fit: "d + length ?bs \<le> n" using Cons.prems(2) False by simp
    then have "store_bytes d ?bs buf = Some ?buf" using Cons.prems(5) by (simp add: store_bytes_def)
    then have "utf8_pass pet (c # s) n d buf = utf8_pass pet s n (d + length ?bs) ?buf"
      using fit Cons.prems by (subst utf8_pass_step) (auto simp: Let_def)
    moreover have "length ?buf = n + 1" using fit Cons.prems(5) by simp
    ultimately show ?thesis
      using Cons.IH [of "d + length ?bs" ?buf] Cons.prems False by (simp add: add.assoc)
  qed
qed simp

lemma utf8_form_append: "utf8_form pet (s @ t) = utf8_form pet s @ utf8_form pet t"
  by (simp add: utf8_form_def)

lemma utf8_pass_goes_on:
  assumes "d + length (utf8_form pet s) > n" "t \<noteq> []" "d \<le> n" "n < 2 ^ 60" "length buf = n + 1"
  shows "utf8_pass pet (s @ t) n d buf = None"
  using assms
proof (induction s arbitrary: d buf)
  case (Cons c s)
  let ?bs = "utf8_bytes (charset_petscii_to_ucs pet c)"
  have l4: "length ?bs \<le> 4" by (rule utf8_bytes_length)
  show ?case
  proof (cases "d + length ?bs \<le> n")
    case True
    let ?buf = "take d buf @ ?bs @ drop (d + length ?bs) buf"
    have "store_bytes d ?bs buf = Some ?buf" using True Cons.prems(5) by (simp add: store_bytes_def)
    then have "utf8_pass pet ((c # s) @ t) n d buf = utf8_pass pet (s @ t) n (d + length ?bs) ?buf"
      unfolding append_Cons using True Cons.prems by (subst utf8_pass_step) (auto simp: Let_def)
    moreover have "length ?buf = n + 1" using True Cons.prems(5) by simp
    ultimately show ?thesis
      using Cons.IH [of "d + length ?bs" ?buf] Cons.prems True by (simp add: add.assoc)
  next
    case False
    then have "utf8_pass pet ((c # s) @ t) n d buf = utf8_pass pet (s @ t) n (d + length ?bs) buf"
      unfolding append_Cons using Cons.prems by (subst utf8_pass_step) (auto simp: Let_def)
    also have "\<dots> = None" using False l4 Cons.prems by (intro utf8_pass_overflows) auto
    finally show ?thesis .
  qed
qed simp

text \<open>
  C36. The conversion of a PETSCII string to UTF-8 ends after at most two passes. When the
  UTF-8 form of the string without its last character is no longer than the string, the
  result is the UTF-8 form with a terminating 0; otherwise the first pass goes on behind the
  end of the buffer, because the room left is an unsigned number and wraps.
\<close>

theorem utf8_conversion_exact:
  assumes "\<forall>n. length (fresh n) = n" "length s < 2 ^ 60"
  shows "charset_petconv_stralloc (Suc (Suc fuel)) pet fresh s CONVERT_TO_UTF8 =
    (if length (utf8_form pet (butlast s)) \<le> length s then Some (utf8_form pet s @ [0]) else None)"
proof -
  let ?n = "length s" and ?u = "length (utf8_form pet s)"
  let ?buf = "fresh (?n + 1)"
  have buf: "length ?buf = ?n + 1" using assms(1) by simp
  have fin: "utf8_loop (Suc k) pet fresh s ?u (fresh (?u + 1)) = Some (utf8_form pet s @ [0])"
    if "?u < 2 ^ 62" for k
    using that assms(1) by (simp add: utf8_pass_fits store_bytes_def)
  have "length (utf8_form pet t) \<le> 4 * length t" for t
  proof (induction t)
    case (Cons c t)
    then show ?case using utf8_bytes_length(2) [of "charset_petscii_to_ucs pet c"] by simp
  qed simp
  then have u62: "?u < 2 ^ 62" using assms(2) le_less_trans [of ?u "4 * ?n" "2 ^ 62"] by simp
  consider (fits) "?u \<le> ?n" | (counts) "?n < ?u" "length (utf8_form pet (butlast s)) \<le> ?n"
    | (over) "?n < length (utf8_form pet (butlast s))" by linarith
  then show ?thesis
  proof cases
    case fits
    then have "?u = ?n" using utf8_form_length [of s pet] by simp
    moreover have "length (utf8_form pet (butlast s)) \<le> ?n"
    proof (cases "s = []")
      case False
      then have "utf8_form pet s = utf8_form pet (butlast s) @ utf8_form pet [last s]"
        by (metis append_butlast_last_id utf8_form_append)
      then show ?thesis using fits by simp
    qed simp
    ultimately show ?thesis using fin [OF u62] by (simp add: charset_petconv_stralloc_def)
  next
    case counts
    then have "s \<noteq> []" by auto
    then obtain buf' where "utf8_pass pet s ?n 0 ?buf = Some (?u, buf')"
      using utf8_pass_counts [of s 0 pet ?n ?buf] counts assms(2) buf by auto
    then show ?thesis using counts fin [OF u62] by (simp add: charset_petconv_stralloc_def)
  next
    case over
    then have "s \<noteq> []" by auto
    then have "utf8_pass pet (butlast s @ [last s]) ?n 0 ?buf = None"
      using over assms(2) buf by (intro utf8_pass_goes_on) auto
    then show ?thesis using over \<open>s \<noteq> []\<close> by (simp add: charset_petconv_stralloc_def)
  qed
qed

theorem utf8_conversion_exact_witness:
  "charset_petconv_stralloc (Suc (Suc 0)) False (\<lambda>n. replicate n 0) [0x41, 0x5c] CONVERT_TO_UTF8 = Some [0x61, 0xc2, 0xa3, 0]
    \<and> charset_petconv_stralloc (Suc (Suc 0)) False (\<lambda>n. replicate n 0) [0x5e, 0x5e, 0x5e] CONVERT_TO_UTF8 = None"
proof -
  have f: "utf8_form False [0x41, 0x5c] = [0x61, 0xc2, 0xa3]" "length (utf8_form False [0x41]) = 1"
    "length (utf8_form False [0x5e, 0x5e]) = 6"
    by (simp_all add: utf8_bytes_def charset_petscii_to_ucs_def charset_p_toascii_def petcii_fix_dupes_def Let_def isprint_def)
  show ?thesis
    using utf8_conversion_exact [of "\<lambda>n. replicate n 0" "[0x41, 0x5c]" 0 False]
      utf8_conversion_exact [of "\<lambda>n. replicate n 0" "[0x5e, 0x5e, 0x5e]" 0 False] f
    by (simp del: utf8_form_simps)
qed

text \<open>Reading a code point back, from the lead byte and the continuation bytes.\<close>

fun utf8_decode :: "u8 list \<Rightarrow> int" where
  "utf8_decode [] = 0"
| "utf8_decode (a # s) =
     (if a < 0x80 then uint a
      else if a < 0xe0 then (uint a - 0xc0) * 2 ^ 6 + (uint (s ! 0) - 0x80)
      else if a < 0xf0 then (uint a - 0xe0) * 2 ^ 12 + (uint (s ! 0) - 0x80) * 2 ^ 6 + (uint (s ! 1) - 0x80)
      else (uint a - 0xf0) * 2 ^ 18 + (uint (s ! 0) - 0x80) * 2 ^ 12 + (uint (s ! 1) - 0x80) * 2 ^ 6
        + (uint (s ! 2) - 0x80))"

lemma or_low_bits:
  assumes "0 \<le> q" "q < 2 ^ k" "k < 8" "0 \<le> h" "h * 2 ^ k + q < 256"
  shows "uint (push_bit k (word_of_int h) OR word_of_int q :: u8) = h * 2 ^ k + q"
proof -
  have "take_bit k q = q" using assms(1,2) by (simp add: take_bit_int_eq_self)
  then have low: "n < k" if "bit q n" for n using that by (metis bit_take_bit_iff)
  have "push_bit k (word_of_int h) OR word_of_int q = (push_bit k (word_of_int h) + word_of_int q :: u8)"
    by (subst disjunctive_add) (auto simp: bit_simps dest: low)
  also have "\<dots> = word_of_int (h * 2 ^ k + q)" by (simp add: push_bit_eq_mult)
  finally have "push_bit k (word_of_int h) OR word_of_int q = (word_of_int (h * 2 ^ k + q) :: u8)" .
  moreover have "0 \<le> h * 2 ^ k + q" using assms by simp
  ultimately show ?thesis using assms(5) by (simp only: uint_word_of_int) simp
qed

lemma lead_bytes:
  "0 \<le> q \<Longrightarrow> q < 32 \<Longrightarrow> uint (0xc0 OR word_of_int q :: u8) = 0xc0 + q"
  "0 \<le> q \<Longrightarrow> q < 16 \<Longrightarrow> uint (0xe0 OR word_of_int q :: u8) = 0xe0 + q"
  using or_low_bits [of q 5 6] or_low_bits [of q 4 14] by simp_all

lemma continuation_byte: "uint (0x80 OR (word_of_int c AND 0x3f) :: u8) = 0x80 + c mod 64"
proof -
  have "(word_of_int c AND 0x3f :: u8) = word_of_int (c mod 64)"
  proof -
    have "(0x3f :: u8) = mask 6" by (simp add: mask_eq_exp_minus_1)
    then have "(word_of_int c AND 0x3f :: u8) = take_bit 6 (word_of_int c)" by (simp only: take_bit_eq_mask)
    also have "\<dots> = word_of_int (take_bit 6 c)" by (rule bit_word_eqI) (auto simp: bit_simps)
    finally show ?thesis by (simp add: take_bit_eq_mod)
  qed
  then show ?thesis using or_low_bits [of "c mod 64" 6 2] by simp
qed

lemma byte_less_iff: "(a :: u8) < b \<longleftrightarrow> uint a < uint b"
  by (simp add: word_less_def)

text \<open>
  A code point of the basic plane is encoded so that it can be read back: \<^verbatim>\<open>charset_ucs_to_utf8\<close>
  stores the bytes it counts, and decoding them gives the code point. A code point above
  0xffff is not: its lead byte has the form of a three byte sequence (0xe0 instead of 0xf0),
  and decoding gives another code point.
\<close>

theorem utf8_code_roundtrip:
  assumes "0 \<le> code" "code \<le> 0x10ffff" "4 \<le> len" "out + 4 \<le> length buf"
  shows "\<exists>n buf'. charset_ucs_to_utf8 buf out code len = Some (n, buf') \<and> length buf' = length buf
    \<and> (utf8_decode (take n (drop out buf')) = code \<longleftrightarrow> code \<le> 0xffff)"
proof -
  let ?bs = "utf8_bytes code"
  have l4: "length ?bs \<le> 4" by (rule utf8_bytes_length)
  have "of_nat (length ?bs) \<le> len"
    using assms(3) l4 by (cases "length ?bs = 4") (auto simp: word_le_nat_alt unat_of_nat take_bit_nat_eq_self utf8_bytes_def split: if_splits)
  then have w: "charset_ucs_to_utf8 buf out code len = Some (length ?bs, take out buf @ ?bs @ drop (out + length ?bs) buf)"
    using assms l4 by (simp add: ucs_to_utf8_bytes store_bytes_def)
  have dec: "utf8_decode ?bs = code \<longleftrightarrow> code \<le> 0xffff"
  proof -
    consider "code \<le> 0x7f" | "0x7f < code" "code \<le> 0x7ff" | "0x7ff < code" "code \<le> 0xffff" | "0xffff < code" by linarith
    then show ?thesis
    proof cases
      case 1
      then show ?thesis using assms(1) by (simp add: utf8_bytes_def byte_less_iff uint_word_of_int take_bit_int_eq_self)
    next
      case 2
      then have q: "0 \<le> code div 64" "code div 64 < 32" by simp_all
      then show ?thesis using 2 lead_bytes(1) [OF q] continuation_byte [of code]
        by (simp add: utf8_bytes_def byte_less_iff)
    next
      case 3
      then have q: "0 \<le> code div 4096" "code div 4096 < 16" by simp_all
      have "code div 4096 * 4096 + (code div 64) mod 64 * 64 + code mod 64 = code"
      proof -
        have "code div 4096 = code div 64 div 64" by (simp add: zdiv_zmult2_eq [of 64 code 64, simplified])
        then show ?thesis
          using div_mult_mod_eq [of code 64] div_mult_mod_eq [of "code div 64" 64] by linarith
      qed
      then show ?thesis using 3 q lead_bytes(2) [OF q] continuation_byte [of code] continuation_byte [of "code div 64"]
        by (simp add: utf8_bytes_def byte_less_iff)
    next
      case 4
      then have q: "0 \<le> code div 262144" "code div 262144 < 16" using assms(2) by simp_all
      have "code div 262144 * 4096 \<le> 4 * 4096" using assms(2) by simp
      moreover have "(code div 4096) mod 64 < 64" "(code div 64) mod 64 < 64" by simp_all
      ultimately have "code div 262144 * 4096 + (code div 4096) mod 64 * 64 + (code div 64) mod 64 < code"
        using 4 by linarith
      then show ?thesis
        using 4 q lead_bytes(2) [OF q] continuation_byte [of "code div 4096"] continuation_byte [of "code div 64"]
        by (simp add: utf8_bytes_def byte_less_iff)
    qed
  qed
  have "take (length ?bs) (drop out (take out buf @ ?bs @ drop (out + length ?bs) buf)) = ?bs"
    using assms(4) by simp
  then show ?thesis using w dec assms(4) l4 by (simp add: min_def)
qed

theorem utf8_code_roundtrip_witness:
  "(\<exists>n buf'. charset_ucs_to_utf8 [0, 0, 0, 0] 0 0x2191 4 = Some (n, buf') \<and> utf8_decode (take n (drop 0 buf')) = 0x2191)
    \<and> (\<exists>n buf'. charset_ucs_to_utf8 [0, 0, 0, 0] 0 0x10000 4 = Some (n, buf') \<and> utf8_decode (take n (drop 0 buf')) \<noteq> 0x10000)"
  using utf8_code_roundtrip [of "0x2191" 4 0 "[0, 0, 0, 0]"] utf8_code_roundtrip [of "0x10000" 4 0 "[0, 0, 0, 0]"]
  by auto

section \<open>ASCII and PETSCII\<close>

text \<open>The characters that come back from PETSCII.\<close>

definition kept :: "u8 \<Rightarrow> bool" where
  "kept c \<longleftrightarrow> 0x20 \<le> c \<and> c \<le> 0x7a \<and> c \<noteq> 0x60"

lemma toascii_letters:
  "0x41 \<le> x \<Longrightarrow> x \<le> 0x5a \<Longrightarrow> charset_p_toascii x False = x + 0x20"
  "0xc1 \<le> x \<Longrightarrow> x \<le> 0xda \<Longrightarrow> charset_p_toascii x False = x - 0x80"
proof -
  assume x: "0x41 \<le> x" "x \<le> 0x5a"
  have "x \<noteq> 0x0d" "x \<noteq> 0x0a" "x \<noteq> 0xa0" using x by (auto simp: byte_nat)
  then show "charset_p_toascii x False = x + 0x20"
    using x by (simp add: charset_p_toascii_def petcii_fix_dupes_def Let_def byte_nat)
next
  assume x: "0xc1 \<le> x" "x \<le> 0xda"
  have "x \<noteq> 0x0d" "x \<noteq> 0x0a" "x \<noteq> 0xa0" using x by (auto simp: byte_nat)
  then show "charset_p_toascii x False = x - 0x80"
    using x by (simp add: charset_p_toascii_def petcii_fix_dupes_def Let_def byte_nat)
qed

lemma ascii_petscii_byte:
  assumes k: "kept c"
  shows "charset_p_toascii (charset_p_topetscii c) False = c"
proof -
  have n: "c \<noteq> 0x0a" "c \<noteq> 0x0d" "c \<noteq> 0x60" "c \<noteq> 0xa0" using k by (auto simp: kept_def byte_nat)
  consider (lower) "0x61 \<le> c" "c \<le> 0x7a" | (upper) "0x41 \<le> c" "c \<le> 0x5a"
    | (other) "\<not> (0x61 \<le> c \<and> c \<le> 0x7a)" "\<not> (0x41 \<le> c \<and> c \<le> 0x5a)" by blast
  then show ?thesis
  proof cases
    case lower
    then have t: "charset_p_topetscii c = c - 0x20"
      using n by (simp add: charset_p_topetscii_def byte_nat)
    have "0x41 \<le> c - 0x20" "c - 0x20 \<le> 0x5a" using lower byte_minus [of "0x20" c] by (simp_all add: byte_nat)
    then show ?thesis unfolding t by (simp add: toascii_letters(1))
  next
    case upper
    then have t: "charset_p_topetscii c = c + 0x80"
      using n by (simp add: charset_p_topetscii_def byte_nat)
    have "0xc1 \<le> c + 0x80" "c + 0x80 \<le> 0xda" using upper byte_plus [of c "0x80"] by (simp_all add: byte_nat)
    then show ?thesis unfolding t by (simp add: toascii_letters(2))
  next
    case other
    have k': "0x20 \<le> unat c" "unat c \<le> 0x7a" "unat c \<noteq> 0x60"
      using k n(3) by (auto simp: kept_def byte_nat word_unat_eq_iff)
    have o: "unat c < 0x61" "\<not> (0x41 \<le> unat c \<and> unat c \<le> 0x5a)" using other k' by (simp_all add: byte_nat)
    have t: "charset_p_topetscii c = c"
      using n k' o by (simp add: charset_p_topetscii_def petcii_fix_dupes_def byte_nat)
    show ?thesis unfolding t
      using n k' o by (simp add: charset_p_toascii_def petcii_fix_dupes_def isprint_def Let_def byte_nat)
  qed
qed

text \<open>A text with every line end written as a line feed.\<close>

fun unix_lines :: "u8 list \<Rightarrow> u8 list" where
  "unix_lines [] = []"
| "unix_lines [c] = [if c = 0x0d then 0x0a else c]"
| "unix_lines (c # d # s) =
     (if c = 0x0d then if d = 0x0a then 0x0a # unix_lines s else 0x0a # unix_lines (d # s)
      else c # unix_lines (d # s))"

lemma lost_petscii_byte:
  assumes "\<not> kept c" "c \<noteq> 0x0a" "c \<noteq> 0x0d"
  shows "charset_p_toascii (charset_p_topetscii c) False \<noteq> c"
proof -
  consider "c = 0x60" | "c \<le> 0x1f" | "0x7b \<le> c"
    using assms by (fastforce simp: kept_def byte_nat word_unat_eq_iff)
  then show ?thesis
  proof cases
    case 1
    then show ?thesis by (simp add: charset_p_topetscii_def charset_p_toascii_def petcii_fix_dupes_def isprint_def)
  next
    case 2
    then have "charset_p_topetscii c = PETSCII_UNMAPPED" using assms by (simp add: charset_p_topetscii_def)
    then show ?thesis using 2 assms
      by (auto simp: PETSCII_UNMAPPED_def charset_p_toascii_def petcii_fix_dupes_def isprint_def kept_def)
  next
    case 3
    then have "charset_p_topetscii c = PETSCII_UNMAPPED" using assms by (auto simp: charset_p_topetscii_def byte_nat)
    then show ?thesis using 3 assms
      by (auto simp: PETSCII_UNMAPPED_def charset_p_toascii_def petcii_fix_dupes_def isprint_def kept_def)
  qed
qed

lemma petconv_text:
  assumes "\<forall>c \<in> set s. kept c \<or> c = 0x0a \<or> c = 0x0d"
  shows "charset_petconvstring (charset_petconvstring s CONVERT_TO_PETSCII) CONVERT_TO_ASCII = unix_lines s"
  using assms
proof (induction s rule: unix_lines.induct)
  case (2 c)
  have r: "charset_p_toascii 0x0d False = 0x0a" by (simp add: charset_p_toascii_def petcii_fix_dupes_def)
  show ?case
  proof (cases "c = 0x0d \<or> c = 0x0a")
    case True
    then show ?thesis using r by (auto simp: Let_def)
  next
    case False
    then show ?thesis using 2 ascii_petscii_byte [of c] by (simp add: Let_def)
  qed
next
  case (3 c d s)
  have r: "charset_p_toascii 0x0d False = 0x0a" by (simp add: charset_p_toascii_def petcii_fix_dupes_def)
  show ?case
  proof (cases "c = 0x0d \<or> c = 0x0a")
    case True
    then show ?thesis using 3 r by (auto simp: Let_def)
  next
    case False
    then have "kept c" using 3(4) by simp
    then show ?thesis using False 3 ascii_petscii_byte [of c] by (simp add: Let_def)
  qed
qed simp

text \<open>
  C18. A text of kept characters (from 0x20 to 0x7a, that is \<^verbatim>\<open>z\<close>, without the back quote) and line
  ends of any of the three kinds comes back from PETSCII unchanged, except that its line ends
  have become line feeds. No other character comes back: of all 256 bytes, exactly the kept ones and
  the line feed are returned unchanged, so the back quote and the printable characters
  after \<^verbatim>\<open>z\<close>, which the code says cannot be represented, are lost.
\<close>

theorem petconv_roundtrip:
  assumes "\<forall>c \<in> set s. kept c \<or> c = 0x0a \<or> c = 0x0d"
  shows "charset_petconvstring (charset_petconvstring s CONVERT_TO_PETSCII) CONVERT_TO_ASCII = unix_lines s
    \<and> (charset_petconvstring (charset_petconvstring [c] CONVERT_TO_PETSCII) CONVERT_TO_ASCII = [c] \<longleftrightarrow> kept c \<or> c = 0x0a)"
proof (rule conjI [OF petconv_text [OF assms]], cases "kept c \<or> c = 0x0a \<or> c = 0x0d")
  case True
  then show "charset_petconvstring (charset_petconvstring [c] CONVERT_TO_PETSCII) CONVERT_TO_ASCII = [c] \<longleftrightarrow> kept c \<or> c = 0x0a"
    using petconv_text [of "[c]"] by (auto simp: kept_def)
next
  case False
  then show "charset_petconvstring (charset_petconvstring [c] CONVERT_TO_PETSCII) CONVERT_TO_ASCII = [c] \<longleftrightarrow> kept c \<or> c = 0x0a"
    using lost_petscii_byte [of c] by (simp add: Let_def)
qed

theorem petconv_roundtrip_witness:
  "charset_petconvstring (charset_petconvstring [0x48, 0x69, 0x0d, 0x0a, 0x21] CONVERT_TO_PETSCII) CONVERT_TO_ASCII
     = [0x48, 0x69, 0x0a, 0x21]
   \<and> charset_petconvstring (charset_petconvstring [0x7b] CONVERT_TO_PETSCII) CONVERT_TO_ASCII \<noteq> [0x7b]"
  using petconv_roundtrip [of "[0x48, 0x69, 0x0d, 0x0a, 0x21]" "0x7b"] by (simp add: kept_def)

section \<open>Screen codes\<close>

text \<open>
  \<^verbatim>\<open>charset_petscii_to_screencode\<close> takes a screen code converted to PETSCII back to the code
  (without its inverse bit) exactly when the code is below 0x60: the graphics characters from
  0x60 on are converted to PETSCII codes that are duplicates of other characters.
\<close>

theorem screencode_roundtrip:
  "charset_petscii_to_screencode (charset_screencode_to_petscii c) False = c AND 0x7f \<longleftrightarrow> c AND 0x7f < 0x60"
proof -
  define d where "d = c AND 0x7f"
  have d: "unat d < 128"
  proof -
    have "(0x7f :: u8) = mask 7" by (simp add: mask_eq_exp_minus_1)
    then have "d = take_bit 7 c" unfolding d_def by (simp only: take_bit_eq_mask)
    then show ?thesis by (simp add: take_bit_eq_mod unat_mod)
  qed
  have u: "d \<le> 0x1f \<Longrightarrow> unat (d + 0x40) = unat d + 64" "d \<le> 0x5f \<Longrightarrow> unat (d + 0x20) = unat d + 32"
    using byte_plus [of d "0x40"] byte_plus [of d "0x20"] by (simp_all add: byte_nat)
  show ?thesis
    using d u unfolding charset_screencode_to_petscii_def d_def [symmetric] Let_def
    by (auto simp: charset_petscii_to_screencode_def byte_nat)
qed

section \<open>Hexadecimal codes\<close>

text \<open>
  The letters among hexadecimal digits lose ten: in \<^verbatim>\<open>charset_hexstring_to_byte\<close> a code whose
  second digit is the letter of the value \<open>10 + k\<close> gives a byte that is ten too small, while
  decimal digits give their value.
\<close>

theorem hexcode_letters_lose_ten:
  assumes "v < 10" "k < 6" "v' < 10"
  shows "charset_hexstring_to_byte (0x24 # (0x30 + v) # (0x41 + k) # rest) = (16 * v + (10 + k) - 10, rest)
    \<and> charset_hexstring_to_byte (0x24 # (0x30 + v) # (0x30 + v') # rest) = (16 * v + v', rest)"
proof -
  have d: "util_toupper (0x30 + v) = 0x30 + v \<and> \<not> 0x41 \<le> 0x30 + v \<and> 0x30 \<le> 0x30 + v \<and> 0x30 + v \<le> 0x39"
    if "v < 10" for v :: u8
    using that byte_plus [of "0x30" v] by (simp add: util_toupper_def byte_nat)
  have "util_toupper (0x41 + k) = 0x41 + k \<and> 0x41 \<le> 0x41 + k \<and> 0x41 + k \<le> 0x46"
    using assms(2) byte_plus [of "0x41" k] by (simp add: util_toupper_def byte_nat)
  moreover have "hex_loop (Suc (Suc 0)) x rest = (if rest = [] then 2 else 3, x, rest)" for x
    by (cases rest) simp_all
  ultimately show ?thesis
    using d [OF assms(1)] d [OF assms(3)]
    by (simp add: charset_hexstring_to_byte_def push_bit_eq_mult Let_def split: prod.split)
qed

theorem hexcode_letters_lose_ten_witness:
  "fst (charset_hexstring_to_byte [0x24, 0x34, 0x46]) = 0x45 \<and> fst (charset_hexstring_to_byte [0x24, 0x34, 0x31]) = 0x41"
  using hexcode_letters_lose_ten [of 4 5 1 "[]"] by simp

end
