(* ===== verification/Crc32.thy ===== *)
theory Crc32
  imports Vice_Prelude
begin

text \<open>
  The checksums of \<^verbatim>\<open>src/src/crc32.c\<close>, which event recordings and images use: the table driven
  computation equals a shift register over the bits of the message, and any change within 32
  consecutive bits of a message changes its checksum.
\<close>

section \<open>The code\<close>

definition CRC32_POLY :: u32 where
  "CRC32_POLY = 0xedb88320"

text \<open>The body of the inner loop that fills the table.\<close>

definition crc_step :: "u32 \<Rightarrow> u32" where
  "crc_step c = (if c AND 1 \<noteq> 0 then CRC32_POLY XOR drop_bit 1 c else drop_bit 1 c)"

definition crc32_table :: "u32 list" where
  "crc32_table = map (\<lambda>i. (crc_step ^^ 8) (of_nat i)) [0..<256]"

text \<open>The bytes are \<^verbatim>\<open>char\<close>, with a sign on most hosts; the mask removes what the sign extends.\<close>

definition crc_byte :: "u32 \<Rightarrow> u8 \<Rightarrow> u32" where
  "crc_byte crc p = drop_bit 8 crc XOR crc32_table ! unat ((crc XOR scast p) AND 0xff)"

definition crc32_buf :: "u8 list \<Rightarrow> u32" where
  "crc32_buf buffer = NOT (foldl crc_byte 0xffffffff buffer)"

text \<open>\<open>None\<close> is a file that cannot be opened. The length is converted to \<^verbatim>\<open>unsigned int\<close>.\<close>

definition crc32_file :: "u8 list option \<Rightarrow> u32" where
  "crc32_file file = (case file of
     None \<Rightarrow> 0
   | Some buffer \<Rightarrow> if buffer = [] then 0 else crc32_buf (take (length buffer mod 2 ^ 32) buffer))"

definition crc32_to_le :: "u32 \<Rightarrow> u8 list" where
  "crc32_to_le crc = map ucast [crc AND 0xff, drop_bit 8 crc AND 0xff, drop_bit 16 crc AND 0xff, drop_bit 24 crc AND 0xff]"

definition crc32_from_le :: "u8 list \<Rightarrow> u32" where
  "crc32_from_le src = ucast (src ! 0) + push_bit 8 (ucast (src ! 1)) + push_bit 16 (ucast (src ! 2)) + push_bit 24 (ucast (src ! 3))"

section \<open>A shift register over bits\<close>

definition crc_bit :: "u32 \<Rightarrow> bool \<Rightarrow> u32" where
  "crc_bit s b = crc_step (s XOR of_bool b)"

definition message_bits :: "u8 list \<Rightarrow> bool list" where
  "message_bits m = concat (map (\<lambda>x. map (bit x) [0..<8]) m)"

fun bits_word :: "bool list \<Rightarrow> u32" where
  "bits_word [] = 0"
| "bits_word (b # bs) = of_bool b XOR push_bit 1 (bits_word bs)"

lemma message_bits_simps [simp]:
  "message_bits [] = []" "message_bits (x # m) = map (bit x) [0..<8] @ message_bits m"
  by (simp_all add: message_bits_def)

lemma bit_crc_step: "bit (crc_step c) n \<longleftrightarrow> (bit c (Suc n) \<noteq> (bit c 0 \<and> bit CRC32_POLY n))" if "n < 32"
  using that by (auto simp: crc_step_def bit_simps and_one_eq odd_iff_mod_2_eq_one bit_0)

lemma crc_step_xor: "crc_step (a XOR b) = crc_step a XOR crc_step b"
  by (rule bit_word_eqI) (auto simp: bit_crc_step bit_simps)

lemma crc_steps_xor: "(crc_step ^^ n) (a XOR b) = (crc_step ^^ n) a XOR (crc_step ^^ n) b"
  by (induction n) (simp_all add: crc_step_xor)

lemma bit_double_word: "bit (w * 2) n \<longleftrightarrow> n < 32 \<and> 0 < n \<and> bit w (n - 1)" for w :: u32
  using bit_push_bit_iff [of 1 w n] by (simp add: push_bit_eq_mult) (auto dest: bit_imp_le_length)

lemma crc_step_shift: "crc_step (push_bit 1 w) = w" if "\<not> bit w 31"
proof (rule bit_word_eqI)
  fix n assume "n < LENGTH(32)"
  then show "bit (crc_step (push_bit 1 w)) n = bit w n"
    using that by (cases "n = 31") (auto simp: bit_crc_step bit_double_word)
qed

lemma crc_step_inj: "crc_step a = crc_step b \<longleftrightarrow> a = b"
proof
  assume h: "crc_step a = crc_step b"
  have top: "bit (crc_step c) 31 = bit c 0" for c
    using bit_imp_le_length [of c 32] by (auto simp: bit_crc_step CRC32_POLY_def)
  have z: "bit a 0 = bit b 0" using top [of a] top [of b] h by simp
  show "a = b"
  proof (rule bit_word_eqI)
    fix n assume n: "n < LENGTH(32)"
    show "bit a n = bit b n"
    proof (cases n)
      case (Suc k)
      then show ?thesis using arg_cong [OF h, of "\<lambda>w. bit w k"] n z by (auto simp: bit_crc_step)
    qed (simp add: z)
  qed
qed simp

lemma crc_steps_inj: "(crc_step ^^ n) a = (crc_step ^^ n) b \<longleftrightarrow> a = b"
  by (induction n) (simp_all add: crc_step_inj)

lemma xor_cancel_right: "a XOR c = b XOR c \<longleftrightarrow> a = b" for a b c :: "'a::len word"
  by (metis xor.assoc xor_self_eq xor.right_neutral)

lemma xor_cancel_left: "c XOR a = c XOR b \<longleftrightarrow> a = b" for a b c :: "'a::len word"
  by (simp add: xor_cancel_right xor.commute [of c])

lemma crc_bits_inj: "foldl crc_bit a bs = foldl crc_bit b bs \<longleftrightarrow> a = b"
  by (induction bs arbitrary: a b) (simp_all add: crc_bit_def crc_step_inj xor_cancel_right)

lemma bit_bits_word: "bit (bits_word bs) n \<longleftrightarrow> n < length bs \<and> bs ! n" if "n < 32"
  using that
proof (induction bs arbitrary: n)
  case (Cons b bs)
  then show ?case by (cases n) (auto simp: bit_xor_iff bit_double_word bit_1_iff)
qed simp

lemma bits_word_inj: "bits_word u = bits_word v \<longleftrightarrow> u = v" if "length u = length v" "length u \<le> 32"
proof
  assume h: "bits_word u = bits_word v"
  show "u = v"
  proof (rule nth_equalityI)
    fix i assume "i < length u"
    then show "u ! i = v ! i" using that arg_cong [OF h, of "\<lambda>w. bit w i"] by (simp add: bit_bits_word)
  qed (fact that)
qed simp

lemma crc_bits_steps: "foldl crc_bit s bs = (crc_step ^^ length bs) (s XOR bits_word bs)" if "length bs \<le> 32"
  using that
proof (induction bs arbitrary: s)
  case (Cons b bs)
  have "\<not> bit (bits_word bs) 31" using Cons.prems by (simp add: bit_bits_word)
  then have "crc_step (s XOR bits_word (b # bs)) = crc_bit s b XOR bits_word bs"
    unfolding bits_word.simps crc_bit_def xor.assoc [symmetric] crc_step_xor [of "s XOR of_bool b"] by (simp only: crc_step_shift not_False_eq_True)
  then show ?case using Cons by (simp add: funpow_swap1 del: bits_word.simps)
qed simp

section \<open>The table\<close>

lemma crc_steps_low: "(crc_step ^^ n) w = drop_bit n w" if "take_bit n w = 0"
  using that
proof (induction n arbitrary: w)
  case (Suc n)
  have "\<not> bit w 0" using arg_cong [OF Suc.prems, of "\<lambda>w. bit w 0"] by (simp add: bit_simps)
  then have s: "crc_step w = drop_bit 1 w" by (simp add: crc_step_def and_one_eq bit_0 even_iff_mod_2_eq_zero)
  have "take_bit n (drop_bit 1 w) = 0"
    using Suc.prems by (simp add: take_bit_drop_bit)
  from Suc.IH [OF this] show ?case by (simp add: funpow_swap1 s drop_bit_Suc)
qed simp

lemma mask_numeral_8: "0xff = (mask 8 :: u32)"
  by (simp add: mask_eq_exp_minus_1)

lemma table_entry: "crc32_table ! unat (a AND 0xff) = (crc_step ^^ 8) (a AND 0xff)"
proof -
  have "a AND 0xff < (256 :: u32)" by (rule le_less_trans [OF word_and_le1]) simp
  then have "unat (a AND 0xff) < 256" by (simp add: word_less_nat_alt)
  then show ?thesis by (simp add: crc32_table_def)
qed

lemma byte_of_char: "bits_word (map (bit p) [0..<8]) = scast p AND 0xff" for p :: u8
  by (rule bit_word_eqI) (auto simp: bit_bits_word bit_simps masks dest: bit_imp_le_length)

lemma crc_byte_steps: "crc_byte crc p = (crc_step ^^ 8) (crc XOR bits_word (map (bit p) [0..<8]))"
proof -
  define x where "x = crc XOR bits_word (map (bit p) [0..<8])"
  have low: "(crc XOR scast p) AND 0xff = x AND 0xff"
    unfolding x_def byte_of_char by (rule bit_word_eqI) (auto simp: bit_simps masks)
  have mask: "bit (NOT 0xff :: u32) n \<longleftrightarrow> n < 32 \<and> 8 \<le> n" for n
    by (simp only: bit_not_iff mask_numeral_8) (auto simp: bit_simps)
  have high: "drop_bit 8 (x AND NOT 0xff) = drop_bit 8 crc"
    unfolding x_def
  proof (rule bit_word_eqI)
    fix n assume "n < LENGTH(32)"
    show "bit (drop_bit 8 ((crc XOR bits_word (map (bit p) [0..<8])) AND NOT 0xff)) n = bit (drop_bit 8 crc) n"
      using bit_bits_word [of "8 + n" "map (bit p) [0..<8]"] bit_imp_le_length [of crc "8 + n"]
      by (cases "8 + n < 32") (auto simp only: bit_drop_bit_eq comp_def bit_and_iff bit_xor_iff mask length_map length_upt le_add1, auto)
  qed
  have zero: "take_bit 8 (x AND NOT 0xff) = 0"
    by (rule bit_word_eqI) (auto simp: bit_simps)
  have "x = (x AND 0xff) XOR (x AND NOT 0xff)"
    by (rule bit_word_eqI) (auto simp: bit_simps)
  then have "(crc_step ^^ 8) x = (crc_step ^^ 8) (x AND 0xff) XOR (crc_step ^^ 8) (x AND NOT 0xff)"
    by (metis crc_steps_xor)
  then have "(crc_step ^^ 8) x = (crc_step ^^ 8) (x AND 0xff) XOR drop_bit 8 crc"
    by (simp only: crc_steps_low [OF zero] high)
  then show ?thesis unfolding crc_byte_def low table_entry x_def by (simp add: xor.commute)
qed

lemma crc_byte_bits: "crc_byte crc p = foldl crc_bit crc (map (bit p) [0..<8])"
  by (subst crc_bits_steps) (simp_all only: crc_byte_steps length_map length_upt, simp_all)

lemma crc_bytes_bits: "foldl crc_byte s buffer = foldl crc_bit s (message_bits buffer)"
  by (induction buffer arbitrary: s) (simp_all only: foldl_Cons foldl_Nil foldl_append message_bits_simps crc_byte_bits)

lemma start_bits: "(0xffffffff :: u32) = NOT 0"
  by simp

lemma buf_bits: "crc32_buf m = crc32_buf m' \<longleftrightarrow> foldl crc_bit (NOT 0) (message_bits m) = foldl crc_bit (NOT 0) (message_bits m')"
  by (simp only: crc32_buf_def crc_bytes_bits start_bits bit.compl_eq_compl_iff)

section \<open>Properties\<close>

text \<open>
  C30. The table driven checksum of a buffer is that of a 32 bit shift register with the polynomial
  of the table, fed with the bits of the buffer, low bits first.
\<close>

theorem crc32_shift_register: "crc32_buf buffer = NOT (foldl crc_bit (NOT 0) (message_bits buffer))"
  by (simp only: crc32_buf_def crc_bytes_bits start_bits)

text \<open>
  C13. The checksum detects every burst of errors: two messages that differ only within some 32
  consecutive bits have different checksums.
\<close>

theorem crc32_detects_bursts:
  assumes "message_bits m = p @ u @ t" "message_bits m' = p @ v @ t"
    and "length u = length v" "length u \<le> 32" "u \<noteq> v"
  shows "crc32_buf m \<noteq> crc32_buf m'"
  using assms
  by (simp add: buf_bits crc_bits_inj crc_bits_steps crc_steps_inj xor_cancel_left bits_word_inj)

theorem crc32_detects_bursts_witness: "crc32_buf [0x31, 0x32, 0x33] \<noteq> crc32_buf [0x31, 0xcd, 0x33]"
proof (rule crc32_detects_bursts)
  show "message_bits [0x31, 0x32, 0x33] = map (bit (0x31 :: u8)) [0..<8] @ map (bit (0x32 :: u8)) [0..<8] @ message_bits [0x33]" by simp
  show "message_bits [0x31, 0xcd, 0x33] = map (bit (0x31 :: u8)) [0..<8] @ map (bit (0xcd :: u8)) [0..<8] @ message_bits [0x33]" by simp
qed (simp_all add: upt_rec)

lemma add_disjoint: "x + y = x OR y" if "x AND y = 0" for x y :: "'a::len word"
  using word_plus_and_or [of x y] that by simp

lemma bytes_add: "ucast a + push_bit 8 (ucast b) + push_bit 16 (ucast c) + push_bit 24 (ucast d)
    = ucast a OR push_bit 8 (ucast b) OR push_bit 16 (ucast c) OR (push_bit 24 (ucast d) :: u32)"
  for a b c d :: u8
proof -
  have "ucast a AND push_bit 8 (ucast b) = (0 :: u32)"
    "(ucast a OR push_bit 8 (ucast b)) AND push_bit 16 (ucast c) = (0 :: u32)"
    "(ucast a OR push_bit 8 (ucast b) OR push_bit 16 (ucast c)) AND push_bit 24 (ucast d) = (0 :: u32)"
    by (rule bit_word_eqI, auto simp: bit_simps dest!: bit_imp_le_length)+
  then show ?thesis by (simp add: add_disjoint or.assoc)
qed

lemma crc32_le_roundtrip: "crc32_from_le (crc32_to_le crc) = crc"
  unfolding crc32_from_le_def crc32_to_le_def list.map nth_Cons_0 nth_Cons_Suc numeral_3_eq_3 numeral_2_eq_2 One_nat_def bytes_add
proof (rule bit_word_eqI)
  fix n assume "n < LENGTH(32)"
  then consider "n < 8" | "8 \<le> n" "n < 16" | "16 \<le> n" "n < 24" | "24 \<le> n" "n < 32" by fastforce
  then show "bit (ucast (ucast (crc AND 0xff) :: u8) OR push_bit 8 (ucast (ucast (drop_bit 8 crc AND 0xff) :: u8))
      OR push_bit 16 (ucast (ucast (drop_bit 16 crc AND 0xff) :: u8))
      OR push_bit 24 (ucast (ucast (drop_bit 24 crc AND 0xff) :: u8) :: u32)) n = bit crc n"
    by cases (auto simp: bit_simps masks)
qed

end
