(* ===== verification/Iecbus.thy ===== *)
theory Iecbus
  imports Vice_Prelude
begin

text \<open>
  The serial bus between the computer and its drives, \<^verbatim>\<open>src/src/iecbus/iecbus.c\<close> with the lines of
  the C64, \<^verbatim>\<open>src/src/c64/c64iec.c\<close>, and the ports of the drives, in \<^verbatim>\<open>src/src/drive/iec\<close>. Three lines
  (ATN, CLK, DATA) are low when any unit pulls them; the code keeps what every unit drives and
  what the computer and the drives see. What the drive CPUs and the serial devices do when they
  are run is a parameter, given as the bytes they store to their ports; interrupts of the chips
  of a drive are the list of signals an operation sends.
\<close>

section \<open>State\<close>

definition IECBUS_NUM :: nat where "IECBUS_NUM = 16"
definition NUM_DISK_UNITS :: nat where "NUM_DISK_UNITS = 4"

record iecbus =
  drv_bus :: "u8 list"
  drv_data :: "u8 list"
  drv_port :: u8
  cpu_bus :: u8
  cpu_port :: u8
  iec_fast_1541 :: u8

text \<open>Which pair of callbacks \<^verbatim>\<open>iecbus_callback_read\<close> and \<^verbatim>\<open>iecbus_callback_write\<close> point to.\<close>

datatype iec_conf = Conf_none | Conf0 | Conf1 | Conf2 | Conf3

datatype iec_device = IECBUS_DEVICE_NONE | IECBUS_DEVICE_TRUEDRIVE | IECBUS_DEVICE_IECDEVICE

record iec_state =
  bus :: iecbus
  callback :: iec_conf
  ports_set :: bool
  iecbus_device :: "iec_device list"
  iec_old_atn :: u8
  truedrive :: "nat list"
  drivetype :: "nat list"
  iecdevice :: "nat list"
  virtualdevices :: "nat list"

text \<open>The drive types of \<^verbatim>\<open>drive.h\<close> that the bus tells apart.\<close>

definition DRIVE_TYPE_1581 :: nat where "DRIVE_TYPE_1581 = 1581"
definition DRIVE_TYPE_2000 :: nat where "DRIVE_TYPE_2000 = 2000"
definition DRIVE_TYPE_4000 :: nat where "DRIVE_TYPE_4000 = 4000"
definition DRIVE_TYPE_CMDHD :: nat where "DRIVE_TYPE_CMDHD = 4844"

record disk_unit =
  unit_type :: nat
  enable :: bool

text \<open>
  The parameters: the units, the pairs of new and old port bytes that a drive stores while its CPU
  is run up to a clock, and the writes of the serial devices.
\<close>

record iec_env =
  units :: "disk_unit list"
  drive_stores :: "nat \<Rightarrow> clock \<Rightarrow> iecbus \<Rightarrow> (u8 \<times> u8) list"
  serial_writes :: "clock \<Rightarrow> iecbus \<Rightarrow> (nat \<times> u8) list"

datatype edge = FALL | RISE
datatype drive_signal = Cia_flag nat | Via4000_ca2 nat edge | Cmdhd_ca1 nat edge | Via1_ca1 nat edge

section \<open>Lines\<close>

definition iec_update_cpu_bus :: "u8 \<Rightarrow> iecbus \<Rightarrow> iecbus" where
  "iec_update_cpu_bus data b = b\<lparr>cpu_bus :=
     (push_bit 2 data AND 0x80) OR (push_bit 2 data AND 0x40) OR (push_bit 1 data AND 0x10)\<rparr>"

definition iec_update_ports :: "iecbus \<Rightarrow> iecbus" where
  "iec_update_ports b =
     (let port = fold (\<lambda>unit p. p AND drv_bus b ! unit) [4..<8 + NUM_DISK_UNITS] (cpu_bus b)
      in b\<lparr>cpu_port := port,
           drv_port := (drop_bit 4 port AND 0x4) OR drop_bit 7 port OR (push_bit 3 (cpu_bus b) AND 0x80)\<rparr>)"

text \<open>What a drive with its own acknowledge of ATN drives, and what the newer drives do.\<close>

definition lines_1541 :: "u8 \<Rightarrow> u8 \<Rightarrow> u8" where
  "lines_1541 data cpu = (push_bit 3 data AND 0x40) OR (push_bit 6 data AND push_bit 3 (NOT data XOR cpu) AND 0x80)"

definition lines_1581 :: "u8 \<Rightarrow> u8 \<Rightarrow> u8" where
  "lines_1581 data cpu = (push_bit 3 data AND 0x40) OR (push_bit 6 data AND push_bit 3 (data OR cpu) AND 0x80)"

definition newer_drive :: "nat \<Rightarrow> bool" where
  "newer_drive type \<longleftrightarrow> type = DRIVE_TYPE_1581 \<or> type = DRIVE_TYPE_2000 \<or> type = DRIVE_TYPE_4000 \<or> type = DRIVE_TYPE_CMDHD"

definition drive_lines :: "nat \<Rightarrow> u8 \<Rightarrow> u8 \<Rightarrow> u8" where
  "drive_lines type data cpu = (if newer_drive type then lines_1581 data cpu else lines_1541 data cpu)"

definition iec_drive_write :: "u8 \<Rightarrow> nat \<Rightarrow> iecbus \<Rightarrow> iecbus" where
  "iec_drive_write data dnr b = iec_update_ports
     (b\<lparr>drv_bus := (drv_bus b)[dnr + 8 := lines_1541 data (cpu_bus b)], drv_data := (drv_data b)[dnr + 8 := data]\<rparr>)"

definition iec_drive_read :: "iecbus \<Rightarrow> u8" where
  "iec_drive_read b = drv_port b"

section \<open>Ports of the drives\<close>

text \<open>
  The C64 has the bus structure, so the ports take the branch \<^verbatim>\<open>iecbus != NULL\<close>. The direction of the
  fast serial bus of the newer drives is a signal to the computer and left out.
\<close>

definition port_store :: "(u8 \<Rightarrow> u8 \<Rightarrow> u8) \<Rightarrow> nat \<Rightarrow> u8 \<Rightarrow> u8 \<Rightarrow> iecbus \<Rightarrow> iecbus" where
  "port_store lines dnr byte old b =
     (if byte \<noteq> old then
        iec_update_ports (b\<lparr>drv_data := (drv_data b)[dnr + 8 := NOT byte],
          drv_bus := (drv_bus b)[dnr + 8 := lines (NOT byte) (cpu_bus b)]\<rparr>)
      else b)"

definition via1d1541_store_prb :: "nat \<Rightarrow> u8 \<Rightarrow> u8 \<Rightarrow> iecbus \<Rightarrow> iecbus" where
  "via1d1541_store_prb = port_store lines_1541"

definition cia1581_store_ciapb :: "nat \<Rightarrow> u8 \<Rightarrow> u8 \<Rightarrow> iecbus \<Rightarrow> iecbus" where
  "cia1581_store_ciapb = port_store lines_1581"

definition via4000_store_pra :: "nat \<Rightarrow> u8 \<Rightarrow> u8 \<Rightarrow> iecbus \<Rightarrow> iecbus" where
  "via4000_store_pra = port_store lines_1581"

definition cmdhd_store_prb10 :: "nat \<Rightarrow> u8 \<Rightarrow> u8 \<Rightarrow> iecbus \<Rightarrow> iecbus" where
  "cmdhd_store_prb10 = port_store lines_1581"

definition drive_store :: "nat \<Rightarrow> nat \<Rightarrow> u8 \<Rightarrow> u8 \<Rightarrow> iecbus \<Rightarrow> iecbus" where
  "drive_store type =
     (if type = DRIVE_TYPE_1581 then cia1581_store_ciapb
      else if type = DRIVE_TYPE_2000 \<or> type = DRIVE_TYPE_4000 then via4000_store_pra
      else if type = DRIVE_TYPE_CMDHD then cmdhd_store_prb10
      else via1d1541_store_prb)"

definition iec_drive_port_default :: "nat \<Rightarrow> iecbus \<Rightarrow> iecbus" where
  "iec_drive_port_default dnr b = b\<lparr>drv_bus := (drv_bus b)[dnr + 8 := 0xff], drv_data := (drv_data b)[dnr + 8 := 0xff]\<rparr>"

text \<open>Running a drive CPU, here as the stores of its port.\<close>

definition drive_cpu_execute_one :: "iec_env \<Rightarrow> nat \<Rightarrow> clock \<Rightarrow> iecbus \<Rightarrow> iecbus" where
  "drive_cpu_execute_one e dnr clk b =
     fold (\<lambda>(byte, old). drive_store (unit_type (units e ! dnr)) dnr byte old) (drive_stores e dnr clk b) b"

definition drive_cpu_execute_all :: "iec_env \<Rightarrow> clock \<Rightarrow> iecbus \<Rightarrow> iecbus" where
  "drive_cpu_execute_all e clk b =
     fold (\<lambda>dnr b. if enable (units e ! dnr) then drive_cpu_execute_one e dnr clk b else b) [0..<NUM_DISK_UNITS] b"

section \<open>Devices and the choice of callbacks\<close>

definition iecbus_init :: "iec_state \<Rightarrow> iec_state" where
  "iecbus_init st = st\<lparr>bus := \<lparr>drv_bus = replicate IECBUS_NUM 0xff, drv_data = replicate IECBUS_NUM 0xff,
     drv_port = 0x01 OR 0x04 OR 0x80, cpu_bus = 0xff, cpu_port = 0xff, iec_fast_1541 = 0xff\<rparr>\<rparr>"

definition iecbus_cpu_undump :: "u8 \<Rightarrow> iec_state \<Rightarrow> iec_state" where
  "iecbus_cpu_undump data st =
     (let b = iec_update_cpu_bus data (bus st) in st\<lparr>bus := b, iec_old_atn := cpu_bus b AND 0x10\<rparr>)"

definition c64iec_init :: "iec_state \<Rightarrow> iec_state" where
  "c64iec_init st = st\<lparr>ports_set := True\<rparr>"

definition iecbus_device_read :: "iec_state \<Rightarrow> u8" where
  "iecbus_device_read st = drv_port (bus st)"

definition device_write :: "nat \<Rightarrow> u8 \<Rightarrow> iecbus \<Rightarrow> iecbus" where
  "device_write unit data b = iec_update_ports (b\<lparr>drv_bus := (drv_bus b)[unit := data]\<rparr>)"

definition iecbus_device_write :: "nat \<Rightarrow> u8 \<Rightarrow> iec_state \<Rightarrow> nat \<times> iec_state" where
  "iecbus_device_write unit data st =
     (if unit < IECBUS_NUM then
        if ports_set st then (1, st\<lparr>bus := device_write unit data (bus st)\<rparr>)
        else (0, st\<lparr>bus := (bus st)\<lparr>drv_bus := (drv_bus (bus st))[unit := data]\<rparr>\<rparr>)
      else (0, st))"

fun device_code :: "iec_device \<Rightarrow> nat" where
  "device_code IECBUS_DEVICE_NONE = 0"
| "device_code IECBUS_DEVICE_TRUEDRIVE = 1"
| "device_code IECBUS_DEVICE_IECDEVICE = 2"

definition callback_index :: "iec_device list \<Rightarrow> nat" where
  "callback_index d = (let code = (\<lambda>unit shift. push_bit shift (device_code (d ! unit)))
     in code 8 0 OR code 9 2 OR code 10 6 OR code 11 8 OR code 4 10 OR code 5 12 OR code 6 14 OR code 7 16)"

definition calculate_callback_index :: "iec_device list \<Rightarrow> iec_conf" where
  "calculate_callback_index d =
     (if callback_index d = 0 then Conf0
      else if callback_index d = push_bit 0 (device_code IECBUS_DEVICE_TRUEDRIVE) then Conf1
      else if callback_index d = push_bit 2 (device_code IECBUS_DEVICE_TRUEDRIVE) then Conf2
      else Conf3)"

definition iecbus_device_index :: "iec_device list" where
  "iecbus_device_index =
     [IECBUS_DEVICE_NONE, IECBUS_DEVICE_NONE, IECBUS_DEVICE_IECDEVICE, IECBUS_DEVICE_IECDEVICE,
      IECBUS_DEVICE_NONE, IECBUS_DEVICE_NONE, IECBUS_DEVICE_IECDEVICE, IECBUS_DEVICE_IECDEVICE,
      IECBUS_DEVICE_NONE, IECBUS_DEVICE_NONE, IECBUS_DEVICE_IECDEVICE, IECBUS_DEVICE_IECDEVICE,
      IECBUS_DEVICE_TRUEDRIVE, IECBUS_DEVICE_TRUEDRIVE, IECBUS_DEVICE_IECDEVICE, IECBUS_DEVICE_IECDEVICE]"

datatype iec_status = STATUS_TRUEDRIVE | STATUS_DRIVETYPE | STATUS_IECDEVICE | STATUS_TRAPDEVICE

text \<open>The arrays have one entry for each unit number; a larger one is a write outside them.\<close>

definition iecbus_status_set :: "iec_status \<Rightarrow> nat \<Rightarrow> bool \<Rightarrow> iec_state \<Rightarrow> iec_state option" where
  "iecbus_status_set type unit on st =
     (if unit < IECBUS_NUM then
        let st = (case type of
              STATUS_TRUEDRIVE \<Rightarrow> st\<lparr>truedrive := (truedrive st)[unit := if on then 8 else 0]\<rparr>
            | STATUS_DRIVETYPE \<Rightarrow> st\<lparr>drivetype := (drivetype st)[unit := if on then 4 else 0]\<rparr>
            | STATUS_IECDEVICE \<Rightarrow> st\<lparr>iecdevice := (iecdevice st)[unit := if on then 2 else 0]\<rparr>
            | STATUS_TRAPDEVICE \<Rightarrow> st\<lparr>virtualdevices := (virtualdevices st)[unit := if on then 1 else 0]\<rparr>);
          dev = map (\<lambda>u. iecbus_device_index ! (truedrive st ! u OR drivetype st ! u OR iecdevice st ! u OR virtualdevices st ! u))
            [0..<IECBUS_NUM]
        in Some (st\<lparr>iecbus_device := dev, callback := calculate_callback_index dev\<rparr>)
      else None)"

section \<open>The callbacks\<close>

definition serial_iec_device_exec :: "iec_env \<Rightarrow> clock \<Rightarrow> iecbus \<Rightarrow> iecbus" where
  "serial_iec_device_exec e clk b = fold (\<lambda>(unit, data). device_write unit data) (serial_writes e clk b) b"

text \<open>The chip of a drive that sees a change of ATN; \<open>atn\<close> is the new value of \<^verbatim>\<open>iec_old_atn\<close>.\<close>

definition atn_signal :: "nat \<Rightarrow> nat \<Rightarrow> u8 \<Rightarrow> drive_signal list" where
  "atn_signal type dnr atn =
     (if type = DRIVE_TYPE_1581 then (if atn = 0 then [Cia_flag dnr] else [])
      else if type = DRIVE_TYPE_2000 \<or> type = DRIVE_TYPE_4000 then [Via4000_ca2 dnr (if atn \<noteq> 0 then FALL else RISE)]
      else if type = DRIVE_TYPE_CMDHD then [Cmdhd_ca1 dnr (if atn \<noteq> 0 then RISE else FALL)]
      else [Via1_ca1 dnr (if atn \<noteq> 0 then FALL else RISE)])"

text \<open>The lines of a drive after a change of the lines of the computer.\<close>

definition refresh_drive :: "iec_env \<Rightarrow> nat \<Rightarrow> iecbus \<Rightarrow> iecbus" where
  "refresh_drive e dnr b = b\<lparr>drv_bus := (drv_bus b)[8 + dnr :=
     drive_lines (unit_type (units e ! dnr)) (drv_data b ! (8 + dnr)) (cpu_bus b)]\<rparr>"

definition iecbus_cpu_read_conf0 :: "iec_state \<Rightarrow> u8 \<times> iec_state" where
  "iecbus_cpu_read_conf0 st = (push_bit 2 (iec_fast_1541 (bus st) AND 0x30), st)"

definition iecbus_cpu_write_conf0 :: "u8 \<Rightarrow> iec_state \<Rightarrow> drive_signal list \<times> iec_state" where
  "iecbus_cpu_write_conf0 data st = ([], st\<lparr>bus := (bus st)\<lparr>iec_fast_1541 := data\<rparr>\<rparr>)"

definition iecbus_cpu_read_conf1 :: "iec_env \<Rightarrow> clock \<Rightarrow> iec_state \<Rightarrow> u8 \<times> iec_state" where
  "iecbus_cpu_read_conf1 e clk st =
     (let b = drive_cpu_execute_all e clk (bus st) in (cpu_port b, st\<lparr>bus := b\<rparr>))"

text \<open>The first and the second unit have handlers of the same form, for units 0 and 1.\<close>

definition cpu_write_one :: "nat \<Rightarrow> iec_env \<Rightarrow> u8 \<Rightarrow> clock \<Rightarrow> iec_state \<Rightarrow> drive_signal list \<times> iec_state" where
  "cpu_write_one dnr e data clk st =
     (let b = iec_update_cpu_bus data (drive_cpu_execute_one e dnr clk (bus st));
          atn = cpu_bus b AND 0x10
      in (if iec_old_atn st \<noteq> atn then atn_signal (unit_type (units e ! dnr)) dnr atn else [],
          st\<lparr>bus := iec_update_ports (refresh_drive e dnr b), iec_old_atn := atn\<rparr>))"

definition iecbus_cpu_write_conf1 :: "iec_env \<Rightarrow> u8 \<Rightarrow> clock \<Rightarrow> iec_state \<Rightarrow> drive_signal list \<times> iec_state" where
  "iecbus_cpu_write_conf1 = cpu_write_one 0"

definition iecbus_cpu_read_conf2 :: "iec_env \<Rightarrow> clock \<Rightarrow> iec_state \<Rightarrow> u8 \<times> iec_state" where
  "iecbus_cpu_read_conf2 e clk st =
     (let b = drive_cpu_execute_all e clk (bus st) in (cpu_port b, st\<lparr>bus := b\<rparr>))"

definition iecbus_cpu_write_conf2 :: "iec_env \<Rightarrow> u8 \<Rightarrow> clock \<Rightarrow> iec_state \<Rightarrow> drive_signal list \<times> iec_state" where
  "iecbus_cpu_write_conf2 = cpu_write_one 1"

definition iecbus_cpu_read_conf3 :: "iec_env \<Rightarrow> clock \<Rightarrow> iec_state \<Rightarrow> u8 \<times> iec_state" where
  "iecbus_cpu_read_conf3 e clk st =
     (let b = serial_iec_device_exec e clk (drive_cpu_execute_all e clk (bus st)) in (cpu_port b, st\<lparr>bus := b\<rparr>))"

definition iecbus_cpu_write_conf3 :: "iec_env \<Rightarrow> u8 \<Rightarrow> clock \<Rightarrow> iec_state \<Rightarrow> drive_signal list \<times> iec_state" where
  "iecbus_cpu_write_conf3 e data clk st =
     (let b = iec_update_cpu_bus data (serial_iec_device_exec e clk (drive_cpu_execute_all e clk (bus st)));
          atn = cpu_bus b AND 0x10;
          true_drives = filter (\<lambda>dnr. iecbus_device st ! (8 + dnr) = IECBUS_DEVICE_TRUEDRIVE) [0..<NUM_DISK_UNITS]
      in (if iec_old_atn st \<noteq> atn then concat (map (\<lambda>dnr. atn_signal (unit_type (units e ! dnr)) dnr atn) true_drives) else [],
          st\<lparr>bus := iec_update_ports (fold (refresh_drive e) true_drives b), iec_old_atn := atn\<rparr>))"

text \<open>A call through the function pointers; \<open>None\<close> is a call before any was set.\<close>

definition iecbus_callback_read :: "iec_env \<Rightarrow> clock \<Rightarrow> iec_state \<Rightarrow> (u8 \<times> iec_state) option" where
  "iecbus_callback_read e clk st = (case callback st of
     Conf_none \<Rightarrow> None
   | Conf0 \<Rightarrow> Some (iecbus_cpu_read_conf0 st)
   | Conf1 \<Rightarrow> Some (iecbus_cpu_read_conf1 e clk st)
   | Conf2 \<Rightarrow> Some (iecbus_cpu_read_conf2 e clk st)
   | Conf3 \<Rightarrow> Some (iecbus_cpu_read_conf3 e clk st))"

definition iecbus_callback_write :: "iec_env \<Rightarrow> u8 \<Rightarrow> clock \<Rightarrow> iec_state \<Rightarrow> (drive_signal list \<times> iec_state) option" where
  "iecbus_callback_write e data clk st = (case callback st of
     Conf_none \<Rightarrow> None
   | Conf0 \<Rightarrow> Some (iecbus_cpu_write_conf0 data st)
   | Conf1 \<Rightarrow> Some (iecbus_cpu_write_conf1 e data clk st)
   | Conf2 \<Rightarrow> Some (iecbus_cpu_write_conf2 e data clk st)
   | Conf3 \<Rightarrow> Some (iecbus_cpu_write_conf3 e data clk st))"

end
