(* ===== verification/Iecbus_Lines.thy ===== *)
theory Iecbus_Lines
  imports Iecbus
begin

text \<open>
  Properties of the serial bus of \<^verbatim>\<open>src/src/iecbus/iecbus.c\<close>: the devices and callbacks are those
  of the settings, the callbacks for a single drive do what the general ones do, and the lines
  are low exactly when somebody pulls them.
\<close>

section \<open>The choice of callbacks\<close>

lemma or_shift_add: "x OR push_bit s y = x + 2 ^ s * y" if "x < 2 ^ s" for x y :: nat
proof -
  have "x AND push_bit s y = 0"
  proof (rule bit_eqI)
    fix n
    have "\<not> bit x n" if "s \<le> n"
      using \<open>x < 2 ^ s\<close> that by (metis bit_take_bit_iff not_less take_bit_nat_eq_self)
    then show "bit (x AND push_bit s y) n = bit (0 :: nat) n" by (auto simp: bit_simps)
  qed
  then have "x OR push_bit s y = x + push_bit s y" by (metis disjunctive_add_eq_or)
  then show ?thesis by (simp add: push_bit_nat_def mult.commute)
qed

lemma device_code_le: "device_code c \<le> 2"
  by (cases c) simp_all

lemma callback_index_sum: "callback_index d =
    device_code (d ! 8) + 4 * device_code (d ! 9) + 64 * device_code (d ! 10) + 256 * device_code (d ! 11)
    + 1024 * device_code (d ! 4) + 4096 * device_code (d ! 5) + 16384 * device_code (d ! 6) + 65536 * device_code (d ! 7)"
proof -
  note l = device_code_le [of "d ! 8"] device_code_le [of "d ! 9"] device_code_le [of "d ! 10"] device_code_le [of "d ! 11"]
    device_code_le [of "d ! 4"] device_code_le [of "d ! 5"] device_code_le [of "d ! 6"] device_code_le [of "d ! 7"]
  show ?thesis
    unfolding callback_index_def Let_def using l
    by (simp add: or.assoc [symmetric] or_shift_add)
qed

lemma device_code_eq [simp]:
  "device_code c = 0 \<longleftrightarrow> c = IECBUS_DEVICE_NONE" "device_code c = Suc 0 \<longleftrightarrow> c = IECBUS_DEVICE_TRUEDRIVE"
  by (cases c; simp)+

definition only_units :: "iec_device list \<Rightarrow> (nat \<Rightarrow> iec_device) \<Rightarrow> bool" where
  "only_units d f \<longleftrightarrow> (\<forall>u. 4 \<le> u \<and> u < 12 \<longrightarrow> d ! u = f u)"

lemma only_units_code: "only_units d f \<longleftrightarrow>
    d ! 4 = f 4 \<and> d ! 5 = f 5 \<and> d ! 6 = f 6 \<and> d ! 7 = f 7 \<and> d ! 8 = f 8 \<and> d ! 9 = f 9 \<and> d ! 10 = f 10 \<and> d ! 11 = f 11"
proof -
  have "{u. 4 \<le> u \<and> u < (12 :: nat)} = {4, 5, 6, 7, 8, 9, 10, 11}" by auto
  then have "only_units d f \<longleftrightarrow> (\<forall>u\<in>{4, 5, 6, 7, 8, 9, 10, 11}. d ! u = f u)"
    unfolding only_units_def by blast
  then show ?thesis by simp
qed

lemma sum_is_one: "a + 4 * b + 64 * c + 256 * d + 1024 * e + 4096 * f + 16384 * g + 65536 * h = 1 \<longleftrightarrow>
    a = 1 \<and> b = 0 \<and> c = 0 \<and> d = 0 \<and> e = 0 \<and> f = 0 \<and> g = 0 \<and> h = (0 :: nat)"
proof (rule iffI)
  assume s: "a + 4 * b + 64 * c + 256 * d + 1024 * e + 4096 * f + 16384 * g + 65536 * h = 1"
  then have "b = 0" "c = 0" "d = 0" "e = 0" "f = 0" "g = 0" "h = 0" by linarith+
  with s show "a = 1 \<and> b = 0 \<and> c = 0 \<and> d = 0 \<and> e = 0 \<and> f = 0 \<and> g = 0 \<and> h = 0" by simp
qed simp

lemma sum_is_four: "a + 4 * b + 64 * c + 256 * d + 1024 * e + 4096 * f + 16384 * g + 65536 * h = 4 \<longleftrightarrow>
    a = 0 \<and> b = 1 \<and> c = 0 \<and> d = 0 \<and> e = 0 \<and> f = 0 \<and> g = 0 \<and> h = (0 :: nat)" if "a \<le> 2"
proof (rule iffI)
  assume s: "a + 4 * b + 64 * c + 256 * d + 1024 * e + 4096 * f + 16384 * g + 65536 * h = 4"
  then have "c = 0" "d = 0" "e = 0" "f = 0" "g = 0" "h = 0" by linarith+
  moreover have "b \<le> 1" using s by linarith
  moreover have "b \<noteq> 0" using s that calculation by (intro notI) simp
  then have "1 \<le> b" by simp
  ultimately show "a = 0 \<and> b = 1 \<and> c = 0 \<and> d = 0 \<and> e = 0 \<and> f = 0 \<and> g = 0 \<and> h = 0" using s by simp
qed simp

lemma callback_index_is:
  "callback_index d = 0 \<longleftrightarrow> only_units d (\<lambda>u. IECBUS_DEVICE_NONE)"
  "callback_index d = 1 \<longleftrightarrow> only_units d ((\<lambda>u. IECBUS_DEVICE_NONE)(8 := IECBUS_DEVICE_TRUEDRIVE))"
  "callback_index d = 4 \<longleftrightarrow> only_units d ((\<lambda>u. IECBUS_DEVICE_NONE)(9 := IECBUS_DEVICE_TRUEDRIVE))"
proof -
  show "callback_index d = 0 \<longleftrightarrow> only_units d (\<lambda>u. IECBUS_DEVICE_NONE)"
    by (simp add: callback_index_sum only_units_code conj_ac)
  have "callback_index d = 1 \<longleftrightarrow> device_code (d ! 8) = 1 \<and> device_code (d ! 9) = 0 \<and> device_code (d ! 10) = 0 \<and> device_code (d ! 11) = 0
      \<and> device_code (d ! 4) = 0 \<and> device_code (d ! 5) = 0 \<and> device_code (d ! 6) = 0 \<and> device_code (d ! 7) = 0"
    unfolding callback_index_sum by (rule sum_is_one)
  then show "callback_index d = 1 \<longleftrightarrow> only_units d ((\<lambda>u. IECBUS_DEVICE_NONE)(8 := IECBUS_DEVICE_TRUEDRIVE))"
    by (simp add: only_units_code conj_ac)
  have "callback_index d = 4 \<longleftrightarrow> device_code (d ! 8) = 0 \<and> device_code (d ! 9) = 1 \<and> device_code (d ! 10) = 0 \<and> device_code (d ! 11) = 0
      \<and> device_code (d ! 4) = 0 \<and> device_code (d ! 5) = 0 \<and> device_code (d ! 6) = 0 \<and> device_code (d ! 7) = 0"
    unfolding callback_index_sum by (rule sum_is_four [OF device_code_le])
  then show "callback_index d = 4 \<longleftrightarrow> only_units d ((\<lambda>u. IECBUS_DEVICE_NONE)(9 := IECBUS_DEVICE_TRUEDRIVE))"
    by (simp add: only_units_code conj_ac)
qed


lemma calculate_cases:
  "calculate_callback_index d =
     (if only_units d (\<lambda>u. IECBUS_DEVICE_NONE) then Conf0
      else if only_units d ((\<lambda>u. IECBUS_DEVICE_NONE)(8 := IECBUS_DEVICE_TRUEDRIVE)) then Conf1
      else if only_units d ((\<lambda>u. IECBUS_DEVICE_NONE)(9 := IECBUS_DEVICE_TRUEDRIVE)) then Conf2
      else Conf3)"
  unfolding calculate_callback_index_def callback_index_is [symmetric] by simp

section \<open>Settings\<close>

fun run_status :: "(iec_status \<times> nat \<times> bool) list \<Rightarrow> iec_state \<Rightarrow> iec_state option" where
  "run_status [] st = Some st"
| "run_status ((type, unit, on) # ops) st = Option.bind (iecbus_status_set type unit on st) (run_status ops)"

text \<open>The last value a setting of a unit was given, off at the start.\<close>

definition setting :: "(iec_status \<times> nat \<times> bool) list \<Rightarrow> iec_status \<Rightarrow> nat \<Rightarrow> bool" where
  "setting ops type unit = foldl (\<lambda>s (t, u, on). if t = type \<and> u = unit then on else s) False ops"

text \<open>The table in the comment of \<^verbatim>\<open>iecbus.c\<close>.\<close>

definition device_of :: "(iec_status \<times> nat \<times> bool) list \<Rightarrow> nat \<Rightarrow> iec_device" where
  "device_of ops u =
     (if setting ops STATUS_IECDEVICE u then IECBUS_DEVICE_IECDEVICE
      else if setting ops STATUS_TRUEDRIVE u \<and> setting ops STATUS_DRIVETYPE u then IECBUS_DEVICE_TRUEDRIVE
      else IECBUS_DEVICE_NONE)"

definition iec_boot :: iec_state where
  "iec_boot = \<lparr>bus = \<lparr>drv_bus = replicate 16 0, drv_data = replicate 16 0, drv_port = 0, cpu_bus = 0, cpu_port = 0,
     iec_fast_1541 = 0\<rparr>, callback = Conf_none, ports_set = False, iecbus_device = replicate 16 IECBUS_DEVICE_NONE,
     iec_old_atn = 0x10, truedrive = replicate 16 0, drivetype = replicate 16 0, iecdevice = replicate 16 0,
     virtualdevices = replicate 16 0\<rparr>"

definition settings_stored :: "(iec_status \<times> nat \<times> bool) list \<Rightarrow> iec_state \<Rightarrow> bool" where
  "settings_stored ops st \<longleftrightarrow>
     truedrive st = map (\<lambda>u. if setting ops STATUS_TRUEDRIVE u then 8 else 0) [0..<16]
     \<and> drivetype st = map (\<lambda>u. if setting ops STATUS_DRIVETYPE u then 4 else 0) [0..<16]
     \<and> iecdevice st = map (\<lambda>u. if setting ops STATUS_IECDEVICE u then 2 else 0) [0..<16]
     \<and> virtualdevices st = map (\<lambda>u. if setting ops STATUS_TRAPDEVICE u then 1 else 0) [0..<16]"

lemma setting_snoc: "setting (ops @ [(t, u, on)]) type unit = (if t = type \<and> u = unit then on else setting ops type unit)"
  by (simp add: setting_def)

lemma run_status_snoc: "run_status (ops @ [(t, u, on)]) st = Option.bind (run_status ops st) (iecbus_status_set t u on)"
  by (induction ops arbitrary: st) (auto split: Option.bind_splits)

lemma map_upt_update: "(map f [0..<n])[i := x] = map (f(i := x)) [0..<n]"
  by (rule nth_equalityI) (auto simp: nth_list_update)

lemma device_index: "iecbus_device_index ! ((if t then 8 else 0) OR (if d then 4 else 0) OR (if i then 2 else 0) OR (if v then 1 else 0)) =
    (if i then IECBUS_DEVICE_IECDEVICE else if t \<and> d then IECBUS_DEVICE_TRUEDRIVE else IECBUS_DEVICE_NONE)"
  by (cases t; cases d; cases i; cases v) (simp_all add: iecbus_device_index_def)

lemma status_stored:
  assumes "settings_stored ops st" "u < 16"
  shows "\<exists>st'. iecbus_status_set t u on st = Some st' \<and> settings_stored (ops @ [(t, u, on)]) st'
    \<and> iecbus_device st' = map (device_of (ops @ [(t, u, on)])) [0..<16]
    \<and> callback st' = calculate_callback_index (iecbus_device st')"
proof -
  define st1 where "st1 = (case t of
              STATUS_TRUEDRIVE \<Rightarrow> st\<lparr>truedrive := (truedrive st)[u := if on then 8 else 0]\<rparr>
            | STATUS_DRIVETYPE \<Rightarrow> st\<lparr>drivetype := (drivetype st)[u := if on then 4 else 0]\<rparr>
            | STATUS_IECDEVICE \<Rightarrow> st\<lparr>iecdevice := (iecdevice st)[u := if on then 2 else 0]\<rparr>
            | STATUS_TRAPDEVICE \<Rightarrow> st\<lparr>virtualdevices := (virtualdevices st)[u := if on then 1 else 0]\<rparr>)"
  have s: "settings_stored (ops @ [(t, u, on)]) st1"
    using assms by (cases t) (simp_all add: settings_stored_def st1_def map_upt_update setting_snoc fun_eq_iff)
  have dev: "map (\<lambda>u. iecbus_device_index ! (truedrive st1 ! u OR drivetype st1 ! u OR iecdevice st1 ! u OR virtualdevices st1 ! u)) [0..<16]
      = map (device_of (ops @ [(t, u, on)])) [0..<16]"
  proof (rule map_cong)
    fix v assume "v \<in> set [0 ..< (16 :: nat)]"
    then have v: "v < 16" by simp
    show "iecbus_device_index ! (truedrive st1 ! v OR drivetype st1 ! v OR iecdevice st1 ! v OR virtualdevices st1 ! v)
        = device_of (ops @ [(t, u, on)]) v"
      using s v unfolding settings_stored_def by (simp only: nth_map_upt device_of_def) (simp add: device_index)
  qed simp
  have r: "iecbus_status_set t u on st = Some (st1\<lparr>iecbus_device := map (device_of (ops @ [(t, u, on)])) [0..<16],
      callback := calculate_callback_index (map (device_of (ops @ [(t, u, on)])) [0..<16])\<rparr>)"
    using assms(2) unfolding iecbus_status_set_def IECBUS_NUM_def st1_def [symmetric] Let_def dev by simp
  show ?thesis using s unfolding r by (simp add: settings_stored_def)
qed

text \<open>
  C31. The devices and the callbacks are those of the settings: whatever sequence of settings was
  made, every unit is a serial device if that is on, else a drive if true drive emulation and a
  drive type are on, else nothing; and the computer uses the loop back without devices, the
  handlers of a single drive when only drive 8 or only drive 9 is present, and the general
  handlers otherwise.
\<close>

theorem iec_devices_follow_settings:
  assumes "\<forall>(t, u, on)\<in>set ops. u < 16" "ops \<noteq> []"
  shows "\<exists>st. run_status ops iec_boot = Some st \<and> (\<forall>u<16. iecbus_device st ! u = device_of ops u)
    \<and> callback st =
        (if \<forall>u\<in>{4..<12}. device_of ops u = IECBUS_DEVICE_NONE then Conf0
         else if \<forall>u\<in>{4..<12}. device_of ops u = (if u = 8 then IECBUS_DEVICE_TRUEDRIVE else IECBUS_DEVICE_NONE) then Conf1
         else if \<forall>u\<in>{4..<12}. device_of ops u = (if u = 9 then IECBUS_DEVICE_TRUEDRIVE else IECBUS_DEVICE_NONE) then Conf2
         else Conf3)"
proof -
  have boot: "settings_stored [] iec_boot"
    by (simp add: settings_stored_def iec_boot_def setting_def map_replicate_const)
  have "\<exists>st. run_status ops iec_boot = Some st \<and> settings_stored ops st
      \<and> (ops \<noteq> [] \<longrightarrow> iecbus_device st = map (device_of ops) [0..<16] \<and> callback st = calculate_callback_index (iecbus_device st))"
    using assms(1)
  proof (induction ops rule: rev_induct)
    case (snoc x ops)
    obtain t u on where x: "x = (t, u, on)" by (cases x)
    from snoc obtain st where "run_status ops iec_boot = Some st" "settings_stored ops st" by auto
    then show ?case using status_stored [of ops st u t on] snoc.prems by (auto simp: x run_status_snoc)
  qed (simp add: boot)
  with assms(2) obtain st where st: "run_status ops iec_boot = Some st" "iecbus_device st = map (device_of ops) [0..<16]"
    "callback st = calculate_callback_index (iecbus_device st)" by blast
  have "only_units (iecbus_device st) f \<longleftrightarrow> (\<forall>u\<in>{4..<12}. device_of ops u = f u)" for f
    by (auto simp: only_units_def st(2))
  then show ?thesis using st by (simp add: calculate_cases)
qed


theorem iec_devices_follow_settings_witness:
  "\<exists>st. run_status [(STATUS_DRIVETYPE, 8, True), (STATUS_TRUEDRIVE, 8, True), (STATUS_IECDEVICE, 4, True), (STATUS_IECDEVICE, 4, False)]
      iec_boot = Some st \<and> iecbus_device st ! 8 = IECBUS_DEVICE_TRUEDRIVE \<and> iecbus_device st ! 4 = IECBUS_DEVICE_NONE \<and> callback st = Conf1"
proof -
  let ?ops = "[(STATUS_DRIVETYPE, 8, True), (STATUS_TRUEDRIVE, 8, True), (STATUS_IECDEVICE, 4, True), (STATUS_IECDEVICE, 4, False)]"
  have "device_of ?ops u = (if u = 8 then IECBUS_DEVICE_TRUEDRIVE else IECBUS_DEVICE_NONE)" for u :: nat
    by (auto simp: device_of_def setting_def)
  then show ?thesis using iec_devices_follow_settings [of ?ops] by (auto simp: Ball_def)
qed

section \<open>One drive and many\<close>

text \<open>
  What the rest of the program promises: the callbacks are those of the devices, a drive runs just
  when it is a device of the bus, and only serial devices write by themselves.
\<close>

definition iec_ready :: "iec_env \<Rightarrow> iec_state \<Rightarrow> bool" where
  "iec_ready e st \<longleftrightarrow>
     callback st = calculate_callback_index (iecbus_device st) \<and> callback st \<noteq> Conf0
     \<and> length (drv_bus (bus st)) = 16 \<and> length (drv_data (bus st)) = 16
     \<and> (\<forall>dnr<4. enable (units e ! dnr) \<longleftrightarrow> iecbus_device st ! (8 + dnr) = IECBUS_DEVICE_TRUEDRIVE)
     \<and> (\<forall>clk b. \<forall>(u, data)\<in>set (serial_writes e clk b). u \<in> {4..<12} \<and> iecbus_device st ! u = IECBUS_DEVICE_IECDEVICE)"

lemma units_4: "[0..<NUM_DISK_UNITS] = [0, 1, 2, 3]"
  by (simp add: NUM_DISK_UNITS_def upt_rec)

lemma ready_enable:
  assumes "iec_ready e st" "d < 4"
  shows "enable (units e ! d) \<longleftrightarrow> iecbus_device st ! (8 + d) = IECBUS_DEVICE_TRUEDRIVE"
  using assms by (simp add: iec_ready_def)

lemma only_drive:
  assumes "iec_ready e st" "only_units (iecbus_device st) ((\<lambda>u. IECBUS_DEVICE_NONE)(8 + d := IECBUS_DEVICE_TRUEDRIVE))" "d < 2"
  shows "drive_cpu_execute_all e clk b = drive_cpu_execute_one e d clk b"
    and "serial_iec_device_exec e clk b = b"
    and "filter (\<lambda>dnr. iecbus_device st ! (8 + dnr) = IECBUS_DEVICE_TRUEDRIVE) [0..<NUM_DISK_UNITS] = [d]"
proof -
  have dev: "iecbus_device st ! (8 + n) = (if n = d then IECBUS_DEVICE_TRUEDRIVE else IECBUS_DEVICE_NONE)" if "n < 4" for n
    using assms(2) that by (simp add: only_units_def)
  have d: "d = 0 \<or> d = 1" using assms(3) by auto
  have en: "enable (units e ! n) \<longleftrightarrow> n = d" if "n < 4" for n
    using ready_enable [OF assms(1) that] dev [OF that] by simp
  show "drive_cpu_execute_all e clk b = drive_cpu_execute_one e d clk b"
    using d en [of 0] en [of 1] en [of 2] en [of 3] by (auto simp: drive_cpu_execute_all_def units_4)
  show "filter (\<lambda>dnr. iecbus_device st ! (8 + dnr) = IECBUS_DEVICE_TRUEDRIVE) [0..<NUM_DISK_UNITS] = [d]"
    using d dev [of 0] dev [of 1] dev [of 2] dev [of 3] by (auto simp: units_4)
  have "iecbus_device st ! u = (if u = 8 + d then IECBUS_DEVICE_TRUEDRIVE else IECBUS_DEVICE_NONE)" if "4 \<le> u" "u < 12" for u
    using assms(2) that unfolding only_units_def fun_upd_apply by blast
  then have "iecbus_device st ! u \<noteq> IECBUS_DEVICE_IECDEVICE" if "u \<in> {4..<12}" for u
    using that by (metis atLeastLessThan_iff iec_device.distinct(3) iec_device.distinct(5))
  moreover have "\<forall>p\<in>set (serial_writes e clk b). fst p \<in> {4..<12} \<and> iecbus_device st ! fst p = IECBUS_DEVICE_IECDEVICE"
    using assms(1) by (simp add: iec_ready_def split_beta)
  ultimately have "\<forall>p\<in>set (serial_writes e clk b). False" by metis
  then have "serial_writes e clk b = []" by (cases "serial_writes e clk b") auto
  then show "serial_iec_device_exec e clk b = b" by (simp add: serial_iec_device_exec_def)
qed

lemma one_is_general:
  assumes "iec_ready e st" "only_units (iecbus_device st) ((\<lambda>u. IECBUS_DEVICE_NONE)(8 + d := IECBUS_DEVICE_TRUEDRIVE))" "d < 2"
  shows "cpu_write_one d e data clk st = iecbus_cpu_write_conf3 e data clk st"
    and "iecbus_cpu_read_conf3 e clk st = iecbus_cpu_read_conf1 e clk st"
  by (simp_all add: cpu_write_one_def iecbus_cpu_write_conf3_def iecbus_cpu_read_conf3_def iecbus_cpu_read_conf1_def
      only_drive [OF assms] Let_def)

text \<open>
  C20. The handlers for a single drive are the general handlers: with the callbacks chosen for the
  devices, reading and writing the port of the computer has the value, the bus, and the signals
  to the chips of the drives that the handlers for any devices have.
\<close>

theorem iec_single_drive_handlers_general:
  assumes "iec_ready e st"
  shows "iecbus_callback_write e data clk st = Some (iecbus_cpu_write_conf3 e data clk st)
    \<and> iecbus_callback_read e clk st = Some (iecbus_cpu_read_conf3 e clk st)"
proof (cases "callback st")
  case Conf1
  then have "only_units (iecbus_device st) ((\<lambda>u. IECBUS_DEVICE_NONE)(8 + 0 := IECBUS_DEVICE_TRUEDRIVE))"
    using assms by (simp add: iec_ready_def calculate_cases split: if_splits)
  from one_is_general [OF assms this] Conf1 show ?thesis
    by (simp add: iecbus_cpu_write_conf1_def iecbus_callback_read_def iecbus_callback_write_def)
next
  case Conf2
  then have "only_units (iecbus_device st) ((\<lambda>u. IECBUS_DEVICE_NONE)(8 + 1 := IECBUS_DEVICE_TRUEDRIVE))"
    using assms by (simp add: iec_ready_def calculate_cases split: if_splits)
  from one_is_general [OF assms this] Conf2 show ?thesis
    by (simp add: iecbus_cpu_write_conf2_def iecbus_cpu_read_conf2_def iecbus_cpu_read_conf1_def
        iecbus_callback_read_def iecbus_callback_write_def)
qed (use assms in \<open>simp_all add: iec_ready_def calculate_callback_index_def iecbus_callback_read_def iecbus_callback_write_def
    split: if_splits\<close>)

text \<open>A 1541 as drive 8, which stores to its port when it is run to clock 5.\<close>

definition demo_units :: iec_env where
  "demo_units = \<lparr>units = \<lparr>unit_type = 1541, enable = True\<rparr> # replicate 3 \<lparr>unit_type = 0, enable = False\<rparr>,
     drive_stores = (\<lambda>dnr clk b. if dnr = 0 \<and> clk = 5 then [(0x12, 0x10)] else []), serial_writes = (\<lambda>clk b. [])\<rparr>"

definition demo_iec :: iec_state where
  "demo_iec = (c64iec_init (iecbus_init iec_boot))\<lparr>iecbus_device := (replicate 16 IECBUS_DEVICE_NONE)[8 := IECBUS_DEVICE_TRUEDRIVE],
     callback := Conf1, truedrive := (replicate 16 0)[8 := 8], drivetype := (replicate 16 0)[8 := 4]\<rparr>"

lemma demo_ready: "iec_ready demo_units demo_iec"
proof -
  have d: "iecbus_device demo_iec ! u = (if u = 8 then IECBUS_DEVICE_TRUEDRIVE else IECBUS_DEVICE_NONE)" if "u < 16" for u
    using that by (simp add: demo_iec_def nth_list_update)
  have "only_units (iecbus_device demo_iec) ((\<lambda>u. IECBUS_DEVICE_NONE)(8 := IECBUS_DEVICE_TRUEDRIVE))"
    by (simp add: only_units_def d)
  moreover have "\<not> only_units (iecbus_device demo_iec) (\<lambda>u. IECBUS_DEVICE_NONE)"
    using d [of 8] by (simp add: only_units_code)
  ultimately have "calculate_callback_index (iecbus_device demo_iec) = callback demo_iec"
    by (simp add: calculate_cases) (simp add: demo_iec_def)
  moreover have "enable (units demo_units ! dnr) \<longleftrightarrow> dnr = 0" if "dnr < 4" for dnr
    using that by (simp add: demo_units_def nth_Cons' )
  ultimately show ?thesis
    by (simp add: iec_ready_def d) (simp add: demo_units_def demo_iec_def iecbus_init_def c64iec_init_def IECBUS_NUM_def)
qed

theorem iec_single_drive_handlers_general_witness:
  "iecbus_callback_write demo_units 0x17 5 demo_iec = Some (iecbus_cpu_write_conf3 demo_units 0x17 5 demo_iec)"
  using iec_single_drive_handlers_general [OF demo_ready] by simp

section \<open>The lines\<close>

datatype iec_op = Cpu_write u8 clock | Cpu_read clock | Device_write nat u8 | Drive_store nat u8 u8

fun run_iec :: "iec_env \<Rightarrow> iec_op list \<Rightarrow> iec_state \<Rightarrow> iec_state option" where
  "run_iec e [] st = Some st"
| "run_iec e (Cpu_write data clk # ops) st =
     Option.bind (iecbus_callback_write e data clk st) (\<lambda>(signals, st). run_iec e ops st)"
| "run_iec e (Cpu_read clk # ops) st = Option.bind (iecbus_callback_read e clk st) (\<lambda>(v, st). run_iec e ops st)"
| "run_iec e (Device_write unit data # ops) st = run_iec e ops (snd (iecbus_device_write unit data st))"
| "run_iec e (Drive_store dnr byte old # ops) st =
     run_iec e ops (st\<lparr>bus := drive_store (unit_type (units e ! dnr)) dnr byte old (bus st)\<rparr>)"

text \<open>Serial devices write for themselves, drives store to their own port.\<close>

fun op_allowed :: "iec_state \<Rightarrow> iec_op \<Rightarrow> bool" where
  "op_allowed st (Device_write unit data) \<longleftrightarrow> unit \<in> {4..<12} \<and> iecbus_device st ! unit = IECBUS_DEVICE_IECDEVICE \<and> ports_set st"
| "op_allowed st (Drive_store dnr byte old) \<longleftrightarrow> dnr < 4"
| "op_allowed st op \<longleftrightarrow> True"

text \<open>
  A line is high when the computer and all units 4 to 11 leave it high; drives see the lines and
  ATN. A drive leaves CLK high unless its port pulls it, and DATA unless its port or the answer
  to ATN pulls it.
\<close>

definition lines_right :: "iec_env \<Rightarrow> iec_state \<Rightarrow> bool" where
  "lines_right e st \<longleftrightarrow> (let b = bus st in
     (\<forall>l\<in>{6, 7}. bit (cpu_port b) l \<longleftrightarrow> bit (cpu_bus b) l \<and> (\<forall>u\<in>{4..<12}. bit (drv_bus b ! u) l))
     \<and> bit (drv_port b) 0 = bit (cpu_port b) 7 \<and> bit (drv_port b) 2 = bit (cpu_port b) 6 \<and> bit (drv_port b) 7 = bit (cpu_bus b) 4
     \<and> (\<forall>dnr<4. iecbus_device st ! (8 + dnr) = IECBUS_DEVICE_TRUEDRIVE \<longrightarrow>
          (let d = drv_data b ! (8 + dnr); atn = bit (cpu_bus b) 4
           in bit (drv_bus b ! (8 + dnr)) 6 = bit d 3
             \<and> bit (drv_bus b ! (8 + dnr)) 7 =
                 (bit d 1 \<and> (if newer_drive (unit_type (units e ! dnr)) then bit d 4 \<or> atn else bit d 4 = atn)))))"

definition bus_right :: "iec_env \<Rightarrow> iec_device list \<Rightarrow> iecbus \<Rightarrow> bool" where
  "bus_right e dev b \<longleftrightarrow>
     iec_update_ports b = b \<and> length (drv_bus b) = 16 \<and> length (drv_data b) = 16
     \<and> (\<forall>dnr<4. dev ! (8 + dnr) = IECBUS_DEVICE_TRUEDRIVE \<longrightarrow>
          drv_bus b ! (8 + dnr) = drive_lines (unit_type (units e ! dnr)) (drv_data b ! (8 + dnr)) (cpu_bus b))"

lemma update_ports_fields [simp]:
  "drv_bus (iec_update_ports b) = drv_bus b" "drv_data (iec_update_ports b) = drv_data b" "cpu_bus (iec_update_ports b) = cpu_bus b"
  by (simp_all add: iec_update_ports_def Let_def)

lemma update_ports_port:
  "cpu_port (iec_update_ports b) = fold (\<lambda>u p. p AND drv_bus b ! u) [4..<12] (cpu_bus b)"
  "drv_port (iec_update_ports b) =
     (drop_bit 4 (cpu_port (iec_update_ports b)) AND 0x4) OR drop_bit 7 (cpu_port (iec_update_ports b)) OR (push_bit 3 (cpu_bus b) AND 0x80)"
  by (simp_all only: iec_update_ports_def Let_def NUM_DISK_UNITS_def iecbus.simps iecbus.select_convs iecbus.update_convs) simp_all

lemma update_ports_idem [simp]: "iec_update_ports (iec_update_ports b) = iec_update_ports b"
  by (simp add: iec_update_ports_def Let_def)

lemma bit_fold_and: "bit (fold (\<lambda>u p. p AND f u) us x) n \<longleftrightarrow> bit x n \<and> (\<forall>u\<in>set us. bit (f u) n)" for x :: u8
  by (induction us arbitrary: x) (auto simp: bit_and_iff)

lemma drive_lines_bits:
  "bit (drive_lines t d c) 6 = bit d 3"
  "bit (drive_lines t d c) 7 = (bit d 1 \<and> (if newer_drive t then bit d 4 \<or> bit c 4 else bit d 4 = bit c 4))"
  by (auto simp: drive_lines_def lines_1541_def lines_1581_def bit_simps)

lemma drive_store_lines: "drive_store t dnr byte old = port_store (drive_lines t) dnr byte old"
  by (auto simp: drive_store_def drive_lines_def [abs_def] newer_drive_def via1d1541_store_prb_def cia1581_store_ciapb_def
      via4000_store_pra_def cmdhd_store_prb10_def DRIVE_TYPE_1581_def DRIVE_TYPE_2000_def DRIVE_TYPE_4000_def DRIVE_TYPE_CMDHD_def)

lemma store_right:
  assumes "bus_right e dev b" "dnr < 4"
  shows "bus_right e dev (drive_store (unit_type (units e ! dnr)) dnr byte old b)"
  using assms by (auto simp: bus_right_def drive_store_lines port_store_def nth_list_update add.commute)

lemma device_write_right:
  assumes "bus_right e dev b" "dev ! u \<noteq> IECBUS_DEVICE_TRUEDRIVE" "u < 16"
  shows "bus_right e dev (device_write u data b)"
  using assms by (auto simp: bus_right_def device_write_def nth_list_update)


lemma fold_inv: "P (fold f xs b)" if "P b" "\<And>x b. x \<in> set xs \<Longrightarrow> P b \<Longrightarrow> P (f x b)"
  using that by (induction xs arbitrary: b) auto

text \<open>Sizes of the arrays, which all of this keeps.\<close>

definition sized :: "iecbus \<Rightarrow> bool" where
  "sized b \<longleftrightarrow> length (drv_bus b) = 16 \<and> length (drv_data b) = 16"

lemma sized_store: "sized b \<Longrightarrow> sized (drive_store t dnr byte old b)"
  by (simp add: sized_def drive_store_lines port_store_def)

lemma sized_execute_one: "sized b \<Longrightarrow> sized (drive_cpu_execute_one e d clk b)"
  unfolding drive_cpu_execute_one_def
  by (rule fold_inv [where P = sized]) (simp_all add: sized_store split_beta)

lemma sized_execute_all: "sized b \<Longrightarrow> sized (drive_cpu_execute_all e clk b)"
  unfolding drive_cpu_execute_all_def
  by (rule fold_inv [where P = sized]) (simp_all add: sized_execute_one)

lemma sized_serial: "sized b \<Longrightarrow> sized (serial_iec_device_exec e clk b)"
  unfolding serial_iec_device_exec_def
  by (rule fold_inv [where P = sized]) (simp_all add: sized_def device_write_def split_beta)

lemma execute_one_right: "bus_right e dev b \<Longrightarrow> d < 4 \<Longrightarrow> bus_right e dev (drive_cpu_execute_one e d clk b)"
  unfolding drive_cpu_execute_one_def
  by (rule fold_inv [where P = "bus_right e dev"]) (simp_all add: store_right split_beta)

lemma execute_all_right: "bus_right e dev b \<Longrightarrow> bus_right e dev (drive_cpu_execute_all e clk b)"
  unfolding drive_cpu_execute_all_def
  by (rule fold_inv [where P = "bus_right e dev"]) (simp_all add: execute_one_right NUM_DISK_UNITS_def)

lemma serial_right:
  assumes "bus_right e dev b" "\<forall>(u, data)\<in>set (serial_writes e clk b). u \<in> {4..<12} \<and> dev ! u = IECBUS_DEVICE_IECDEVICE"
  shows "bus_right e dev (serial_iec_device_exec e clk b)"
  unfolding serial_iec_device_exec_def
  by (rule fold_inv [where P = "bus_right e dev", OF assms(1)]) (use assms(2) in \<open>auto intro!: device_write_right\<close>)

text \<open>Refreshing the true drives makes the bus right, whatever it was before.\<close>

lemma refresh_fields:
  "drv_data (fold (refresh_drive e) ds b) = drv_data b" "cpu_bus (fold (refresh_drive e) ds b) = cpu_bus b"
  "length (drv_bus (fold (refresh_drive e) ds b)) = length (drv_bus b)"
  by (induction ds arbitrary: b) (simp_all add: refresh_drive_def)

lemma refresh_lines:
  assumes "d \<in> set ds \<or> drv_bus b ! (8 + d) = drive_lines (unit_type (units e ! d)) (drv_data b ! (8 + d)) (cpu_bus b)"
    "length (drv_bus b) = 16" "d < 4"
  shows "drv_bus (fold (refresh_drive e) ds b) ! (8 + d) = drive_lines (unit_type (units e ! d)) (drv_data b ! (8 + d)) (cpu_bus b)"
  using assms
proof (induction ds arbitrary: b)
  case (Cons x ds)
  have f: "drv_data (refresh_drive e x b) = drv_data b" "cpu_bus (refresh_drive e x b) = cpu_bus b"
    "length (drv_bus (refresh_drive e x b)) = 16"
    using Cons.prems(2) by (simp_all add: refresh_drive_def)
  have "d \<in> set ds \<or> drv_bus (refresh_drive e x b) ! (8 + d) = drive_lines (unit_type (units e ! d)) (drv_data b ! (8 + d)) (cpu_bus b)"
    using Cons.prems by (cases "x = d") (auto simp: refresh_drive_def nth_list_update)
  with Cons.IH [of "refresh_drive e x b"] Cons.prems(3) show ?case by (simp add: f)
qed simp

lemma write_right:
  assumes "sized (bus st)" "iecbus_cpu_write_conf3 e data clk st = (signals, st')"
  shows "bus_right e (iecbus_device st) (bus st') \<and> st' = st\<lparr>bus := bus st', iec_old_atn := iec_old_atn st'\<rparr>"
proof -
  define b where "b = iec_update_cpu_bus data (serial_iec_device_exec e clk (drive_cpu_execute_all e clk (bus st)))"
  have b: "sized b" using sized_serial [OF sized_execute_all [OF assms(1)]] by (simp add: b_def sized_def iec_update_cpu_bus_def)
  define ds where "ds = filter (\<lambda>dnr. iecbus_device st ! (8 + dnr) = IECBUS_DEVICE_TRUEDRIVE) [0..<NUM_DISK_UNITS]"
  have st': "st' = st\<lparr>bus := iec_update_ports (fold (refresh_drive e) ds b), iec_old_atn := cpu_bus b AND 0x10\<rparr>"
    using assms(2) by (simp add: iecbus_cpu_write_conf3_def b_def [symmetric] ds_def [symmetric] Let_def)
  have "d \<in> set ds" if "d < 4" "iecbus_device st ! (8 + d) = IECBUS_DEVICE_TRUEDRIVE" for d
    using that by (simp add: ds_def NUM_DISK_UNITS_def)
  then show ?thesis
    using b refresh_lines [of _ ds b e] by (simp add: st' bus_right_def sized_def refresh_fields)
qed

lemma bus_right_lines:
  assumes "bus_right e (iecbus_device st) (bus st)"
  shows "lines_right e st"
proof -
  let ?b = "bus st"
  have "iec_update_ports ?b = ?b" using assms by (simp add: bus_right_def)
  then have up: "cpu_port ?b = fold (\<lambda>u p. p AND drv_bus ?b ! u) [4..<12] (cpu_bus ?b)"
    "drv_port ?b = (drop_bit 4 (cpu_port ?b) AND 0x4) OR drop_bit 7 (cpu_port ?b) OR (push_bit 3 (cpu_bus ?b) AND 0x80)"
    using update_ports_port [of ?b] by metis+
  have p: "bit (drv_port ?b) 0 = bit (cpu_port ?b) 7" "bit (drv_port ?b) 2 = bit (cpu_port ?b) 6" "bit (drv_port ?b) 7 = bit (cpu_bus ?b) 4"
    using bit_imp_le_length [of "cpu_port ?b"] unfolding up(2) by (auto simp: bit_simps dest: bit_imp_le_length)
  have c: "bit (cpu_port ?b) l \<longleftrightarrow> bit (cpu_bus ?b) l \<and> (\<forall>u\<in>{4..<12}. bit (drv_bus ?b ! u) l)" for l
    unfolding up(1) bit_fold_and set_upt ..
  show ?thesis
    using assms unfolding lines_right_def Let_def by (auto simp: p c bus_right_def drive_lines_bits)
qed


lemma ready_write:
  assumes "iec_ready e st" "iecbus_callback_write e data clk st = Some (signals, st')"
  shows "iec_ready e st' \<and> bus_right e (iecbus_device st') (bus st') \<and> ports_set st' = ports_set st \<and> iecbus_device st' = iecbus_device st"
proof -
  have w: "iecbus_cpu_write_conf3 e data clk st = (signals, st')"
    using iec_single_drive_handlers_general [OF assms(1)] assms(2) by simp
  have "sized (bus st)" using assms(1) by (simp add: iec_ready_def sized_def)
  from write_right [OF this w] obtain b a where st': "st' = st\<lparr>bus := b, iec_old_atn := a\<rparr>" and r: "bus_right e (iecbus_device st) b"
    by (metis iec_state.select_convs(1) iec_state.surjective iec_state.update_convs(1))
  show ?thesis using assms(1) r by (auto simp: st' iec_ready_def bus_right_def)
qed

lemma ready_steps:
  assumes "iec_ready e st" "bus_right e (iecbus_device st) (bus st)" "\<forall>op\<in>set ops. op_allowed st op"
  shows "\<exists>st'. run_iec e ops st = Some st' \<and> bus_right e (iecbus_device st') (bus st')"
  using assms
proof (induction ops arbitrary: st)
  case (Cons op ops)
  have bus_only: ?case if "run_iec e (op # ops) st = run_iec e ops (st\<lparr>bus := b\<rparr>)" "bus_right e (iecbus_device st) b" for b
  proof -
    have "iec_ready e (st\<lparr>bus := b\<rparr>)" using Cons.prems(1) that(2) by (auto simp: iec_ready_def bus_right_def)
    moreover have "op_allowed (st\<lparr>bus := b\<rparr>) q = op_allowed st q" for q by (cases q) simp_all
    ultimately show ?thesis using Cons.IH [of "st\<lparr>bus := b\<rparr>"] Cons.prems(3) that by simp
  qed
  show ?case
  proof (cases op)
    case (Cpu_write data clk)
    obtain signals st1 where w: "iecbus_callback_write e data clk st = Some (signals, st1)"
      using iec_single_drive_handlers_general [OF Cons.prems(1)] by fastforce
    note r = ready_write [OF Cons.prems(1) w]
    then have "op_allowed st1 q = op_allowed st q" for q by (cases q) simp_all
    then show ?thesis using Cons.IH [of st1] r Cons.prems(3) w Cpu_write by auto
  next
    case (Cpu_read clk)
    define b where "b = serial_iec_device_exec e clk (drive_cpu_execute_all e clk (bus st))"
    have "bus_right e (iecbus_device st) b"
      unfolding b_def by (intro serial_right execute_all_right) (use Cons.prems in \<open>auto simp: iec_ready_def\<close>)
    moreover have "run_iec e (op # ops) st = run_iec e ops (st\<lparr>bus := b\<rparr>)"
      using iec_single_drive_handlers_general [OF Cons.prems(1)] Cpu_read
      by (simp add: iecbus_cpu_read_conf3_def b_def Let_def)
    ultimately show ?thesis by (rule bus_only [rotated])
  next
    case (Device_write u data)
    with Cons.prems have "u \<in> {4..<12}" "iecbus_device st ! u = IECBUS_DEVICE_IECDEVICE" "ports_set st" by auto
    then show ?thesis using bus_only [of "device_write u data (bus st)"] device_write_right [OF Cons.prems(2), of u data] Device_write
      by (simp add: iecbus_device_write_def IECBUS_NUM_def)
  next
    case (Drive_store dnr byte old)
    with Cons.prems have "dnr < 4" by auto
    then show ?thesis using bus_only store_right [OF Cons.prems(2)] Drive_store by simp
  qed
qed simp

text \<open>
  C14. After a write of the computer the lines of the bus are right and stay so whatever the
  computer, the drives and the serial devices do: CLK and DATA are high exactly when the computer
  and every unit leave them high, the drives see them and ATN, and what a drive pulls follows
  from its port and the lines of the computer, also when these changed after the store.
\<close>

theorem iec_lines_wired_and:
  assumes "iec_ready e st" "\<forall>op\<in>set ops. op_allowed st op"
  shows "\<exists>st'. run_iec e (Cpu_write data clk # ops) st = Some st' \<and> lines_right e st'"
proof -
  obtain signals st1 where w: "iecbus_callback_write e data clk st = Some (signals, st1)"
    using iec_single_drive_handlers_general [OF assms(1)] by fastforce
  note r = ready_write [OF assms(1) w]
  then have "op_allowed st1 q = op_allowed st q" for q by (cases q) simp_all
  then obtain st' where "run_iec e ops st1 = Some st'" "bus_right e (iecbus_device st') (bus st')"
    using ready_steps [of e st1 ops] r assms(2) by auto
  then show ?thesis using bus_right_lines w by auto
qed

theorem iec_lines_wired_and_witness:
  "\<exists>st'. run_iec demo_units [Cpu_write 0x07 1, Cpu_read 5, Drive_store 0 0x02 0x12, Cpu_write 0x3f 6] demo_iec = Some st' \<and> lines_right demo_units st'"
  by (rule iec_lines_wired_and [OF demo_ready]) simp

end
