(* ===== verification/Snapshot.thy ===== *)
theory Snapshot
  imports Vice_Prelude
begin

text \<open>
  Snapshot files, \<^verbatim>\<open>src/src/snapshot.c\<close>: a header, then modules of named, versioned,
  length-prefixed data in little-endian order. A stdio file is its bytes, the position and
  the size at which the device is full (\<^verbatim>\<open>fputc\<close> fails there); \<^verbatim>\<open>snapshot_error\<close> is kept
  with it. Left out: \<^verbatim>\<open>current_fpos\<close>, \<^verbatim>\<open>current_module\<close> and \<^verbatim>\<open>current_filename\<close>, which only
  feed error messages, and the two routines for host doubles. C strings are byte lists
  without the terminator.
\<close>

section \<open>Files\<close>

record sfile =
  sf_bytes :: "u8 list"
  sf_pos :: nat
  sf_limit :: nat
  sf_error :: nat

definition put_at :: "nat \<Rightarrow> u8 \<Rightarrow> u8 list \<Rightarrow> u8 list" where
  "put_at p c bs = (if p < length bs then bs[p := c]
     else bs @ replicate (p - length bs) 0 @ [c])"

text \<open>stdio's \<^verbatim>\<open>fputc\<close>, \<^verbatim>\<open>fgetc\<close> and \<^verbatim>\<open>fseek(f, p, SEEK_SET)\<close>.\<close>

definition fputc :: "u8 \<Rightarrow> sfile \<Rightarrow> bool \<times> sfile" where
  "fputc c f = (if sf_pos f < sf_limit f
     then (True, f\<lparr>sf_bytes := put_at (sf_pos f) c (sf_bytes f), sf_pos := sf_pos f + 1\<rparr>)
     else (False, f))"

definition fgetc :: "sfile \<Rightarrow> u8 option \<times> sfile" where
  "fgetc f = (if sf_pos f < length (sf_bytes f)
     then (Some (sf_bytes f ! sf_pos f), f\<lparr>sf_pos := sf_pos f + 1\<rparr>) else (None, f))"

definition fseek_set :: "nat \<Rightarrow> sfile \<Rightarrow> sfile" where
  "fseek_set p f = f\<lparr>sf_pos := p\<rparr>"

definition set_error :: "nat \<Rightarrow> sfile \<Rightarrow> sfile" where
  "set_error e f = f\<lparr>sf_error := e\<rparr>"

text \<open>
  A writer returns \<open>True\<close> for 0 and \<open>False\<close> for -1; a reader returns the value stored
  through its pointer, or \<open>None\<close> for -1. \<open>wseq\<close> and \<open>rbind\<close> are the short-circuit chains
  \<^verbatim>\<open>a < 0 || b < 0\<close>.
\<close>

definition wseq :: "('s \<Rightarrow> bool \<times> 's) \<Rightarrow> ('s \<Rightarrow> bool \<times> 's) \<Rightarrow> 's \<Rightarrow> bool \<times> 's" where
  "wseq a b s = (case a s of (True, s') \<Rightarrow> b s' | (False, s') \<Rightarrow> (False, s'))"

definition rbind :: "('s \<Rightarrow> 'a option \<times> 's) \<Rightarrow> ('a \<Rightarrow> 's \<Rightarrow> 'b option \<times> 's) \<Rightarrow> 's \<Rightarrow> 'b option \<times> 's" where
  "rbind r k s = (case r s of (Some x, s') \<Rightarrow> k x s' | (None, s') \<Rightarrow> (None, s'))"

definition rret :: "'a \<Rightarrow> 's \<Rightarrow> 'a option \<times> 's" where
  "rret x s = (Some x, s)"

section \<open>Error codes\<close>

definition SNAPSHOT_WRITE_EOF_ERROR :: nat where "SNAPSHOT_WRITE_EOF_ERROR = 1"
definition SNAPSHOT_WRITE_BYTE_ARRAY_ERROR :: nat where "SNAPSHOT_WRITE_BYTE_ARRAY_ERROR = 2"
definition SNAPSHOT_READ_EOF_ERROR :: nat where "SNAPSHOT_READ_EOF_ERROR = 3"
definition SNAPSHOT_READ_BYTE_ARRAY_ERROR :: nat where "SNAPSHOT_READ_BYTE_ARRAY_ERROR = 4"
definition SNAPSHOT_ILLEGAL_STRING_LENGTH_ERROR :: nat where
  "SNAPSHOT_ILLEGAL_STRING_LENGTH_ERROR = 5"
definition SNAPSHOT_READ_OUT_OF_BOUNDS_ERROR :: nat where "SNAPSHOT_READ_OUT_OF_BOUNDS_ERROR = 6"
definition SNAPSHOT_MODULE_HEADER_READ_ERROR :: nat where "SNAPSHOT_MODULE_HEADER_READ_ERROR = 9"
definition SNAPSHOT_MODULE_CLOSE_ERROR :: nat where "SNAPSHOT_MODULE_CLOSE_ERROR = 11"
definition SNAPSHOT_CANNOT_WRITE_MAGIC_STRING_ERROR :: nat where
  "SNAPSHOT_CANNOT_WRITE_MAGIC_STRING_ERROR = 14"
definition SNAPSHOT_CANNOT_WRITE_VERSION_ERROR :: nat where
  "SNAPSHOT_CANNOT_WRITE_VERSION_ERROR = 15"
definition SNAPSHOT_CANNOT_WRITE_MACHINE_NAME_ERROR :: nat where
  "SNAPSHOT_CANNOT_WRITE_MACHINE_NAME_ERROR = 16"
definition SNAPSHOT_MAGIC_STRING_MISMATCH_ERROR :: nat where
  "SNAPSHOT_MAGIC_STRING_MISMATCH_ERROR = 18"
definition SNAPSHOT_CANNOT_READ_VERSION_ERROR :: nat where "SNAPSHOT_CANNOT_READ_VERSION_ERROR = 19"
definition SNAPSHOT_CANNOT_READ_MACHINE_NAME_ERROR :: nat where
  "SNAPSHOT_CANNOT_READ_MACHINE_NAME_ERROR = 20"
definition SNAPSHOT_MACHINE_MISMATCH_ERROR :: nat where "SNAPSHOT_MACHINE_MISMATCH_ERROR = 21"

text \<open>\<^verbatim>\<open>SNAPSHOT_MACHINE_NAME_LEN\<close> and \<^verbatim>\<open>SNAPSHOT_MODULE_NAME_LEN\<close>, both 16.\<close>

definition name_field_len :: nat where "name_field_len = 16"

section \<open>Writing to a file\<close>

definition snapshot_write_byte :: "u8 \<Rightarrow> sfile \<Rightarrow> bool \<times> sfile" where
  "snapshot_write_byte data f = (case fputc data f of
     (True, f') \<Rightarrow> (True, f') | (False, f') \<Rightarrow> (False, set_error SNAPSHOT_WRITE_EOF_ERROR f'))"

definition snapshot_write_word :: "u16 \<Rightarrow> sfile \<Rightarrow> bool \<times> sfile" where
  "snapshot_write_word data = wseq (snapshot_write_byte (ucast (data AND 0xff)))
     (snapshot_write_byte (ucast (drop_bit 8 data)))"

definition snapshot_write_dword :: "u32 \<Rightarrow> sfile \<Rightarrow> bool \<times> sfile" where
  "snapshot_write_dword data = wseq (snapshot_write_word (ucast (data AND 0xffff)))
     (snapshot_write_word (ucast (drop_bit 16 data)))"

definition snapshot_write_qword :: "u64 \<Rightarrow> sfile \<Rightarrow> bool \<times> sfile" where
  "snapshot_write_qword data = wseq (snapshot_write_dword (ucast (data AND 0xffffffff)))
     (snapshot_write_dword (ucast (drop_bit 32 data)))"

fun snapshot_write_padded_string :: "u8 list \<Rightarrow> u8 \<Rightarrow> nat \<Rightarrow> sfile \<Rightarrow> bool \<times> sfile" where
  "snapshot_write_padded_string s pad_char 0 f = (True, f)"
| "snapshot_write_padded_string s pad_char (Suc len) f =
     wseq (snapshot_write_byte (case s of [] \<Rightarrow> pad_char | c # _ \<Rightarrow> c))
       (snapshot_write_padded_string (tl s) pad_char len) f"

text \<open>\<^verbatim>\<open>fwrite\<close> of a whole array: bytes are stored up to the device limit.\<close>

fun fwrite :: "u8 list \<Rightarrow> sfile \<Rightarrow> bool \<times> sfile" where
  "fwrite [] f = (True, f)"
| "fwrite (b # bs) f = wseq (fputc b) (fwrite bs) f"

definition snapshot_write_byte_array :: "u8 list \<Rightarrow> sfile \<Rightarrow> bool \<times> sfile" where
  "snapshot_write_byte_array data f = (case fwrite data f of
     (True, f') \<Rightarrow> (True, f')
   | (False, f') \<Rightarrow> (False, set_error SNAPSHOT_WRITE_BYTE_ARRAY_ERROR f'))"

fun snapshot_write_word_array :: "u16 list \<Rightarrow> sfile \<Rightarrow> bool \<times> sfile" where
  "snapshot_write_word_array [] f = (True, f)"
| "snapshot_write_word_array (w # ws) f =
     wseq (snapshot_write_word w) (snapshot_write_word_array ws) f"

fun snapshot_write_dword_array :: "u32 list \<Rightarrow> sfile \<Rightarrow> bool \<times> sfile" where
  "snapshot_write_dword_array [] f = (True, f)"
| "snapshot_write_dword_array (w # ws) f =
     wseq (snapshot_write_dword w) (snapshot_write_dword_array ws) f"

fun write_bytes_loop :: "u8 list \<Rightarrow> sfile \<Rightarrow> bool \<times> sfile" where
  "write_bytes_loop [] f = (True, f)"
| "write_bytes_loop (b # bs) f = wseq (snapshot_write_byte b) (write_bytes_loop bs) f"

text \<open>
  \<^verbatim>\<open>snapshot_write_string\<close>: \<open>None\<close> is the NULL pointer; the length written is the number of
  bytes with the terminator, cut to 16 bits, but every byte follows. The result is the
  number of bytes, or \<open>None\<close> for -1.
\<close>

definition snapshot_write_string :: "u8 list option \<Rightarrow> sfile \<Rightarrow> nat option \<times> sfile" where
  "snapshot_write_string s f =
     (let bytes = (case s of None \<Rightarrow> [] | Some cs \<Rightarrow> cs @ [0])
      in case wseq (snapshot_write_word (of_nat (length bytes))) (write_bytes_loop bytes) f of
           (True, f') \<Rightarrow> (Some (length bytes + 2), f')
         | (False, f') \<Rightarrow> (None, f'))"

section \<open>Reading from a file\<close>

definition snapshot_read_byte :: "sfile \<Rightarrow> u8 option \<times> sfile" where
  "snapshot_read_byte f = (case fgetc f of
     (Some c, f') \<Rightarrow> (Some c, f') | (None, f') \<Rightarrow> (None, set_error SNAPSHOT_READ_EOF_ERROR f'))"

definition snapshot_read_word :: "sfile \<Rightarrow> u16 option \<times> sfile" where
  "snapshot_read_word = rbind snapshot_read_byte (\<lambda>lo. rbind snapshot_read_byte (\<lambda>hi.
     rret (ucast lo OR push_bit 8 (ucast hi))))"

definition snapshot_read_dword :: "sfile \<Rightarrow> u32 option \<times> sfile" where
  "snapshot_read_dword = rbind snapshot_read_word (\<lambda>lo. rbind snapshot_read_word (\<lambda>hi.
     rret (ucast lo OR push_bit 16 (ucast hi))))"

definition snapshot_read_qword :: "sfile \<Rightarrow> u64 option \<times> sfile" where
  "snapshot_read_qword = rbind snapshot_read_dword (\<lambda>lo. rbind snapshot_read_dword (\<lambda>hi.
     rret (ucast lo OR push_bit 32 (ucast hi))))"

text \<open>\<^verbatim>\<open>fread\<close> of a whole array succeeds only when all of it is there.\<close>

definition snapshot_read_byte_array :: "nat \<Rightarrow> sfile \<Rightarrow> u8 list option \<times> sfile" where
  "snapshot_read_byte_array num f =
     (if num > 0 \<and> length (sf_bytes f) < sf_pos f + num
      then (None, set_error SNAPSHOT_READ_BYTE_ARRAY_ERROR
             (f\<lparr>sf_pos := max (sf_pos f) (length (sf_bytes f))\<rparr>))
      else (Some (take num (drop (sf_pos f) (sf_bytes f))), f\<lparr>sf_pos := sf_pos f + num\<rparr>))"

fun snapshot_read_word_array :: "nat \<Rightarrow> sfile \<Rightarrow> u16 list option \<times> sfile" where
  "snapshot_read_word_array 0 f = (Some [], f)"
| "snapshot_read_word_array (Suc num) f = rbind snapshot_read_word (\<lambda>w.
     rbind (snapshot_read_word_array num) (\<lambda>ws. rret (w # ws))) f"

fun snapshot_read_dword_array :: "nat \<Rightarrow> sfile \<Rightarrow> u32 list option \<times> sfile" where
  "snapshot_read_dword_array 0 f = (Some [], f)"
| "snapshot_read_dword_array (Suc num) f = rbind snapshot_read_dword (\<lambda>w.
     rbind (snapshot_read_dword_array num) (\<lambda>ws. rret (w # ws))) f"

fun read_bytes_loop :: "nat \<Rightarrow> sfile \<Rightarrow> u8 list option \<times> sfile" where
  "read_bytes_loop 0 f = (Some [], f)"
| "read_bytes_loop (Suc n) f = rbind snapshot_read_byte (\<lambda>b.
     rbind (read_bytes_loop n) (\<lambda>bs. rret (b # bs))) f"

text \<open>
  \<^verbatim>\<open>snapshot_read_string\<close>: a zero length leaves the NULL pointer; otherwise the last byte
  is overwritten with the terminator, and the C string ends at the first zero byte.
\<close>

definition snapshot_read_string :: "sfile \<Rightarrow> u8 list option option \<times> sfile" where
  "snapshot_read_string = rbind snapshot_read_word (\<lambda>w.
     if w = 0 then rret None
     else rbind (read_bytes_loop (unat w)) (\<lambda>p. rret (Some (takeWhile (\<lambda>c. c \<noteq> 0) (butlast p)))))"

section \<open>Modules\<close>

record snapshot_module =
  m_write_mode :: bool
  m_size :: u32
  m_offset :: nat
  m_size_offset :: nat

type_synonym mstate = "snapshot_module \<times> sfile"

text \<open>
  The module writers share one shape: write to the file, and on success add the number of
  bytes to the size. \<open>mwrite w n\<close> is that shape.
\<close>

definition mwrite :: "(sfile \<Rightarrow> bool \<times> sfile) \<Rightarrow> u32 \<Rightarrow> mstate \<Rightarrow> bool \<times> mstate" where
  "mwrite w n st = (case w (snd st) of
     (True, f') \<Rightarrow> (True, (fst st)\<lparr>m_size := m_size (fst st) + n\<rparr>, f')
   | (False, f') \<Rightarrow> (False, fst st, f'))"

definition snapshot_module_write_byte :: "u8 \<Rightarrow> mstate \<Rightarrow> bool \<times> mstate" where
  "snapshot_module_write_byte b = mwrite (snapshot_write_byte b) 1"

definition snapshot_module_write_word :: "u16 \<Rightarrow> mstate \<Rightarrow> bool \<times> mstate" where
  "snapshot_module_write_word w = mwrite (snapshot_write_word w) 2"

definition snapshot_module_write_dword :: "u32 \<Rightarrow> mstate \<Rightarrow> bool \<times> mstate" where
  "snapshot_module_write_dword dw = mwrite (snapshot_write_dword dw) 4"

definition snapshot_module_write_qword :: "u64 \<Rightarrow> mstate \<Rightarrow> bool \<times> mstate" where
  "snapshot_module_write_qword qw = mwrite (snapshot_write_qword qw) 8"

definition snapshot_module_write_padded_string :: "u8 list \<Rightarrow> u8 \<Rightarrow> nat \<Rightarrow> mstate \<Rightarrow> bool \<times> mstate" where
  "snapshot_module_write_padded_string s pad_char len =
     mwrite (snapshot_write_padded_string s pad_char len) (of_nat len)"

definition snapshot_module_write_byte_array :: "u8 list \<Rightarrow> mstate \<Rightarrow> bool \<times> mstate" where
  "snapshot_module_write_byte_array b = mwrite (snapshot_write_byte_array b) (of_nat (length b))"

definition snapshot_module_write_word_array :: "u16 list \<Rightarrow> mstate \<Rightarrow> bool \<times> mstate" where
  "snapshot_module_write_word_array w =
     mwrite (snapshot_write_word_array w) (of_nat (length w * 2))"

definition snapshot_module_write_dword_array :: "u32 list \<Rightarrow> mstate \<Rightarrow> bool \<times> mstate" where
  "snapshot_module_write_dword_array dw =
     mwrite (snapshot_write_dword_array dw) (of_nat (length dw * 4))"

definition snapshot_module_write_string :: "u8 list option \<Rightarrow> mstate \<Rightarrow> bool \<times> mstate" where
  "snapshot_module_write_string s st = (case snapshot_write_string s (snd st) of
     (None, f') \<Rightarrow> (False, fst st, set_error SNAPSHOT_ILLEGAL_STRING_LENGTH_ERROR f')
   | (Some len, f') \<Rightarrow> (True, (fst st)\<lparr>m_size := m_size (fst st) + of_nat len\<rparr>, f'))"

text \<open>The module readers refuse to read past the end of the module.\<close>

definition mread :: "(sfile \<Rightarrow> 'a option \<times> sfile) \<Rightarrow> nat \<Rightarrow> mstate \<Rightarrow> 'a option \<times> mstate" where
  "mread r n st =
     (if sf_pos (snd st) + n > m_offset (fst st) + unat (m_size (fst st))
      then (None, fst st, set_error SNAPSHOT_READ_OUT_OF_BOUNDS_ERROR (snd st))
      else (case r (snd st) of (v, f') \<Rightarrow> (v, fst st, f')))"

definition snapshot_module_read_byte :: "mstate \<Rightarrow> u8 option \<times> mstate" where
  "snapshot_module_read_byte = mread snapshot_read_byte 1"

definition snapshot_module_read_word :: "mstate \<Rightarrow> u16 option \<times> mstate" where
  "snapshot_module_read_word = mread snapshot_read_word 2"

definition snapshot_module_read_dword :: "mstate \<Rightarrow> u32 option \<times> mstate" where
  "snapshot_module_read_dword = mread snapshot_read_dword 4"

definition snapshot_module_read_qword :: "mstate \<Rightarrow> u64 option \<times> mstate" where
  "snapshot_module_read_qword = mread snapshot_read_qword 8"

definition snapshot_module_read_byte_array :: "nat \<Rightarrow> mstate \<Rightarrow> u8 list option \<times> mstate" where
  "snapshot_module_read_byte_array num = mread (snapshot_read_byte_array num) num"

definition snapshot_module_read_word_array :: "nat \<Rightarrow> mstate \<Rightarrow> u16 list option \<times> mstate" where
  "snapshot_module_read_word_array num = mread (snapshot_read_word_array num) (num * 2)"

definition snapshot_module_read_dword_array :: "nat \<Rightarrow> mstate \<Rightarrow> u32 list option \<times> mstate" where
  "snapshot_module_read_dword_array num = mread (snapshot_read_dword_array num) (num * 4)"

definition snapshot_module_read_string :: "mstate \<Rightarrow> u8 list option option \<times> mstate" where
  "snapshot_module_read_string = mread snapshot_read_string 2"

text \<open>The \<^verbatim>\<open>_into_int\<close> readers widen the value they read.\<close>

definition snapshot_module_read_byte_into_int :: "mstate \<Rightarrow> u32 option \<times> mstate" where
  "snapshot_module_read_byte_into_int = rbind snapshot_module_read_byte (\<lambda>b. rret (ucast b))"

definition snapshot_module_read_word_into_int :: "mstate \<Rightarrow> u32 option \<times> mstate" where
  "snapshot_module_read_word_into_int = rbind snapshot_module_read_word (\<lambda>b. rret (ucast b))"

definition snapshot_module_read_dword_into_int :: "mstate \<Rightarrow> u32 option \<times> mstate" where
  "snapshot_module_read_dword_into_int = rbind snapshot_module_read_dword (\<lambda>b. rret b)"

text \<open>A failing header write leaks the module in C; here it is just \<open>None\<close>.\<close>

definition snapshot_module_create :: "u8 list \<Rightarrow> u8 \<Rightarrow> u8 \<Rightarrow> sfile \<Rightarrow> snapshot_module option \<times> sfile" where
  "snapshot_module_create name major_version minor_version f =
     (let off = sf_pos f
      in case wseq (snapshot_write_padded_string name 0 name_field_len)
           (wseq (snapshot_write_byte major_version)
             (wseq (snapshot_write_byte minor_version) (snapshot_write_dword 0))) f of
           (False, f') \<Rightarrow> (None, f')
         | (True, f') \<Rightarrow> (Some \<lparr>m_write_mode = True, m_size = of_nat (sf_pos f' - off),
               m_offset = off, m_size_offset = sf_pos f' - 4\<rparr>, f'))"

text \<open>
  The search loop of \<^verbatim>\<open>snapshot_module_open\<close>. The outer \<open>None\<close> is a search that has not ended
  within the fuel; otherwise the module and its version bytes, or \<open>None\<close> for NULL.
\<close>

definition read_module_header :: "sfile \<Rightarrow> (u8 list \<times> u8 \<times> u8 \<times> u32) option \<times> sfile" where
  "read_module_header = rbind (snapshot_read_byte_array name_field_len) (\<lambda>n.
     rbind snapshot_read_byte (\<lambda>major. rbind snapshot_read_byte (\<lambda>minor.
       rbind snapshot_read_dword (\<lambda>sz. rret (n, major, minor, sz)))))"

definition module_name_matches :: "u8 list \<Rightarrow> u8 list \<Rightarrow> bool" where
  "module_name_matches n name \<longleftrightarrow> take (length name) n = name
     \<and> (length name = name_field_len \<or> n ! length name = 0)"

fun module_search :: "nat \<Rightarrow> nat \<Rightarrow> u8 list \<Rightarrow> nat \<Rightarrow> sfile \<Rightarrow>
    ((snapshot_module \<times> u8 \<times> u8) option \<times> sfile) option" where
  "module_search 0 first_off name off f = None"
| "module_search (Suc fuel) first_off name off f =
     (case read_module_header f of
        (None, f') \<Rightarrow>
          Some (None, fseek_set first_off (set_error SNAPSHOT_MODULE_HEADER_READ_ERROR f'))
      | (Some (n, major, minor, sz), f') \<Rightarrow>
          if module_name_matches n name
          then Some (Some (\<lparr>m_write_mode = False, m_size = sz, m_offset = off,
                            m_size_offset = sf_pos f' - 4\<rparr>, major, minor), f')
          else module_search fuel first_off name (off + unat sz)
                 (fseek_set (off + unat sz) f'))"

definition snapshot_module_open :: "nat \<Rightarrow> nat \<Rightarrow> u8 list \<Rightarrow> sfile \<Rightarrow>
    ((snapshot_module \<times> u8 \<times> u8) option \<times> sfile) option" where
  "snapshot_module_open fuel first_module_offset name f =
     module_search fuel first_module_offset name first_module_offset
       (fseek_set first_module_offset f)"

text \<open>\<^verbatim>\<open>snapshot_module_close\<close>: back-patch the size when writing, then skip the module.\<close>

definition snapshot_module_close :: "mstate \<Rightarrow> bool \<times> sfile" where
  "snapshot_module_close st =
     (let m = fst st; f = snd st
      in if m_write_mode m
         then (case snapshot_write_dword (m_size m) (fseek_set (m_size_offset m) f) of
                 (False, f') \<Rightarrow> (False, set_error SNAPSHOT_MODULE_CLOSE_ERROR f')
               | (True, f') \<Rightarrow> (True, fseek_set (m_offset m + unat (m_size m)) f'))
         else (True, fseek_set (m_offset m + unat (m_size m)) f))"

section \<open>Snapshot headers\<close>

definition snapshot_magic_string :: "u8 list" where
  "snapshot_magic_string = map of_char ''VICE Snapshot File'' @ [26]"

definition snapshot_version_magic_string :: "u8 list" where
  "snapshot_version_magic_string = map of_char ''VICE Version'' @ [26]"

definition SNAPSHOT_MAGIC_LEN :: nat where "SNAPSHOT_MAGIC_LEN = 19"
definition SNAPSHOT_VERSION_MAGIC_LEN :: nat where "SNAPSHOT_VERSION_MAGIC_LEN = 13"

text \<open>
  \<^verbatim>\<open>snapshot_create\<close> after the file is opened for writing: \<open>vv\<close> and \<open>revision\<close> are the program's
  version bytes and revision, which the build generates. The result is the offset of the
  first module; \<open>None\<close> stands for the failure path, which closes and removes the file.
\<close>

definition on_fail :: "nat \<Rightarrow> ('s \<Rightarrow> bool \<times> sfile) \<Rightarrow> 's \<Rightarrow> bool \<times> sfile" where
  "on_fail e w s = (case w s of (True, f') \<Rightarrow> (True, f') | (False, f') \<Rightarrow> (False, set_error e f'))"

definition snapshot_create :: "u8 \<Rightarrow> u8 \<Rightarrow> u8 list \<Rightarrow> u8 \<times> u8 \<times> u8 \<times> u8 \<Rightarrow> u32 \<Rightarrow> sfile
    \<Rightarrow> nat option \<times> sfile" where
  "snapshot_create major_version minor_version machine vv revision f =
     (case wseq (on_fail SNAPSHOT_CANNOT_WRITE_MAGIC_STRING_ERROR
                  (snapshot_write_padded_string snapshot_magic_string 0 SNAPSHOT_MAGIC_LEN))
          (wseq (on_fail SNAPSHOT_CANNOT_WRITE_VERSION_ERROR
                  (wseq (snapshot_write_byte major_version) (snapshot_write_byte minor_version)))
          (wseq (on_fail SNAPSHOT_CANNOT_WRITE_MACHINE_NAME_ERROR
                  (snapshot_write_padded_string machine 0 name_field_len))
          (wseq (on_fail SNAPSHOT_CANNOT_WRITE_MAGIC_STRING_ERROR
                  (snapshot_write_padded_string snapshot_version_magic_string 0
                    SNAPSHOT_VERSION_MAGIC_LEN))
          (on_fail SNAPSHOT_CANNOT_WRITE_VERSION_ERROR
             (wseq (snapshot_write_byte (fst vv))
             (wseq (snapshot_write_byte (fst (snd vv)))
             (wseq (snapshot_write_byte (fst (snd (snd vv))))
             (wseq (snapshot_write_byte (snd (snd (snd vv)))) (snapshot_write_dword revision))))))))) f of
        (True, f') \<Rightarrow> (Some (sf_pos f'), f')
      | (False, f') \<Rightarrow> (None, f'))"

definition on_none :: "nat \<Rightarrow> (sfile \<Rightarrow> 'a option \<times> sfile) \<Rightarrow> sfile \<Rightarrow> 'a option \<times> sfile" where
  "on_none e r f = (case r f of (Some x, f') \<Rightarrow> (Some x, f') | (None, f') \<Rightarrow> (None, set_error e f'))"

definition read_check :: "nat \<Rightarrow> ('a \<Rightarrow> bool) \<Rightarrow> (sfile \<Rightarrow> 'a option \<times> sfile) \<Rightarrow> sfile
    \<Rightarrow> 'a option \<times> sfile" where
  "read_check e ok r f = (case r f of
     (Some x, f') \<Rightarrow> if ok x then (Some x, f') else (None, set_error e f')
   | (None, f') \<Rightarrow> (None, set_error e f'))"

text \<open>
  \<^verbatim>\<open>snapshot_open\<close> after the file is opened: the offset of the first module and the two
  version bytes. A file without the version block is an old snapshot: the position goes
  back to where the block would be.
\<close>

definition read_vice_version :: "sfile \<Rightarrow> unit option \<times> sfile" where
  "read_vice_version f =
     (case snapshot_read_byte_array SNAPSHOT_VERSION_MAGIC_LEN f of
        (None, f') \<Rightarrow> (Some (), fseek_set (sf_pos f) f')
      | (Some magic, f') \<Rightarrow>
          if magic \<noteq> snapshot_version_magic_string then (Some (), fseek_set (sf_pos f) f')
          else on_none SNAPSHOT_CANNOT_READ_VERSION_ERROR
          (rbind snapshot_read_byte (\<lambda>_. rbind snapshot_read_byte (\<lambda>_.
           rbind snapshot_read_byte (\<lambda>_. rbind snapshot_read_byte (\<lambda>_.
           rbind snapshot_read_dword (\<lambda>_. rret ())))))) f')"

definition snapshot_open :: "u8 list \<Rightarrow> sfile \<Rightarrow> (nat \<times> u8 \<times> u8) option \<times> sfile" where
  "snapshot_open machine =
     rbind (read_check SNAPSHOT_MAGIC_STRING_MISMATCH_ERROR (\<lambda>magic. magic = snapshot_magic_string)
             (snapshot_read_byte_array SNAPSHOT_MAGIC_LEN)) (\<lambda>_.
     rbind (on_none SNAPSHOT_CANNOT_READ_VERSION_ERROR snapshot_read_byte) (\<lambda>major.
     rbind (on_none SNAPSHOT_CANNOT_READ_VERSION_ERROR snapshot_read_byte) (\<lambda>minor.
     rbind (on_none SNAPSHOT_CANNOT_READ_MACHINE_NAME_ERROR
             (snapshot_read_byte_array name_field_len)) (\<lambda>read_name.
     rbind (read_check SNAPSHOT_MACHINE_MISMATCH_ERROR (\<lambda>_. module_name_matches read_name machine)
             (rret ())) (\<lambda>_.
     rbind read_vice_version (\<lambda>_ f. (Some (sf_pos f, major, minor), f)))))))"

section \<open>Version checks\<close>

definition snapshot_version_is_equal :: "u8 \<Rightarrow> u8 \<Rightarrow> u8 \<Rightarrow> u8 \<Rightarrow> bool" where
  "snapshot_version_is_equal major_version minor_version major_required minor_required
     \<longleftrightarrow> major_version = major_required \<and> minor_version = minor_required"

definition snapshot_version_is_bigger :: "u8 \<Rightarrow> u8 \<Rightarrow> u8 \<Rightarrow> u8 \<Rightarrow> bool" where
  "snapshot_version_is_bigger major_version minor_version major_required minor_required =
     (if major_version > major_required then True
      else if major_version < major_required then False
      else if minor_version > minor_required then True else False)"

definition snapshot_version_is_smaller :: "u8 \<Rightarrow> u8 \<Rightarrow> u8 \<Rightarrow> u8 \<Rightarrow> bool" where
  "snapshot_version_is_smaller major_version minor_version major_required minor_required =
     (if major_version < major_required then True
      else if major_version > major_required then False
      else if minor_version < minor_required then True else False)"

end
