(* ===== verification/Snapshot_Codec.thy ===== *)
theory Snapshot_Codec
  imports Snapshot
begin

text \<open>
  Correctness of the snapshot writers and readers of \<^verbatim>\<open>src/src/snapshot.c\<close>: what each writer
  appends, what each reader returns on it, and the module level built on both.
\<close>

section \<open>Appending and parsing\<close>

text \<open>
  \<open>appends w bs\<close>: at the end of a file with room, the writer \<open>w\<close> succeeds and appends
  \<open>bs\<close>. \<open>parses r bs x\<close>: where the bytes at the position are \<open>bs\<close>, the reader \<open>r\<close>
  returns \<open>x\<close> and moves behind them.
\<close>

named_theorems codec \<open>rules for appends and parses\<close>

definition appends :: "(sfile \<Rightarrow> bool \<times> sfile) \<Rightarrow> u8 list \<Rightarrow> bool" where
  "appends w bs \<longleftrightarrow> (\<forall>f. sf_pos f = length (sf_bytes f)
     \<longrightarrow> sf_pos f + length bs \<le> sf_limit f
     \<longrightarrow> w f = (True, f\<lparr>sf_bytes := sf_bytes f @ bs, sf_pos := sf_pos f + length bs\<rparr>))"

definition parses :: "(sfile \<Rightarrow> 'a option \<times> sfile) \<Rightarrow> u8 list \<Rightarrow> 'a \<Rightarrow> bool" where
  "parses r bs x \<longleftrightarrow> (\<forall>f pre post. sf_bytes f = pre @ bs @ post
     \<longrightarrow> sf_pos f = length pre
     \<longrightarrow> r f = (Some x, f\<lparr>sf_pos := sf_pos f + length bs\<rparr>))"

lemma appendsI:
  "(\<And>f :: sfile. sf_pos f = length (sf_bytes f) \<Longrightarrow> sf_pos f + length bs \<le> sf_limit f \<Longrightarrow>
     w f = (True, f\<lparr>sf_bytes := sf_bytes f @ bs, sf_pos := sf_pos f + length bs\<rparr>)) \<Longrightarrow> appends w bs"
  by (simp add: appends_def)

lemma appendsD:
  "appends w bs \<Longrightarrow> sf_pos f = length (sf_bytes f) \<Longrightarrow> sf_pos f + length bs \<le> sf_limit f \<Longrightarrow>
     w f = (True, f\<lparr>sf_bytes := sf_bytes f @ bs, sf_pos := sf_pos f + length bs\<rparr>)"
  by (simp add: appends_def)

lemma parsesI:
  "(\<And>(f :: sfile) pre post. sf_bytes f = pre @ bs @ post \<Longrightarrow> sf_pos f = length pre \<Longrightarrow>
     r f = (Some x, f\<lparr>sf_pos := sf_pos f + length bs\<rparr>)) \<Longrightarrow> parses r bs x"
  by (simp add: parses_def)

lemma parsesD:
  "parses r bs x \<Longrightarrow> sf_bytes f = pre @ bs @ post \<Longrightarrow> sf_pos f = length pre \<Longrightarrow>
     r f = (Some x, f\<lparr>sf_pos := sf_pos f + length bs\<rparr>)"
  by (simp add: parses_def)

lemma appends_wseq [codec]:
  assumes a: "appends a xs" and b: "appends b ys"
  shows "appends (wseq a b) (xs @ ys)"
proof (rule appendsI)
  fix f :: sfile assume f: "sf_pos f = length (sf_bytes f)" "sf_pos f + length (xs @ ys) \<le> sf_limit f"
  have "a f = (True, f\<lparr>sf_bytes := sf_bytes f @ xs, sf_pos := sf_pos f + length xs\<rparr>)"
    using f by (intro appendsD [OF a]) auto
  moreover have "b (f\<lparr>sf_bytes := sf_bytes f @ xs, sf_pos := sf_pos f + length xs\<rparr>)
     = (True, f\<lparr>sf_bytes := sf_bytes f @ xs @ ys, sf_pos := sf_pos f + length (xs @ ys)\<rparr>)"
    using f by (subst appendsD [OF b]) auto
  ultimately show "wseq a b f
      = (True, f\<lparr>sf_bytes := sf_bytes f @ xs @ ys, sf_pos := sf_pos f + length (xs @ ys)\<rparr>)"
    by (simp add: wseq_def)
qed

lemma parses_rbind [codec]:
  assumes a: "parses r xs x" and b: "parses (k x) ys y"
  shows "parses (rbind r k) (xs @ ys) y"
proof (rule parsesI)
  fix f :: sfile and pre post assume f: "sf_bytes f = pre @ (xs @ ys) @ post" "sf_pos f = length pre"
  have "r f = (Some x, f\<lparr>sf_pos := sf_pos f + length xs\<rparr>)"
    using f by (intro parsesD [OF a]) auto
  moreover have "k x (f\<lparr>sf_pos := sf_pos f + length xs\<rparr>)
     = (Some y, f\<lparr>sf_pos := sf_pos f + length (xs @ ys)\<rparr>)"
    using f by (subst parsesD [OF b, of _ "pre @ xs" post]) auto
  ultimately show "rbind r k f = (Some y, f\<lparr>sf_pos := sf_pos f + length (xs @ ys)\<rparr>)"
    by (simp add: rbind_def)
qed

lemma parses_rret [codec]: "x = y \<Longrightarrow> parses (rret x) [] y"
  by (auto simp: parses_def rret_def)

lemma appends_nil [codec]: "appends (\<lambda>f. (True, f)) []"
  by (simp add: appends_def)

lemma put_at_end [simp]: "p = length bs \<Longrightarrow> put_at p c bs = bs @ [c]"
  by (simp add: put_at_def)

lemma appends_fputc [codec]: "appends (fputc b) [b]"
  by (simp add: appends_def fputc_def)

lemma appends_byte [codec]: "appends (snapshot_write_byte b) [b]"
  by (simp add: appends_def fputc_def snapshot_write_byte_def)

lemma parses_byte [codec]: "parses snapshot_read_byte [b] b"
  by (auto simp: parses_def snapshot_read_byte_def fgetc_def nth_append)

subsection \<open>Encodings\<close>

definition enc_word :: "u16 \<Rightarrow> u8 list" where
  "enc_word w = [ucast (w AND 0xff), ucast (drop_bit 8 w)]"

definition enc_dword :: "u32 \<Rightarrow> u8 list" where
  "enc_dword d = enc_word (ucast (d AND 0xffff)) @ enc_word (ucast (drop_bit 16 d))"

definition enc_qword :: "u64 \<Rightarrow> u8 list" where
  "enc_qword q = enc_dword (ucast (q AND 0xffffffff)) @ enc_dword (ucast (drop_bit 32 q))"

lemma length_enc [simp]:
  "length (enc_word w) = 2" "length (enc_dword d) = 4" "length (enc_qword q) = 8"
  by (simp_all add: enc_word_def enc_dword_def enc_qword_def)

lemma join_word: "ucast (ucast (w AND 0xff) :: u8) OR push_bit 8 (ucast (ucast (drop_bit 8 w) :: u8)) = (w :: u16)"
  by (rule bit_word_eqI) (auto simp: bit_simps masks)

lemma join_dword: "ucast (ucast (w AND 0xffff) :: u16) OR push_bit 16 (ucast (ucast (drop_bit 16 w) :: u16)) = (w :: u32)"
  by (rule bit_word_eqI) (auto simp: bit_simps masks)

lemma join_qword: "ucast (ucast (w AND 0xffffffff) :: u32) OR push_bit 32 (ucast (ucast (drop_bit 32 w) :: u32)) = (w :: u64)"
  by (rule bit_word_eqI) (auto simp: bit_simps masks)

lemma appends_word [codec]: "appends (snapshot_write_word w) (enc_word w)"
  using appends_wseq [OF appends_byte appends_byte]
  by (simp add: snapshot_write_word_def enc_word_def)

lemma appends_dword [codec]: "appends (snapshot_write_dword d) (enc_dword d)"
  using appends_wseq [OF appends_word appends_word]
  by (simp add: snapshot_write_dword_def enc_dword_def)

lemma appends_qword [codec]: "appends (snapshot_write_qword q) (enc_qword q)"
  using appends_wseq [OF appends_dword appends_dword]
  by (simp add: snapshot_write_qword_def enc_qword_def)

lemma parses_word [codec]: "parses snapshot_read_word (enc_word w) w"
proof -
  have "parses snapshot_read_word ([ucast (w AND 0xff)] @ [ucast (drop_bit 8 w)] @ []) w"
    unfolding snapshot_read_word_def
    by (intro parses_rbind [OF parses_byte] parses_rret join_word)
  then show ?thesis by (simp add: enc_word_def)
qed

lemma parses_dword [codec]: "parses snapshot_read_dword (enc_dword d) d"
proof -
  have "parses snapshot_read_dword
      (enc_word (ucast (d AND 0xffff)) @ enc_word (ucast (drop_bit 16 d)) @ []) d"
    unfolding snapshot_read_dword_def
    by (intro parses_rbind [OF parses_word] parses_rret join_dword)
  then show ?thesis by (simp add: enc_dword_def)
qed

lemma parses_qword [codec]: "parses snapshot_read_qword (enc_qword q) q"
proof -
  have "parses snapshot_read_qword
      (enc_dword (ucast (q AND 0xffffffff)) @ enc_dword (ucast (drop_bit 32 q)) @ []) q"
    unfolding snapshot_read_qword_def
    by (intro parses_rbind [OF parses_dword] parses_rret join_qword)
  then show ?thesis by (simp add: enc_qword_def)
qed

subsection \<open>Arrays and strings\<close>

lemma appends_fwrite: "appends (fwrite bs) bs"
proof (induction bs)
  case Nil
  have "fwrite [] = (\<lambda>f. (True, f))" by (simp add: fun_eq_iff)
  then show ?case by (simp add: appends_nil)
next
  case (Cons b bs)
  have "fwrite (b # bs) = wseq (fputc b) (fwrite bs)" by (simp add: fun_eq_iff)
  then show ?case using appends_wseq [OF appends_fputc Cons.IH, of b] by simp
qed

lemma appends_byte_array [codec]: "appends (snapshot_write_byte_array bs) bs"
  by (rule appendsI) (simp add: snapshot_write_byte_array_def appendsD [OF appends_fwrite])

lemma parses_byte_array [codec]: "n = length bs \<Longrightarrow> parses (snapshot_read_byte_array n) bs bs"
  by (rule parsesI) (simp add: snapshot_read_byte_array_def)

lemma appends_word_array [codec]: "appends (snapshot_write_word_array ws) (concat (map enc_word ws))"
proof (induction ws)
  case Nil
  have "snapshot_write_word_array [] = (\<lambda>f. (True, f))" by (simp add: fun_eq_iff)
  then show ?case by (simp add: appends_nil)
next
  case (Cons w ws)
  have "snapshot_write_word_array (w # ws) = wseq (snapshot_write_word w) (snapshot_write_word_array ws)"
    by (simp add: fun_eq_iff)
  then show ?case using appends_wseq [OF appends_word Cons.IH, of w] by simp
qed

lemma appends_dword_array [codec]: "appends (snapshot_write_dword_array ws) (concat (map enc_dword ws))"
proof (induction ws)
  case Nil
  have "snapshot_write_dword_array [] = (\<lambda>f. (True, f))" by (simp add: fun_eq_iff)
  then show ?case by (simp add: appends_nil)
next
  case (Cons w ws)
  have "snapshot_write_dword_array (w # ws) = wseq (snapshot_write_dword w) (snapshot_write_dword_array ws)"
    by (simp add: fun_eq_iff)
  then show ?case using appends_wseq [OF appends_dword Cons.IH, of w] by simp
qed

lemma parses_word_array [codec]:
  "n = length ws \<Longrightarrow> parses (snapshot_read_word_array n) (concat (map enc_word ws)) ws"
proof (induction ws arbitrary: n)
  case Nil
  then show ?case by (simp add: parses_def)
next
  case (Cons w ws)
  then obtain k where k: "n = Suc k" "k = length ws" by simp
  have "snapshot_read_word_array n = rbind snapshot_read_word (\<lambda>w.
     rbind (snapshot_read_word_array k) (\<lambda>ws. rret (w # ws)))"
    using k by (simp add: fun_eq_iff)
  moreover have "parses \<dots> (enc_word w @ concat (map enc_word ws) @ []) (w # ws)"
    by (intro parses_rbind [OF parses_word] parses_rbind [OF Cons.IH] parses_rret k refl)
  ultimately show ?case by simp
qed

lemma parses_dword_array [codec]:
  "n = length ws \<Longrightarrow> parses (snapshot_read_dword_array n) (concat (map enc_dword ws)) ws"
proof (induction ws arbitrary: n)
  case Nil
  then show ?case by (simp add: parses_def)
next
  case (Cons w ws)
  then obtain k where k: "n = Suc k" "k = length ws" by simp
  have "snapshot_read_dword_array n = rbind snapshot_read_dword (\<lambda>w.
     rbind (snapshot_read_dword_array k) (\<lambda>ws. rret (w # ws)))"
    using k by (simp add: fun_eq_iff)
  moreover have "parses \<dots> (enc_dword w @ concat (map enc_dword ws) @ []) (w # ws)"
    by (intro parses_rbind [OF parses_dword] parses_rbind [OF Cons.IH] parses_rret k refl)
  ultimately show ?case by simp
qed

lemma appends_bytes_loop [codec]: "appends (write_bytes_loop bs) bs"
proof (induction bs)
  case Nil
  have "write_bytes_loop [] = (\<lambda>f. (True, f))" by (simp add: fun_eq_iff)
  then show ?case by (simp add: appends_nil)
next
  case (Cons b bs)
  have "write_bytes_loop (b # bs) = wseq (snapshot_write_byte b) (write_bytes_loop bs)"
    by (simp add: fun_eq_iff)
  then show ?case using appends_wseq [OF appends_byte Cons.IH, of b] by simp
qed

lemma parses_bytes_loop [codec]: "n = length bs \<Longrightarrow> parses (read_bytes_loop n) bs bs"
proof (induction bs arbitrary: n)
  case Nil
  then show ?case by (simp add: parses_def)
next
  case (Cons b bs)
  then obtain k where k: "n = Suc k" "k = length bs" by simp
  have "read_bytes_loop n = rbind snapshot_read_byte (\<lambda>b.
     rbind (read_bytes_loop k) (\<lambda>bs. rret (b # bs)))"
    using k by (simp add: fun_eq_iff)
  moreover have "parses \<dots> ([b] @ bs @ []) (b # bs)"
    by (intro parses_rbind [OF parses_byte] parses_rbind [OF Cons.IH] parses_rret k refl)
  ultimately show ?case by simp
qed

definition pad_name :: "u8 \<Rightarrow> nat \<Rightarrow> u8 list \<Rightarrow> u8 list" where
  "pad_name pad n s = take n s @ replicate (n - length s) pad"

lemma length_pad_name [simp]: "length (pad_name pad n s) = n"
  by (simp add: pad_name_def)

lemma appends_padded [codec]: "appends (snapshot_write_padded_string s pad n) (pad_name pad n s)"
proof (induction n arbitrary: s)
  case 0
  have "snapshot_write_padded_string s pad 0 = (\<lambda>f. (True, f))" by (simp add: fun_eq_iff)
  then show ?case by (simp add: pad_name_def appends_nil)
next
  case (Suc n)
  let ?c = "case s of [] \<Rightarrow> pad | c # _ \<Rightarrow> c"
  have "snapshot_write_padded_string s pad (Suc n)
      = wseq (snapshot_write_byte ?c) (snapshot_write_padded_string (tl s) pad n)"
    by (simp add: fun_eq_iff)
  moreover have "appends \<dots> ([?c] @ pad_name pad n (tl s))"
    by (intro codec Suc.IH)
  moreover have "[?c] @ pad_name pad n (tl s) = pad_name pad (Suc n) s"
    by (cases s) (simp_all add: pad_name_def)
  ultimately show ?case by simp
qed

section \<open>Modules as codecs\<close>

text \<open>The same two notions for the module operations: the size grows with the bytes
  written, and a read stays inside the module.\<close>

definition mappends :: "(mstate \<Rightarrow> bool \<times> mstate) \<Rightarrow> u8 list \<Rightarrow> bool" where
  "mappends w bs \<longleftrightarrow> (\<forall>(m :: snapshot_module) (f :: sfile). sf_pos f = length (sf_bytes f)
     \<longrightarrow> sf_pos f + length bs \<le> sf_limit f
     \<longrightarrow> w (m, f) = (True, m\<lparr>m_size := m_size m + of_nat (length bs)\<rparr>,
           f\<lparr>sf_bytes := sf_bytes f @ bs, sf_pos := sf_pos f + length bs\<rparr>))"

definition mparses :: "(mstate \<Rightarrow> 'a option \<times> mstate) \<Rightarrow> u8 list \<Rightarrow> 'a \<Rightarrow> bool" where
  "mparses r bs x \<longleftrightarrow> (\<forall>(m :: snapshot_module) (f :: sfile) pre post. sf_bytes f = pre @ bs @ post
     \<longrightarrow> sf_pos f = length pre
     \<longrightarrow> length pre + length bs \<le> m_offset m + unat (m_size m)
     \<longrightarrow> r (m, f) = (Some x, m, f\<lparr>sf_pos := sf_pos f + length bs\<rparr>))"

lemma mappendsD:
  "mappends w bs \<Longrightarrow> sf_pos f = length (sf_bytes f) \<Longrightarrow> sf_pos f + length bs \<le> sf_limit f \<Longrightarrow>
     w (m, f) = (True, m\<lparr>m_size := m_size m + of_nat (length bs)\<rparr>,
           f\<lparr>sf_bytes := sf_bytes f @ bs, sf_pos := sf_pos f + length bs\<rparr>)"
  by (simp add: mappends_def)

lemma mparsesD:
  "mparses r bs x \<Longrightarrow> sf_bytes f = pre @ bs @ post \<Longrightarrow> sf_pos f = length pre \<Longrightarrow>
     length pre + length bs \<le> m_offset m + unat (m_size m) \<Longrightarrow>
     r (m, f) = (Some x, m, f\<lparr>sf_pos := sf_pos f + length bs\<rparr>)"
  by (simp add: mparses_def)

lemma mappends_wseq:
  assumes a: "mappends a xs" and b: "mappends b ys"
  shows "mappends (wseq a b) (xs @ ys)"
  unfolding mappends_def
proof (intro allI impI)
  fix m :: snapshot_module and f :: sfile
  assume f: "sf_pos f = length (sf_bytes f)" "sf_pos f + length (xs @ ys) \<le> sf_limit f"
  have "a (m, f) = (True, m\<lparr>m_size := m_size m + of_nat (length xs)\<rparr>,
      f\<lparr>sf_bytes := sf_bytes f @ xs, sf_pos := sf_pos f + length xs\<rparr>)"
    using f by (intro mappendsD [OF a]) auto
  moreover have "b (m\<lparr>m_size := m_size m + of_nat (length xs)\<rparr>,
        f\<lparr>sf_bytes := sf_bytes f @ xs, sf_pos := sf_pos f + length xs\<rparr>)
     = (True, m\<lparr>m_size := m_size m + of_nat (length (xs @ ys))\<rparr>,
        f\<lparr>sf_bytes := sf_bytes f @ xs @ ys, sf_pos := sf_pos f + length (xs @ ys)\<rparr>)"
    using f by (subst mappendsD [OF b]) (auto simp: algebra_simps)
  ultimately show "wseq a b (m, f) = (True, m\<lparr>m_size := m_size m + of_nat (length (xs @ ys))\<rparr>,
        f\<lparr>sf_bytes := sf_bytes f @ xs @ ys, sf_pos := sf_pos f + length (xs @ ys)\<rparr>)"
    by (simp add: wseq_def)
qed

lemma mparses_rbind:
  assumes a: "mparses r xs x" and b: "mparses (k x) ys y"
  shows "mparses (rbind r k) (xs @ ys) y"
  unfolding mparses_def
proof (intro allI impI)
  fix m :: snapshot_module and f :: sfile and pre post
  assume f: "sf_bytes f = pre @ (xs @ ys) @ post" "sf_pos f = length pre"
    "length pre + length (xs @ ys) \<le> m_offset m + unat (m_size m)"
  have "r (m, f) = (Some x, m, f\<lparr>sf_pos := sf_pos f + length xs\<rparr>)"
    using f by (intro mparsesD [OF a]) auto
  moreover have "k x (m, f\<lparr>sf_pos := sf_pos f + length xs\<rparr>)
     = (Some y, m, f\<lparr>sf_pos := sf_pos f + length (xs @ ys)\<rparr>)"
    using f by (subst mparsesD [OF b, of _ "pre @ xs" post]) auto
  ultimately show "rbind r k (m, f) = (Some y, m, f\<lparr>sf_pos := sf_pos f + length (xs @ ys)\<rparr>)"
    by (simp add: rbind_def)
qed

lemma mappends_nil: "mappends (\<lambda>s. (True, s)) []"
  by (simp add: mappends_def)

lemma mparses_rret: "x = y \<Longrightarrow> mparses (rret x) [] y"
  by (simp add: mparses_def rret_def)

lemma mappends_mwrite: "appends w bs \<Longrightarrow> n = of_nat (length bs) \<Longrightarrow> mappends (mwrite w n) bs"
  unfolding mappends_def by (intro allI impI) (simp add: mwrite_def appendsD)

lemma mparses_mread: "parses r bs x \<Longrightarrow> n = length bs \<Longrightarrow> mparses (mread r n) bs x"
  unfolding mparses_def by (intro allI impI) (simp add: mread_def parsesD)

text \<open>
  The interface the device modules use: a writer and a reader of one kind of field, on the
  values of a domain. A pair of codecs is a codec, so a record of fields is one too.
\<close>

locale snapshot_codec =
  fixes put :: "'a \<Rightarrow> mstate \<Rightarrow> bool \<times> mstate"
    and get :: "mstate \<Rightarrow> 'a option \<times> mstate"
    and enc :: "'a \<Rightarrow> u8 list"
    and ok :: "'a \<Rightarrow> bool"
  assumes put_ok: "ok x \<Longrightarrow> mappends (put x) (enc x)"
    and get_ok: "ok x \<Longrightarrow> mparses get (enc x) x"
begin

lemma put_then: "ok x \<Longrightarrow> mappends w ys \<Longrightarrow> mappends (wseq (put x) w) (enc x @ ys)"
  by (intro mappends_wseq put_ok)

lemma get_then: "ok x \<Longrightarrow> mparses (k x) ys y \<Longrightarrow> mparses (rbind get k) (enc x @ ys) y"
  by (intro mparses_rbind [OF get_ok])

lemma get_map: "ok x \<Longrightarrow> g x = y \<Longrightarrow> mparses (rbind get (\<lambda>v. rret (g v))) (enc x) y"
  using mparses_rbind [OF get_ok mparses_rret] by fastforce

end

interpretation byte_field: snapshot_codec
    snapshot_module_write_byte snapshot_module_read_byte "\<lambda>b. [b]" "\<lambda>_. True"
  by unfold_locales (simp_all add: snapshot_module_write_byte_def snapshot_module_read_byte_def
    mappends_mwrite mparses_mread codec)

interpretation word_field: snapshot_codec
    snapshot_module_write_word snapshot_module_read_word enc_word "\<lambda>_. True"
  by unfold_locales (simp_all add: snapshot_module_write_word_def snapshot_module_read_word_def
    mappends_mwrite mparses_mread codec)

interpretation dword_field: snapshot_codec
    snapshot_module_write_dword snapshot_module_read_dword enc_dword "\<lambda>_. True"
  by unfold_locales (simp_all add: snapshot_module_write_dword_def snapshot_module_read_dword_def
    mappends_mwrite mparses_mread codec)

interpretation qword_field: snapshot_codec
    snapshot_module_write_qword snapshot_module_read_qword enc_qword "\<lambda>_. True"
  by unfold_locales (simp_all add: snapshot_module_write_qword_def snapshot_module_read_qword_def
    mappends_mwrite mparses_mread codec)

interpretation byte_array_field: snapshot_codec
    snapshot_module_write_byte_array "snapshot_module_read_byte_array n" "\<lambda>bs. bs"
    "\<lambda>bs. length bs = n" for n
  by unfold_locales (simp_all add: snapshot_module_write_byte_array_def
    snapshot_module_read_byte_array_def mappends_mwrite mparses_mread codec)

lemma length_concat_enc [simp]:
  "length (concat (map enc_word ws)) = length ws * 2"
  "length (concat (map enc_dword ds)) = length ds * 4"
proof -
  show "length (concat (map enc_word ws)) = length ws * 2" by (induction ws) simp_all
  show "length (concat (map enc_dword ds)) = length ds * 4" by (induction ds) simp_all
qed

interpretation word_array_field: snapshot_codec
    snapshot_module_write_word_array "snapshot_module_read_word_array n"
    "\<lambda>ws. concat (map enc_word ws)" "\<lambda>ws. length ws = n" for n
  by unfold_locales (simp_all add: snapshot_module_write_word_array_def
    snapshot_module_read_word_array_def mappends_mwrite mparses_mread codec)

interpretation dword_array_field: snapshot_codec
    snapshot_module_write_dword_array "snapshot_module_read_dword_array n"
    "\<lambda>ws. concat (map enc_dword ws)" "\<lambda>ws. length ws = n" for n
  by unfold_locales (simp_all add: snapshot_module_write_dword_array_def
    snapshot_module_read_dword_array_def mappends_mwrite mparses_mread codec)

text \<open>The collections a device module's codec proof chains.\<close>

named_theorems put_fields \<open>module writers append their encoding\<close>
named_theorems get_fields \<open>module readers parse their encoding\<close>

lemmas [put_fields] = byte_field.put_ok word_field.put_ok dword_field.put_ok qword_field.put_ok
  byte_array_field.put_ok [OF refl] word_array_field.put_ok [OF refl]
  dword_array_field.put_ok [OF refl]

text \<open>
  The device modules read a field straight into their state: \<open>smr r upd\<close> is one
  \<^verbatim>\<open>SMR_x(m, &state->field) < 0\<close>; a failed read leaves the fields read before it. \<open>loads\<close> is
  the parsing notion for chains of them, from one state to another.
\<close>

definition smr :: "(mstate \<Rightarrow> 'a option \<times> mstate) \<Rightarrow> ('a \<Rightarrow> 'c \<Rightarrow> 'c) \<Rightarrow> 'c \<times> mstate
    \<Rightarrow> bool \<times> 'c \<times> mstate" where
  "smr r upd st = (case r (snd st) of
     (Some x, st') \<Rightarrow> (True, upd x (fst st), st') | (None, st') \<Rightarrow> (False, fst st, st'))"

definition loads :: "('c \<times> mstate \<Rightarrow> bool \<times> 'c \<times> mstate) \<Rightarrow> u8 list \<Rightarrow> 'c \<Rightarrow> 'c \<Rightarrow> bool" where
  "loads r bs c c' \<longleftrightarrow> (\<forall>(m :: snapshot_module) (f :: sfile) pre post. sf_bytes f = pre @ bs @ post
     \<longrightarrow> sf_pos f = length pre
     \<longrightarrow> length pre + length bs \<le> m_offset m + unat (m_size m)
     \<longrightarrow> r (c, m, f) = (True, c', m, f\<lparr>sf_pos := sf_pos f + length bs\<rparr>))"

lemma loadsD:
  "loads r bs c c' \<Longrightarrow> sf_bytes f = pre @ bs @ post \<Longrightarrow> sf_pos f = length pre \<Longrightarrow>
     length pre + length bs \<le> m_offset m + unat (m_size m) \<Longrightarrow>
     r (c, m, f) = (True, c', m, f\<lparr>sf_pos := sf_pos f + length bs\<rparr>)"
  by (simp add: loads_def)

lemma loads_smr: "mparses r bs x \<Longrightarrow> upd x c = c' \<Longrightarrow> loads (smr r upd) bs c c'"
  unfolding loads_def by (intro allI impI) (simp add: smr_def mparsesD)

lemma loads_wseq:
  assumes a: "loads a xs c d" and b: "loads b ys d e"
  shows "loads (wseq a b) (xs @ ys) c e"
  unfolding loads_def
proof (intro allI impI)
  fix m :: snapshot_module and f :: sfile and pre post
  assume f: "sf_bytes f = pre @ (xs @ ys) @ post" "sf_pos f = length pre"
    "length pre + length (xs @ ys) \<le> m_offset m + unat (m_size m)"
  have "a (c, m, f) = (True, d, m, f\<lparr>sf_pos := sf_pos f + length xs\<rparr>)"
    using f by (intro loadsD [OF a]) auto
  moreover have "b (d, m, f\<lparr>sf_pos := sf_pos f + length xs\<rparr>)
     = (True, e, m, f\<lparr>sf_pos := sf_pos f + length (xs @ ys)\<rparr>)"
    using f by (subst loadsD [OF b, of _ "pre @ xs" post]) auto
  ultimately show "wseq a b (c, m, f) = (True, e, m, f\<lparr>sf_pos := sf_pos f + length (xs @ ys)\<rparr>)"
    by (simp add: wseq_def)
qed

lemma store_load:
  assumes w: "mappends w bs" and r: "loads r bs c c'"
    and f: "sf_pos f = length (sf_bytes f)" "sf_pos f + length bs \<le> sf_limit f"
    and m: "m_offset m + unat (m_size m) = sf_pos f" "unat (m_size m) + length bs < 2 ^ 32"
  shows "\<exists>m' f' f''. w (m, f) = (True, m', f') \<and> r (c, m', f'\<lparr>sf_pos := sf_pos f\<rparr>) = (True, c', m', f'')"
proof -
  let ?m = "m\<lparr>m_size := m_size m + of_nat (length bs)\<rparr>"
  let ?f = "f\<lparr>sf_bytes := sf_bytes f @ bs, sf_pos := sf_pos f + length bs\<rparr>"
  have "unat (m_size m + of_nat (length bs)) = unat (m_size m) + length bs"
    using m(2) by (simp add: unat_word_ariths unat_of_nat take_bit_eq_mod)
  then have "r (c, ?m, ?f\<lparr>sf_pos := sf_pos f\<rparr>)
     = (True, c', ?m, ?f\<lparr>sf_pos := sf_pos f + length bs\<rparr>)"
    using f m by (subst loadsD [OF r, of _ "sf_bytes f" "[]"]) auto
  then show ?thesis using mappendsD [OF w f, of m] by blast
qed

subsection \<open>Strings\<close>

definition enc_string :: "u8 list option \<Rightarrow> u8 list" where
  "enc_string s = (case s of None \<Rightarrow> enc_word 0
     | Some cs \<Rightarrow> enc_word (of_nat (length cs + 1)) @ cs @ [0])"

definition string_ok :: "u8 list option \<Rightarrow> bool" where
  "string_ok s = (case s of None \<Rightarrow> True | Some cs \<Rightarrow> 0 \<notin> set cs \<and> length cs + 1 < 2 ^ 16)"

lemma write_string_appends:
  "sf_pos f = length (sf_bytes f) \<Longrightarrow> sf_pos f + length (enc_string s) \<le> sf_limit f \<Longrightarrow>
   snapshot_write_string s f = (Some (length (enc_string s)),
     f\<lparr>sf_bytes := sf_bytes f @ enc_string s, sf_pos := sf_pos f + length (enc_string s)\<rparr>)"
  using appendsD [OF appends_wseq [OF appends_word appends_bytes_loop]]
  by (cases s) (simp_all add: snapshot_write_string_def enc_string_def)

lemma takeWhile_terminated: "0 \<notin> set cs \<Longrightarrow> takeWhile (\<lambda>c. c \<noteq> (0 :: u8)) cs = cs"
  by (induction cs) auto

lemma read_string_parses: "string_ok s \<Longrightarrow> parses snapshot_read_string (enc_string s) s"
proof (cases s)
  case None
  have "parses snapshot_read_string (enc_word 0 @ []) None"
    unfolding snapshot_read_string_def
    by (intro parses_rbind [OF parses_word]) (simp add: parses_rret)
  then show ?thesis by (simp add: None enc_string_def)
next
  case (Some cs)
  let ?n = "of_nat (length cs + 1) :: u16"
  assume ok: "string_ok s"
  then have len: "length cs + 1 < 2 ^ 16" and no0: "0 \<notin> set cs"
    by (simp_all add: Some string_ok_def)
  have n: "unat ?n = length (cs @ [0])" using len
    by (simp add: unat_of_nat take_bit_nat_eq_self del: of_nat_Suc of_nat_add)
  have n0: "?n \<noteq> 0"
  proof
    assume "?n = 0"
    then have "unat ?n = 0" by simp
    then show False unfolding n by simp
  qed
  have "parses snapshot_read_string (enc_word ?n @ (cs @ [0]) @ []) s"
    unfolding snapshot_read_string_def
    using n n0 no0
    by (intro parses_rbind [OF parses_word])
      (auto intro!: parses_rbind [OF parses_bytes_loop] parses_rret
        simp: Some takeWhile_terminated simp del: append_Nil2 append_assoc of_nat_add)
  then show ?thesis by (simp add: Some enc_string_def)
qed

interpretation string_field: snapshot_codec
    snapshot_module_write_string snapshot_module_read_string enc_string string_ok
proof unfold_locales
  show "mappends (snapshot_module_write_string s) (enc_string s)" for s
    unfolding mappends_def
    by (intro allI impI) (simp add: snapshot_module_write_string_def write_string_appends)
  fix s assume "string_ok s"
  then have p: "parses snapshot_read_string (enc_string s) s" by (rule read_string_parses)
  have "2 \<le> length (enc_string s)" by (simp add: enc_string_def split: option.split)
  then show "mparses snapshot_module_read_string (enc_string s) s"
    unfolding mparses_def snapshot_module_read_string_def
    by (intro allI impI) (simp add: mread_def parsesD [OF p])
qed

section \<open>Whole modules\<close>

text \<open>A module in a file: the padded name, the versions, the size of all of it, the payload.\<close>

type_synonym module_image = "u8 list \<times> u8 \<times> u8 \<times> u8 list"

definition module_header :: "u8 list \<Rightarrow> u8 \<Rightarrow> u8 \<Rightarrow> u32 \<Rightarrow> u8 list" where
  "module_header name major minor sz = pad_name 0 name_field_len name @ [major] @ [minor] @ enc_dword sz"

fun module_bytes :: "module_image \<Rightarrow> u8 list" where
  "module_bytes (name, major, minor, payload) =
     module_header name major minor (of_nat (22 + length payload)) @ payload"

fun image_ok :: "module_image \<Rightarrow> bool" where
  "image_ok (name, major, minor, payload) \<longleftrightarrow>
     0 \<notin> set name \<and> length name \<le> name_field_len \<and> 22 + length payload < 2 ^ 32"

lemma length_module_header [simp]: "length (module_header n ma mi sz) = 22"
  by (simp add: module_header_def name_field_len_def)

lemma module_create_appends:
  assumes "sf_pos f = length (sf_bytes f)" "sf_pos f + 22 \<le> sf_limit f"
  shows "snapshot_module_create name major minor f =
    (Some \<lparr>m_write_mode = True, m_size = 22, m_offset = sf_pos f, m_size_offset = sf_pos f + 18\<rparr>,
     f\<lparr>sf_bytes := sf_bytes f @ module_header name major minor 0, sf_pos := sf_pos f + 22\<rparr>)"
proof -
  have "appends (wseq (snapshot_write_padded_string name 0 name_field_len)
           (wseq (snapshot_write_byte major)
             (wseq (snapshot_write_byte minor) (snapshot_write_dword 0))))
         (module_header name major minor 0)"
    unfolding module_header_def by (intro codec)
  from appendsD [OF this, of f] show ?thesis
    using assms by (simp add: snapshot_module_create_def Let_def add.commute)
qed

subsection \<open>Overwriting in place\<close>

definition overwrites :: "(sfile \<Rightarrow> bool \<times> sfile) \<Rightarrow> u8 list \<Rightarrow> bool" where
  "overwrites w bs \<longleftrightarrow> (\<forall>(f :: sfile) pre old post. sf_bytes f = pre @ old @ post
     \<longrightarrow> length old = length bs \<longrightarrow> sf_pos f = length pre \<longrightarrow> length pre + length bs \<le> sf_limit f
     \<longrightarrow> w f = (True, f\<lparr>sf_bytes := pre @ bs @ post, sf_pos := sf_pos f + length bs\<rparr>))"

lemma overwritesD:
  "overwrites w bs \<Longrightarrow> sf_bytes f = pre @ old @ post \<Longrightarrow> length old = length bs \<Longrightarrow>
   sf_pos f = length pre \<Longrightarrow> length pre + length bs \<le> sf_limit f \<Longrightarrow>
   w f = (True, f\<lparr>sf_bytes := pre @ bs @ post, sf_pos := sf_pos f + length bs\<rparr>)"
  by (simp add: overwrites_def)

lemma overwrites_byte: "overwrites (snapshot_write_byte b) [b]"
  by (auto simp: overwrites_def snapshot_write_byte_def fputc_def put_at_def length_Suc_conv)

lemma overwrites_wseq:
  assumes a: "overwrites a xs" and b: "overwrites b ys"
  shows "overwrites (wseq a b) (xs @ ys)"
  unfolding overwrites_def
proof (intro allI impI)
  fix f :: sfile and pre old post
  assume f: "sf_bytes f = pre @ old @ post" "length old = length (xs @ ys)"
    "sf_pos f = length pre" "length pre + length (xs @ ys) \<le> sf_limit f"
  let ?ox = "take (length xs) old" and ?oy = "drop (length xs) old"
  have "a f = (True, f\<lparr>sf_bytes := pre @ xs @ ?oy @ post, sf_pos := sf_pos f + length xs\<rparr>)"
    using f by (intro overwritesD [OF a, of _ _ ?ox]) (auto simp flip: append_assoc)
  moreover have "b (f\<lparr>sf_bytes := pre @ xs @ ?oy @ post, sf_pos := sf_pos f + length xs\<rparr>)
     = (True, f\<lparr>sf_bytes := pre @ (xs @ ys) @ post, sf_pos := sf_pos f + length (xs @ ys)\<rparr>)"
    using f by (subst overwritesD [OF b, of _ "pre @ xs" ?oy post]) auto
  ultimately show "wseq a b f
      = (True, f\<lparr>sf_bytes := pre @ (xs @ ys) @ post, sf_pos := sf_pos f + length (xs @ ys)\<rparr>)"
    by (simp add: wseq_def)
qed

lemma overwrites_dword: "overwrites (snapshot_write_dword d) (enc_dword d)"
proof -
  have "overwrites (snapshot_write_word w) (enc_word w)" for w
    using overwrites_wseq [OF overwrites_byte overwrites_byte]
    by (simp add: snapshot_write_word_def enc_word_def)
  from overwrites_wseq [OF this this] show ?thesis
    by (simp add: snapshot_write_dword_def enc_dword_def)
qed

text \<open>Create, fill and close a module at the end of a file.\<close>

definition write_module ::
  "u8 list \<Rightarrow> u8 \<Rightarrow> u8 \<Rightarrow> (mstate \<Rightarrow> bool \<times> mstate) \<Rightarrow> sfile \<Rightarrow> bool \<times> sfile" where
  "write_module name major minor fill f = (case snapshot_module_create name major minor f of
     (None, f') \<Rightarrow> (False, f')
   | (Some m, f') \<Rightarrow> (case fill (m, f') of
       (True, st) \<Rightarrow> snapshot_module_close st | (False, st) \<Rightarrow> (False, snd (snapshot_module_close st))))"

lemma write_module_appends:
  assumes fill: "mappends fill payload" and ok: "22 + length payload < 2 ^ 32"
  shows "appends (write_module name major minor fill) (module_bytes (name, major, minor, payload))"
proof (rule appendsI)
  fix f :: sfile
  let ?bs = "sf_bytes f" and ?p = "length (sf_bytes f)" and ?n = "22 + length payload"
  let ?nm = "pad_name 0 name_field_len name @ [major] @ [minor]"
  assume f: "sf_pos f = ?p" "sf_pos f + length (module_bytes (name, major, minor, payload)) \<le> sf_limit f"
  let ?m = "\<lparr>m_write_mode = True, m_size = 22, m_offset = ?p, m_size_offset = ?p + 18\<rparr>"
  let ?f = "f\<lparr>sf_bytes := ?bs @ module_header name major minor 0, sf_pos := ?p + 22\<rparr>"
  let ?g = "f\<lparr>sf_bytes := ?bs @ module_header name major minor 0 @ payload, sf_pos := ?p + 22 + length payload\<rparr>"
  have c: "snapshot_module_create name major minor f = (Some ?m, ?f)"
    using f by (subst module_create_appends) auto
  have w: "fill (?m, ?f) = (True, ?m\<lparr>m_size := of_nat ?n\<rparr>, ?g)"
    using f by (subst mappendsD [OF fill]) auto
  have h: "?bs @ module_header name major minor 0 @ payload = (?bs @ ?nm) @ enc_dword 0 @ payload"
    by (simp add: module_header_def)
  have s: "snapshot_write_dword (of_nat ?n) (fseek_set (?p + 18) ?g)
     = (True, f\<lparr>sf_bytes := (?bs @ ?nm) @ enc_dword (of_nat ?n) @ payload, sf_pos := ?p + 22\<rparr>)"
    using f by (subst overwritesD [OF overwrites_dword, of _ "?bs @ ?nm" "enc_dword 0" payload])
      (auto simp: fseek_set_def h name_field_len_def)
  have u: "unat (of_nat ?n :: u32) = ?n"
    using ok by (simp add: unat_of_nat take_bit_nat_eq_self del: of_nat_add)
  show "write_module name major minor fill f = (True, f\<lparr>
      sf_bytes := ?bs @ module_bytes (name, major, minor, payload),
      sf_pos := sf_pos f + length (module_bytes (name, major, minor, payload))\<rparr>)"
    using f u s by (simp add: write_module_def c w snapshot_module_close_def del: of_nat_add)
      (simp add: fseek_set_def module_header_def)
qed

section \<open>Searching for a module\<close>

lemma parses_module_header:
  "parses read_module_header (module_header name major minor sz)
     (pad_name 0 name_field_len name, major, minor, sz)"
proof -
  have "parses read_module_header (pad_name 0 name_field_len name @ [major] @ [minor] @ enc_dword sz @ [])
     (pad_name 0 name_field_len name, major, minor, sz)"
    unfolding read_module_header_def
    by (intro parses_rbind [OF parses_byte_array] parses_rbind [OF parses_byte]
        parses_rbind [OF parses_dword] parses_rret) simp_all
  then show ?thesis by (simp add: module_header_def)
qed

lemma module_name_matches_pad:
  assumes "0 \<notin> set n" "length n \<le> name_field_len" "0 \<notin> set name"
  shows "module_name_matches (pad_name 0 name_field_len n) name \<longleftrightarrow> name = n"
proof
  assume m: "module_name_matches (pad_name 0 name_field_len n) name"
  then have t: "take (length name) (pad_name 0 name_field_len n) = name"
    by (simp add: module_name_matches_def)
  have "length (take (length name) (pad_name 0 name_field_len n)) \<le> name_field_len" by simp
  then have l: "length name \<le> name_field_len" unfolding t .
  have "length name \<le> length n"
  proof (rule ccontr)
    assume c: "\<not> ?thesis"
    then have "length n < length name" by simp
    then have "name ! length n = 0"
      using l assms(2) c by (subst t [symmetric]) (simp add: pad_name_def nth_append del: t)
    then show False using c assms(3) by (metis not_le nth_mem)
  qed
  moreover have "length n \<le> length name"
  proof (rule ccontr)
    assume c: "\<not> ?thesis"
    then have "length name < length n" by simp
    then have "pad_name 0 name_field_len n ! length name = 0"
      using m assms(2) by (auto simp: module_name_matches_def)
    then have "n ! length name = 0" using c assms(2) by (simp add: pad_name_def nth_append)
    then show False using c assms(1) by (metis not_le nth_mem)
  qed
  ultimately have e: "length name = length n" by simp
  show "name = n" using t assms(2) unfolding e by (simp add: pad_name_def)
next
  assume "name = n"
  then show "module_name_matches (pad_name 0 name_field_len n) name"
    using assms by (cases "length n = name_field_len")
      (auto simp: module_name_matches_def pad_name_def nth_append)
qed

lemma unat_image_size:
  "22 + length payload < 2 ^ 32 \<Longrightarrow> unat (of_nat (22 + length payload) :: u32) = 22 + length payload"
  by (simp add: unat_of_nat take_bit_nat_eq_self del: of_nat_add)

lemma search_skips:
  assumes "\<forall>i \<in> set mods. image_ok i \<and> fst i \<noteq> name" "0 \<notin> set name"
    and "sf_bytes f = pre @ concat (map module_bytes mods) @ post" "sf_pos f = length pre"
  shows "module_search (length mods + fuel) first_off name (length pre) f
    = module_search fuel first_off name (length (pre @ concat (map module_bytes mods)))
        (f\<lparr>sf_pos := length (pre @ concat (map module_bytes mods))\<rparr>)"
  using assms
proof (induction mods arbitrary: pre f)
  case Nil
  then have "f\<lparr>sf_pos := length pre\<rparr> = f" by simp
  then show ?case by simp
next
  case (Cons i mods)
  obtain n ma mi pl where i: "i = (n, ma, mi, pl)" by (cases i)
  have ok: "0 \<notin> set n" "length n \<le> name_field_len" "22 + length pl < 2 ^ 32" "n \<noteq> name"
    using Cons.prems i by auto
  let ?sz = "of_nat (22 + length pl) :: u32"
  let ?f = "f\<lparr>sf_pos := length pre + 22\<rparr>"
  have r: "read_module_header f = (Some (pad_name 0 name_field_len n, ma, mi, ?sz), ?f)"
    using Cons.prems(3,4) i
    by (subst parsesD [OF parses_module_header, of _ pre n ma mi ?sz "pl @ concat (map module_bytes mods) @ post"])
      auto
  have nm: "\<not> module_name_matches (pad_name 0 name_field_len n) name"
    using module_name_matches_pad [OF ok(1,2) Cons.prems(2)] ok(4) by simp
  have step: "module_search (length (i # mods) + fuel) first_off name (length pre) f
      = module_search (length mods + fuel) first_off name (length pre + unat ?sz)
          (fseek_set (length pre + unat ?sz) ?f)"
    using nm by (simp add: r del: of_nat_add)
  have len: "length pre + unat ?sz = length (pre @ module_bytes i)"
    using unat_image_size [OF ok(3)] by (simp add: i del: of_nat_add)
  show ?case
    unfolding step len
    using Cons.prems
    by (subst Cons.IH [of _ "pre @ module_bytes i"]) (auto simp: fseek_set_def)
qed

lemma search_hits:
  assumes "image_ok (name, major, minor, payload)"
    and "sf_bytes f = pre @ module_bytes (name, major, minor, payload) @ post" "sf_pos f = length pre"
  shows "module_search (Suc fuel) first_off name (length pre) f
    = Some (Some (\<lparr>m_write_mode = False, m_size = of_nat (22 + length payload),
                   m_offset = length pre, m_size_offset = length pre + 18\<rparr>, major, minor),
            f\<lparr>sf_pos := length pre + 22\<rparr>)"
proof -
  let ?sz = "of_nat (22 + length payload) :: u32"
  have "read_module_header f
      = (Some (pad_name 0 name_field_len name, major, minor, ?sz), f\<lparr>sf_pos := length pre + 22\<rparr>)"
    using assms(2,3)
    by (subst parsesD [OF parses_module_header, of _ pre name major minor ?sz "payload @ post"]) auto
  then show ?thesis
    using assms(1) module_name_matches_pad [of name name] by (simp del: of_nat_add)
qed

text \<open>A failed header read leaves only the position (reset) and the error changed.\<close>

lemma search_end:
  assumes "sf_pos f = length (sf_bytes f)"
  shows "module_search (Suc fuel) first_off name off f
    = Some (None, f\<lparr>sf_pos := first_off, sf_error := SNAPSHOT_MODULE_HEADER_READ_ERROR\<rparr>)"
  using assms
  by (simp add: read_module_header_def rbind_def snapshot_read_byte_array_def name_field_len_def
      set_error_def fseek_set_def)

subsection \<open>Device modules\<close>

text \<open>
  What a device's snapshot routines rely on: a module written behind other modules is found
  again by its name, and a reader that parses its payload ends in the state it stands for.
\<close>

lemma device_module_roundtrip:
  assumes fill: "mappends fill payload" and r: "loads r payload c c'"
    and ok: "image_ok (name, major, minor, payload)"
    and mods: "\<forall>i \<in> set mods. image_ok i \<and> fst i \<noteq> name"
    and f: "sf_bytes f = pre @ concat (map module_bytes mods)" "sf_pos f = length (sf_bytes f)"
    and room: "sf_pos f + 22 + length payload \<le> sf_limit f"
  shows "\<exists>f' m g g'. write_module name major minor fill f = (True, f')
    \<and> snapshot_module_open (Suc (length mods)) (length pre) name f' = Some (Some (m, major, minor), g)
    \<and> r (c, m, g) = (True, c', m, g')"
proof -
  let ?img = "(name, major, minor, payload)" and ?ms = "pre @ concat (map module_bytes mods)"
  let ?f = "f\<lparr>sf_bytes := sf_bytes f @ module_bytes ?img,
      sf_pos := sf_pos f + length (module_bytes ?img)\<rparr>"
  let ?m = "\<lparr>m_write_mode = False, m_size = of_nat (22 + length payload), m_offset = length ?ms,
      m_size_offset = length ?ms + 18\<rparr>"
  have w: "write_module name major minor fill f = (True, ?f)"
    using ok f room by (intro appendsD [OF write_module_appends [OF fill]]) simp_all
  have "module_search (length mods + Suc 0) (length pre) name (length pre) (fseek_set (length pre) ?f)
      = module_search (Suc 0) (length pre) name (length ?ms) (?f\<lparr>sf_pos := length ?ms\<rparr>)"
    using mods ok f(1) by (subst search_skips [where post = "module_bytes ?img"]) (auto simp: fseek_set_def)
  also have "\<dots> = Some (Some (?m, major, minor), ?f\<lparr>sf_pos := length ?ms + 22\<rparr>)"
    using f(1) by (subst search_hits [OF ok, where post = "[]"]) auto
  finally have o: "snapshot_module_open (Suc (length mods)) (length pre) name ?f
      = Some (Some (?m, major, minor), ?f\<lparr>sf_pos := length ?ms + 22\<rparr>)"
    by (simp add: snapshot_module_open_def)
  have "22 + length payload < 2 ^ 32" using ok by simp
  then have "unat (of_nat (22 + length payload) :: u32) = 22 + length payload"
    by (rule unat_image_size)
  then have "r (c, ?m, ?f\<lparr>sf_pos := length ?ms + 22\<rparr>) = (True, c', ?m, ?f\<lparr>sf_pos := length ?ms + 22\<rparr>
      \<lparr>sf_pos := sf_pos (?f\<lparr>sf_pos := length ?ms + 22\<rparr>) + length payload\<rparr>)"
    using f(1)
    by (intro loadsD [OF r, where pre = "?ms @ module_header name major minor (of_nat (22 + length payload))"
          and post = "[]"]) (simp_all del: of_nat_add)
  with w o show ?thesis by blast
qed

lemma write_moduleD:
  assumes "write_module name major minor fill f = (True, f')"
  shows "\<exists>m g st. snapshot_module_create name major minor f = (Some m, g)
    \<and> fill (m, g) = (True, st) \<and> snapshot_module_close st = (True, f')"
  using assms by (auto simp: write_module_def split: prod.splits option.splits bool.splits)

named_theorems smr_fields \<open>a field read into the state parses its encoding\<close>

lemma smr_byte [smr_fields]: "loads (smr snapshot_module_read_byte upd) [b] c (upd b c)"
  by (rule loads_smr [OF byte_field.get_ok [OF TrueI] refl])

lemma smr_word [smr_fields]: "loads (smr snapshot_module_read_word upd) (enc_word w) c (upd w c)"
  by (rule loads_smr [OF word_field.get_ok [OF TrueI] refl])

lemma smr_dword [smr_fields]: "loads (smr snapshot_module_read_dword upd) (enc_dword w) c (upd w c)"
  by (rule loads_smr [OF dword_field.get_ok [OF TrueI] refl])

lemma smr_qword [smr_fields]: "loads (smr snapshot_module_read_qword upd) (enc_qword w) c (upd w c)"
  by (rule loads_smr [OF qword_field.get_ok [OF TrueI] refl])

lemma smr_byte_into_int [smr_fields]:
  "loads (smr snapshot_module_read_byte_into_int upd) [b] c (upd (ucast b) c)"
  unfolding snapshot_module_read_byte_into_int_def
  by (rule loads_smr [OF byte_field.get_map [OF TrueI refl] refl])

lemma smr_byte_array [smr_fields]:
  "length bs = n \<Longrightarrow> loads (smr (snapshot_module_read_byte_array n) upd) bs c (upd bs c)"
  by (rule loads_smr [OF byte_array_field.get_ok refl])

lemma loads_eq: "loads r bs c d \<Longrightarrow> d = c' \<Longrightarrow> loads r bs c c'"
  by simp

end
