(* ===== verification/Spi_Flash.thy ===== *)
theory Spi_Flash
  imports Snapshot_Codec
begin

text \<open>
  The serial flash of \<^verbatim>\<open>src/src/core/spi-flash.c\<close> (EN25QH128A): a memory behind a chip select, a
  clock, a data input and a data output. The static variables of the file are the record
  \<open>spi_flash\<close>; \<^verbatim>\<open>int\<close> and \<^verbatim>\<open>unsigned int\<close> are 32-bit words. \<open>spi_flash_data\<close> is a memory of
  \<open>spi_flash_size\<close> bytes, and \<open>None\<close> an access outside it.
\<close>

section \<open>State\<close>

definition MAX_ROM_SIZE :: nat where "MAX_ROM_SIZE = 16 * 1024 * 1024"

definition FLASH_CMD_PAGE_PROGRAM :: u32 where "FLASH_CMD_PAGE_PROGRAM = 0x02"
definition FLASH_CMD_READ_DATA :: u32 where "FLASH_CMD_READ_DATA = 0x03"
definition FLASH_CMD_READ_STATUS :: u32 where "FLASH_CMD_READ_STATUS = 0x05"
definition FLASH_CMD_WRITE_ENABLE :: u32 where "FLASH_CMD_WRITE_ENABLE = 0x06"
definition FLASH_CMD_BLOCK_ERASE :: u32 where "FLASH_CMD_BLOCK_ERASE = 0xd8"
definition FLASH_CMD_REMS :: u32 where "FLASH_CMD_REMS = 0x9f"
definition SPI_STATUSBUSY :: u32 where "SPI_STATUSBUSY = 0"

lemmas spi_cmd_defs = FLASH_CMD_PAGE_PROGRAM_def FLASH_CMD_READ_DATA_def FLASH_CMD_READ_STATUS_def
  FLASH_CMD_WRITE_ENABLE_def FLASH_CMD_BLOCK_ERASE_def FLASH_CMD_REMS_def SPI_STATUSBUSY_def

record spi_flash =
  spi_flash_data :: "nat \<Rightarrow> u8"
  spi_flash_size :: u32
  spi_cs :: u32
  spi_clock :: u32
  spi_data_in :: u32
  spi_data_out :: u32
  in_reg :: u32
  in_count :: u32
  out_reg :: u32
  out_count :: u32
  spi_command :: u32
  spi_addr :: u32
  spi_write_enable :: u32
  spi_ready_busy :: u32

text \<open>The byte at an address, and the addresses that exist.\<close>

definition spi_get :: "u32 \<Rightarrow> spi_flash \<Rightarrow> u8 option" where
  "spi_get a st = (if a < spi_flash_size st then Some (spi_flash_data st (unat a)) else None)"

definition spi_put :: "u32 \<Rightarrow> u8 \<Rightarrow> spi_flash \<Rightarrow> spi_flash option" where
  "spi_put a x st =
     (if a < spi_flash_size st then Some (st\<lparr>spi_flash_data := (spi_flash_data st)(unat a := x)\<rparr>) else None)"

section \<open>Shift registers\<close>

definition spi_reset_input :: "spi_flash \<Rightarrow> spi_flash" where
  "spi_reset_input st = st\<lparr>in_reg := 0, in_count := 0\<rparr>"

definition reset_output_shiftreg :: "spi_flash \<Rightarrow> spi_flash" where
  "reset_output_shiftreg st = st\<lparr>out_reg := 0, out_count := 0\<rparr>"

definition shift_input_shiftreg :: "spi_flash \<Rightarrow> spi_flash" where
  "shift_input_shiftreg st = st\<lparr>in_reg := push_bit 1 (in_reg st) OR spi_data_in st, in_count := in_count st + 1\<rparr>"

definition shift_output_shiftreg :: "spi_flash \<Rightarrow> spi_flash" where
  "shift_output_shiftreg st =
     (if out_count st \<noteq> 0 then
        st\<lparr>spi_data_out := drop_bit 31 (out_reg st) AND 1, out_reg := push_bit 1 (out_reg st), out_count := out_count st - 1\<rparr>
      else st\<lparr>spi_data_out := 0\<rparr>)"

section \<open>Pins\<close>

definition spi_flash_read_data :: "spi_flash \<Rightarrow> u8" where
  "spi_flash_read_data st = (if spi_cs st = 0 then ucast (spi_data_out st) else 0)"

definition spi_flash_write_data :: "u8 \<Rightarrow> spi_flash \<Rightarrow> spi_flash" where
  "spi_flash_write_data value st = (if spi_cs st = 0 then st\<lparr>spi_data_in := ucast value\<rparr> else st)"

definition spi_erase_block :: "spi_flash \<Rightarrow> spi_flash option" where
  "spi_erase_block st =
     (let a = (in_reg st AND 0xff0000) AND (spi_flash_size st - 1)
      in if unat a + 0x10000 \<le> unat (spi_flash_size st)
         then Some (st\<lparr>spi_addr := a, spi_flash_data := memset (spi_flash_data st) (unat a) 0xff 0x10000,
           spi_command := SPI_STATUSBUSY\<rparr>)
         else None)"

definition spi_flash_write_select :: "u8 \<Rightarrow> spi_flash \<Rightarrow> spi_flash option" where
  "spi_flash_write_select value st = map_option (\<lambda>st. st\<lparr>spi_cs := ucast value\<rparr>)
     (if spi_cs st = 1 \<and> value = 0 then Some (reset_output_shiftreg (spi_reset_input st))
      else if spi_cs st = 0 \<and> value = 1 then
        if spi_command st = FLASH_CMD_REMS \<or> spi_command st = FLASH_CMD_READ_STATUS then Some st
        else if spi_command st = FLASH_CMD_BLOCK_ERASE then spi_erase_block st
        else if spi_command st = FLASH_CMD_WRITE_ENABLE then Some (st\<lparr>spi_write_enable := 1\<rparr>)
        else if spi_command st = FLASH_CMD_PAGE_PROGRAM \<or> spi_command st = FLASH_CMD_READ_DATA
        then Some (st\<lparr>spi_command := SPI_STATUSBUSY\<rparr>)
        else Some st
      else Some st)"

text \<open>After 8 bits: a byte to program, a byte read, or a command.\<close>

definition load_output :: "spi_flash \<Rightarrow> spi_flash option" where
  "load_output st = map_option (\<lambda>x. spi_reset_input
     (st\<lparr>out_reg := push_bit 24 (ucast x), out_count := 8, spi_addr := spi_addr st + 1\<rparr>)) (spi_get (spi_addr st) st)"

definition spi_bits8 :: "spi_flash \<Rightarrow> spi_flash option" where
  "spi_bits8 st =
     (if spi_command st = FLASH_CMD_PAGE_PROGRAM then
        let a = spi_addr st AND (spi_flash_size st - 1)
        in Option.bind (spi_get a st) (\<lambda>x.
           map_option (\<lambda>st. spi_reset_input (st\<lparr>spi_addr := a + 1\<rparr>)) (spi_put a (x AND ucast (in_reg st)) st))
      else if spi_command st = FLASH_CMD_READ_DATA then
        load_output (st\<lparr>spi_addr := spi_addr st AND (spi_flash_size st - 1)\<rparr>)
      else if in_reg st = FLASH_CMD_READ_STATUS then
        Some (st\<lparr>spi_command := FLASH_CMD_READ_STATUS, out_reg := 0x01000000, out_count := 8\<rparr>)
      else if in_reg st \<in> {FLASH_CMD_REMS, FLASH_CMD_BLOCK_ERASE, FLASH_CMD_WRITE_ENABLE, FLASH_CMD_PAGE_PROGRAM, FLASH_CMD_READ_DATA}
      then Some (st\<lparr>spi_command := in_reg st\<rparr>)
      else Some (spi_reset_input st))"

definition rems_id :: "u32 \<Rightarrow> u32" where
  "rems_id bytes =
     (if bytes = 2 * 1024 * 1024 then 0x1c700300
      else if bytes = 4 * 1024 * 1024 then 0x1c700600
      else if bytes = 8 * 1024 * 1024 then 0x1c700c00
      else 0x1c701800)"

text \<open>After 32 bits: a command with its address.\<close>

definition spi_bits32 :: "spi_flash \<Rightarrow> spi_flash option" where
  "spi_bits32 st =
     (if spi_command st = FLASH_CMD_REMS then
        Some (st\<lparr>out_reg := rems_id (spi_flash_size st), out_count := 24, spi_command := SPI_STATUSBUSY\<rparr>)
      else if spi_command st = FLASH_CMD_BLOCK_ERASE then Some st
      else if spi_command st = FLASH_CMD_PAGE_PROGRAM then
        Some (spi_reset_input (st\<lparr>spi_addr := in_reg st AND (spi_flash_size st - 1)\<rparr>))
      else if spi_command st = FLASH_CMD_READ_DATA then
        load_output (st\<lparr>spi_addr := in_reg st AND (spi_flash_size st - 1)\<rparr>)
      else Some (spi_reset_input st))"

definition spi_event :: "spi_flash \<Rightarrow> spi_flash option" where
  "spi_event st =
     (if in_count st = 8 then spi_bits8 st
      else if in_count st = 32 then spi_bits32 st
      else Some st)"

definition spi_flash_write_clock :: "u8 \<Rightarrow> spi_flash \<Rightarrow> spi_flash option" where
  "spi_flash_write_clock value st = map_option (\<lambda>st. st\<lparr>spi_clock := ucast value\<rparr>)
     (if spi_cs st = 0 \<and> value = 1 \<and> spi_clock st = 0
      then map_option shift_output_shiftreg (spi_event (shift_input_shiftreg st))
      else Some st)"

definition spi_flash_set_image :: "(nat \<Rightarrow> u8) \<Rightarrow> u32 \<Rightarrow> spi_flash \<Rightarrow> spi_flash" where
  "spi_flash_set_image img bytes st = st\<lparr>spi_flash_data := img, spi_flash_size := bytes\<rparr>"

section \<open>Snapshots\<close>

definition spi_snap_module_name :: "u8 list" where
  "spi_snap_module_name = [0x45, 0x4e, 0x32, 0x35, 0x51, 0x48, 0x31, 0x32, 0x38, 0x41]"

text \<open>
  Registers are written and read as bytes, and the memory as 16 MB whatever its size: \<open>None\<close> is
  reaching it with a smaller memory. (A file that ends inside the memory leaves the memory of the
  model as it was.)
\<close>

definition spi_write_registers :: "spi_flash \<Rightarrow> mstate \<Rightarrow> bool \<times> mstate" where
  "spi_write_registers st =
     wseq (snapshot_module_write_byte (ucast (spi_cs st)))
    (wseq (snapshot_module_write_byte (ucast (spi_clock st)))
    (wseq (snapshot_module_write_byte (ucast (spi_data_in st)))
    (wseq (snapshot_module_write_byte (ucast (spi_data_out st)))
    (wseq (snapshot_module_write_byte (ucast (in_reg st)))
    (wseq (snapshot_module_write_byte (ucast (in_count st)))
    (wseq (snapshot_module_write_byte (ucast (out_reg st)))
    (wseq (snapshot_module_write_byte (ucast (out_count st)))
    (wseq (snapshot_module_write_byte (ucast (spi_command st)))
    (wseq (snapshot_module_write_byte (ucast (spi_addr st)))
    (wseq (snapshot_module_write_byte (ucast (spi_write_enable st)))
          (snapshot_module_write_byte (ucast (spi_ready_busy st)))))))))))))"

definition spi_flash_snapshot_write_module :: "spi_flash \<Rightarrow> sfile \<Rightarrow> (bool \<times> sfile) option" where
  "spi_flash_snapshot_write_module st f =
     (case snapshot_module_create spi_snap_module_name 0 1 f of
        (None, f) \<Rightarrow> Some (False, f)
      | (Some m, f) \<Rightarrow> (case spi_write_registers st (m, f) of
          (False, s) \<Rightarrow> Some (False, snd (snapshot_module_close s))
        | (True, s) \<Rightarrow>
            if unat (spi_flash_size st) < MAX_ROM_SIZE then None
            else (case snapshot_module_write_byte_array (map (spi_flash_data st) [0..<MAX_ROM_SIZE]) s of
              (ok, s) \<Rightarrow> Some (ok, snd (snapshot_module_close s)))))"

definition spi_read_registers :: "spi_flash \<times> mstate \<Rightarrow> bool \<times> spi_flash \<times> mstate" where
  "spi_read_registers =
     wseq (smr snapshot_module_read_byte_into_int (\<lambda>x st. st\<lparr>spi_cs := x\<rparr>))
    (wseq (smr snapshot_module_read_byte_into_int (\<lambda>x st. st\<lparr>spi_clock := x\<rparr>))
    (wseq (smr snapshot_module_read_byte_into_int (\<lambda>x st. st\<lparr>spi_data_in := x\<rparr>))
    (wseq (smr snapshot_module_read_byte_into_int (\<lambda>x st. st\<lparr>spi_data_out := x\<rparr>))
    (wseq (smr snapshot_module_read_byte_into_int (\<lambda>x st. st\<lparr>in_reg := x\<rparr>))
    (wseq (smr snapshot_module_read_byte_into_int (\<lambda>x st. st\<lparr>in_count := x\<rparr>))
    (wseq (smr snapshot_module_read_byte_into_int (\<lambda>x st. st\<lparr>out_reg := x\<rparr>))
    (wseq (smr snapshot_module_read_byte_into_int (\<lambda>x st. st\<lparr>out_count := x\<rparr>))
    (wseq (smr snapshot_module_read_byte_into_int (\<lambda>x st. st\<lparr>spi_command := x\<rparr>))
    (wseq (smr snapshot_module_read_byte_into_int (\<lambda>x st. st\<lparr>spi_addr := x\<rparr>))
    (wseq (smr snapshot_module_read_byte_into_int (\<lambda>x st. st\<lparr>spi_write_enable := x\<rparr>))
          (smr snapshot_module_read_byte_into_int (\<lambda>x st. st\<lparr>spi_ready_busy := x\<rparr>))))))))))))"

definition spi_flash_snapshot_read_module :: "nat \<Rightarrow> nat \<Rightarrow> spi_flash \<Rightarrow> sfile \<Rightarrow> (bool \<times> spi_flash \<times> sfile) option" where
  "spi_flash_snapshot_read_module fuel first_module_offset st f =
     (case snapshot_module_open fuel first_module_offset spi_snap_module_name f of
        None \<Rightarrow> None
      | Some (None, f) \<Rightarrow> Some (False, st, f)
      | Some (Some (m, vmajor, vminor), f) \<Rightarrow>
          if snapshot_version_is_bigger vmajor vminor 0 1 then Some (False, st, snd (snapshot_module_close (m, f)))
          else (case spi_read_registers (st, m, f) of
            (False, st, s) \<Rightarrow> Some (False, st, snd (snapshot_module_close s))
          | (True, st, s) \<Rightarrow> (case snapshot_module_read_byte_array MAX_ROM_SIZE s of
              (None, s) \<Rightarrow> Some (False, st, snd (snapshot_module_close s))
            | (Some bytes, s) \<Rightarrow>
                if unat (spi_flash_size st) < MAX_ROM_SIZE then None
                else Some (True, st\<lparr>spi_flash_data := (\<lambda>a. if a < MAX_ROM_SIZE then bytes ! a else spi_flash_data st a)\<rparr>,
                  snd (snapshot_module_close s)))))"

end
