(* ===== verification/Spi_Flash_Memory.thy ===== *)
theory Spi_Flash_Memory
  imports Spi_Flash
begin

text \<open>
  The commands of the serial flash as operations on a memory: sequences of reads, page programs,
  block erases and write enables, clocked in bit by bit, have the effect and the output of the
  same sequence on the abstract memory.
\<close>

section \<open>Drivers\<close>

definition spi_send_bit :: "bool \<Rightarrow> spi_flash \<Rightarrow> spi_flash option" where
  "spi_send_bit b st = Option.bind (spi_flash_write_clock 1 (spi_flash_write_data (of_bool b) st)) (spi_flash_write_clock 0)"

fun spi_send_bits :: "bool list \<Rightarrow> spi_flash \<Rightarrow> spi_flash option" where
  "spi_send_bits [] st = Some st"
| "spi_send_bits (b # bs) st = Option.bind (spi_send_bit b st) (spi_send_bits bs)"

text \<open>The output is ready after the clock of the last address bit: it is looked at before the next.\<close>

fun spi_recv_bits :: "nat \<Rightarrow> spi_flash \<Rightarrow> (bool list \<times> spi_flash) option" where
  "spi_recv_bits 0 st = Some ([], st)"
| "spi_recv_bits (Suc n) st = Option.bind (spi_send_bit False st) (\<lambda>st'.
     map_option (\<lambda>(bs, st''). (bit (spi_flash_read_data st) 0 # bs, st'')) (spi_recv_bits n st'))"

fun spi_recv_bytes :: "nat \<Rightarrow> spi_flash \<Rightarrow> (bool list list \<times> spi_flash) option" where
  "spi_recv_bytes 0 st = Some ([], st)"
| "spi_recv_bytes (Suc n) st = Option.bind (spi_recv_bits 8 st) (\<lambda>(x, st').
     map_option (\<lambda>(xs, st''). (x # xs, st'')) (spi_recv_bytes n st'))"

datatype spi_op = Spi_read u32 nat | Spi_program u32 "u8 list" | Spi_erase u32 | Spi_wren

definition in_select :: "(spi_flash \<Rightarrow> ('a \<times> spi_flash) option) \<Rightarrow> spi_flash \<Rightarrow> ('a \<times> spi_flash) option" where
  "in_select f st = Option.bind (spi_flash_write_select 0 st) (\<lambda>st. Option.bind (f st) (\<lambda>(x, st).
     map_option (Pair x) (spi_flash_write_select 1 st)))"

definition spi_send :: "u32 \<Rightarrow> u32 \<Rightarrow> spi_flash \<Rightarrow> spi_flash option" where
  "spi_send cmd a st = Option.bind (spi_send_bits (msb_first 8 cmd) st) (spi_send_bits (msb_first 24 a))"

fun spi_transact :: "spi_op \<Rightarrow> spi_flash \<Rightarrow> (bool list list \<times> spi_flash) option" where
  "spi_transact (Spi_read a n) = in_select (\<lambda>st. Option.bind (spi_send FLASH_CMD_READ_DATA a st) (spi_recv_bytes n))"
| "spi_transact (Spi_program a bs) = in_select (\<lambda>st. map_option (Pair [])
     (Option.bind (spi_send FLASH_CMD_PAGE_PROGRAM a st) (spi_send_bits (concat (map (\<lambda>x. msb_first 8 (ucast x)) bs)))))"
| "spi_transact (Spi_erase a) = in_select (\<lambda>st. map_option (Pair []) (spi_send FLASH_CMD_BLOCK_ERASE a st))"
| "spi_transact Spi_wren = in_select (\<lambda>st. map_option (Pair []) (spi_send_bits (msb_first 8 FLASH_CMD_WRITE_ENABLE) st))"

fun spi_run :: "spi_op list \<Rightarrow> spi_flash \<Rightarrow> (bool list list list \<times> spi_flash) option" where
  "spi_run [] st = Some ([], st)"
| "spi_run (q # ops) st = Option.bind (spi_transact q st) (\<lambda>(x, st).
     map_option (\<lambda>(xs, st). (x # xs, st)) (spi_run ops st))"

section \<open>The memory\<close>

fun mem_read :: "nat \<Rightarrow> (nat \<Rightarrow> u8) \<Rightarrow> nat \<Rightarrow> nat \<Rightarrow> bool list list" where
  "mem_read k m a 0 = []"
| "mem_read k m a (Suc n) = msb_first 8 (ucast (m (a mod 2 ^ k))) # mem_read k m (a + 1) n"

fun mem_program :: "nat \<Rightarrow> (nat \<Rightarrow> u8) \<Rightarrow> nat \<Rightarrow> u8 list \<Rightarrow> nat \<Rightarrow> u8" where
  "mem_program k m a [] = m"
| "mem_program k m a (x # xs) = mem_program k (m(a mod 2 ^ k := m (a mod 2 ^ k) AND x)) (a + 1) xs"

fun mem_op :: "nat \<Rightarrow> spi_op \<Rightarrow> (nat \<Rightarrow> u8) \<Rightarrow> bool list list \<times> (nat \<Rightarrow> u8)" where
  "mem_op k (Spi_read a n) m = (mem_read k m (unat a) n, m)"
| "mem_op k (Spi_program a bs) m = ([], mem_program k m (unat a) bs)"
| "mem_op k (Spi_erase a) m = ([], memset m (unat a mod 2 ^ k div 0x10000 * 0x10000) 0xff 0x10000)"
| "mem_op k Spi_wren m = ([], m)"

fun mem_run :: "nat \<Rightarrow> spi_op list \<Rightarrow> (nat \<Rightarrow> u8) \<Rightarrow> bool list list list \<times> (nat \<Rightarrow> u8)" where
  "mem_run k [] m = ([], m)"
| "mem_run k (q # ops) m = (let (x, m) = mem_op k q m; (xs, m) = mem_run k ops m in (x # xs, m))"

section \<open>Shifting in\<close>

lemma send_bit_step:
  assumes "spi_cs st = 0" "spi_clock st = 0"
  shows "spi_send_bit b st = map_option (\<lambda>s. (shift_output_shiftreg s)\<lparr>spi_clock := 0\<rparr>)
    (spi_event (st\<lparr>spi_data_in := of_bool b, in_reg := push_bit 1 (in_reg st) OR of_bool b, in_count := in_count st + 1\<rparr>))"
  using assms
  by (cases "spi_event (st\<lparr>spi_data_in := of_bool b, in_reg := push_bit 1 (in_reg st) OR of_bool b, in_count := in_count st + 1\<rparr>)")
    (auto simp: spi_send_bit_def spi_flash_write_data_def spi_flash_write_clock_def shift_input_shiftreg_def)

text \<open>Without output and at numbers of bits where nothing happens.\<close>

definition silent :: "spi_flash \<Rightarrow> bool" where
  "silent st \<longleftrightarrow> spi_cs st = 0 \<and> spi_clock st = 0 \<and> out_count st = 0"

definition shifted :: "nat \<Rightarrow> u32 \<Rightarrow> u32 \<Rightarrow> u32 \<Rightarrow> spi_flash \<Rightarrow> spi_flash" where
  "shifted n w d q st = st\<lparr>spi_data_in := d, spi_data_out := q,
     in_reg := push_bit n (in_reg st) OR take_bit n w, in_count := in_count st + of_nat n\<rparr>"

definition event_done :: "spi_flash option \<Rightarrow> spi_flash option" where
  "event_done = map_option (\<lambda>s. (shift_output_shiftreg s)\<lparr>spi_clock := 0\<rparr>)"

lemma unat_numeral_8: "unat (8 :: u32) = 8"
  by simp

lemma unat_numeral_32: "unat (32 :: u32) = 32"
  by simp

lemma count_not: "(of_nat c + 1 :: u32) \<noteq> 8" "(of_nat c + 1 :: u32) \<noteq> 32" if "c + 1 \<noteq> 8" "c + 1 \<noteq> 32" "c < 99"
proof -
  have "unat (of_nat (c + 1) :: u32) = c + 1"
    using that(3) by (simp only: unat_of_nat) (simp add: take_bit_nat_eq_self)
  then have u: "unat (of_nat c + 1 :: u32) = c + 1" by (simp only: of_nat_add of_nat_1)
  show "(of_nat c + 1 :: u32) \<noteq> 8" using u that(1) by (metis unat_numeral_8)
  show "(of_nat c + 1 :: u32) \<noteq> 32" using u that(2) by (metis unat_numeral_32)
qed

lemma spi_quiet_bit:
  assumes "silent st" "in_count st = of_nat c" "c + 1 \<noteq> 8" "c + 1 \<noteq> 32" "c < 99"
  shows "spi_send_bit b st = Some (st\<lparr>spi_data_in := of_bool b, spi_data_out := 0,
    in_reg := push_bit 1 (in_reg st) OR of_bool b, in_count := in_count st + 1\<rparr>)"
  using assms count_not [OF assms(3-5)]
  by (subst send_bit_step) (simp_all add: silent_def spi_event_def shift_output_shiftreg_def)

lemma spi_quiet_bits:
  assumes "silent st" "in_count st = of_nat c" "\<And>i. i < n \<Longrightarrow> c + i + 1 \<noteq> 8 \<and> c + i + 1 \<noteq> 32" "c + n < 99"
  shows "\<exists>d q. spi_send_bits (msb_first n w) st = Some (shifted n w d q st)"
  using assms
proof (induction n arbitrary: st c)
  case 0
  have "st = shifted 0 w (spi_data_in st) (spi_data_out st) st" by (simp add: shifted_def)
  then show ?case by (metis msb_first_0 spi_send_bits.simps(1))
next
  case (Suc n)
  let ?st = "st\<lparr>spi_data_in := of_bool (bit w n), spi_data_out := 0, in_reg := push_bit 1 (in_reg st) OR of_bool (bit w n), in_count := in_count st + 1\<rparr>"
  have "spi_send_bit (bit w n) st = Some ?st"
    using Suc.prems(3) [of 0] Suc.prems(4) by (intro spi_quiet_bit [OF Suc.prems(1,2)]) simp_all
  moreover have "silent ?st" "in_count ?st = of_nat (Suc c)" using Suc.prems(1,2) by (simp_all add: silent_def)
  moreover have "Suc c + i + 1 \<noteq> 8 \<and> Suc c + i + 1 \<noteq> 32" if "i < n" for i
    using Suc.prems(3) [of "Suc i"] that by simp
  ultimately obtain d q where d: "spi_send_bits (msb_first (Suc n) w) st = Some (shifted n w d q ?st)"
    using Suc.IH [of ?st "Suc c"] Suc.prems(4) by (auto simp: msb_first_Suc)
  have "shifted n w d q ?st = shifted (Suc n) w d q st"
    using shift_value [of n "in_reg st" w] by (simp add: shifted_def ac_simps del: push_bit_Suc take_bit_Suc)
  then show ?case using d by metis
qed

lemma spi_send_bits_append: "spi_send_bits (xs @ ys) st = Option.bind (spi_send_bits xs st) (spi_send_bits ys)"
  by (induction xs arbitrary: st) (auto simp: bind_eq_None_conv split: Option.bind_split)

lemma spi_send_bits_single: "spi_send_bits [b] st = spi_send_bit b st"
  by (cases "spi_send_bit b st") simp_all

text \<open>Bits up to one at which something happens.\<close>

lemma bits_event:
  assumes "silent st" "in_count st = of_nat c" "\<And>i. i < n \<Longrightarrow> c + i + 1 \<noteq> 8 \<and> c + i + 1 \<noteq> 32" "c + n < 99"
  shows "\<exists>d q. spi_send_bits (msb_first (Suc n) w) st = event_done (spi_event (shifted (Suc n) w d q st))"
proof -
  obtain d q where d: "spi_send_bits (msb_first n (drop_bit 1 w)) st = Some (shifted n (drop_bit 1 w) d q st)"
    using spi_quiet_bits [OF assms] by blast
  let ?s = "shifted n (drop_bit 1 w) d q st"
  have "?s\<lparr>spi_data_in := of_bool (bit w 0), in_reg := push_bit 1 (in_reg ?s) OR of_bool (bit w 0), in_count := in_count ?s + 1\<rparr>
      = shifted (Suc n) w (of_bool (bit w 0)) q st"
    using shift_last [of n "in_reg st" w] by (simp add: shifted_def ac_simps del: push_bit_Suc take_bit_Suc)
  moreover have "spi_cs ?s = 0" "spi_clock ?s = 0" using assms(1) by (simp_all add: silent_def shifted_def)
  ultimately have "spi_send_bits (msb_first (Suc n) w) st = event_done (spi_event (shifted (Suc n) w (of_bool (bit w 0)) q st))"
    using send_bit_step [of ?s "bit w 0"]
    by (simp only: msb_first_split spi_send_bits_append d event_done_def Option.bind.simps spi_send_bits_single)
  then show ?thesis by blast
qed

section \<open>Commands\<close>

definition spi_ok :: "nat \<Rightarrow> spi_flash \<Rightarrow> bool" where
  "spi_ok k st \<longleftrightarrow> 16 \<le> k \<and> k \<le> 24 \<and> spi_flash_size st = 2 ^ k"

definition spi_idle :: "spi_flash \<Rightarrow> bool" where
  "spi_idle st \<longleftrightarrow> spi_cs st = 1 \<and> spi_clock st = 0
     \<and> spi_command st \<notin> {FLASH_CMD_PAGE_PROGRAM, FLASH_CMD_READ_DATA, FLASH_CMD_BLOCK_ERASE}"

definition fresh :: "spi_flash \<Rightarrow> bool" where
  "fresh st \<longleftrightarrow> silent st \<and> in_reg st = 0 \<and> in_count st = 0"

lemma selected_fresh:
  assumes "spi_idle st"
  shows "spi_flash_write_select 0 st = Some (st\<lparr>spi_cs := 0, in_reg := 0, in_count := 0, out_reg := 0, out_count := 0\<rparr>)"
  using assms by (simp add: spi_flash_write_select_def spi_idle_def reset_output_shiftreg_def spi_reset_input_def)

text \<open>A byte sent to a fresh state.\<close>

lemma byte_sent:
  assumes "fresh st"
  shows "\<exists>d q. spi_send_bits (msb_first 8 w) st
    = event_done (spi_bits8 (st\<lparr>spi_data_in := d, spi_data_out := q, in_reg := take_bit 8 w, in_count := 8\<rparr>))"
proof -
  have "\<exists>d q. spi_send_bits (msb_first (Suc 7) w) st = event_done (spi_event (shifted (Suc 7) w d q st))"
    using assms by (intro bits_event [where c = 0]) (auto simp: fresh_def)
  then obtain d q where e: "spi_send_bits (msb_first (Suc 7) w) st = event_done (spi_event (shifted (Suc 7) w d q st))" by blast
  have "shifted (Suc 7) w d q st = st\<lparr>spi_data_in := d, spi_data_out := q, in_reg := take_bit 8 w, in_count := 8\<rparr>"
    using assms by (simp add: fresh_def shifted_def del: take_bit_Suc push_bit_Suc)
  then have "spi_event (shifted (Suc 7) w d q st) = spi_bits8 (st\<lparr>spi_data_in := d, spi_data_out := q, in_reg := take_bit 8 w, in_count := 8\<rparr>)"
    by (simp add: spi_event_def)
  moreover have "Suc 7 = 8" by simp
  ultimately show ?thesis using e by metis
qed


lemma done_some: "event_done (Some s) = Some ((shift_output_shiftreg s)\<lparr>spi_clock := 0\<rparr>)"
  by (simp add: event_done_def)

text \<open>A command with its address: all of it is in the register when the command runs.\<close>

lemma command_sent:
  assumes "fresh st" "spi_command st \<notin> {FLASH_CMD_PAGE_PROGRAM, FLASH_CMD_READ_DATA}"
    and "cmd \<in> {FLASH_CMD_REMS, FLASH_CMD_BLOCK_ERASE, FLASH_CMD_WRITE_ENABLE, FLASH_CMD_PAGE_PROGRAM, FLASH_CMD_READ_DATA}"
  shows "\<exists>d. spi_send_bits (msb_first 8 cmd) st = Some (st\<lparr>spi_data_in := d, in_reg := cmd, in_count := 8,
    spi_command := cmd, spi_data_out := 0, spi_clock := 0\<rparr>)"
proof -
  have t: "take_bit 8 cmd = cmd" using assms(3) by (auto simp: spi_cmd_defs)
  have n: "cmd \<noteq> FLASH_CMD_READ_STATUS" using assms(3) by (auto simp: spi_cmd_defs)
  obtain d q where "spi_send_bits (msb_first 8 cmd) st
      = event_done (spi_bits8 (st\<lparr>spi_data_in := d, spi_data_out := q, in_reg := cmd, in_count := 8\<rparr>))"
    using byte_sent [OF assms(1), of cmd] unfolding t by blast
  also have "spi_bits8 (st\<lparr>spi_data_in := d, spi_data_out := q, in_reg := cmd, in_count := 8\<rparr>)
      = Some (st\<lparr>spi_data_in := d, spi_data_out := q, in_reg := cmd, in_count := 8, spi_command := cmd\<rparr>)"
    using assms(2,3) n by (simp add: spi_bits8_def)
  finally show ?thesis
    using assms(1) by (intro exI [of _ d]) (simp add: done_some shift_output_shiftreg_def fresh_def silent_def)
qed

lemma address_sent:
  assumes "fresh st" "spi_command st \<notin> {FLASH_CMD_PAGE_PROGRAM, FLASH_CMD_READ_DATA}"
    and "cmd \<in> {FLASH_CMD_REMS, FLASH_CMD_BLOCK_ERASE, FLASH_CMD_PAGE_PROGRAM, FLASH_CMD_READ_DATA}"
  shows "\<exists>d q. spi_send cmd a st = event_done (spi_bits32 (st\<lparr>spi_data_in := d, spi_data_out := q, spi_command := cmd,
    in_reg := push_bit 24 cmd OR take_bit 24 a, in_count := 32, spi_clock := 0\<rparr>))"
proof -
  obtain d0 where c: "spi_send_bits (msb_first 8 cmd) st = Some (st\<lparr>spi_data_in := d0, in_reg := cmd, in_count := 8,
      spi_command := cmd, spi_data_out := 0, spi_clock := 0\<rparr>)" (is "_ = Some ?s")
    using command_sent [OF assms(1,2), of cmd] assms(3) by auto
  have "\<exists>d q. spi_send_bits (msb_first (Suc 23) a) ?s = event_done (spi_event (shifted (Suc 23) a d q ?s))"
    using assms(1) by (intro bits_event [where c = 8]) (auto simp: fresh_def silent_def)
  then obtain d q where e: "spi_send_bits (msb_first (Suc 23) a) ?s = event_done (spi_event (shifted (Suc 23) a d q ?s))" by blast
  have sh: "shifted 24 a d q ?s = st\<lparr>spi_data_in := d, spi_data_out := q, spi_command := cmd,
      in_reg := push_bit 24 cmd OR take_bit 24 a, in_count := 32, spi_clock := 0\<rparr>"
    by (simp add: shifted_def)
  have "Suc 23 = 24" by simp
  then have "spi_send cmd a st = event_done (spi_event (shifted 24 a d q ?s))"
    using e c by (simp add: spi_send_def)
  then show ?thesis unfolding sh by (auto simp: spi_event_def)
qed

lemma mask_size: "spi_flash_size st - 1 = mask k" if "spi_ok k st"
  using that by (simp add: spi_ok_def mask_eq_exp_minus_1)

lemma address_in_reg: "(push_bit 24 cmd OR take_bit 24 a) AND mask k = take_bit k (a :: u32)" if "k \<le> 24"
  using that by (intro bit_word_eqI) (auto simp: bit_simps)

lemma unat_take: "unat (take_bit k (w :: u32)) = unat w mod 2 ^ k"
  by (simp only: unsigned_take_bit_eq take_bit_nat_def)

lemma unat_power_small: "unat (2 ^ k :: u32) = 2 ^ k" if "k \<le> 24"
proof -
  have "(2 :: nat) ^ k \<le> 2 ^ 24" using that by (intro power_increasing) simp_all
  then have "(2 :: nat) ^ k < 2 ^ LENGTH(32)" by simp
  then show ?thesis using unat_of_nat [of "2 ^ k", where 'a = 32] by (simp only: of_nat_power of_nat_numeral take_bit_nat_def mod_less)
qed

lemma take_less: "take_bit k w < spi_flash_size st" if "spi_ok k st" for w :: u32
proof -
  have "unat (2 ^ k :: u32) = 2 ^ k" using that by (simp add: spi_ok_def unat_power_small)
  moreover have "unat w mod 2 ^ k < 2 ^ k" by simp
  ultimately show ?thesis using that by (simp add: word_less_nat_alt unat_take spi_ok_def)
qed


lemma get_masked: "spi_get (take_bit k w) st = Some (spi_flash_data st (unat w mod 2 ^ k))" if "spi_ok k st"
  using take_less [OF that, of w] by (simp only: spi_get_def unat_take if_True)

text \<open>Page program: after the address every byte is merged into the memory.\<close>

definition programming :: "nat \<Rightarrow> nat \<Rightarrow> spi_flash \<Rightarrow> bool" where
  "programming k a st \<longleftrightarrow> fresh st \<and> spi_ok k st \<and> spi_command st = FLASH_CMD_PAGE_PROGRAM \<and> unat (spi_addr st) mod 2 ^ k = a mod 2 ^ k"

lemma unat_succ_mod: "unat (take_bit k w + 1) mod 2 ^ k = (unat w + 1) mod 2 ^ k" if "k \<le> 24" for w :: u32
proof -
  have "unat (take_bit k w + 1 :: u32) = (unat w mod 2 ^ k + 1) mod 2 ^ 32"
    by (simp only: unat_word_ariths unat_take) simp
  moreover have "(2 :: nat) ^ k dvd 2 ^ 32" by (rule le_imp_power_dvd) (use that in simp)
  ultimately show ?thesis by (simp only: mod_mod_cancel mod_add_left_eq)
qed

lemma program_byte:
  assumes "programming k a st"
  shows "\<exists>st'. spi_send_bits (msb_first 8 (ucast x)) st = Some st' \<and> programming k (a + 1) st'
    \<and> spi_flash_size st' = spi_flash_size st
    \<and> spi_flash_data st' = (spi_flash_data st)(a mod 2 ^ k := spi_flash_data st (a mod 2 ^ k) AND x)"
proof -
  have st: "fresh st" "spi_ok k st" "spi_command st = FLASH_CMD_PAGE_PROGRAM" "unat (spi_addr st) mod 2 ^ k = a mod 2 ^ k" "k \<le> 24"
    using assms by (simp_all add: programming_def spi_ok_def)
  have t: "take_bit 8 (ucast x) = (ucast x :: u32)" by (rule bit_word_eqI) (auto simp: bit_simps dest: bit_imp_le_length)
  have uc: "ucast (ucast x :: u32) = x" by (rule bit_word_eqI) (auto simp: bit_simps)
  obtain d q where s: "spi_send_bits (msb_first 8 (ucast x)) st
      = event_done (spi_bits8 (st\<lparr>spi_data_in := d, spi_data_out := q, in_reg := ucast x, in_count := 8\<rparr>))" (is "_ = event_done (spi_bits8 ?s)")
    using byte_sent [OF st(1), of "ucast x"] unfolding t by blast
  have ok: "spi_ok k ?s" using st(2) by (simp add: spi_ok_def)
  have m: "spi_addr ?s AND (spi_flash_size ?s - 1) = take_bit k (spi_addr st)"
    using mask_size [OF ok] by (simp add: take_bit_eq_mask)
  have "spi_bits8 ?s = Some (spi_reset_input (?s\<lparr>spi_flash_data := (spi_flash_data st)(a mod 2 ^ k := spi_flash_data st (a mod 2 ^ k) AND x),
      spi_addr := take_bit k (spi_addr st) + 1\<rparr>))"
    unfolding spi_bits8_def m Let_def
    using get_masked [OF ok, of "spi_addr st"] take_less [OF ok, of "spi_addr st"] st(3,4)
    by (simp add: spi_put_def unat_take uc)
  then obtain s' where s': "s' = (shift_output_shiftreg (spi_reset_input (?s\<lparr>spi_flash_data :=
        (spi_flash_data st)(a mod 2 ^ k := spi_flash_data st (a mod 2 ^ k) AND x), spi_addr := take_bit k (spi_addr st) + 1\<rparr>)))\<lparr>spi_clock := 0\<rparr>"
    and r: "spi_send_bits (msb_first 8 (ucast x)) st = Some s'"
    unfolding s by (simp only: done_some)
  have c: "spi_cs st = 0" "spi_clock st = 0" "out_count st = 0" using st(1) by (simp_all add: fresh_def silent_def)
  have f: "spi_cs s' = 0" "spi_clock s' = 0" "out_count s' = 0" "in_reg s' = 0" "in_count s' = 0"
    "spi_flash_size s' = spi_flash_size st" "spi_command s' = spi_command st" "spi_addr s' = take_bit k (spi_addr st) + 1"
    "spi_flash_data s' = (spi_flash_data st)(a mod 2 ^ k := spi_flash_data st (a mod 2 ^ k) AND x)"
    unfolding s' shift_output_shiftreg_def spi_reset_input_def using c by simp_all
  have "programming k (a + 1) s'"
    using st(2,3,4) unat_succ_mod [OF st(5), of "spi_addr st"] mod_add_left_eq [of "unat (spi_addr st)" "2 ^ k" 1] mod_add_left_eq [of a "2 ^ k" 1]
    by (simp only: programming_def fresh_def silent_def spi_ok_def f conj_absorb simp_thms)
  then show ?thesis using r f(6,9) by blast
qed

lemma program_bytes:
  assumes "programming k a st"
  shows "\<exists>st'. spi_send_bits (concat (map (\<lambda>x. msb_first 8 (ucast x)) bs)) st = Some st' \<and> programming k (a + length bs) st'
    \<and> spi_flash_size st' = spi_flash_size st \<and> spi_flash_data st' = mem_program k (spi_flash_data st) a bs"
  using assms
proof (induction bs arbitrary: a st)
  case (Cons x bs)
  from program_byte [OF Cons.prems] obtain st1 where
    1: "spi_send_bits (msb_first 8 (ucast x)) st = Some st1" "programming k (a + 1) st1" "spi_flash_size st1 = spi_flash_size st"
      "spi_flash_data st1 = (spi_flash_data st)(a mod 2 ^ k := spi_flash_data st (a mod 2 ^ k) AND x)" by blast
  from Cons.IH [OF 1(2)] obtain st2 where
    2: "spi_send_bits (concat (map (\<lambda>x. msb_first 8 (ucast x)) bs)) st1 = Some st2" "programming k (a + 1 + length bs) st2"
      "spi_flash_size st2 = spi_flash_size st1" "spi_flash_data st2 = mem_program k (spi_flash_data st1) (a + 1) bs" by blast
  show ?case
    by (rule exI [of _ st2]) (use 1(1) 2(1,2) in \<open>simp add: spi_send_bits_append 2(3,4) 1(3,4)\<close>)
qed simp

section \<open>Reading\<close>

text \<open>A byte on its way out, \<open>j\<close> bits after the first; \<open>a\<close> is the address of the next.\<close>

definition streaming :: "nat \<Rightarrow> nat \<Rightarrow> u8 \<Rightarrow> nat \<Rightarrow> spi_flash \<Rightarrow> bool" where
  "streaming k a x j st \<longleftrightarrow> spi_cs st = 0 \<and> spi_clock st = 0 \<and> spi_ok k st \<and> spi_command st = FLASH_CMD_READ_DATA
     \<and> in_reg st = 0 \<and> in_count st = of_nat j \<and> out_reg st = push_bit (25 + j) (ucast x) \<and> out_count st = of_nat (7 - j)
     \<and> spi_data_out st = of_bool (bit x (7 - j)) \<and> unat (spi_addr st) mod 2 ^ k = a mod 2 ^ k"

lemma top_bit: "drop_bit 31 (push_bit (24 + j) (ucast x :: u32)) AND 1 = of_bool (bit x (7 - j))" if "j \<le> 7" for x :: u8
proof (rule bit_word_eqI)
  fix i
  have "31 - (24 + j) = 7 - j" using that by simp
  then show "bit (drop_bit 31 (push_bit (24 + j) (ucast x :: u32)) AND 1) i = bit (of_bool (bit x (7 - j)) :: u32) i" if "i < LENGTH(32)"
    using that \<open>j \<le> 7\<close> by (cases i) (auto simp: bit_simps)
qed

text \<open>Loading a byte into the output register, and its first bit.\<close>

lemma loaded:
  assumes "spi_cs st = 0" "spi_ok k st" "spi_command st = FLASH_CMD_READ_DATA"
  shows "\<exists>st'. event_done (load_output (st\<lparr>spi_addr := take_bit k w\<rparr>)) = Some st'
    \<and> streaming k (unat w + 1) (spi_flash_data st (unat w mod 2 ^ k)) 0 st'
    \<and> spi_flash_data st' = spi_flash_data st \<and> spi_flash_size st' = spi_flash_size st"
proof -
  let ?x = "spi_flash_data st (unat w mod 2 ^ k)"
  let ?s = "st\<lparr>spi_addr := take_bit k w\<rparr>"
  have ok: "spi_ok k ?s" and k: "k \<le> 24" using assms(2) by (simp_all add: spi_ok_def)
  have g: "spi_get (spi_addr ?s) ?s = Some ?x" using get_masked [OF ok, of w] by simp
  obtain st' where st': "st' = (shift_output_shiftreg (spi_reset_input (?s\<lparr>out_reg := push_bit 24 (ucast ?x), out_count := 8,
      spi_addr := take_bit k w + 1\<rparr>)))\<lparr>spi_clock := 0\<rparr>" and e: "event_done (load_output ?s) = Some st'"
    by (simp only: load_output_def g option.map done_some) simp
  have f: "spi_cs st' = 0" "spi_clock st' = 0" "spi_command st' = FLASH_CMD_READ_DATA" "in_reg st' = 0" "in_count st' = 0"
    "out_reg st' = push_bit 1 (push_bit 24 (ucast ?x))" "out_count st' = 7" "spi_data_out st' = drop_bit 31 (push_bit (24 + 0) (ucast ?x)) AND 1"
    "spi_addr st' = take_bit k w + 1" "spi_flash_data st' = spi_flash_data st" "spi_flash_size st' = spi_flash_size st"
    unfolding st' shift_output_shiftreg_def spi_reset_input_def using assms(1,3) by simp_all
  have "spi_ok k st'" using assms(2) by (simp add: spi_ok_def f)
  then have "streaming k (unat w + 1) ?x 0 st'"
    unfolding streaming_def f top_bit [OF le0] unat_succ_mod [OF k] by (simp add: push_bit_push_bit [symmetric] push_bit_double)
  with e f show ?thesis by blast
qed

lemma stream_bit:
  assumes "streaming k a x j st" "j < 7"
  shows "\<exists>st'. spi_send_bit False st = Some st' \<and> streaming k a x (Suc j) st'
    \<and> spi_flash_data st' = spi_flash_data st \<and> spi_flash_size st' = spi_flash_size st"
proof -
  have st: "spi_cs st = 0" "spi_clock st = 0" "in_reg st = 0" "in_count st = of_nat j" "out_reg st = push_bit (25 + j) (ucast x)"
    "out_count st = of_nat (7 - j)" using assms(1) by (simp_all add: streaming_def)
  let ?t = "st\<lparr>spi_data_in := of_bool False, in_reg := push_bit 1 (in_reg st) OR of_bool False, in_count := in_count st + 1\<rparr>"
  have "in_count ?t \<noteq> 8 \<and> in_count ?t \<noteq> 32" using assms(2) count_not [of j] by (simp add: st(4))
  then have e: "spi_event ?t = Some ?t" by (simp add: spi_event_def)
  obtain n where n: "7 - j = Suc n" "n = 7 - Suc j" using assms(2) by (metis Suc_diff_Suc)
  have nz: "(of_nat (Suc n) :: u32) \<noteq> 0"
    using n by (auto simp: word_unat_eq_iff unat_of_nat take_bit_nat_eq_self simp del: of_nat_Suc)
  obtain st' where st': "st' = (shift_output_shiftreg ?t)\<lparr>spi_clock := 0\<rparr>" and s: "spi_send_bit False st = Some st'"
    using send_bit_step [OF st(1,2), of False] unfolding e by simp
  have o: "out_count ?t = of_nat (Suc n)" "out_count ?t \<noteq> 0" using st(6) n nz by (simp_all del: of_nat_Suc)
  have f: "spi_cs st' = 0" "spi_clock st' = 0" "spi_command st' = spi_command st" "in_reg st' = 0" "in_count st' = of_nat (Suc j)"
    "out_reg st' = push_bit 1 (push_bit (25 + j) (ucast x))" "out_count st' = of_nat n"
    "spi_data_out st' = drop_bit 31 (push_bit (24 + Suc j) (ucast x)) AND 1"
    "spi_addr st' = spi_addr st" "spi_flash_data st' = spi_flash_data st" "spi_flash_size st' = spi_flash_size st"
    unfolding st' shift_output_shiftreg_def if_P [OF o(2)] using st o(1) by (simp_all add: add.commute)
  have "Suc j \<le> 7" using assms(2) by simp
  then have "streaming k a x (Suc j) st'"
    using assms(1) n(2) unfolding streaming_def f top_bit [OF \<open>Suc j \<le> 7\<close>]
    by (simp add: spi_ok_def f push_bit_push_bit del: push_bit_Suc)
  with s f show ?thesis by blast
qed

lemma stream_last:
  assumes "streaming k a x 7 st"
  shows "\<exists>st'. spi_send_bit False st = Some st' \<and> streaming k (a + 1) (spi_flash_data st (a mod 2 ^ k)) 0 st'
    \<and> spi_flash_data st' = spi_flash_data st \<and> spi_flash_size st' = spi_flash_size st"
proof -
  have st: "spi_cs st = 0" "spi_clock st = 0" "in_reg st = 0" "in_count st = of_nat 7" "spi_command st = FLASH_CMD_READ_DATA"
    "spi_ok k st" "unat (spi_addr st) mod 2 ^ k = a mod 2 ^ k" using assms by (simp_all add: streaming_def)
  let ?t = "st\<lparr>spi_data_in := of_bool False, in_reg := push_bit 1 (in_reg st) OR of_bool False, in_count := in_count st + 1\<rparr>"
  have ok: "spi_ok k ?t" using st(6) by (simp add: spi_ok_def)
  have "spi_command ?t \<noteq> FLASH_CMD_PAGE_PROGRAM" using st(5) by (simp add: spi_cmd_defs)
  moreover have "spi_addr ?t AND (spi_flash_size ?t - 1) = take_bit k (spi_addr st)"
    using mask_size [OF ok] by (simp add: take_bit_eq_mask)
  ultimately have "spi_event ?t = load_output (?t\<lparr>spi_addr := take_bit k (spi_addr st)\<rparr>)"
    using st(4,5) by (simp add: spi_event_def spi_bits8_def)
  then have s: "spi_send_bit False st = event_done (load_output (?t\<lparr>spi_addr := take_bit k (spi_addr st)\<rparr>))"
    using send_bit_step [OF st(1,2), of False] by (simp add: event_done_def)
  have "streaming k (unat (spi_addr st) + 1) y 0 st' \<longleftrightarrow> streaming k (a + 1) y 0 st'" for y st'
    using st(7) by (auto simp: streaming_def) (metis mod_Suc_eq)+
  then show ?thesis
    using loaded [of ?t k "spi_addr st"] st ok unfolding s by simp
qed

lemma stream_read: "bit (spi_flash_read_data st) 0 = bit x (7 - j)" if "streaming k a x j st"
  using that by (simp add: streaming_def spi_flash_read_data_def)

lemma stream_bits:
  assumes "streaming k a x (7 - n) st" "n \<le> 7"
  shows "\<exists>st'. spi_recv_bits (Suc n) st = Some (msb_first (Suc n) (ucast x), st')
    \<and> streaming k (a + 1) (spi_flash_data st (a mod 2 ^ k)) 0 st'
    \<and> spi_flash_data st' = spi_flash_data st \<and> spi_flash_size st' = spi_flash_size st"
  using assms
proof (induction n arbitrary: st)
  case 0
  then obtain st1 where "spi_send_bit False st = Some st1" "streaming k (a + 1) (spi_flash_data st (a mod 2 ^ k)) 0 st1"
    "spi_flash_data st1 = spi_flash_data st" "spi_flash_size st1 = spi_flash_size st" using stream_last [of k a x st] by auto
  moreover have "bit (spi_flash_read_data st) 0 = bit x 0" using stream_read [OF 0(1)] by simp
  ultimately show ?case by (simp add: msb_first_Suc msb_first_0 bit_simps)
next
  case (Suc n)
  have j: "7 - Suc n < 7" "Suc (7 - Suc n) = 7 - n" "7 - (7 - Suc n) = Suc n" using Suc.prems(2) by auto
  obtain st1 where 1: "spi_send_bit False st = Some st1" "streaming k a x (7 - n) st1"
    "spi_flash_data st1 = spi_flash_data st" "spi_flash_size st1 = spi_flash_size st"
    using stream_bit [OF Suc.prems(1) j(1)] unfolding j(2) by blast
  have "n \<le> 7" using Suc.prems(2) by simp
  from Suc.IH [OF 1(2) this] obtain st2 where 2: "spi_recv_bits (Suc n) st1 = Some (msb_first (Suc n) (ucast x), st2)"
    "streaming k (a + 1) (spi_flash_data st1 (a mod 2 ^ k)) 0 st2" "spi_flash_data st2 = spi_flash_data st1" "spi_flash_size st2 = spi_flash_size st1"
    by blast
  have b: "bit (spi_flash_read_data st) 0 = bit (ucast x :: u32) (Suc n)"
    using stream_read [OF Suc.prems(1)] Suc.prems(2) by (simp add: j(3) bit_simps)
  have "spi_recv_bits (Suc (Suc n)) st = Some (msb_first (Suc (Suc n)) (ucast x), st2)"
    by (subst spi_recv_bits.simps(2), subst msb_first_Suc) (simp only: 1(1) 2(1) b Option.bind.simps option.map prod.case)
  with 2 show ?case by (intro exI [of _ st2]) (simp add: 1(3,4))
qed

lemma stream_bytes:
  assumes "streaming k (a + 1) (spi_flash_data st (a mod 2 ^ k)) 0 st"
  shows "\<exists>st' x. spi_recv_bytes n st = Some (mem_read k (spi_flash_data st) a n, st') \<and> streaming k (a + n + 1) x 0 st'
    \<and> spi_flash_data st' = spi_flash_data st \<and> spi_flash_size st' = spi_flash_size st"
  using assms
proof (induction n arbitrary: a st)
  case (Suc n)
  have "streaming k (a + 1) (spi_flash_data st (a mod 2 ^ k)) (7 - 7) st" using Suc.prems by simp
  from stream_bits [OF this] obtain st1 where
    1: "spi_recv_bits 8 st = Some (msb_first 8 (ucast (spi_flash_data st (a mod 2 ^ k))), st1)"
      "streaming k (a + 1 + 1) (spi_flash_data st ((a + 1) mod 2 ^ k)) 0 st1"
      "spi_flash_data st1 = spi_flash_data st" "spi_flash_size st1 = spi_flash_size st" by (auto simp: eval_nat_numeral)
  from Suc.IH [of "a + 1" st1] 1 obtain st2 x where
    "spi_recv_bytes n st1 = Some (mem_read k (spi_flash_data st) (a + 1) n, st2)" "streaming k (a + 1 + n + 1) x 0 st2"
      "spi_flash_data st2 = spi_flash_data st" "spi_flash_size st2 = spi_flash_size st" by auto
  then show ?case using 1 by auto
qed auto

section \<open>Commands refine the memory\<close>

lemma erase_base: "unat (((push_bit 24 cmd OR take_bit 24 a) AND 0xff0000) AND mask k) = unat a mod 2 ^ k div 0x10000 * 0x10000"
  if "16 \<le> k" "k \<le> 24" for a cmd :: u32
proof -
  have m: "(0xff0000 :: u32) = push_bit 16 (mask 8)" by (simp add: mask_eq_exp_minus_1)
  have "((push_bit 24 cmd OR take_bit 24 a) AND 0xff0000) AND mask k = push_bit 16 (drop_bit 16 (take_bit k a))"
    unfolding m using that by (intro bit_word_eqI) (auto simp: bit_simps)
  moreover have "unat (push_bit 16 (drop_bit 16 w)) = unat w div 0x10000 * 0x10000" for w :: u32
  proof -
    have "unat w div 65536 * 65536 < 2 ^ LENGTH(32)"
      by (rule le_less_trans [OF div_times_less_eq_dividend unsigned_less])
    then show ?thesis
      by (simp add: unsigned_push_bit_eq unsigned_drop_bit_eq push_bit_nat_def drop_bit_nat_def take_bit_nat_def)
  qed
  ultimately show ?thesis by (simp only: unat_take)
qed

lemma idle_fresh:
  assumes "spi_idle st" "spi_ok k st"
  obtains s where "spi_flash_write_select 0 st = Some s" "fresh s" "spi_ok k s" "spi_command s = spi_command st" "spi_flash_data s = spi_flash_data st"
    "spi_command s \<notin> {FLASH_CMD_PAGE_PROGRAM, FLASH_CMD_READ_DATA}"
  using selected_fresh [OF assms(1)] assms by (auto simp: fresh_def silent_def spi_ok_def spi_idle_def)

lemma deselect_after:
  assumes "spi_cs st = 0" "spi_clock st = 0" "spi_ok k st" "spi_command st \<in> {FLASH_CMD_PAGE_PROGRAM, FLASH_CMD_READ_DATA, FLASH_CMD_WRITE_ENABLE}"
  shows "\<exists>st'. spi_flash_write_select 1 st = Some st' \<and> spi_idle st' \<and> spi_ok k st' \<and> spi_flash_data st' = spi_flash_data st"
  using assms by (auto simp: spi_flash_write_select_def spi_idle_def spi_ok_def spi_cmd_defs)

abbreviation done_as :: "nat \<Rightarrow> spi_op \<Rightarrow> spi_flash \<Rightarrow> bool" where
  "done_as k q st \<equiv> \<exists>st'. spi_transact q st = Some (fst (mem_op k q (spi_flash_data st)), st') \<and> spi_idle st' \<and> spi_ok k st'
     \<and> spi_flash_data st' = snd (mem_op k q (spi_flash_data st))"

lemma address_masked: "in_reg st AND (spi_flash_size st - 1) = take_bit k a"
  if "spi_ok k st" "in_reg st = push_bit 24 cmd OR take_bit 24 a"
  using mask_size [OF that(1)] that address_in_reg [of k cmd a] by (simp add: spi_ok_def)

lemma read_done:
  assumes "spi_idle st" "spi_ok k st"
  shows "done_as k (Spi_read a n) st"
proof -
  obtain s where s: "spi_flash_write_select 0 st = Some s" "fresh s" "spi_ok k s" "spi_flash_data s = spi_flash_data st"
    "spi_command s \<notin> {FLASH_CMD_PAGE_PROGRAM, FLASH_CMD_READ_DATA}" using idle_fresh [OF assms] by metis
  obtain d q where c: "spi_send FLASH_CMD_READ_DATA a s = event_done (spi_bits32 (s\<lparr>spi_data_in := d, spi_data_out := q,
      spi_command := FLASH_CMD_READ_DATA, in_reg := push_bit 24 FLASH_CMD_READ_DATA OR take_bit 24 a, in_count := 32, spi_clock := 0\<rparr>))"
    (is "_ = event_done (spi_bits32 ?t)") using address_sent [OF s(2,5), of FLASH_CMD_READ_DATA a] by auto
  have t: "spi_ok k ?t" "spi_cs ?t = 0" "spi_command ?t = FLASH_CMD_READ_DATA" "spi_flash_data ?t = spi_flash_data st"
    using s(2,3,4) by (simp_all add: spi_ok_def fresh_def silent_def)
  have "in_reg ?t AND (spi_flash_size ?t - 1) = take_bit k a" by (rule address_masked [OF t(1)]) simp
  then have "spi_bits32 ?t = load_output (?t\<lparr>spi_addr := take_bit k a\<rparr>)"
    by (simp add: spi_bits32_def) (simp add: spi_cmd_defs)
  then obtain s1 where 1: "spi_send FLASH_CMD_READ_DATA a s = Some s1"
    "streaming k (unat a + 1) (spi_flash_data s1 (unat a mod 2 ^ k)) 0 s1" "spi_flash_data s1 = spi_flash_data st"
    using loaded [OF t(2,1,3), of a] unfolding c t(4) by (auto simp del: spi_flash.update_convs)
  obtain s2 x where 2: "spi_recv_bytes n s1 = Some (mem_read k (spi_flash_data st) (unat a) n, s2)" "streaming k (unat a + n + 1) x 0 s2"
    "spi_flash_data s2 = spi_flash_data st" using stream_bytes [OF 1(2), of n] unfolding 1(3) by blast
  then obtain s3 where "spi_flash_write_select 1 s2 = Some s3" "spi_idle s3" "spi_ok k s3" "spi_flash_data s3 = spi_flash_data st"
    using deselect_after [of s2 k] by (auto simp: streaming_def)
  then show ?thesis using s(1) 1(1) 2(1) by (simp add: in_select_def)
qed

lemma program_done:
  assumes "spi_idle st" "spi_ok k st"
  shows "done_as k (Spi_program a bs) st"
proof -
  obtain s where s: "spi_flash_write_select 0 st = Some s" "fresh s" "spi_ok k s" "spi_flash_data s = spi_flash_data st"
    "spi_command s \<notin> {FLASH_CMD_PAGE_PROGRAM, FLASH_CMD_READ_DATA}" using idle_fresh [OF assms] by metis
  obtain d q where c: "spi_send FLASH_CMD_PAGE_PROGRAM a s = event_done (spi_bits32 (s\<lparr>spi_data_in := d, spi_data_out := q,
      spi_command := FLASH_CMD_PAGE_PROGRAM, in_reg := push_bit 24 FLASH_CMD_PAGE_PROGRAM OR take_bit 24 a, in_count := 32, spi_clock := 0\<rparr>))"
    (is "_ = event_done (spi_bits32 ?t)") using address_sent [OF s(2,5), of FLASH_CMD_PAGE_PROGRAM a] by auto
  have t: "spi_ok k ?t" "k \<le> 24" using s(3) by (simp_all add: spi_ok_def)
  have "in_reg ?t AND (spi_flash_size ?t - 1) = take_bit k a" by (rule address_masked [OF t(1)]) simp
  then have "spi_bits32 ?t = Some (spi_reset_input (?t\<lparr>spi_addr := take_bit k a\<rparr>))"
    by (simp add: spi_bits32_def) (simp add: spi_cmd_defs)
  then obtain s1 where s1: "s1 = (shift_output_shiftreg (spi_reset_input (?t\<lparr>spi_addr := take_bit k a\<rparr>)))\<lparr>spi_clock := 0\<rparr>"
    and 1: "spi_send FLASH_CMD_PAGE_PROGRAM a s = Some s1" unfolding c by (simp only: done_some)
  have f: "out_count s = 0" "spi_cs s = 0" using s(2) by (simp_all add: fresh_def silent_def)
  have "programming k (unat a) s1" "spi_flash_data s1 = spi_flash_data st"
    using s(3,4) t(2) by (simp_all add: s1 shift_output_shiftreg_def spi_reset_input_def f programming_def fresh_def silent_def
        spi_ok_def unat_take)
  then obtain s2 where 2: "spi_send_bits (concat (map (\<lambda>x. msb_first 8 (ucast x)) bs)) s1 = Some s2"
    "programming k (unat a + length bs) s2" "spi_flash_data s2 = mem_program k (spi_flash_data st) (unat a) bs"
    using program_bytes [of k "unat a" s1 bs] by auto
  then obtain s3 where "spi_flash_write_select 1 s2 = Some s3" "spi_idle s3" "spi_ok k s3" "spi_flash_data s3 = spi_flash_data s2"
    using deselect_after [of s2 k] by (auto simp: programming_def fresh_def silent_def)
  then show ?thesis using s(1) 1 2(1,3) by (simp add: in_select_def)
qed

lemma erase_done:
  assumes "spi_idle st" "spi_ok k st"
  shows "done_as k (Spi_erase a) st"
proof -
  obtain s where s: "spi_flash_write_select 0 st = Some s" "fresh s" "spi_ok k s" "spi_flash_data s = spi_flash_data st"
    "spi_command s \<notin> {FLASH_CMD_PAGE_PROGRAM, FLASH_CMD_READ_DATA}" using idle_fresh [OF assms] by metis
  obtain d q where c: "spi_send FLASH_CMD_BLOCK_ERASE a s = event_done (spi_bits32 (s\<lparr>spi_data_in := d, spi_data_out := q,
      spi_command := FLASH_CMD_BLOCK_ERASE, in_reg := push_bit 24 FLASH_CMD_BLOCK_ERASE OR take_bit 24 a, in_count := 32, spi_clock := 0\<rparr>))"
    (is "_ = event_done (spi_bits32 ?t)") using address_sent [OF s(2,5), of FLASH_CMD_BLOCK_ERASE a] by auto
  have "spi_bits32 ?t = Some ?t" by (simp add: spi_bits32_def spi_cmd_defs)
  then obtain s1 where s1: "s1 = (shift_output_shiftreg ?t)\<lparr>spi_clock := 0\<rparr>" and 1: "spi_send FLASH_CMD_BLOCK_ERASE a s = Some s1"
    unfolding c by (simp only: done_some)
  have cs: "out_count s = 0" "spi_cs s = 0" using s(2) by (simp_all add: fresh_def silent_def)
  have f: "spi_cs s1 = 0" "spi_clock s1 = 0" "spi_command s1 = FLASH_CMD_BLOCK_ERASE" "spi_ok k s1" "spi_flash_data s1 = spi_flash_data st"
    "in_reg s1 = push_bit 24 FLASH_CMD_BLOCK_ERASE OR take_bit 24 a"
    using s(3,4) cs by (simp_all add: s1 shift_output_shiftreg_def spi_ok_def)
  have k: "16 \<le> k" "k \<le> 24" "spi_flash_size s1 = 2 ^ k" using f(4) by (simp_all add: spi_ok_def)
  have m: "spi_flash_size s1 - 1 = mask k" by (rule mask_size [OF f(4)])
  let ?b = "unat a mod 2 ^ k div 0x10000 * 0x10000"
  have u: "unat ((in_reg s1 AND 0xff0000) AND (spi_flash_size s1 - 1)) = ?b" unfolding f(6) m by (rule erase_base [OF k(1,2)])
  have p: "2 ^ (k - 16) * 2 ^ 16 = (2 :: nat) ^ k" using k(1) by (simp only: power_add [symmetric] le_add_diff_inverse2)
  have "unat a mod 2 ^ k < 2 ^ (k - 16) * 2 ^ 16" unfolding p by simp
  then have "unat a mod 2 ^ k div 2 ^ 16 < 2 ^ (k - 16)" by (rule less_mult_imp_div_less)
  then have "unat a mod 2 ^ k div 2 ^ 16 * 2 ^ 16 + 2 ^ 16 \<le> 2 ^ (k - 16) * 2 ^ 16" by (metis add.commute mult_Suc mult_le_mono1 Suc_leI)
  then have "?b + 0x10000 \<le> 2 ^ k" unfolding p by simp
  then have "spi_erase_block s1 = Some (s1\<lparr>spi_addr := (in_reg s1 AND 0xff0000) AND (spi_flash_size s1 - 1),
      spi_flash_data := memset (spi_flash_data st) ?b 0xff 0x10000, spi_command := SPI_STATUSBUSY\<rparr>)"
    unfolding spi_erase_block_def Let_def u by (simp add: k(3) unat_power_small [OF k(2)] f(5))
  then have "\<exists>s2. spi_flash_write_select 1 s1 = Some s2 \<and> spi_idle s2 \<and> spi_ok k s2 \<and> spi_flash_data s2 = memset (spi_flash_data st) ?b 0xff 0x10000"
    using f(1-4) by (simp add: spi_flash_write_select_def spi_cmd_defs spi_idle_def spi_ok_def)
  then show ?thesis using s(1) 1 by (auto simp: in_select_def)
qed

lemma wren_done:
  assumes "spi_idle st" "spi_ok k st"
  shows "done_as k Spi_wren st"
proof -
  obtain s where s: "spi_flash_write_select 0 st = Some s" "fresh s" "spi_ok k s" "spi_flash_data s = spi_flash_data st"
    "spi_command s \<notin> {FLASH_CMD_PAGE_PROGRAM, FLASH_CMD_READ_DATA}" using idle_fresh [OF assms] by metis
  obtain d where 1: "spi_send_bits (msb_first 8 FLASH_CMD_WRITE_ENABLE) s = Some (s\<lparr>spi_data_in := d, in_reg := FLASH_CMD_WRITE_ENABLE,
      in_count := 8, spi_command := FLASH_CMD_WRITE_ENABLE, spi_data_out := 0, spi_clock := 0\<rparr>)" (is "_ = Some ?s1")
    using command_sent [OF s(2,5), of FLASH_CMD_WRITE_ENABLE] by auto
  have "\<exists>s2. spi_flash_write_select 1 ?s1 = Some s2 \<and> spi_idle s2 \<and> spi_ok k s2 \<and> spi_flash_data s2 = spi_flash_data ?s1"
    by (rule deselect_after) (use s(2,3) in \<open>simp_all add: fresh_def silent_def spi_ok_def\<close>)
  then show ?thesis using s(1,4) 1 by (auto simp: in_select_def)
qed

text \<open>
  C15. The serial flash is a memory: any sequence of reads, page programs, block erases and write
  enables, sent bit by bit, has the output and the effect of the sequence on a memory of \<open>2 ^ k\<close>
  bytes, where addresses go round at the end, programming only clears bits and erasing sets the
  64 KB block of the address. (No write enable is needed for any of it, and programming does not
  stay in its page.)
\<close>

theorem spi_flash_refines_memory:
  assumes "spi_idle st" "spi_ok k st"
  shows "\<exists>st'. spi_run ops st = Some (fst (mem_run k ops (spi_flash_data st)), st') \<and> spi_idle st' \<and> spi_ok k st'
    \<and> spi_flash_data st' = snd (mem_run k ops (spi_flash_data st))"
  using assms
proof (induction ops arbitrary: st)
  case (Cons q ops)
  obtain st1 where 1: "spi_transact q st = Some (fst (mem_op k q (spi_flash_data st)), st1)" "spi_idle st1" "spi_ok k st1"
    "spi_flash_data st1 = snd (mem_op k q (spi_flash_data st))"
    using read_done [OF Cons.prems] program_done [OF Cons.prems] erase_done [OF Cons.prems] wren_done [OF Cons.prems] by (cases q) blast+
  from Cons.IH [OF 1(2,3)] obtain st2 where "spi_run ops st1 = Some (fst (mem_run k ops (spi_flash_data st1)), st2)" "spi_idle st2"
    "spi_ok k st2" "spi_flash_data st2 = snd (mem_run k ops (spi_flash_data st1))" by blast
  then show ?case using 1 by (intro exI [of _ st2]) (simp add: split_beta)
qed simp

definition demo_spi :: spi_flash where
  "demo_spi = \<lparr>spi_flash_data = (\<lambda>_. 0xff), spi_flash_size = 0x10000, spi_cs = 1, spi_clock = 0, spi_data_in = 0, spi_data_out = 0,
     in_reg = 0, in_count = 0, out_reg = 0, out_count = 0, spi_command = 0, spi_addr = 0, spi_write_enable = 0, spi_ready_busy = 1\<rparr>"

lemma demo_spi_idle: "spi_idle demo_spi" "spi_ok 16 demo_spi"
  by (simp_all add: demo_spi_def spi_idle_def spi_ok_def spi_cmd_defs)

lemma mem_read_few:
  "mem_read k m a (Suc 0) = [msb_first 8 (ucast (m (a mod 2 ^ k)))]"
  "mem_read k m a 2 = [msb_first 8 (ucast (m (a mod 2 ^ k))), msb_first 8 (ucast (m (Suc a mod 2 ^ k)))]"
proof -
  have "mem_read k m a (Suc (Suc 0)) = [msb_first 8 (ucast (m (a mod 2 ^ k))), msb_first 8 (ucast (m (Suc a mod 2 ^ k)))]" by simp
  then show "mem_read k m a 2 = [msb_first 8 (ucast (m (a mod 2 ^ k))), msb_first 8 (ucast (m (Suc a mod 2 ^ k)))]"
    by (simp only: Suc_1 One_nat_def [symmetric])
qed simp

theorem spi_flash_refines_memory_witness:
  "\<exists>st'. spi_run [Spi_program 0xffff [0x0f, 0x34], Spi_read 0xffff 2, Spi_erase 0x8000, Spi_read 0 1] demo_spi
     = Some ([[], [msb_first 8 0x0f, msb_first 8 0x34], [], [msb_first 8 0xff]], st')"
proof -
  have "fst (mem_run 16 [Spi_program 0xffff [0x0f, 0x34], Spi_read 0xffff 2, Spi_erase 0x8000, Spi_read 0 1] (spi_flash_data demo_spi))
      = [[], [msb_first 8 0x0f, msb_first 8 0x34], [], [msb_first 8 0xff]]"
    by (simp add: demo_spi_def mem_read_few memset_def)
  then show ?thesis
    using spi_flash_refines_memory [OF demo_spi_idle, of "[Spi_program 0xffff [0x0f, 0x34], Spi_read 0xffff 2, Spi_erase 0x8000, Spi_read 0 1]"]
    by auto
qed

text \<open>
  A block erase that is deselected before its address was sent is not ignored: it erases the
  first block of the chip.
\<close>

theorem spi_short_erase_hits_first_block:
  assumes "spi_idle st" "spi_ok k st"
  shows "\<exists>st'. in_select (\<lambda>st. map_option (Pair ()) (spi_send_bits (msb_first 8 FLASH_CMD_BLOCK_ERASE) st)) st = Some ((), st')
    \<and> spi_flash_data st' = memset (spi_flash_data st) 0 0xff 0x10000"
proof -
  obtain s where s: "spi_flash_write_select 0 st = Some s" "fresh s" "spi_ok k s" "spi_flash_data s = spi_flash_data st"
    "spi_command s \<notin> {FLASH_CMD_PAGE_PROGRAM, FLASH_CMD_READ_DATA}" using idle_fresh [OF assms] by metis
  obtain d where 1: "spi_send_bits (msb_first 8 FLASH_CMD_BLOCK_ERASE) s = Some (s\<lparr>spi_data_in := d, in_reg := FLASH_CMD_BLOCK_ERASE,
      in_count := 8, spi_command := FLASH_CMD_BLOCK_ERASE, spi_data_out := 0, spi_clock := 0\<rparr>)" (is "_ = Some ?s1")
    using command_sent [OF s(2,5), of FLASH_CMD_BLOCK_ERASE] by auto
  have k: "16 \<le> k" "k \<le> 24" "spi_flash_size s = 2 ^ k" using s(3) by (simp_all add: spi_ok_def)
  have "(2 :: nat) ^ 16 \<le> 2 ^ k" using k(1) by (intro power_increasing) simp_all
  then have "spi_erase_block ?s1 = Some (?s1\<lparr>spi_addr := 0, spi_flash_data := memset (spi_flash_data st) 0 0xff 0x10000,
      spi_command := SPI_STATUSBUSY\<rparr>)"
    unfolding s(4) [symmetric] by (simp add: spi_erase_block_def k(3) unat_power_small [OF k(2)]) (simp add: spi_cmd_defs)
  then have "\<exists>s2. spi_flash_write_select 1 ?s1 = Some s2 \<and> spi_flash_data s2 = memset (spi_flash_data st) 0 0xff 0x10000"
    using s(2) by (simp add: spi_flash_write_select_def fresh_def silent_def spi_cmd_defs)
  then show ?thesis using s(1) 1 by (auto simp: in_select_def)
qed

theorem spi_short_erase_hits_first_block_witness:
  "\<exists>st'. in_select (\<lambda>st. map_option (Pair ()) (spi_send_bits (msb_first 8 FLASH_CMD_BLOCK_ERASE) st)) demo_spi = Some ((), st')
    \<and> spi_flash_data st' 0 = 0xff"
  using spi_short_erase_hits_first_block [OF demo_spi_idle] by auto

end
