(* ===== verification/Alarm.thy ===== *)
theory Alarm
  imports Vice_Prelude
begin

text \<open>
  The alarm scheduler, \<^verbatim>\<open>src/src/alarm.c\<close> and the inline functions of
  \<^verbatim>\<open>src/src/alarm.h\<close>: an alarm context keeps its alarms in a doubly linked list and the
  pending ones in an unordered array with a cached minimum. Alarms live in a store
  addressed by natural numbers; one model context owns the alarms of its store, which is
  the \<^verbatim>\<open>context\<close> pointer of every alarm. Callbacks and their data are opaque pointers.
\<close>

section \<open>Data\<close>

text \<open>\<^verbatim>\<open>ALARM_CONTEXT_MAX_PENDING_ALARMS\<close>\<close>

definition max_pending_alarms :: nat where
  "max_pending_alarms = 0x100"

record alarm =
  alarm_name :: string
  alarm_callback :: nat
  pending_idx :: int
  alarm_data :: nat
  alarm_next :: "nat option"
  alarm_prev :: "nat option"

record pending_alarm =
  pa_alarm :: nat
  pa_clk :: clock

record alarm_context =
  ctx_name :: string
  alarms :: "nat option"
  pending_alarms :: "nat \<Rightarrow> pending_alarm"
  num_pending_alarms :: nat
  next_pending_alarm_clk :: clock
  next_pending_alarm_idx :: int
  alarm_store :: "nat \<Rightarrow> alarm"

text \<open>Assignments through a pointer: \<open>upd_alarm f p\<close> rewrites the alarm object at \<open>p\<close>.\<close>

definition upd_alarm :: "nat \<Rightarrow> (alarm \<Rightarrow> alarm) \<Rightarrow> alarm_context \<Rightarrow> alarm_context" where
  "upd_alarm p f ctx = ctx\<lparr>alarm_store := (alarm_store ctx)(p := f (alarm_store ctx p))\<rparr>"

definition set_pending :: "nat \<Rightarrow> nat \<Rightarrow> clock \<Rightarrow> alarm_context \<Rightarrow> alarm_context" where
  "set_pending i p c ctx = ctx\<lparr>pending_alarms :=
     (pending_alarms ctx)(i := \<lparr>pa_alarm = p, pa_clk = c\<rparr>)\<rparr>"

section \<open>Operations\<close>

text \<open>
  \<^verbatim>\<open>alarm_context_init\<close> leaves the array, the cached index and the memory the alarms will
  be allocated in as they are.
\<close>

definition alarm_context_init :: "alarm_context \<Rightarrow> string \<Rightarrow> alarm_context" where
  "alarm_context_init ctx nm = ctx\<lparr>ctx_name := nm, alarms := None,
     num_pending_alarms := 0, next_pending_alarm_clk := CLOCK_MAX\<rparr>"

text \<open>The loop over the pending array that recomputes the cached minimum.\<close>

definition next_pending_step :: "alarm_context \<Rightarrow> nat \<Rightarrow> clock \<times> int \<Rightarrow> clock \<times> int" where
  "next_pending_step ctx i acc =
     (let c = pa_clk (pending_alarms ctx i)
      in if c \<le> fst acc then (c, int i) else acc)"

definition alarm_context_update_next_pending :: "alarm_context \<Rightarrow> alarm_context" where
  "alarm_context_update_next_pending ctx =
     (let r = fold (next_pending_step ctx) [0..<num_pending_alarms ctx]
                (CLOCK_MAX, next_pending_alarm_idx ctx)
      in ctx\<lparr>next_pending_alarm_clk := fst r, next_pending_alarm_idx := snd r\<rparr>)"

definition alarm_context_time_warp :: "alarm_context \<Rightarrow> clock \<Rightarrow> int \<Rightarrow> alarm_context" where
  "alarm_context_time_warp ctx warp_amount warp_direction =
     (if warp_direction = 0 then ctx
      else
        let warp = (\<lambda>c. if warp_direction > 0 then c + warp_amount else c - warp_amount)
        in ctx\<lparr>pending_alarms := (\<lambda>i. if i < num_pending_alarms ctx
                   then (pending_alarms ctx i)\<lparr>pa_clk := warp (pa_clk (pending_alarms ctx i))\<rparr>
                   else pending_alarms ctx i),
               next_pending_alarm_clk := warp (next_pending_alarm_clk ctx)\<rparr>)"

text \<open>\<^verbatim>\<open>alarm_init\<close>: fill the object at \<open>p\<close> and link it at the head of the list.\<close>

definition alarm_init :: "nat \<Rightarrow> alarm_context \<Rightarrow> string \<Rightarrow> nat \<Rightarrow> nat \<Rightarrow> alarm_context" where
  "alarm_init p ctx nm callback data =
     (let ctx1 = upd_alarm p (\<lambda>a. a\<lparr>alarm_name := nm, alarm_callback := callback,
                    alarm_data := data, pending_idx := -1\<rparr>) ctx;
          ctx2 = (case alarms ctx1 of
                    None \<Rightarrow> upd_alarm p (\<lambda>a. a\<lparr>alarm_next := None\<rparr>) (ctx1\<lparr>alarms := Some p\<rparr>)
                  | Some h \<Rightarrow>
                      (upd_alarm h (\<lambda>a. a\<lparr>alarm_prev := Some p\<rparr>)
                        (upd_alarm p (\<lambda>a. a\<lparr>alarm_next := Some h\<rparr>) ctx1))\<lparr>alarms := Some p\<rparr>)
      in upd_alarm p (\<lambda>a. a\<lparr>alarm_prev := None\<rparr>) ctx2)"

text \<open>\<^verbatim>\<open>alarm_new\<close>: \<open>p\<close> is the address \<^verbatim>\<open>lib_malloc\<close> returned.\<close>

definition alarm_new :: "nat \<Rightarrow> alarm_context \<Rightarrow> string \<Rightarrow> nat \<Rightarrow> nat \<Rightarrow> nat \<times> alarm_context" where
  "alarm_new p ctx nm callback data = (p, alarm_init p ctx nm callback data)"

definition alarm_unset :: "alarm_context \<Rightarrow> nat \<Rightarrow> alarm_context" where
  "alarm_unset ctx p =
     (let idx = pending_idx (alarm_store ctx p)
      in if idx < 0 then ctx
         else upd_alarm p (\<lambda>a. a\<lparr>pending_idx := -1\<rparr>)
           (if num_pending_alarms ctx > 1 then
              let last = num_pending_alarms ctx - 1;
                  ctx1 = ctx\<lparr>num_pending_alarms := last\<rparr>;
                  moved = pending_alarms ctx1 last;
                  ctx2 = (if int last \<noteq> idx then
                            upd_alarm (pa_alarm moved) (\<lambda>a. a\<lparr>pending_idx := idx\<rparr>)
                              (set_pending (nat idx) (pa_alarm moved) (pa_clk moved) ctx1)
                          else ctx1)
              in if next_pending_alarm_idx ctx2 = idx then alarm_context_update_next_pending ctx2
                 else if next_pending_alarm_idx ctx2 = int last
                      then ctx2\<lparr>next_pending_alarm_idx := idx\<rparr>
                      else ctx2
            else ctx\<lparr>num_pending_alarms := 0, next_pending_alarm_clk := CLOCK_MAX,
                     next_pending_alarm_idx := -1\<rparr>))"

text \<open>
  \<^verbatim>\<open>alarm_set\<close>: a full array makes the call a logged no-op. The log call is the only effect
  left out.
\<close>

definition alarm_set :: "alarm_context \<Rightarrow> nat \<Rightarrow> clock \<Rightarrow> alarm_context" where
  "alarm_set ctx p cpu_clk =
     (let idx = pending_idx (alarm_store ctx p)
      in if idx < 0 then
           let new_idx = num_pending_alarms ctx
           in if new_idx \<ge> max_pending_alarms then ctx
              else
                let ctx1 = (set_pending new_idx p cpu_clk ctx)\<lparr>num_pending_alarms := new_idx + 1\<rparr>;
                    ctx2 = (if cpu_clk < next_pending_alarm_clk ctx1
                            then ctx1\<lparr>next_pending_alarm_clk := cpu_clk,
                                      next_pending_alarm_idx := int new_idx\<rparr>
                            else ctx1)
                in upd_alarm p (\<lambda>a. a\<lparr>pending_idx := int new_idx\<rparr>) ctx2
         else
           let ctx1 = ctx\<lparr>pending_alarms := (pending_alarms ctx)
                 (nat idx := (pending_alarms ctx (nat idx))\<lparr>pa_clk := cpu_clk\<rparr>)\<rparr>
           in if next_pending_alarm_clk ctx1 > cpu_clk \<or> idx = next_pending_alarm_idx ctx1
              then alarm_context_update_next_pending ctx1
              else ctx1)"

text \<open>
  \<^verbatim>\<open>alarm_destroy\<close>: a NULL argument returns at once. Freed objects stay in the store, but
  no list reaches them any more.
\<close>

definition alarm_destroy :: "alarm_context \<Rightarrow> nat option \<Rightarrow> alarm_context" where
  "alarm_destroy ctx alarm =
     (case alarm of
        None \<Rightarrow> ctx
      | Some p \<Rightarrow>
          let ctx1 = alarm_unset ctx p;
              ctx2 = (if alarms ctx1 = Some p
                      then ctx1\<lparr>alarms := alarm_next (alarm_store ctx1 p)\<rparr> else ctx1);
              ctx3 = (case alarm_next (alarm_store ctx2 p) of
                        None \<Rightarrow> ctx2
                      | Some n \<Rightarrow> upd_alarm n
                          (\<lambda>a. a\<lparr>alarm_prev := alarm_prev (alarm_store ctx2 p)\<rparr>) ctx2)
          in (case alarm_prev (alarm_store ctx3 p) of
                None \<Rightarrow> ctx3
              | Some q \<Rightarrow> upd_alarm q
                  (\<lambda>a. a\<lparr>alarm_next := alarm_next (alarm_store ctx3 p)\<rparr>) ctx3))"

text \<open>
  The loop of \<^verbatim>\<open>alarm_context_destroy\<close> follows the \<^verbatim>\<open>next\<close> pointer saved before each
  alarm is destroyed. The fuel bounds the walk; \<open>None\<close> means it was not enough.
\<close>

fun alarm_destroy_loop :: "nat \<Rightarrow> alarm_context \<Rightarrow> nat option \<Rightarrow> alarm_context option" where
  "alarm_destroy_loop 0 ctx ap = None"
| "alarm_destroy_loop (Suc fuel) ctx ap =
     (case ap of
        None \<Rightarrow> Some ctx
      | Some p \<Rightarrow>
          let ap_next = alarm_next (alarm_store ctx p)
          in alarm_destroy_loop fuel (alarm_destroy ctx (Some p)) ap_next)"

definition alarm_context_destroy :: "nat \<Rightarrow> alarm_context \<Rightarrow> alarm_context option" where
  "alarm_context_destroy fuel ctx = alarm_destroy_loop fuel ctx (alarms ctx)"

text \<open>
  \<^verbatim>\<open>alarm_context_dispatch\<close>: \<open>call f offset data\<close> stands for the indirect call through the
  callback pointer. Indexing the array with the index of an empty context is undefined in
  C and is \<open>None\<close> here.
\<close>

definition alarm_context_dispatch ::
    "(nat \<Rightarrow> clock \<Rightarrow> nat \<Rightarrow> alarm_context \<Rightarrow> 's) \<Rightarrow> alarm_context \<Rightarrow> clock \<Rightarrow> 's option" where
  "alarm_context_dispatch call ctx cpu_clk =
     (let offset = cpu_clk - next_pending_alarm_clk ctx;
          idx = next_pending_alarm_idx ctx
      in if idx < 0 \<or> int max_pending_alarms \<le> idx then None
         else let p = pa_alarm (pending_alarms ctx (nat idx));
                  a = alarm_store ctx p
              in Some (call (alarm_callback a) offset (alarm_data a) ctx))"

section \<open>Well-formed contexts\<close>

text \<open>
  The list of alarms is doubly linked: \<open>dll h q xs start\<close> says that from \<open>start\<close> the
  \<^verbatim>\<open>next\<close> pointers visit exactly \<open>xs\<close>, and that each \<^verbatim>\<open>prev\<close> pointer leads back.
\<close>

fun dll :: "(nat \<Rightarrow> alarm) \<Rightarrow> nat option \<Rightarrow> nat list \<Rightarrow> nat option \<Rightarrow> bool" where
  "dll h q [] start = (start = None)"
| "dll h q (x # xs) start =
     (start = Some x \<and> alarm_prev (h x) = q \<and> dll h (Some x) xs (alarm_next (h x)))"

text \<open>
  The pending array and the back pointers \<^verbatim>\<open>pending_idx\<close> agree, and the cached clock is a
  lower bound that is attained unless it is \<open>CLOCK_MAX\<close>.
\<close>

definition slots_ok :: "nat set \<Rightarrow> alarm_context \<Rightarrow> bool" where
  "slots_ok S ctx \<longleftrightarrow> num_pending_alarms ctx \<le> max_pending_alarms
     \<and> (\<forall>i<num_pending_alarms ctx. pa_alarm (pending_alarms ctx i) \<in> S)
     \<and> (\<forall>q\<in>S. pending_idx (alarm_store ctx q) < int (num_pending_alarms ctx))
     \<and> (\<forall>i<num_pending_alarms ctx. \<forall>q\<in>S.
          pa_alarm (pending_alarms ctx i) = q \<longleftrightarrow> pending_idx (alarm_store ctx q) = int i)"

definition next_ok :: "alarm_context \<Rightarrow> bool" where
  "next_ok ctx \<longleftrightarrow>
     (\<forall>i<num_pending_alarms ctx.
        next_pending_alarm_clk ctx \<le> pa_clk (pending_alarms ctx i))
     \<and> (next_pending_alarm_clk ctx \<noteq> CLOCK_MAX \<longrightarrow>
        0 \<le> next_pending_alarm_idx ctx
        \<and> nat (next_pending_alarm_idx ctx) < num_pending_alarms ctx
        \<and> pa_clk (pending_alarms ctx (nat (next_pending_alarm_idx ctx)))
            = next_pending_alarm_clk ctx)"

definition alarm_wf :: "nat list \<Rightarrow> alarm_context \<Rightarrow> bool" where
  "alarm_wf xs ctx \<longleftrightarrow> distinct xs \<and> dll (alarm_store ctx) None xs (alarms ctx)
     \<and> slots_ok (set xs) ctx \<and> next_ok ctx"

text \<open>What a context means: the clock at which each alarm is due, if it is pending.\<close>

definition deadline :: "alarm_context \<Rightarrow> nat \<Rightarrow> clock option" where
  "deadline ctx p = (if pending_idx (alarm_store ctx p) < 0 then None
     else Some (pa_clk (pending_alarms ctx (nat (pending_idx (alarm_store ctx p))))))"

section \<open>Lemmas\<close>

lemma upd_alarm_simps [simp]:
  "alarm_store (upd_alarm p f ctx) = (alarm_store ctx)(p := f (alarm_store ctx p))"
  "alarms (upd_alarm p f ctx) = alarms ctx"
  "pending_alarms (upd_alarm p f ctx) = pending_alarms ctx"
  "num_pending_alarms (upd_alarm p f ctx) = num_pending_alarms ctx"
  "next_pending_alarm_clk (upd_alarm p f ctx) = next_pending_alarm_clk ctx"
  "next_pending_alarm_idx (upd_alarm p f ctx) = next_pending_alarm_idx ctx"
  by (simp_all add: upd_alarm_def)

lemma set_pending_simps [simp]:
  "alarm_store (set_pending i p c ctx) = alarm_store ctx"
  "alarms (set_pending i p c ctx) = alarms ctx"
  "pending_alarms (set_pending i p c ctx) = (pending_alarms ctx)(i := \<lparr>pa_alarm = p, pa_clk = c\<rparr>)"
  "num_pending_alarms (set_pending i p c ctx) = num_pending_alarms ctx"
  "next_pending_alarm_clk (set_pending i p c ctx) = next_pending_alarm_clk ctx"
  "next_pending_alarm_idx (set_pending i p c ctx) = next_pending_alarm_idx ctx"
  by (simp_all add: set_pending_def)

lemma dll_cong:
  "(\<And>x. x \<in> set xs \<Longrightarrow> alarm_next (h' x) = alarm_next (h x) \<and> alarm_prev (h' x) = alarm_prev (h x))
   \<Longrightarrow> dll h' q xs start = dll h q xs start"
  by (induction xs arbitrary: q start) auto

lemma dll_upd_idx [simp]:
  "dll (h(p := h p\<lparr>pending_idx := k\<rparr>)) q xs start = dll h q xs start"
  by (rule dll_cong) auto

subsection \<open>The minimum loop\<close>

lemma next_pending_fold_lower:
  "i < n \<Longrightarrow> fst (fold (next_pending_step ctx) [0..<n] acc) \<le> pa_clk (pending_alarms ctx i)"
  by (induction n) (auto simp: next_pending_step_def Let_def less_Suc_eq intro: order_trans)

lemma next_pending_fold_attained:
  "fold (next_pending_step ctx) [0..<n] acc = acc \<or>
   (\<exists>j<n. snd (fold (next_pending_step ctx) [0..<n] acc) = int j
      \<and> fst (fold (next_pending_step ctx) [0..<n] acc) = pa_clk (pending_alarms ctx j))"
  by (induction n) (auto simp: next_pending_step_def Let_def less_Suc_eq)

lemma update_next_frame [simp]:
  "alarm_store (alarm_context_update_next_pending ctx) = alarm_store ctx"
  "alarms (alarm_context_update_next_pending ctx) = alarms ctx"
  "pending_alarms (alarm_context_update_next_pending ctx) = pending_alarms ctx"
  "num_pending_alarms (alarm_context_update_next_pending ctx) = num_pending_alarms ctx"
  by (simp_all add: alarm_context_update_next_pending_def Let_def)

lemma update_next_ok: "next_ok (alarm_context_update_next_pending ctx)"
proof -
  let ?r = "fold (next_pending_step ctx) [0..<num_pending_alarms ctx]
              (CLOCK_MAX, next_pending_alarm_idx ctx)"
  have "?r = (CLOCK_MAX, next_pending_alarm_idx ctx) \<or>
     (\<exists>j<num_pending_alarms ctx. snd ?r = int j \<and> fst ?r = pa_clk (pending_alarms ctx j))"
    by (rule next_pending_fold_attained)
  then show ?thesis
    unfolding next_ok_def
    by (auto simp: alarm_context_update_next_pending_def Let_def
             intro: next_pending_fold_lower)
qed

lemma slots_ok_update_next [simp]:
  "slots_ok S (alarm_context_update_next_pending ctx) = slots_ok S ctx"
  by (simp add: slots_ok_def)


subsection \<open>Setting and unsetting an alarm\<close>

lemma slotD:
  "slots_ok S ctx \<Longrightarrow> i < num_pending_alarms ctx \<Longrightarrow>
     pa_alarm (pending_alarms ctx i) \<in> S
     \<and> pending_idx (alarm_store ctx (pa_alarm (pending_alarms ctx i))) = int i"
  unfolding slots_ok_def by blast

lemma back_pointerE:
  assumes "slots_ok S ctx" "p \<in> S" "\<not> pending_idx (alarm_store ctx p) < 0"
  obtains i where "pending_idx (alarm_store ctx p) = int i" "i < num_pending_alarms ctx"
    "pa_alarm (pending_alarms ctx i) = p"
proof
  let ?i = "nat (pending_idx (alarm_store ctx p))"
  show "pending_idx (alarm_store ctx p) = int ?i" using assms(3) by simp
  then show "?i < num_pending_alarms ctx" "pa_alarm (pending_alarms ctx ?i) = p"
    using assms by (auto simp: slots_ok_def)
qed

lemma set_fresh:
  assumes ok: "slots_ok S ctx" and p: "p \<in> S" "pending_idx (alarm_store ctx p) < 0"
    and room: "num_pending_alarms ctx < max_pending_alarms"
  shows set_fresh_slots: "slots_ok S (alarm_set ctx p c)"
    and set_fresh_next: "next_ok ctx \<Longrightarrow> next_ok (alarm_set ctx p c)"
proof -
  have ne: "pending_idx (alarm_store ctx q) \<noteq> int (num_pending_alarms ctx)" if "q \<in> S" for q
    using ok that by (auto simp: slots_ok_def)
  show "slots_ok S (alarm_set ctx p c)"
    using ok p room ne
    by (auto simp: slots_ok_def alarm_set_def Let_def less_Suc_eq)
  show "next_ok (alarm_set ctx p c)" if "next_ok ctx"
    using that p room
    by (auto simp: next_ok_def alarm_set_def Let_def less_Suc_eq not_less
             intro: order_trans less_imp_le)
qed

lemma set_again_eq:
  assumes "pending_idx (alarm_store ctx p) = int i"
  shows "alarm_set ctx p c =
    (let ctx1 = ctx\<lparr>pending_alarms := (pending_alarms ctx)
                      (i := (pending_alarms ctx i)\<lparr>pa_clk := c\<rparr>)\<rparr>
     in if next_pending_alarm_clk ctx > c \<or> int i = next_pending_alarm_idx ctx
        then alarm_context_update_next_pending ctx1 else ctx1)"
  using assms by (simp add: alarm_set_def Let_def)

lemma set_again:
  assumes ok: "slots_ok S ctx" and i: "pending_idx (alarm_store ctx p) = int i"
  shows set_again_slots: "slots_ok S (alarm_set ctx p c)"
    and set_again_next: "next_ok ctx \<Longrightarrow> next_ok (alarm_set ctx p c)"
proof -
  show "slots_ok S (alarm_set ctx p c)"
    using ok by (auto simp: set_again_eq [OF i] slots_ok_def Let_def)
  show "next_ok (alarm_set ctx p c)" if "next_ok ctx"
  proof (cases "next_pending_alarm_clk ctx > c \<or> int i = next_pending_alarm_idx ctx")
    case True
    then show ?thesis by (simp add: set_again_eq [OF i] Let_def update_next_ok)
  next
    case False
    then have "next_pending_alarm_clk ctx \<le> c" "nat (next_pending_alarm_idx ctx) = i \<Longrightarrow>
        \<not> 0 \<le> next_pending_alarm_idx ctx"
      by auto
    then show ?thesis
      using that False by (auto simp: set_again_eq [OF i] Let_def next_ok_def)
  qed
qed

text \<open>What \<open>alarm_unset\<close> does to the fields, when the alarm is pending in slot \<open>i\<close>.\<close>

lemma alarm_unset_not_pending: "pending_idx (alarm_store ctx p) < 0 \<Longrightarrow> alarm_unset ctx p = ctx"
  by (simp add: alarm_unset_def)

lemma alarm_unset_fields:
  assumes "pending_idx (alarm_store ctx p) = int i" "num_pending_alarms ctx = Suc l" "i \<le> l"
  shows alarm_unset_num: "num_pending_alarms (alarm_unset ctx p) = l"
    and alarm_unset_pend: "pending_alarms (alarm_unset ctx p)
          = (if i = l then pending_alarms ctx
             else (pending_alarms ctx)(i := pending_alarms ctx l))"
    and alarm_unset_idx: "pending_idx (alarm_store (alarm_unset ctx p) q)
          = (if q = p then -1 else if i \<noteq> l \<and> q = pa_alarm (pending_alarms ctx l) then int i
             else pending_idx (alarm_store ctx q))"
  using assms by (auto simp: alarm_unset_def Let_def)

lemma unset_slots:
  assumes ok: "slots_ok S ctx" and p: "p \<in> S"
  shows "slots_ok S (alarm_unset ctx p)"
proof (cases "pending_idx (alarm_store ctx p) < 0")
  case True
  then show ?thesis using ok by (simp add: alarm_unset_not_pending)
next
  case False
  then obtain i where i: "pending_idx (alarm_store ctx p) = int i" "i < num_pending_alarms ctx"
    using ok p back_pointerE by blast
  then obtain l where l: "num_pending_alarms ctx = Suc l" "i \<le> l"
    by (cases "num_pending_alarms ctx") auto
  note f = alarm_unset_num [OF i(1) l] alarm_unset_pend [OF i(1) l] alarm_unset_idx [OF i(1) l]
  have mem: "pa_alarm (pending_alarms ctx j) \<in> S" if "j \<le> l" for j
    using ok that l by (auto simp: slots_ok_def)
  have iff: "pa_alarm (pending_alarms ctx j) = r \<longleftrightarrow> pending_idx (alarm_store ctx r) = int j"
    if "j \<le> l" "r \<in> S" for j r
    using ok that l by (auto simp: slots_ok_def)
  have bound: "pending_idx (alarm_store ctx r) < int (Suc l)" if "r \<in> S" for r
    using ok that l by (auto simp: slots_ok_def)
  have lt: "pending_idx (alarm_store ctx r) < int l"
    if "r \<in> S" "r \<noteq> pa_alarm (pending_alarms ctx l)" for r
    using bound [OF that(1)] iff [of l r] that by auto
  have "num_pending_alarms (alarm_unset ctx p) \<le> max_pending_alarms"
    using ok l by (simp add: f slots_ok_def)
  moreover have "pa_alarm (pending_alarms (alarm_unset ctx p) j) \<in> S" if "j < l" for j
    using mem that by (simp add: f)
  moreover have "pending_idx (alarm_store (alarm_unset ctx p) r) < int l" if "r \<in> S" for r
    using lt [OF that] iff [of l] p i l that by (auto simp: f)
  moreover have "pa_alarm (pending_alarms (alarm_unset ctx p) j) = r
      \<longleftrightarrow> pending_idx (alarm_store (alarm_unset ctx p) r) = int j" if "j < l" "r \<in> S" for j r
  proof (cases "r = p")
    case True
    then show ?thesis using iff [of j p] iff [of l p] that p i l by (auto simp: f)
  next
    case False
    have "i \<noteq> l \<and> r = pa_alarm (pending_alarms ctx l) \<longleftrightarrow>
        i \<noteq> l \<and> pending_idx (alarm_store ctx r) = int l"
      using iff [of l r] that(2) by (metis order_refl)
    moreover have "i \<noteq> l \<Longrightarrow> pa_alarm (pending_alarms (alarm_unset ctx p) i) = r \<longleftrightarrow>
        pending_idx (alarm_store ctx r) = int l"
      using iff [of l r] that(2) by (simp add: f)
    moreover have "pending_idx (alarm_store ctx r) \<noteq> int i"
      using False iff [of i r] iff [of i p] that(2) p i(1) l(2) by metis
    ultimately show ?thesis
      using False iff [of j r] that by (cases "j = i") (auto simp: f(2,3))
  qed
  ultimately show ?thesis
    unfolding slots_ok_def alarm_unset_num [OF i(1) l] by blast
qed

lemma unset_next:
  assumes nx: "next_ok ctx" and ok: "slots_ok S ctx" and p: "p \<in> S"
  shows "next_ok (alarm_unset ctx p)"
proof (cases "pending_idx (alarm_store ctx p) < 0")
  case True
  then show ?thesis using nx by (simp add: alarm_unset_not_pending)
next
  case False
  then obtain i where i: "pending_idx (alarm_store ctx p) = int i" "i < num_pending_alarms ctx"
    using ok p back_pointerE by blast
  then obtain l where l: "num_pending_alarms ctx = Suc l" "i \<le> l"
    by (cases "num_pending_alarms ctx") auto
  have upd: "next_ok (upd_alarm p f c) = next_ok c" for f c
    by (simp add: next_ok_def)
  consider "l = 0" | "0 < l" "next_pending_alarm_idx ctx = int i"
    | "0 < l" "next_pending_alarm_idx ctx \<noteq> int i" by auto
  then show ?thesis
  proof cases
    case 1
    then show ?thesis using i l by (auto simp: alarm_unset_def Let_def upd next_ok_def)
  next
    case 2
    then show ?thesis using i l
      by (auto simp: alarm_unset_def Let_def upd update_next_ok)
  next
    case 3
    have "next_pending_alarm_clk (alarm_unset ctx p) = next_pending_alarm_clk ctx"
      "next_pending_alarm_idx (alarm_unset ctx p)
         = (if next_pending_alarm_idx ctx = int l then int i else next_pending_alarm_idx ctx)"
      using 3 i l by (simp_all add: alarm_unset_def Let_def)
    note f = this alarm_unset_num [OF i(1) l] alarm_unset_pend [OF i(1) l]
    have low: "next_pending_alarm_clk ctx \<le> pa_clk (pending_alarms ctx j)" if "j \<le> l" for j
      using nx that l by (simp add: next_ok_def)
    have att: "0 \<le> next_pending_alarm_idx ctx \<and> nat (next_pending_alarm_idx ctx) \<le> l
        \<and> pa_clk (pending_alarms ctx (nat (next_pending_alarm_idx ctx))) = next_pending_alarm_clk ctx"
      if "next_pending_alarm_clk ctx \<noteq> CLOCK_MAX"
      using nx that l by (auto simp: next_ok_def)
    show ?thesis
    proof (cases "next_pending_alarm_idx ctx = int l")
      case True
      then show ?thesis using low att 3 l unfolding next_ok_def f by auto
    next
      case False
      then show ?thesis using low att 3 l unfolding next_ok_def f by auto
    qed
  qed
qed

lemma alarm_unset_links [simp]:
  "alarm_next (alarm_store (alarm_unset ctx p) q) = alarm_next (alarm_store ctx q)"
  "alarm_prev (alarm_store (alarm_unset ctx p) q) = alarm_prev (alarm_store ctx q)"
  "alarm_callback (alarm_store (alarm_unset ctx p) q) = alarm_callback (alarm_store ctx q)"
  "alarm_data (alarm_store (alarm_unset ctx p) q) = alarm_data (alarm_store ctx q)"
  by (simp_all add: alarm_unset_def Let_def)

lemma alarm_set_links [simp]:
  "alarm_next (alarm_store (alarm_set ctx p c) q) = alarm_next (alarm_store ctx q)"
  "alarm_prev (alarm_store (alarm_set ctx p c) q) = alarm_prev (alarm_store ctx q)"
  "alarm_callback (alarm_store (alarm_set ctx p c) q) = alarm_callback (alarm_store ctx q)"
  "alarm_data (alarm_store (alarm_set ctx p c) q) = alarm_data (alarm_store ctx q)"
  by (simp_all add: alarm_set_def Let_def)

lemma alarms_unset [simp]: "alarms (alarm_unset ctx p) = alarms ctx"
  by (simp add: alarm_unset_def Let_def)

lemma alarms_set [simp]: "alarms (alarm_set ctx p c) = alarms ctx"
  by (simp add: alarm_set_def Let_def)

subsection \<open>Deadlines\<close>

lemma deadline_update_next [simp]:
  "deadline (alarm_context_update_next_pending ctx) = deadline ctx"
  by (simp add: deadline_def fun_eq_iff)

lemma deadline_set_fresh:
  assumes ok: "slots_ok S ctx" and p: "p \<in> S" "pending_idx (alarm_store ctx p) < 0"
    and room: "num_pending_alarms ctx < max_pending_alarms" and q: "q \<in> S"
  shows "deadline (alarm_set ctx p c) q = (if q = p then Some c else deadline ctx q)"
proof -
  have "pending_idx (alarm_store ctx q) < int (num_pending_alarms ctx)"
    using ok q by (simp add: slots_ok_def)
  then show ?thesis
    using p room by (auto simp: alarm_set_def Let_def deadline_def)
qed

lemma deadline_set_again:
  assumes ok: "slots_ok S ctx" and p: "p \<in> S" "pending_idx (alarm_store ctx p) = int i"
    and q: "q \<in> S"
  shows "deadline (alarm_set ctx p c) q = (if q = p then Some c else deadline ctx q)"
proof -
  have "i < num_pending_alarms ctx" using ok p by (auto simp: slots_ok_def)
  then have "pending_idx (alarm_store ctx q) = int i \<longleftrightarrow> q = p"
    using ok p q unfolding slots_ok_def by metis
  then show ?thesis
    using p by (auto simp: set_again_eq [OF p(2)] Let_def deadline_def)
qed

lemma deadline_unset:
  assumes ok: "slots_ok S ctx" and p: "p \<in> S" and q: "q \<in> S"
  shows "deadline (alarm_unset ctx p) q = (if q = p then None else deadline ctx q)"
proof (cases "pending_idx (alarm_store ctx p) < 0")
  case True
  then show ?thesis by (simp add: alarm_unset_not_pending deadline_def)
next
  case False
  then obtain i where i: "pending_idx (alarm_store ctx p) = int i" "i < num_pending_alarms ctx"
    using ok p back_pointerE by blast
  then obtain l where l: "num_pending_alarms ctx = Suc l" "i \<le> l"
    by (cases "num_pending_alarms ctx") auto
  note f = alarm_unset_num [OF i(1) l] alarm_unset_pend [OF i(1) l] alarm_unset_idx [OF i(1) l]
  have iff: "pa_alarm (pending_alarms ctx j) = q \<longleftrightarrow> pending_idx (alarm_store ctx q) = int j"
     "pa_alarm (pending_alarms ctx j) = p \<longleftrightarrow> pending_idx (alarm_store ctx p) = int j"
    if "j \<le> l" for j
    using ok that l p q by (auto simp: slots_ok_def)
  show ?thesis
    using iff [of l] iff [of i] i l by (auto simp: deadline_def f)
qed

text \<open>The cached clock is the least deadline, or \<open>CLOCK_MAX\<close>.\<close>

lemma next_clk_lower:
  assumes "slots_ok S ctx" "next_ok ctx" "p \<in> S" "deadline ctx p = Some c"
  shows "next_pending_alarm_clk ctx \<le> c"
proof -
  have "\<not> pending_idx (alarm_store ctx p) < 0" using assms(4) by (auto simp: deadline_def)
  then obtain i where "pending_idx (alarm_store ctx p) = int i" "i < num_pending_alarms ctx"
    using assms back_pointerE by blast
  then show ?thesis using assms by (auto simp: deadline_def next_ok_def)
qed

lemma next_clk_attained:
  assumes "slots_ok S ctx" "next_ok ctx" "next_pending_alarm_clk ctx \<noteq> CLOCK_MAX"
  obtains p where "p \<in> S" "deadline ctx p = Some (next_pending_alarm_clk ctx)"
    "0 \<le> next_pending_alarm_idx ctx"
    "nat (next_pending_alarm_idx ctx) < num_pending_alarms ctx"
    "p = pa_alarm (pending_alarms ctx (nat (next_pending_alarm_idx ctx)))"
proof -
  let ?j = "nat (next_pending_alarm_idx ctx)"
  have j: "0 \<le> next_pending_alarm_idx ctx" "?j < num_pending_alarms ctx"
    "pa_clk (pending_alarms ctx ?j) = next_pending_alarm_clk ctx"
    using assms by (auto simp: next_ok_def)
  show thesis
    using slotD [OF assms(1) j(2)] j by (intro that) (auto simp: deadline_def)
qed

subsection \<open>The list of alarms\<close>

lemma dll_neighbours:
  assumes "dll h q xs s" "distinct xs" "p \<in> set xs"
  shows "(\<forall>n. alarm_next (h p) = Some n \<longrightarrow> n \<in> set xs \<and> n \<noteq> p)
    \<and> (alarm_prev (h p) = q \<and> s = Some p
       \<or> (\<exists>r\<in>set xs. r \<noteq> p \<and> alarm_prev (h p) = Some r \<and> s \<noteq> Some p))"
  using assms
proof (induction xs arbitrary: q s)
  case Nil
  then show ?case by simp
next
  case (Cons x xs)
  show ?case
  proof (cases "p = x")
    case True
    then show ?thesis using Cons.prems by (cases xs) auto
  next
    case False
    then show ?thesis using Cons.IH [of "Some x" "alarm_next (h x)"] Cons.prems by auto
  qed
qed

text \<open>Unlinking one element, as \<open>alarm_destroy\<close> does it.\<close>

definition unlink :: "(nat \<Rightarrow> alarm) \<Rightarrow> nat \<Rightarrow> nat \<Rightarrow> alarm" where
  "unlink h p =
     (let h1 = (case alarm_next (h p) of None \<Rightarrow> h
                | Some n \<Rightarrow> h(n := h n\<lparr>alarm_prev := alarm_prev (h p)\<rparr>))
      in case alarm_prev (h1 p) of None \<Rightarrow> h1
         | Some q \<Rightarrow> h1(q := h1 q\<lparr>alarm_next := alarm_next (h1 p)\<rparr>))"

lemma unlink_links:
  assumes "alarm_next (h p) \<noteq> Some p"
  shows "alarm_prev (unlink h p x)
      = (if alarm_next (h p) = Some x then alarm_prev (h p) else alarm_prev (h x))"
    and "alarm_next (unlink h p x)
      = (if alarm_prev (h p) = Some x then alarm_next (h p) else alarm_next (h x))"
  using assms by (auto simp: unlink_def Let_def split: option.splits)

lemma dll_unlink:
  assumes "dll h q xs s" "distinct xs" "p \<in> set xs" "\<forall>r. q = Some r \<longrightarrow> r \<notin> set xs"
  shows "dll (unlink h p) q (remove1 p xs) (if s = Some p then alarm_next (h p) else s)"
  using assms
proof (induction xs arbitrary: q s)
  case Nil
  then show ?case by simp
next
  case (Cons x xs)
  note nb = dll_neighbours [OF Cons.prems(1-3)]
  then have np: "alarm_next (h p) \<noteq> Some p" by auto
  note ap = unlink_links [of h, OF np]
  show ?case
  proof (cases "p = x")
    case True
    show ?thesis
    proof (cases xs)
      case Nil
      then show ?thesis using Cons.prems True by simp
    next
      case (Cons y ys)
      have "dll (unlink h p) (Some y) ys (alarm_next (h y)) = dll h (Some y) ys (alarm_next (h y))"
        using Cons.prems True Cons by (intro dll_cong) (auto simp: ap [unfolded True])
      then show ?thesis using Cons.prems True Cons by (auto simp: ap [unfolded True])
    qed
  next
    case False
    have "dll (unlink h p) (Some x) (remove1 p xs)
        (if alarm_next (h x) = Some p then alarm_next (h p) else alarm_next (h x))"
      using Cons.prems False by (intro Cons.IH) auto
    moreover have "alarm_prev (h p) = Some x \<longleftrightarrow> alarm_next (h x) = Some p"
      using dll_neighbours [of h "Some x" xs "alarm_next (h x)" p] Cons.prems False by auto
    moreover have "alarm_next (h p) \<noteq> Some x"
      using dll_neighbours [of h "Some x" xs "alarm_next (h x)" p] Cons.prems False by auto
    ultimately show ?thesis using Cons.prems False by (auto simp: ap)
  qed
qed

subsection \<open>Every operation keeps a context well formed\<close>

lemma dll_alarm_unset [simp]:
  "dll (alarm_store (alarm_unset ctx p)) q xs s = dll (alarm_store ctx) q xs s"
  by (rule dll_cong) simp

lemma dll_alarm_set [simp]:
  "dll (alarm_store (alarm_set ctx p c)) q xs s = dll (alarm_store ctx) q xs s"
  by (rule dll_cong) simp

lemma alarm_set_full:
  "pending_idx (alarm_store ctx p) < 0 \<Longrightarrow> max_pending_alarms \<le> num_pending_alarms ctx
   \<Longrightarrow> alarm_set ctx p c = ctx"
  by (simp add: alarm_set_def Let_def)

lemma alarm_wf_set:
  assumes wf: "alarm_wf xs ctx" and p: "p \<in> set xs"
  shows "alarm_wf xs (alarm_set ctx p c)"
proof (cases "pending_idx (alarm_store ctx p) < 0")
  case True
  then show ?thesis
    using wf p alarm_set_full [OF True] set_fresh_slots [of "set xs" ctx p c] set_fresh_next [of "set xs" ctx p c]
    by (cases "num_pending_alarms ctx < max_pending_alarms") (auto simp: alarm_wf_def)
next
  case False
  then obtain i where "pending_idx (alarm_store ctx p) = int i"
    using wf p back_pointerE by (metis alarm_wf_def)
  then show ?thesis
    using wf set_again_slots set_again_next by (auto simp: alarm_wf_def)
qed

lemma alarm_wf_unset:
  "alarm_wf xs ctx \<Longrightarrow> p \<in> set xs \<Longrightarrow> alarm_wf xs (alarm_unset ctx p)"
  by (auto simp: alarm_wf_def intro: unset_slots unset_next)

lemma alarm_wf_init: "alarm_wf [] (alarm_context_init ctx nm)"
  by (simp add: alarm_wf_def alarm_context_init_def slots_ok_def next_ok_def)

lemma alarm_init_fields [simp]:
  "alarms (alarm_init p ctx nm cb d) = Some p"
  "pending_alarms (alarm_init p ctx nm cb d) = pending_alarms ctx"
  "num_pending_alarms (alarm_init p ctx nm cb d) = num_pending_alarms ctx"
  "next_pending_alarm_clk (alarm_init p ctx nm cb d) = next_pending_alarm_clk ctx"
  "next_pending_alarm_idx (alarm_init p ctx nm cb d) = next_pending_alarm_idx ctx"
  "alarm_callback (alarm_store (alarm_init p ctx nm cb d) p) = cb"
  "alarm_data (alarm_store (alarm_init p ctx nm cb d) p) = d"
  "pending_idx (alarm_store (alarm_init p ctx nm cb d) p) = -1"
  by (auto simp: alarm_init_def Let_def split: option.splits)

lemma alarm_init_other:
  "q \<noteq> p \<Longrightarrow> alarm_store (alarm_init p ctx nm cb d) q = (alarm_store ctx q)
     \<lparr>alarm_prev := if alarms ctx = Some q then Some p else alarm_prev (alarm_store ctx q)\<rparr>"
  by (auto simp: alarm_init_def Let_def split: option.splits)

lemma alarm_init_links [simp]:
  "alarms ctx \<noteq> Some p \<Longrightarrow> alarm_next (alarm_store (alarm_init p ctx nm cb d) p) = alarms ctx"
  "alarm_prev (alarm_store (alarm_init p ctx nm cb d) p) = None"
  by (auto simp: alarm_init_def Let_def split: option.splits)

lemma dll_alarm_init:
  assumes "p \<notin> set xs" "distinct xs" "dll (alarm_store ctx) None xs (alarms ctx)"
  shows "dll (alarm_store (alarm_init p ctx nm cb d)) None (p # xs) (Some p)"
proof (cases xs)
  case Nil
  then show ?thesis using assms by simp
next
  case (Cons y ys)
  have "dll (alarm_store (alarm_init p ctx nm cb d)) (Some y) ys (alarm_next (alarm_store ctx y))
      = dll (alarm_store ctx) (Some y) ys (alarm_next (alarm_store ctx y))"
  proof (rule dll_cong)
    fix x assume "x \<in> set ys"
    then have "x \<noteq> p" "Some y \<noteq> Some x" using assms Cons by auto
    then show "alarm_next (alarm_store (alarm_init p ctx nm cb d) x) = alarm_next (alarm_store ctx x)
        \<and> alarm_prev (alarm_store (alarm_init p ctx nm cb d) x) = alarm_prev (alarm_store ctx x)"
      using assms Cons by (simp add: alarm_init_other)
  qed
  moreover have "y \<noteq> p" using assms Cons by auto
  ultimately show ?thesis using assms Cons by (simp add: alarm_init_other)
qed

lemma alarm_wf_new:
  assumes wf: "alarm_wf xs ctx" and p: "p \<notin> set xs"
  shows "alarm_wf (p # xs) (snd (alarm_new p ctx nm cb d))"
proof -
  let ?c = "alarm_init p ctx nm cb d"
  have idx: "pending_idx (alarm_store ?c q) = pending_idx (alarm_store ctx q)" if "q \<in> set xs" for q
    using p that by (cases "q = p") (auto simp: alarm_init_other)
  have "slots_ok (set xs) ctx" "next_ok ctx" using wf by (auto simp: alarm_wf_def)
  then have "slots_ok (insert p (set xs)) ?c"
    using idx p by (auto simp: slots_ok_def)
  moreover have "next_ok ?c" using \<open>next_ok ctx\<close> by (simp add: next_ok_def)
  ultimately show ?thesis
    using wf p by (simp add: alarm_wf_def alarm_new_def dll_alarm_init del: dll.simps)
qed

lemma alarm_destroy_fields [simp]:
  "pending_alarms (alarm_destroy ctx (Some p)) = pending_alarms (alarm_unset ctx p)"
  "num_pending_alarms (alarm_destroy ctx (Some p)) = num_pending_alarms (alarm_unset ctx p)"
  "next_pending_alarm_clk (alarm_destroy ctx (Some p)) = next_pending_alarm_clk (alarm_unset ctx p)"
  "next_pending_alarm_idx (alarm_destroy ctx (Some p)) = next_pending_alarm_idx (alarm_unset ctx p)"
  "alarms (alarm_destroy ctx (Some p)) =
     (if alarms ctx = Some p then alarm_next (alarm_store ctx p) else alarms ctx)"
  "alarm_store (alarm_destroy ctx (Some p)) = unlink (alarm_store (alarm_unset ctx p)) p"
  by (auto simp: alarm_destroy_def Let_def unlink_def fun_eq_iff split: option.splits)

lemma unlink_idx [simp]: "pending_idx (unlink h p q) = pending_idx (h q)"
  by (auto simp: unlink_def Let_def split: option.splits)

lemma unset_idx_self: "slots_ok S ctx \<Longrightarrow> p \<in> S \<Longrightarrow> pending_idx (alarm_store (alarm_unset ctx p) p) < 0"
  by (cases "pending_idx (alarm_store ctx p) < 0") (auto simp: alarm_unset_def Let_def)

lemma slots_ok_remove:
  assumes ok: "slots_ok S ctx" and p: "p \<in> S" "pending_idx (alarm_store ctx p) < 0"
  shows "slots_ok (S - {p}) ctx"
proof -
  have "pa_alarm (pending_alarms ctx i) \<noteq> p" if "i < num_pending_alarms ctx" for i
    using slotD [OF ok that] p by auto
  then show ?thesis using ok by (auto simp: slots_ok_def)
qed

lemma alarm_wf_destroy:
  assumes wf: "alarm_wf xs ctx" and p: "p \<in> set xs"
  shows "alarm_wf (remove1 p xs) (alarm_destroy ctx (Some p))"
proof -
  have w: "distinct xs" "dll (alarm_store ctx) None xs (alarms ctx)"
    "slots_ok (set xs) (alarm_unset ctx p)" "next_ok (alarm_unset ctx p)"
    using alarm_wf_unset [OF wf p] wf by (auto simp: alarm_wf_def)
  have "pending_idx (alarm_store (alarm_unset ctx p) p) < 0"
    using wf p unset_idx_self by (auto simp: alarm_wf_def)
  then have "slots_ok (set xs - {p}) (alarm_unset ctx p)"
    using w(3) p by (rule slots_ok_remove [rotated 2])
  then have "slots_ok (set (remove1 p xs)) (alarm_destroy ctx (Some p))"
    using w(1) by (simp add: slots_ok_def)
  moreover have "dll (alarm_store (alarm_destroy ctx (Some p))) None (remove1 p xs)
      (alarms (alarm_destroy ctx (Some p)))"
    using dll_unlink [of "alarm_store (alarm_unset ctx p)" None xs "alarms ctx" p] w p
    by (cases "alarms ctx = Some p") simp_all
  moreover have "next_ok (alarm_destroy ctx (Some p))"
    using w(4) by (simp add: next_ok_def)
  ultimately show ?thesis using w(1) by (simp add: alarm_wf_def)
qed

text \<open>Destroying a context frees every alarm of its list.\<close>

lemma alarm_destroy_loop_total:
  "alarm_wf xs ctx \<Longrightarrow> ap = alarms ctx \<Longrightarrow> length xs < fuel \<Longrightarrow>
     \<exists>ctx'. alarm_destroy_loop fuel ctx ap = Some ctx' \<and> alarm_wf [] ctx'"
proof (induction xs arbitrary: ctx ap fuel)
  case Nil
  then show ?case by (cases fuel) (auto simp: alarm_wf_def)
next
  case (Cons x xs)
  then obtain f where f: "fuel = Suc f" by (cases fuel) auto
  have ap: "alarms ctx = Some x" using Cons.prems by (simp add: alarm_wf_def)
  have wf: "alarm_wf xs (alarm_destroy ctx (Some x))"
    using alarm_wf_destroy [OF Cons.prems(1), of x] by simp
  show ?case
    using Cons.IH [OF wf refl, of f] Cons.prems f ap by simp
qed

end
