(* ===== verification/Kbdbuf.thy ===== *)
theory Kbdbuf
  imports Alarm Charset
begin

text \<open>
  The keyboard queue of \<^verbatim>\<open>src/src/kbdbuf.c\<close>: keys from the command line, the monitor or
  autostart wait in a ring of 16384 bytes and are handed in bursts to the keyboard buffer of
  the emulated machine. The static variables of the file and the parts of the machine it
  uses (memory, alarm context, clock) are the record \<open>kbd\<close>. The machine is a C64:
  \<^verbatim>\<open>mem_inject_key\<close> of \<^verbatim>\<open>src/src/c64/c64mem.c\<close> without a memory hack writes RAM, and
  \<^verbatim>\<open>mem_read\<close> of the zero page reads it. \<open>None\<close> is an access outside the ring.
\<close>

section \<open>State\<close>

definition QUEUE_SIZE :: nat where "QUEUE_SIZE = 16384"

record kbd =
  buffer_location :: int
  num_pending_location :: int
  buffer_size :: int
  kernal_init_cycles :: clock
  kb_queue :: "u8 list"
  head_idx :: int
  num_pending :: int
  kbd_buf_enabled :: bool
  kbd_buf_cmdline :: bool
  kbd_buf_string :: "u8 list option"
  KbdbufDelay :: int
  use_kbdbuf_flush_alarm :: bool
  kbdbuf_flush_alarm :: nat
  kbdbuf_init_cmdline_fed :: bool
  kbdbuf_flush_alarm_time :: clock
  prevent_recursion :: bool
  mem_ram :: "u16 \<Rightarrow> u8"
  maincpu_alarm_context :: alarm_context
  maincpu_clk :: clock
  cycles_per_frame :: clock
  rand_uint32 :: u32

text \<open>C's remainder, which has the sign of the dividend.\<close>

definition c_rem :: "int \<Rightarrow> int \<Rightarrow> int" where
  "c_rem a b = (if a < 0 then - ((- a) mod b) else a mod b)"

definition queue_get :: "kbd \<Rightarrow> int \<Rightarrow> u8 option" where
  "queue_get st p = (if 0 \<le> p \<and> p < int (length (kb_queue st)) then Some (kb_queue st ! nat p) else None)"

section \<open>Strings with escapes\<close>

definition set_kbdbuf_delay :: "int \<Rightarrow> kbd \<Rightarrow> kbd" where
  "set_kbdbuf_delay val st = st\<lparr>KbdbufDelay := (if val < 0 then 0 else val)\<rparr>"

definition isxdigit :: "u8 \<Rightarrow> bool" where
  "isxdigit c \<longleftrightarrow> 0x30 \<le> c \<and> c \<le> 0x39 \<or> 0x41 \<le> c \<and> c \<le> 0x46 \<or> 0x61 \<le> c \<and> c \<le> 0x66"

definition hex_digit :: "u8 \<Rightarrow> u8" where
  "hex_digit c = (if c \<le> 0x39 then c - 0x30 else if c \<le> 0x46 then c - 0x37 else c - 0x57)"

text \<open>
  The loop of \<^verbatim>\<open>kbd_buf_parse_string\<close>: \<open>r\<close> characters are left of \<open>len\<close>, and \<open>s\<close> is the
  string from there on with its terminating 0. \<^verbatim>\<open>len\<close> is a \<^verbatim>\<open>size_t\<close>, so \<^verbatim>\<open>len - 3\<close> wraps for
  short strings; the comparison then holds.
\<close>

fun parse_loop :: "nat \<Rightarrow> nat \<Rightarrow> u8 list \<Rightarrow> u8 list" where
  "parse_loop len 0 s = []"
| "parse_loop len (Suc r) s =
     (if hd s = 0x5c then
        if r > 0 \<and> s ! 1 = 0x5c then charset_p_topetscii 0x5c # parse_loop len (r - 1) (drop 2 s)
        else if r > 0 \<and> s ! 1 = 0x6e then charset_p_topetscii 0x0a # parse_loop len (r - 1) (drop 2 s)
        else if (len < 3 \<or> r \<ge> 3) \<and> s ! 1 = 0x78 \<and> isxdigit (s ! 2) \<and> isxdigit (s ! 3)
        then (16 * hex_digit (s ! 2) + hex_digit (s ! 3)) # parse_loop len (r - 3) (drop 4 s)
        else parse_loop len r (tl s)
      else charset_p_topetscii (hd s) # parse_loop len r (tl s))"

text \<open>A C string is its bytes before the first 0.\<close>

definition c_str :: "u8 list \<Rightarrow> u8 list" where
  "c_str s = takeWhile (\<lambda>c. c \<noteq> 0) s"

definition kbd_buf_parse_string :: "u8 list \<Rightarrow> kbd \<Rightarrow> kbd" where
  "kbd_buf_parse_string string st =
     (let len = min (length (c_str string)) QUEUE_SIZE
      in st\<lparr>kbd_buf_string := Some (parse_loop len len (c_str string @ [0]))\<rparr>)"

section \<open>The buffer of the machine\<close>

definition mem_inject_key :: "u16 \<Rightarrow> u8 \<Rightarrow> kbd \<Rightarrow> kbd" where
  "mem_inject_key addr value st = st\<lparr>mem_ram := (mem_ram st)(addr := value)\<rparr>"

definition tokbdbuffer :: "u8 \<Rightarrow> kbd \<Rightarrow> kbd" where
  "tokbdbuffer c st =
     (let num = uint (mem_ram st (word_of_int (num_pending_location st)));
          st = mem_inject_key (word_of_int (buffer_location st + num)) c st
      in mem_inject_key (word_of_int (num_pending_location st)) (word_of_int (num + 1)) st)"

definition kbdbuf_is_empty :: "kbd \<Rightarrow> bool" where
  "kbdbuf_is_empty st \<longleftrightarrow> mem_ram st (word_of_int (num_pending_location st)) = 0"

definition kbdbuf_queue_is_empty :: "kbd \<Rightarrow> bool" where
  "kbdbuf_queue_is_empty st \<longleftrightarrow> \<not> num_pending st > 0"

definition removefromqueue :: "kbd \<Rightarrow> kbd" where
  "removefromqueue st = st\<lparr>num_pending := num_pending st - 1,
     head_idx := c_rem (head_idx st + 1) (int QUEUE_SIZE)\<rparr>"

section \<open>Flushing\<close>

text \<open>\<^verbatim>\<open>lib_unsigned_rand\<close> of \<^verbatim>\<open>src/src/lib.c\<close> on the next random number.\<close>

definition lib_unsigned_rand :: "u32 \<Rightarrow> u32 \<Rightarrow> u32 \<Rightarrow> u32" where
  "lib_unsigned_rand rnd mn mx =
     (let range = ucast (mx - mn) + 1 :: u64 in mn + ucast (drop_bit 32 (ucast rnd * range)))"

text \<open>The loop over the \<open>n\<close> keys of a burst; \<open>True\<close> means that it left early for a RETURN.\<close>

fun flush_loop :: "nat \<Rightarrow> kbd \<Rightarrow> (bool \<times> kbd) option" where
  "flush_loop 0 st = Some (False, st)"
| "flush_loop (Suc n) st =
     Option.bind (queue_get st (head_idx st)) (\<lambda>c.
       if c = 13 \<and> use_kbdbuf_flush_alarm st then
         (let t = maincpu_clk st + cycles_per_frame st;
              t = t + ucast (lib_unsigned_rand (rand_uint32 st) 1 (ucast (cycles_per_frame st)));
              st = st\<lparr>kbdbuf_flush_alarm_time := t,
                maincpu_alarm_context := alarm_set (maincpu_alarm_context st) (kbdbuf_flush_alarm st) t\<rparr>
          in Some (True, st))
       else flush_loop n (removefromqueue (tokbdbuffer c st)))"

text \<open>The number of keys: \<^verbatim>\<open>n\<close> is unsigned, the other two are signed.\<close>

definition flush_count :: "kbd \<Rightarrow> nat" where
  "flush_count st = unat (word_of_int (if num_pending st > buffer_size st then buffer_size st else num_pending st) :: u32)"

definition kbdbuf_flush :: "kbd \<Rightarrow> kbd option" where
  "kbdbuf_flush st =
     (if prevent_recursion st then Some st
      else
        let st = st\<lparr>prevent_recursion := True\<rparr>
        in if \<not> kbd_buf_enabled st \<or> num_pending st = 0 \<or> \<not> kbdbuf_is_empty st
              \<or> maincpu_clk st < kernal_init_cycles st \<or> kbdbuf_flush_alarm_time st \<noteq> 0
           then Some (st\<lparr>prevent_recursion := False\<rparr>)
           else map_option (\<lambda>(early, st). if early then st\<lparr>prevent_recursion := False\<rparr>
                else st\<lparr>kbd_buf_cmdline := False, prevent_recursion := False\<rparr>)
              (flush_loop (flush_count st) st))"

definition kbdbuf_flush_alarm_triggered :: "kbd \<Rightarrow> kbd" where
  "kbdbuf_flush_alarm_triggered st =
     (let st = st\<lparr>maincpu_alarm_context := alarm_unset (maincpu_alarm_context st) (kbdbuf_flush_alarm st),
                  kbdbuf_flush_alarm_time := 0\<rparr>
      in removefromqueue (tokbdbuffer 13 st))"

section \<open>Feeding\<close>

fun queue_store :: "u8 list \<Rightarrow> int \<Rightarrow> kbd \<Rightarrow> kbd option" where
  "queue_store [] p st = Some st"
| "queue_store (c # cs) p st =
     (if 0 \<le> p \<and> p < int (length (kb_queue st))
      then queue_store cs (c_rem (p + 1) (int QUEUE_SIZE)) (st\<lparr>kb_queue := (kb_queue st)[nat p := c]\<rparr>)
      else None)"

definition string_to_queue :: "u8 list \<Rightarrow> kbd \<Rightarrow> (int \<times> kbd) option" where
  "string_to_queue string st =
     (let num = int (length (c_str string))
      in if num_pending st + num > int QUEUE_SIZE \<or> \<not> kbd_buf_enabled st then Some (-1, st)
         else
           Option.bind (queue_store (c_str string) (c_rem (head_idx st + num_pending st) (int QUEUE_SIZE)) st) (\<lambda>st.
             map_option (Pair 0) (kbdbuf_flush (st\<lparr>num_pending := num_pending st + num\<rparr>))))"

definition kbdbuf_feed :: "u8 list \<Rightarrow> kbd \<Rightarrow> (int \<times> kbd) option" where
  "kbdbuf_feed string st = string_to_queue string (st\<lparr>use_kbdbuf_flush_alarm := False\<rparr>)"

definition kbdbuf_feed_runcmd :: "u8 list \<Rightarrow> kbd \<Rightarrow> (int \<times> kbd) option" where
  "kbdbuf_feed_runcmd string st = string_to_queue string (st\<lparr>use_kbdbuf_flush_alarm := True\<rparr>)"

definition kbdbuf_feed_string :: "u8 list \<Rightarrow> kbd \<Rightarrow> (int \<times> kbd) option" where
  "kbdbuf_feed_string string st =
     (let st = kbd_buf_parse_string string st in kbdbuf_feed (the (kbd_buf_string st)) st)"

definition kdb_buf_feed_cmdline :: "u8 list \<Rightarrow> kbd \<Rightarrow> kbd" where
  "kdb_buf_feed_cmdline param st = kbd_buf_parse_string param (st\<lparr>kbd_buf_cmdline := True\<rparr>)"

definition kbdbuf_feed_cmdline :: "kbd \<Rightarrow> kbd option" where
  "kbdbuf_feed_cmdline st =
     (case kbd_buf_string st of
        None \<Rightarrow> Some st
      | Some s \<Rightarrow> map_option snd (if KbdbufDelay st \<noteq> 0 then kbdbuf_feed_runcmd s st else kbdbuf_feed s st))"

section \<open>Reset and start\<close>

definition kbdbuf_reset :: "int \<Rightarrow> int \<Rightarrow> int \<Rightarrow> clock \<Rightarrow> kbd \<Rightarrow> kbd" where
  "kbdbuf_reset location plocation sz mincycles st =
     st\<lparr>buffer_location := location, num_pending_location := plocation, buffer_size := sz,
        kernal_init_cycles := mincycles, kbd_buf_enabled := mincycles \<noteq> 0\<rparr>"

definition kbdbuf_abort :: "kbd \<Rightarrow> kbd" where
  "kbdbuf_abort st = (if \<not> kbd_buf_cmdline st then st\<lparr>num_pending := 0\<rparr> else st)"

text \<open>
  \<open>isautoload\<close> is whether the command line asked for autostart; \<open>p\<close> is the memory of the new
  alarm, and \<open>cb\<close> the address of \<^verbatim>\<open>kbdbuf_flush_alarm_triggered\<close>.
\<close>

definition kbdbuf_init :: "bool \<Rightarrow> nat \<Rightarrow> nat \<Rightarrow> int \<Rightarrow> int \<Rightarrow> int \<Rightarrow> clock \<Rightarrow> kbd \<Rightarrow> kbd option" where
  "kbdbuf_init isautoload p cb location plocation sz mincycles st =
     (let mincycles = (if \<not> isautoload then mincycles + word_of_int (KbdbufDelay st) else mincycles);
          (a, ctx) = alarm_new p (maincpu_alarm_context st) ''Keybuf'' cb 0;
          st = st\<lparr>kbdbuf_flush_alarm := a, maincpu_alarm_context := ctx\<rparr>;
          st = kbdbuf_reset location plocation sz mincycles st
      in if \<not> isautoload \<and> sz > 0 \<and> \<not> kbdbuf_init_cmdline_fed st
         then map_option (\<lambda>st. st\<lparr>kbdbuf_init_cmdline_fed := True\<rparr>) (kbdbuf_feed_cmdline st)
         else Some st)"

end
