(* ===== verification/Alarm_Service.thy ===== *)
theory Alarm_Service
  imports Alarm
begin

text \<open>
  The interface the clients of an alarm context use, as a locale over the map of pending
  deadlines; its interpretation on the model of \<^verbatim>\<open>src/src/alarm.c\<close>; the contexts a
  program can build; and the properties of the scheduler.
\<close>

section \<open>The alarm service\<close>

text \<open>
  What the clients of a context rely on (timers, flash chips, the keyboard buffer): setting
  and unsetting alarms acts on a map from alarms to clocks, and the cached clock is its
  least value. \<open>room s\<close> says that a free slot is left.
\<close>

locale alarm_service =
  fixes set_al :: "'s \<Rightarrow> nat \<Rightarrow> clock \<Rightarrow> 's"
    and unset_al :: "'s \<Rightarrow> nat \<Rightarrow> 's"
    and next_clk :: "'s \<Rightarrow> clock"
    and due :: "'s \<Rightarrow> nat \<Rightarrow> clock option"
    and ok :: "'s \<Rightarrow> bool"
    and known :: "nat set"
    and room :: "'s \<Rightarrow> bool"
    and cap :: nat
  assumes known_finite: "finite known"
    and ok_set: "ok s \<Longrightarrow> p \<in> known \<Longrightarrow> ok (set_al s p c)"
    and ok_unset: "ok s \<Longrightarrow> p \<in> known \<Longrightarrow> ok (unset_al s p)"
    and due_set: "ok s \<Longrightarrow> p \<in> known \<Longrightarrow> q \<in> known \<Longrightarrow> due s p \<noteq> None \<or> room s
        \<Longrightarrow> due (set_al s p c) q = (if q = p then Some c else due s q)"
    and set_full: "ok s \<Longrightarrow> p \<in> known \<Longrightarrow> due s p = None \<Longrightarrow> \<not> room s \<Longrightarrow> set_al s p c = s"
    and due_unset: "ok s \<Longrightarrow> p \<in> known \<Longrightarrow> q \<in> known
        \<Longrightarrow> due (unset_al s p) q = (if q = p then None else due s q)"
    and next_least: "ok s \<Longrightarrow> p \<in> known \<Longrightarrow> due s p = Some c \<Longrightarrow> next_clk s \<le> c"
    and next_attained: "ok s \<Longrightarrow> next_clk s \<noteq> CLOCK_MAX
        \<Longrightarrow> \<exists>p\<in>known. due s p = Some (next_clk s)"
    and room_few: "ok s \<Longrightarrow> p \<in> known \<Longrightarrow> due s p = None \<Longrightarrow> card known \<le> cap \<Longrightarrow> room s"
    and room_unset: "ok s \<Longrightarrow> p \<in> known \<Longrightarrow> due s p \<noteq> None \<Longrightarrow> room (unset_al s p)"

text \<open>A client is a sequence of requests; its meaning is the same sequence on a map.\<close>

datatype alarm_request = SetAlarm nat clock | UnsetAlarm nat

fun request_alarm :: "alarm_request \<Rightarrow> nat" where
  "request_alarm (SetAlarm p c) = p"
| "request_alarm (UnsetAlarm p) = p"

fun apply_request :: "('s \<Rightarrow> nat \<Rightarrow> clock \<Rightarrow> 's) \<Rightarrow> ('s \<Rightarrow> nat \<Rightarrow> 's) \<Rightarrow> 's \<Rightarrow> alarm_request \<Rightarrow> 's" where
  "apply_request st un s (SetAlarm p c) = st s p c"
| "apply_request st un s (UnsetAlarm p) = un s p"

definition run_requests ::
    "('s \<Rightarrow> nat \<Rightarrow> clock \<Rightarrow> 's) \<Rightarrow> ('s \<Rightarrow> nat \<Rightarrow> 's) \<Rightarrow> 's \<Rightarrow> alarm_request list \<Rightarrow> 's" where
  "run_requests st un s rs = foldl (apply_request st un) s rs"

definition map_set :: "(nat \<Rightarrow> clock option) \<Rightarrow> nat \<Rightarrow> clock \<Rightarrow> nat \<Rightarrow> clock option" where
  "map_set m p c = m(p := Some c)"

definition map_unset :: "(nat \<Rightarrow> clock option) \<Rightarrow> nat \<Rightarrow> nat \<Rightarrow> clock option" where
  "map_unset m p = m(p := None)"

abbreviation spec_requests ::
    "(nat \<Rightarrow> clock option) \<Rightarrow> alarm_request list \<Rightarrow> nat \<Rightarrow> clock option" where
  "spec_requests \<equiv> run_requests map_set map_unset"

context alarm_service begin

lemma ok_request: "ok s \<Longrightarrow> request_alarm r \<in> known \<Longrightarrow> ok (apply_request set_al unset_al s r)"
  by (cases r) (auto intro: ok_set ok_unset)

lemma ok_run:
  "ok s \<Longrightarrow> \<forall>r\<in>set rs. request_alarm r \<in> known \<Longrightarrow> ok (run_requests set_al unset_al s rs)"
  by (induction rs arbitrary: s) (auto simp: run_requests_def ok_request)

lemma run_refines:
  assumes "ok s" "\<forall>r\<in>set rs. request_alarm r \<in> known" "card known \<le> cap"
    "\<forall>q\<in>known. due s q = m q"
  shows "\<forall>q\<in>known. due (run_requests set_al unset_al s rs) q = spec_requests m rs q"
  using assms(1,2,4)
proof (induction rs arbitrary: s m)
  case Nil
  then show ?case by (simp add: run_requests_def)
next
  case (Cons r rs)
  let ?s = "apply_request set_al unset_al s r"
  let ?m = "apply_request map_set map_unset m r"
  have r: "request_alarm r \<in> known" using Cons.prems by simp
  have "\<forall>q\<in>known. due ?s q = ?m q"
  proof (cases r)
    case (SetAlarm p c)
    then have "due s p \<noteq> None \<or> room s"
      using room_few [of s p] Cons.prems(1) r assms(3) by auto
    then show ?thesis using SetAlarm Cons.prems r due_set by (auto simp: map_set_def)
  next
    case (UnsetAlarm p)
    then show ?thesis using Cons.prems r due_unset by (auto simp: map_unset_def)
  qed
  then show ?case
    using Cons.IH [of ?s ?m] Cons.prems ok_request [OF _ r] by (simp add: run_requests_def)
qed

lemma next_is_Min:
  assumes "ok s"
  shows "next_clk s = Min (insert CLOCK_MAX {c. \<exists>p\<in>known. due s p = Some c})"
proof -
  have "{c. \<exists>p\<in>known. due s p = Some c} \<subseteq> (\<lambda>p. the (due s p)) ` known"
    by force
  then have fin: "finite (insert CLOCK_MAX {c. \<exists>p\<in>known. due s p = Some c})"
    using known_finite finite_surj by blast
  show ?thesis
  proof (rule Min_eqI [OF fin, symmetric])
    fix c assume "c \<in> insert CLOCK_MAX {c. \<exists>p\<in>known. due s p = Some c}"
    then show "next_clk s \<le> c" using next_least [OF assms] by auto
  next
    show "next_clk s \<in> insert CLOCK_MAX {c. \<exists>p\<in>known. due s p = Some c}"
      using next_attained [OF assms] by auto
  qed
qed

lemma set_after_unset:
  assumes "ok s" "p \<in> known" "q \<in> known" "due s p \<noteq> None"
  shows "due (set_al (unset_al s p) p c) q = (if q = p then Some c else due s q)"
  using due_set [of "unset_al s p" p q c] due_unset [of s p q] ok_unset [of s p] room_unset [of s p] assms
  by simp

end

subsection \<open>Contexts provide the service\<close>

lemma pending_card:
  assumes ok: "slots_ok S ctx" and fin: "finite S" and p: "p \<in> S" "pending_idx (alarm_store ctx p) < 0"
  shows "num_pending_alarms ctx < card S"
proof -
  let ?f = "\<lambda>i. pa_alarm (pending_alarms ctx i)"
  have "inj_on ?f {..<num_pending_alarms ctx}"
  proof (rule inj_onI)
    fix i j assume "i \<in> {..<num_pending_alarms ctx}" "j \<in> {..<num_pending_alarms ctx}" "?f i = ?f j"
    then have lt: "i < num_pending_alarms ctx" "j < num_pending_alarms ctx" and eq: "?f i = ?f j"
      by simp_all
    have "int i = pending_idx (alarm_store ctx (?f i))" using slotD [OF ok lt(1)] by metis
    also have "\<dots> = int j" unfolding eq using slotD [OF ok lt(2)] by metis
    finally show "i = j" by simp
  qed
  moreover have "?f ` {..<num_pending_alarms ctx} \<subseteq> S - {p}"
  proof (rule image_subsetI)
    fix i assume "i \<in> {..<num_pending_alarms ctx}"
    then have "?f i \<in> S" "pending_idx (alarm_store ctx (?f i)) = int i"
      using slotD [OF ok, of i] by simp_all
    then show "?f i \<in> S - {p}" using p by (metis Diff_iff empty_iff insert_iff of_nat_less_0_iff)
  qed
  ultimately have "num_pending_alarms ctx \<le> card (S - {p})"
    using card_inj_on_le [of ?f "{..<num_pending_alarms ctx}" "S - {p}"] fin by simp
  moreover have "card (S - {p}) < card S" using fin p by (meson card_Diff1_less)
  ultimately show ?thesis by linarith
qed

lemma deadline_None_iff [simp]: "deadline ctx p = None \<longleftrightarrow> pending_idx (alarm_store ctx p) < 0"
  by (simp add: deadline_def)

lemma unset_room:
  assumes "slots_ok S ctx" "p \<in> S" "\<not> pending_idx (alarm_store ctx p) < 0"
  shows "num_pending_alarms (alarm_unset ctx p) < max_pending_alarms"
proof -
  obtain i where i: "pending_idx (alarm_store ctx p) = int i" "i < num_pending_alarms ctx"
    using assms back_pointerE by blast
  then obtain l where l: "num_pending_alarms ctx = Suc l" "i \<le> l"
    by (cases "num_pending_alarms ctx") auto
  show ?thesis using alarm_unset_num [OF i(1) l] assms(1) l by (simp add: slots_ok_def)
qed

lemma deadline_set:
  assumes wf: "alarm_wf xs ctx" and p: "p \<in> set xs" and q: "q \<in> set xs"
    and r: "deadline ctx p \<noteq> None \<or> num_pending_alarms ctx < max_pending_alarms"
  shows "deadline (alarm_set ctx p c) q = (if q = p then Some c else deadline ctx q)"
proof (cases "pending_idx (alarm_store ctx p) < 0")
  case True
  then show ?thesis using assms deadline_set_fresh by (auto simp: alarm_wf_def)
next
  case False
  then obtain i where "pending_idx (alarm_store ctx p) = int i"
    using wf p back_pointerE by (metis alarm_wf_def)
  then show ?thesis using wf p q deadline_set_again by (auto simp: alarm_wf_def)
qed

interpretation contexts: alarm_service alarm_set alarm_unset next_pending_alarm_clk deadline
    "alarm_wf xs" "set xs" "\<lambda>ctx. num_pending_alarms ctx < max_pending_alarms" max_pending_alarms
  for xs
proof unfold_locales
  show "finite (set xs)" by simp
next
  fix s p c assume "alarm_wf xs s" "p \<in> set xs"
  then show "alarm_wf xs (alarm_set s p c)" "alarm_wf xs (alarm_unset s p)"
    by (rule alarm_wf_set alarm_wf_unset)+
next
  fix s p q c assume "alarm_wf xs s" "p \<in> set xs" "q \<in> set xs"
    "deadline s p \<noteq> None \<or> num_pending_alarms s < max_pending_alarms"
  then show "deadline (alarm_set s p c) q = (if q = p then Some c else deadline s q)"
    by (rule deadline_set)
next
  fix s p c assume "alarm_wf xs s" "p \<in> set xs" "deadline s p = None"
    "\<not> num_pending_alarms s < max_pending_alarms"
  then show "alarm_set s p c = s" by (simp add: alarm_set_full)
next
  fix s p q assume "alarm_wf xs s" "p \<in> set xs" "q \<in> set xs"
  then show "deadline (alarm_unset s p) q = (if q = p then None else deadline s q)"
    using deadline_unset unfolding alarm_wf_def by blast
next
  fix s p c assume "alarm_wf xs s" "p \<in> set xs" "deadline s p = Some c"
  then show "next_pending_alarm_clk s \<le> c" using next_clk_lower by (auto simp: alarm_wf_def)
next
  fix s assume "alarm_wf xs s" "next_pending_alarm_clk s \<noteq> CLOCK_MAX"
  then show "\<exists>p\<in>set xs. deadline s p = Some (next_pending_alarm_clk s)"
    using next_clk_attained by (metis alarm_wf_def)
next
  fix s p assume "alarm_wf xs s" "p \<in> set xs" "deadline s p = None"
    "card (set xs) \<le> max_pending_alarms"
  then show "num_pending_alarms s < max_pending_alarms"
    using pending_card [of "set xs" s p] by (auto simp: alarm_wf_def)
next
  fix s p assume "alarm_wf xs s" "p \<in> set xs" "deadline s p \<noteq> None"
  then show "num_pending_alarms (alarm_unset s p) < max_pending_alarms"
    using unset_room by (auto simp: alarm_wf_def)
qed

section \<open>Reachable contexts\<close>

text \<open>
  A context as the program builds it: initialised, then changed by allocating an alarm at a
  fresh address, setting, unsetting and destroying.
\<close>

inductive alarm_reach :: "nat list \<Rightarrow> alarm_context \<Rightarrow> bool" where
  reach_init: "alarm_reach [] (alarm_context_init ctx nm)"
| reach_new: "alarm_reach xs ctx \<Longrightarrow> p \<notin> set xs
    \<Longrightarrow> alarm_reach (p # xs) (snd (alarm_new p ctx nm cb d))"
| reach_set: "alarm_reach xs ctx \<Longrightarrow> p \<in> set xs \<Longrightarrow> alarm_reach xs (alarm_set ctx p c)"
| reach_unset: "alarm_reach xs ctx \<Longrightarrow> p \<in> set xs \<Longrightarrow> alarm_reach xs (alarm_unset ctx p)"
| reach_destroy: "alarm_reach xs ctx \<Longrightarrow> p \<in> set xs
    \<Longrightarrow> alarm_reach (remove1 p xs) (alarm_destroy ctx (Some p))"

lemma alarm_reach_wf: "alarm_reach xs ctx \<Longrightarrow> alarm_wf xs ctx"
  by (induction rule: alarm_reach.induct)
     (auto intro: alarm_wf_init alarm_wf_new alarm_wf_set alarm_wf_unset alarm_wf_destroy)

section \<open>Properties\<close>

text \<open>
  C2. In every context the program can build with at most 256 alarms, any sequence of
  \<open>alarm_set\<close> and \<open>alarm_unset\<close> calls acts on the pending alarms exactly as the same
  sequence of updates acts on a map from alarms to clocks, and the cached clock of the
  next pending alarm is the least clock of that map (\<open>CLOCK_MAX\<close> when it is empty).
\<close>

theorem alarm_requests_refine_map:
  assumes "alarm_reach xs ctx" "length xs \<le> max_pending_alarms"
    and "\<forall>r\<in>set rs. request_alarm r \<in> set xs"
  shows "(\<forall>q\<in>set xs. deadline (run_requests alarm_set alarm_unset ctx rs) q
           = spec_requests (deadline ctx) rs q)
    \<and> next_pending_alarm_clk (run_requests alarm_set alarm_unset ctx rs)
           = Min (insert CLOCK_MAX {c. \<exists>q\<in>set xs. spec_requests (deadline ctx) rs q = Some c})"
proof
  note wf = alarm_reach_wf [OF assms(1)]
  have "card (set xs) \<le> max_pending_alarms" using assms(2) card_length order_trans by blast
  then show eq: "\<forall>q\<in>set xs. deadline (run_requests alarm_set alarm_unset ctx rs) q
           = spec_requests (deadline ctx) rs q"
    using contexts.run_refines [OF wf] assms(3) by blast
  have "{c. \<exists>q\<in>set xs. spec_requests (deadline ctx) rs q = Some c}
     = {c. \<exists>q\<in>set xs. deadline (run_requests alarm_set alarm_unset ctx rs) q = Some c}"
    using eq by auto
  then show "next_pending_alarm_clk (run_requests alarm_set alarm_unset ctx rs)
           = Min (insert CLOCK_MAX {c. \<exists>q\<in>set xs. spec_requests (deadline ctx) rs q = Some c})"
    using contexts.next_is_Min contexts.ok_run [OF wf] assms(3) by simp
qed

definition demo_context :: alarm_context where
  "demo_context = snd (alarm_new 2 (snd (alarm_new 1
     (alarm_context_init \<lparr>ctx_name = [], alarms = None,
        pending_alarms = (\<lambda>_. \<lparr>pa_alarm = 0, pa_clk = 0\<rparr>), num_pending_alarms = 7,
        next_pending_alarm_clk = 0, next_pending_alarm_idx = 0,
        alarm_store = (\<lambda>_. \<lparr>alarm_name = [], alarm_callback = 0, pending_idx = 0,
          alarm_data = 0, alarm_next = None, alarm_prev = None\<rparr>)\<rparr> ''ctx'')
     ''a'' 11 21)) ''b'' 12 22)"

lemma demo_context_reach: "alarm_reach [2, 1] demo_context"
  unfolding demo_context_def by (intro alarm_reach.intros) simp_all

theorem alarm_requests_refine_map_witness:
  "deadline (run_requests alarm_set alarm_unset demo_context
      [SetAlarm 1 50, SetAlarm 2 30, SetAlarm 1 20, UnsetAlarm 2]) 1 = Some 20"
  using alarm_requests_refine_map [OF demo_context_reach,
      of "[SetAlarm 1 50, SetAlarm 2 30, SetAlarm 1 20, UnsetAlarm 2]"]
  by (simp add: run_requests_def map_set_def map_unset_def max_pending_alarms_def)

text \<open>
  C19. When an alarm is due (the cached clock is not \<open>CLOCK_MAX\<close>),
  \<open>alarm_context_dispatch\<close> calls the callback of a pending alarm with the least deadline,
  with that alarm's own data and with the number of cycles it is late.
\<close>

theorem dispatch_calls_earliest:
  assumes "alarm_reach xs ctx" "next_pending_alarm_clk ctx \<noteq> CLOCK_MAX"
  shows "\<exists>p\<in>set xs. \<exists>c. deadline ctx p = Some c
     \<and> (\<forall>q\<in>set xs. \<forall>d. deadline ctx q = Some d \<longrightarrow> c \<le> d)
     \<and> alarm_context_dispatch call ctx cpu_clk
         = Some (call (alarm_callback (alarm_store ctx p)) (cpu_clk - c)
                   (alarm_data (alarm_store ctx p)) ctx)"
proof -
  have wf: "slots_ok (set xs) ctx" "next_ok ctx"
    using alarm_reach_wf [OF assms(1)] by (simp_all add: alarm_wf_def)
  obtain p where p: "p \<in> set xs" "deadline ctx p = Some (next_pending_alarm_clk ctx)"
    "0 \<le> next_pending_alarm_idx ctx" "nat (next_pending_alarm_idx ctx) < num_pending_alarms ctx"
    "p = pa_alarm (pending_alarms ctx (nat (next_pending_alarm_idx ctx)))"
    using next_clk_attained [OF wf assms(2)] by blast
  moreover have "num_pending_alarms ctx \<le> max_pending_alarms" using wf by (simp add: slots_ok_def)
  ultimately show ?thesis
    using next_clk_lower [OF wf]
    by (intro bexI [of _ p]) (auto simp: alarm_context_dispatch_def Let_def)
qed

theorem dispatch_calls_earliest_witness:
  "alarm_context_dispatch (\<lambda>f off d s. (f, off, d)) (alarm_set (alarm_set demo_context 1 50) 2 30) 35
     = Some (12, 5, 22)"
proof -
  let ?c = "alarm_set (alarm_set demo_context 1 50) 2 30"
  have r: "alarm_reach [2, 1] ?c"
    by (intro alarm_reach.intros demo_context_reach) simp_all
  have m: "next_pending_alarm_clk ?c \<noteq> CLOCK_MAX" by code_simp
  have d: "deadline ?c 1 = Some 50" "deadline ?c 2 = Some 30"
     "alarm_callback (alarm_store ?c 2) = 12" "alarm_data (alarm_store ?c 2) = 22" by code_simp+
  show ?thesis
    using dispatch_calls_earliest [OF r m, of "\<lambda>f off d s. (f, off, d)" 35] d by auto
qed

text \<open>
  \<open>alarm_context_destroy\<close> terminates on every reachable context, unlinking and
  unsetting every alarm: with more fuel than alarms it returns a context with an empty
  list and nothing pending.
\<close>

theorem context_destroy_frees_all:
  assumes "alarm_reach xs ctx" "length xs < fuel"
  shows "\<exists>ctx'. alarm_context_destroy fuel ctx = Some ctx' \<and> alarms ctx' = None
     \<and> num_pending_alarms ctx' = 0"
proof -
  obtain ctx' where "alarm_context_destroy fuel ctx = Some ctx'" "alarm_wf [] ctx'"
    using alarm_destroy_loop_total [OF alarm_reach_wf [OF assms(1)] refl assms(2)]
    by (auto simp: alarm_context_destroy_def)
  then show ?thesis by (auto simp: alarm_wf_def slots_ok_def)
qed

theorem context_destroy_frees_all_witness:
  "\<exists>ctx'. alarm_context_destroy 3 (alarm_set demo_context 1 50) = Some ctx'
     \<and> alarms ctx' = None \<and> num_pending_alarms ctx' = 0"
  by (rule context_destroy_frees_all [OF reach_set [OF demo_context_reach]]) simp_all

text \<open>
  Warping the clock of a context in which nothing is pending moves the cached clock
  away from \<open>CLOCK_MAX\<close>: an empty context warped forward by \<open>w > 0\<close> cycles claims an
  alarm at clock \<open>w - 1\<close>.
\<close>

theorem time_warp_empty_context:
  assumes "next_pending_alarm_clk ctx = CLOCK_MAX" "num_pending_alarms ctx = 0" "w > 0"
  shows "next_pending_alarm_clk (alarm_context_time_warp ctx w 1) = w - 1
     \<and> \<not> next_ok (alarm_context_time_warp ctx w 1)"
proof
  show eq: "next_pending_alarm_clk (alarm_context_time_warp ctx w 1) = w - 1"
    using assms by (simp add: alarm_context_time_warp_def Let_def CLOCK_MAX_def)
  have "w - 1 \<noteq> CLOCK_MAX" using assms(3) by (auto simp: CLOCK_MAX_def)
  moreover have "num_pending_alarms (alarm_context_time_warp ctx w 1) = 0"
    using assms by (simp add: alarm_context_time_warp_def Let_def)
  ultimately show "\<not> next_ok (alarm_context_time_warp ctx w 1)"
    unfolding next_ok_def eq by simp
qed

theorem time_warp_empty_context_witness:
  "next_pending_alarm_clk (alarm_context_time_warp demo_context 100 1) = 99"
proof -
  have "next_pending_alarm_clk demo_context = CLOCK_MAX" "num_pending_alarms demo_context = 0"
    by code_simp+
  then show ?thesis using time_warp_empty_context [of demo_context 100] by simp
qed

end
