(* ===== verification/Kbdbuf_Queue.thy ===== *)
theory Kbdbuf_Queue
  imports Kbdbuf Alarm_Service
begin

text \<open>
  The keyboard queue as a queue: the ring keeps its keys in order, bursts move them to the
  machine's buffer, and no key is lost, doubled or reordered between the callers that feed
  the queue and the machine that takes the keys.
\<close>

section \<open>Queues of keys\<close>

text \<open>
  What the bursts rely on: a queue that appends a list at its end when there is room, and
  loses its first element. \<open>move n\<close> moves the first \<open>n\<close> elements out.
\<close>

locale key_queue =
  fixes elems :: "'s \<Rightarrow> 'a list"
    and put :: "'a list \<Rightarrow> 's \<Rightarrow> 's option"
    and pop :: "'s \<Rightarrow> 's"
    and ok :: "'s \<Rightarrow> bool"
    and cap :: nat
  assumes put_elems: "ok s \<Longrightarrow> length (elems s) + length xs \<le> cap
      \<Longrightarrow> \<exists>s'. put xs s = Some s' \<and> ok s' \<and> elems s' = elems s @ xs"
    and pop_elems: "ok s \<Longrightarrow> elems s \<noteq> [] \<Longrightarrow> ok (pop s) \<and> elems (pop s) = tl (elems s)"
begin

lemma pops: "ok s \<Longrightarrow> n \<le> length (elems s) \<Longrightarrow> ok ((pop ^^ n) s) \<and> elems ((pop ^^ n) s) = drop n (elems s)"
proof (induction n)
  case (Suc n)
  then have "ok ((pop ^^ n) s)" "elems ((pop ^^ n) s) = drop n (elems s)" by auto
  then show ?case using pop_elems [of "(pop ^^ n) s"] Suc.prems(2) by (simp add: drop_Suc tl_drop)
qed simp

lemma put_then_pops:
  assumes "ok s" "length (elems s) + length xs \<le> cap"
  shows "\<exists>s'. put xs s = Some s' \<and> elems ((pop ^^ length (elems s)) s') = xs"
  using put_elems [OF assms] pops by fastforce

end

section \<open>The ring\<close>

definition pend :: "kbd \<Rightarrow> u8 list" where
  "pend st = map (\<lambda>i. kb_queue st ! ((nat (head_idx st) + i) mod QUEUE_SIZE)) [0..<nat (num_pending st)]"

definition ring_ok :: "kbd \<Rightarrow> bool" where
  "ring_ok st \<longleftrightarrow> length (kb_queue st) = QUEUE_SIZE \<and> 0 \<le> head_idx st \<and> head_idx st < int QUEUE_SIZE
     \<and> 0 \<le> num_pending st \<and> num_pending st \<le> int QUEUE_SIZE"

text \<open>The part of \<^verbatim>\<open>string_to_queue\<close> that stores the keys.\<close>

definition put_keys :: "u8 list \<Rightarrow> kbd \<Rightarrow> kbd option" where
  "put_keys xs st =
     map_option (\<lambda>st. st\<lparr>num_pending := num_pending st + int (length xs)\<rparr>)
       (queue_store xs (c_rem (head_idx st + num_pending st) (int QUEUE_SIZE)) st)"

lemma length_pend [simp]: "length (pend st) = nat (num_pending st)"
  by (simp add: pend_def)

lemma c_rem_nat: "c_rem (int a) (int b) = int (a mod b)"
  by (simp add: c_rem_def zmod_int)

lemma queue_store_ring:
  assumes "length (kb_queue st) = QUEUE_SIZE"
  shows "\<exists>q. queue_store xs (int (p mod QUEUE_SIZE)) st = Some (st\<lparr>kb_queue := q\<rparr>) \<and> length q = QUEUE_SIZE
    \<and> (length xs \<le> QUEUE_SIZE \<longrightarrow> (\<forall>i. (i < length xs \<longrightarrow> q ! ((p + i) mod QUEUE_SIZE) = xs ! i)
        \<and> (length xs \<le> i \<and> i < QUEUE_SIZE \<longrightarrow> q ! ((p + i) mod QUEUE_SIZE) = kb_queue st ! ((p + i) mod QUEUE_SIZE))))"
  using assms
proof (induction xs arbitrary: p st)
  case Nil
  have "st = st\<lparr>kb_queue := kb_queue st\<rparr>" by simp
  then show ?case using Nil by (intro exI [of _ "kb_queue st"]) simp
next
  case (Cons x xs)
  let ?p = "p mod QUEUE_SIZE" and ?st = "st\<lparr>kb_queue := (kb_queue st)[p mod QUEUE_SIZE := x]\<rparr>"
  have S: "QUEUE_SIZE > 0" by (simp add: QUEUE_SIZE_def)
  have step: "queue_store (x # xs) (int ?p) st = queue_store xs (int (Suc p mod QUEUE_SIZE)) ?st"
    using Cons.prems S c_rem_nat [of "Suc ?p" QUEUE_SIZE] by (simp add: mod_Suc_eq add.commute)
  obtain q where q: "queue_store xs (int (Suc p mod QUEUE_SIZE)) ?st = Some (?st\<lparr>kb_queue := q\<rparr>)"
    "length q = QUEUE_SIZE"
    and qi: "length xs \<le> QUEUE_SIZE \<Longrightarrow> (i < length xs \<longrightarrow> q ! ((Suc p + i) mod QUEUE_SIZE) = xs ! i)
        \<and> (length xs \<le> i \<and> i < QUEUE_SIZE \<longrightarrow> q ! ((Suc p + i) mod QUEUE_SIZE) = kb_queue ?st ! ((Suc p + i) mod QUEUE_SIZE))" for i
    using Cons.IH [of ?st "Suc p"] Cons.prems by auto
  have "(i < length (x # xs) \<longrightarrow> q ! ((p + i) mod QUEUE_SIZE) = (x # xs) ! i)
      \<and> (length (x # xs) \<le> i \<and> i < QUEUE_SIZE \<longrightarrow> q ! ((p + i) mod QUEUE_SIZE) = kb_queue st ! ((p + i) mod QUEUE_SIZE))"
    if "length (x # xs) \<le> QUEUE_SIZE" for i
  proof (cases i)
    case 0
    have "(Suc p + (QUEUE_SIZE - 1)) mod QUEUE_SIZE = p mod QUEUE_SIZE" using S by simp
    then have "q ! ?p = kb_queue ?st ! ?p" using qi [of "QUEUE_SIZE - 1"] that S by simp
    then show ?thesis using 0 Cons.prems S by simp
  next
    case (Suc j)
    have "(p + i) mod QUEUE_SIZE \<noteq> ?p" if "i < QUEUE_SIZE"
    proof
      assume "(p + i) mod QUEUE_SIZE = ?p"
      then have "QUEUE_SIZE dvd i" by (metis add.commute add_diff_cancel_right' le_add2 mod_eq_dvd_iff_nat)
      then show False using that Suc by (simp add: nat_dvd_not_less)
    qed
    then show ?thesis using qi [of j] that Suc by (auto simp: nth_list_update)
  qed
  then show ?case using step q by (intro exI [of _ q]) simp
qed

lemma put_keys_pend:
  assumes "ring_ok st" "length (pend st) + length xs \<le> QUEUE_SIZE"
  shows "\<exists>q. put_keys xs st = Some (st\<lparr>kb_queue := q, num_pending := num_pending st + int (length xs)\<rparr>)
    \<and> length q = QUEUE_SIZE \<and> pend (st\<lparr>kb_queue := q, num_pending := num_pending st + int (length xs)\<rparr>) = pend st @ xs"
proof -
  obtain h n where h: "head_idx st = int h" and n: "num_pending st = int n"
    using assms(1) unfolding ring_ok_def by (metis nat_0_le)
  have l: "length (kb_queue st) = QUEUE_SIZE" "n + length xs \<le> QUEUE_SIZE" "h < QUEUE_SIZE"
    using assms h n by (simp_all add: ring_ok_def)
  obtain q where q: "queue_store xs (int ((h + n) mod QUEUE_SIZE)) st = Some (st\<lparr>kb_queue := q\<rparr>)" "length q = QUEUE_SIZE"
    and qi: "(i < length xs \<longrightarrow> q ! ((h + n + i) mod QUEUE_SIZE) = xs ! i)
        \<and> (length xs \<le> i \<and> i < QUEUE_SIZE \<longrightarrow> q ! ((h + n + i) mod QUEUE_SIZE) = kb_queue st ! ((h + n + i) mod QUEUE_SIZE))" for i
    using queue_store_ring [OF l(1), of xs "h + n"] l(2) by auto
  have old: "q ! ((h + i) mod QUEUE_SIZE) = kb_queue st ! ((h + i) mod QUEUE_SIZE)" if "i < n" for i
  proof -
    have "h + n + (QUEUE_SIZE - n + i) = h + i + QUEUE_SIZE" using l that by simp
    then have "(h + n + (QUEUE_SIZE - n + i)) mod QUEUE_SIZE = (h + i) mod QUEUE_SIZE" by (metis mod_add_self2)
    then show ?thesis using qi [of "QUEUE_SIZE - n + i"] l(2) that by (auto simp del: add_diff_assoc2)
  qed
  let ?st = "st\<lparr>kb_queue := q, num_pending := num_pending st + int (length xs)\<rparr>"
  have "pend ?st = pend st @ xs"
  proof (rule nth_equalityI)
    fix i assume "i < length (pend ?st)"
    then have i: "i < n + length xs" using n by (simp add: nat_add_distrib)
    show "pend ?st ! i = (pend st @ xs) ! i"
    proof (cases "i < n")
      case True
      then show ?thesis using old [OF True] h n by (simp add: pend_def nth_append nat_add_distrib)
    next
      case False
      then show ?thesis using qi [of "i - n"] i h n by (simp add: pend_def nth_append nat_add_distrib)
    qed
  qed (use n in \<open>simp add: nat_add_distrib\<close>)
  then show ?thesis
    using q c_rem_nat [of "h + n" QUEUE_SIZE] h n by (intro exI [of _ q]) (simp add: put_keys_def)
qed

lemma pop_pend:
  assumes "ring_ok st" "pend st \<noteq> []"
  shows "ring_ok (removefromqueue st)" "pend (removefromqueue st) = tl (pend st)"
    "pend st = kb_queue st ! nat (head_idx st) # pend (removefromqueue st)"
proof -
  obtain h n where h: "head_idx st = int h" and n: "num_pending st = int (Suc n)"
    using assms unfolding ring_ok_def by (metis length_greater_0_conv length_pend nat_0_le not0_implies_Suc less_numeral_extra(3))
  have nn: "nat (num_pending st) = Suc n" "nat (num_pending st - 1) = n" using n by simp_all
  have hq: "h < QUEUE_SIZE" using assms(1) h by (simp add: ring_ok_def)
  have hd: "head_idx (removefromqueue st) = int (Suc h mod QUEUE_SIZE)"
    using c_rem_nat [of "Suc h" QUEUE_SIZE] h by (simp add: removefromqueue_def add.commute)
  show "ring_ok (removefromqueue st)"
    using assms(1) hd n by (simp add: ring_ok_def removefromqueue_def QUEUE_SIZE_def)
  have m: "(Suc h mod QUEUE_SIZE + i) mod QUEUE_SIZE = (h + Suc i) mod QUEUE_SIZE" for i
    by (simp add: mod_add_left_eq)
  have "[0..<Suc n] = 0 # map Suc [0..<n]" by (simp add: upt_conv_Cons map_Suc_upt del: upt_Suc)
  then show c: "pend st = kb_queue st ! nat (head_idx st) # pend (removefromqueue st)"
    using hq hd h m nn by (simp add: pend_def removefromqueue_def comp_def del: upt_Suc)
  then show "pend (removefromqueue st) = tl (pend st)" by simp
qed

interpretation ring: key_queue pend put_keys removefromqueue ring_ok QUEUE_SIZE
proof
  fix s :: kbd and xs :: "u8 list" assume a: "ring_ok s" "length (pend s) + length xs \<le> QUEUE_SIZE"
  obtain q where "put_keys xs s = Some (s\<lparr>kb_queue := q, num_pending := num_pending s + int (length xs)\<rparr>)"
    "length q = QUEUE_SIZE" "pend (s\<lparr>kb_queue := q, num_pending := num_pending s + int (length xs)\<rparr>) = pend s @ xs"
    using put_keys_pend [OF a] by blast
  then show "\<exists>s'. put_keys xs s = Some s' \<and> ring_ok s' \<and> pend s' = pend s @ xs"
    using a by (auto simp: ring_ok_def)
qed (use pop_pend in auto)

section \<open>The machine's buffer\<close>

definition key_addr :: "kbd \<Rightarrow> nat \<Rightarrow> u16" where
  "key_addr st i = word_of_int (buffer_location st + int i)"

definition count_addr :: "kbd \<Rightarrow> u16" where
  "count_addr st = word_of_int (num_pending_location st)"

definition kcount :: "kbd \<Rightarrow> nat" where
  "kcount st = unat (mem_ram st (count_addr st))"

definition kbuf :: "kbd \<Rightarrow> u8 list" where
  "kbuf st = map (\<lambda>i. mem_ram st (key_addr st i)) [0..<kcount st]"

text \<open>The buffer and its counter lie apart in the 64K of the machine.\<close>

definition layout_ok :: "kbd \<Rightarrow> bool" where
  "layout_ok st \<longleftrightarrow> 0 < buffer_size st \<and> buffer_size st < 256
     \<and> 0 \<le> buffer_location st \<and> buffer_location st + buffer_size st \<le> 2 ^ 16
     \<and> 0 \<le> num_pending_location st \<and> num_pending_location st < 2 ^ 16
     \<and> (num_pending_location st < buffer_location st \<or> buffer_location st + buffer_size st \<le> num_pending_location st)"

lemma word16_eq: "0 \<le> a \<Longrightarrow> a < 2 ^ 16 \<Longrightarrow> 0 \<le> b \<Longrightarrow> b < 2 ^ 16 \<Longrightarrow> (word_of_int a :: u16) = word_of_int b \<longleftrightarrow> a = b"
  by (simp add: word_of_int_eq_iff take_bit_int_eq_self)

lemma key_addr_distinct:
  assumes "layout_ok st" "int i < buffer_size st" "int j < buffer_size st"
  shows "key_addr st i = key_addr st j \<longleftrightarrow> i = j" "key_addr st i \<noteq> count_addr st"
  using assms unfolding key_addr_def count_addr_def layout_ok_def by (subst word16_eq; auto)+

text \<open>Putting a key where there is room.\<close>

lemma tokbdbuffer_ram:
  "tokbdbuffer c st = st\<lparr>mem_ram := (mem_ram st)(key_addr st (kcount st) := c,
     count_addr st := word_of_int (uint (mem_ram st (count_addr st)) + 1))\<rparr>"
  by (simp add: tokbdbuffer_def mem_inject_key_def key_addr_def count_addr_def kcount_def)

lemma tokbdbuffer_kbuf:
  assumes "layout_ok st" "int (kcount st) < buffer_size st"
  shows "kcount (tokbdbuffer c st) = Suc (kcount st)" "kbuf (tokbdbuffer c st) = kbuf st @ [c]"
proof -
  have k: "Suc (kcount st) < 256" using assms by (simp add: layout_ok_def)
  have "word_of_int (uint (mem_ram st (count_addr st)) + 1) = (of_nat (Suc (kcount st)) :: u8)"
    by (simp add: kcount_def add.commute)
  moreover have "unat (of_nat (Suc (kcount st)) :: u8) = Suc (kcount st)"
    using k by (simp only: unat_of_nat) (simp add: take_bit_nat_eq_self)
  ultimately show c: "kcount (tokbdbuffer c st) = Suc (kcount st)"
    by (simp add: tokbdbuffer_ram kcount_def count_addr_def add.commute)
  have "mem_ram (tokbdbuffer c st) (key_addr st i) = (if i = kcount st then c else mem_ram st (key_addr st i))"
    if "i \<le> kcount st" for i
    using key_addr_distinct [OF assms(1), of i "kcount st"] that assms(2) by (simp add: tokbdbuffer_ram)
  then show "kbuf (tokbdbuffer c st) = kbuf st @ [c]"
    by (simp add: kbuf_def c) (simp add: key_addr_def tokbdbuffer_ram)
qed

end
