(* ===== verification/Kbdbuf_Flow.thy ===== *)
theory Kbdbuf_Flow
  imports Kbdbuf_Queue
begin

text \<open>
  The flow of keys from the callers that feed the queue to the machine: what a burst and the
  flush alarm move, the invariant of the queue together with its alarm, and runs in which
  callers, flushes, alarms and the machine take turns, with resets in between or without.
\<close>

section \<open>The invariant\<close>

text \<open>The clock is far enough from its end that the time of the alarm does not wrap.\<close>

definition clock_ok :: "kbd \<Rightarrow> bool" where
  "clock_ok st \<longleftrightarrow> 0 < cycles_per_frame st \<and> unat (maincpu_clk st) + unat (cycles_per_frame st) + 2 ^ 32 \<le> 2 ^ 64"

text \<open>
  The flush alarm is set exactly while \<open>kbdbuf_flush_alarm_time\<close> is not 0, and then the next
  key is a RETURN for which the machine has room. \<open>xs\<close> are the alarms of the context.
\<close>

definition alarm_ok :: "nat list \<Rightarrow> kbd \<Rightarrow> bool" where
  "alarm_ok xs st \<longleftrightarrow> alarm_wf xs (maincpu_alarm_context st) \<and> kbdbuf_flush_alarm st \<in> set xs \<and> length xs \<le> max_pending_alarms
     \<and> deadline (maincpu_alarm_context st) (kbdbuf_flush_alarm st)
         = (if kbdbuf_flush_alarm_time st = 0 then None else Some (kbdbuf_flush_alarm_time st))
     \<and> (kbdbuf_flush_alarm_time st \<noteq> 0 \<longrightarrow> pend st \<noteq> [] \<and> hd (pend st) = 13 \<and> int (kcount st) < buffer_size st)"

definition kb_inv :: "nat list \<Rightarrow> kbd \<Rightarrow> bool" where
  "kb_inv xs st \<longleftrightarrow> ring_ok st \<and> layout_ok st \<and> int (kcount st) \<le> buffer_size st \<and> \<not> prevent_recursion st
     \<and> alarm_ok xs st \<and> clock_ok st"

lemma flush_time_not_zero:
  assumes "clock_ok st"
  shows "maincpu_clk st + cycles_per_frame st + ucast (v :: u32) \<noteq> 0"
proof -
  have v: "unat v < 2 ^ 32" using unsigned_less [of v] by simp
  have c: "0 < unat (cycles_per_frame st)" "unat (maincpu_clk st) + unat (cycles_per_frame st) + unat v < 2 ^ 64"
    using assms v by (simp_all add: clock_ok_def word_less_nat_alt)
  then have "unat (maincpu_clk st + cycles_per_frame st + ucast v) = unat (maincpu_clk st) + unat (cycles_per_frame st) + unat v"
    using v by (simp add: unat_word_ariths unsigned_ucast_eq take_bit_nat_eq_self)
  then show ?thesis using c by auto
qed

section \<open>Bursts\<close>

text \<open>One key moves from the queue to the machine.\<close>

definition move :: "u8 \<Rightarrow> kbd \<Rightarrow> kbd" where
  "move c st = removefromqueue (tokbdbuffer c st)"

lemma pend_ram [simp]: "pend (st\<lparr>mem_ram := r\<rparr>) = pend st"
  by (simp add: pend_def)

lemma ring_ok_ram [simp]: "ring_ok (st\<lparr>mem_ram := r\<rparr>) = ring_ok st"
  by (simp add: ring_ok_def)

lemma kbuf_remove [simp]: "kbuf (removefromqueue st) = kbuf st" "kcount (removefromqueue st) = kcount st"
  by (simp_all add: kbuf_def kcount_def key_addr_def count_addr_def removefromqueue_def)

lemma layout_remove [simp]: "layout_ok (removefromqueue st) = layout_ok st"
  by (simp add: layout_ok_def removefromqueue_def)

lemma move_key:
  assumes "ring_ok st" "layout_ok st" "int (kcount st) < buffer_size st" "pend st = c # cs"
  shows "ring_ok (move c st)" "layout_ok (move c st)" "kcount (move c st) = Suc (kcount st)"
    "kbuf (move c st) @ pend (move c st) = kbuf st @ pend st" "pend (move c st) = cs"
proof -
  have p: "pend (tokbdbuffer c st) = c # cs" "ring_ok (tokbdbuffer c st)"
    using assms by (simp_all add: tokbdbuffer_ram)
  then show r: "ring_ok (move c st)" "pend (move c st) = cs"
    using pop_pend(1,2) [of "tokbdbuffer c st"] by (simp_all add: move_def)
  show "kcount (move c st) = Suc (kcount st)" "kbuf (move c st) @ pend (move c st) = kbuf st @ pend st"
    using tokbdbuffer_kbuf [OF assms(2,3)] r assms(4) by (simp_all add: move_def)
  show "layout_ok (move c st)" using assms(2) by (simp add: move_def) (simp add: layout_ok_def tokbdbuffer_ram)
qed

lemma move_frame:
  "kbd_buf_enabled (move c st) = kbd_buf_enabled st" "prevent_recursion (move c st) = prevent_recursion st"
  "maincpu_alarm_context (move c st) = maincpu_alarm_context st" "kbdbuf_flush_alarm (move c st) = kbdbuf_flush_alarm st"
  "kbdbuf_flush_alarm_time (move c st) = kbdbuf_flush_alarm_time st" "buffer_size (move c st) = buffer_size st"
  "maincpu_clk (move c st) = maincpu_clk st" "cycles_per_frame (move c st) = cycles_per_frame st"
  "rand_uint32 (move c st) = rand_uint32 st" "use_kbdbuf_flush_alarm (move c st) = use_kbdbuf_flush_alarm st"
  "num_pending (move c st) = num_pending st - 1" "kernal_init_cycles (move c st) = kernal_init_cycles st"
  by (simp_all add: move_def removefromqueue_def tokbdbuffer_ram)

lemma queue_get_head:
  assumes "ring_ok st" "pend st \<noteq> []"
  shows "queue_get st (head_idx st) = Some (hd (pend st))"
proof -
  have "pend st = kb_queue st ! nat (head_idx st) # pend (removefromqueue st)"
    using pop_pend(3) [OF assms] .
  then have "hd (pend st) = kb_queue st ! nat (head_idx st)" by (metis list.sel(1))
  then show ?thesis using assms(1) by (simp add: queue_get_def ring_ok_def)
qed

text \<open>The state inside a burst: the alarm is not set.\<close>

definition burst_ok :: "nat list \<Rightarrow> kbd \<Rightarrow> bool" where
  "burst_ok xs st \<longleftrightarrow> ring_ok st \<and> layout_ok st \<and> alarm_ok xs st \<and> kbdbuf_flush_alarm_time st = 0 \<and> clock_ok st"

lemma burst_ok_move:
  assumes "burst_ok xs st" "int (kcount st) < buffer_size st" "pend st = c # cs"
  shows "burst_ok xs (move c st)"
  using assms move_key [of st c cs] by (simp add: burst_ok_def alarm_ok_def clock_ok_def move_frame)

lemma return_sets_alarm:
  assumes "burst_ok xs st" "int (kcount st) < buffer_size st" "pend st = 13 # cs" "t \<noteq> 0"
  shows "alarm_ok xs (st\<lparr>kbdbuf_flush_alarm_time := t,
    maincpu_alarm_context := alarm_set (maincpu_alarm_context st) (kbdbuf_flush_alarm st) t\<rparr>)" (is "alarm_ok xs ?st")
proof -
  let ?c = "maincpu_alarm_context st" and ?a = "kbdbuf_flush_alarm st"
  have wf: "alarm_wf xs ?c" "?a \<in> set xs" "card (set xs) \<le> max_pending_alarms" "deadline ?c ?a = None"
    using assms(1) card_length [of xs] by (auto simp: burst_ok_def alarm_ok_def simp del: deadline_None_iff)
  have "num_pending_alarms ?c < max_pending_alarms"
    using contexts.room_few [OF wf(1,2,4,3)] .
  then have "deadline (alarm_set ?c ?a t) ?a = Some t" "alarm_wf xs (alarm_set ?c ?a t)"
    using contexts.due_set [OF wf(1,2,2)] contexts.ok_set [OF wf(1,2)] by simp_all
  moreover have "pend ?st = pend st" "kcount ?st = kcount st"
    by (simp_all add: pend_def kcount_def count_addr_def)
  ultimately show ?thesis using assms wf by (simp add: alarm_ok_def burst_ok_def)
qed

lemma flush_loop_moves:
  assumes "burst_ok xs st" "int n \<le> num_pending st" "int (kcount st + n) \<le> buffer_size st"
  shows "\<exists>early st'. flush_loop n st = Some (early, st') \<and> ring_ok st' \<and> layout_ok st' \<and> alarm_ok xs st'
    \<and> int (kcount st') \<le> buffer_size st' \<and> kbuf st' @ pend st' = kbuf st @ pend st
    \<and> (\<not> early \<longrightarrow> kcount st' = kcount st + n)
    \<and> (early \<longrightarrow> use_kbdbuf_flush_alarm st) \<and> kbd_buf_enabled st' = kbd_buf_enabled st
    \<and> cycles_per_frame st' = cycles_per_frame st \<and> maincpu_clk st' = maincpu_clk st"
  using assms
proof (induction n arbitrary: st)
  case 0
  then show ?case by (auto simp: burst_ok_def)
next
  case (Suc n)
  have r: "ring_ok st" "layout_ok st" using Suc.prems(1) by (simp_all add: burst_ok_def)
  obtain c cs where p: "pend st = c # cs"
    using Suc.prems(2) length_pend [of st] by (cases "pend st") auto
  have g: "queue_get st (head_idx st) = Some c" using queue_get_head [OF r(1)] p by simp
  have k: "int (kcount st) < buffer_size st" using Suc.prems(3) by simp
  show ?case
  proof (cases "c = 13 \<and> use_kbdbuf_flush_alarm st")
    case True
    define t where "t = maincpu_clk st + cycles_per_frame st
      + ucast (lib_unsigned_rand (rand_uint32 st) 1 (ucast (cycles_per_frame st)))"
    let ?st = "st\<lparr>kbdbuf_flush_alarm_time := t,
      maincpu_alarm_context := alarm_set (maincpu_alarm_context st) (kbdbuf_flush_alarm st) t\<rparr>"
    have "t \<noteq> 0" unfolding t_def using Suc.prems(1) by (intro flush_time_not_zero) (simp add: burst_ok_def)
    then have "alarm_ok xs ?st" using return_sets_alarm [OF Suc.prems(1) k] p True by simp
    moreover have "flush_loop (Suc n) st = Some (True, ?st)"
      using g True by (simp add: t_def Let_def)
    moreover have "ring_ok ?st" "layout_ok ?st" "pend ?st = pend st" "kcount ?st = kcount st" "kbuf ?st = kbuf st"
      using r by (simp_all add: ring_ok_def layout_ok_def pend_def kcount_def count_addr_def kbuf_def key_addr_def)
    ultimately show ?thesis using k True by (intro exI [of _ True] exI [of _ ?st]) (simp del: flush_loop.simps)
  next
    case False
    have f: "flush_loop (Suc n) st = flush_loop n (move c st)" using g False by (auto simp: move_def)
    have b: "burst_ok xs (move c st)" by (rule burst_ok_move [OF Suc.prems(1) k p])
    note mk = move_key [OF r k p]
    have "int n \<le> num_pending (move c st)" "int (kcount (move c st) + n) \<le> buffer_size (move c st)"
      using Suc.prems(2,3) mk(3) by (simp_all add: move_frame)
    from Suc.IH [OF b this] show ?thesis
      unfolding f mk(4) by (auto simp: move_frame mk(3))
  qed
qed


lemma alarm_ok_cong:
  "pend st' = pend st \<Longrightarrow> mem_ram st' = mem_ram st \<Longrightarrow> num_pending_location st' = num_pending_location st
    \<Longrightarrow> buffer_size st' = buffer_size st \<Longrightarrow> maincpu_alarm_context st' = maincpu_alarm_context st
    \<Longrightarrow> kbdbuf_flush_alarm st' = kbdbuf_flush_alarm st \<Longrightarrow> kbdbuf_flush_alarm_time st' = kbdbuf_flush_alarm_time st
    \<Longrightarrow> alarm_ok xs st' = alarm_ok xs st"
  by (simp add: alarm_ok_def kcount_def count_addr_def)

lemmas flow_defs = ring_ok_def layout_ok_def clock_ok_def kcount_def count_addr_def kbuf_def key_addr_def

lemma flush_count_nat:
  assumes "ring_ok st" "layout_ok st"
  shows "int (flush_count st) = min (num_pending st) (buffer_size st)"
proof -
  let ?m = "min (num_pending st) (buffer_size st)"
  have m: "0 \<le> ?m" "?m < 2 ^ 32" using assms by (simp_all add: ring_ok_def layout_ok_def QUEUE_SIZE_def min_def)
  have "flush_count st = unat (word_of_int ?m :: u32)"
    by (simp add: flush_count_def min_def)
  moreover have "uint (word_of_int ?m :: u32) = ?m"
    using m by (simp only: uint_word_of_int) (simp add: take_bit_int_eq_self)
  ultimately show ?thesis by simp
qed

lemma early_sets_time:
  "flush_loop n st = Some (True, st') \<Longrightarrow> clock_ok st \<Longrightarrow> kbdbuf_flush_alarm_time st' \<noteq> 0"
proof (induction n arbitrary: st)
  case (Suc n)
  show ?case
  proof (cases "hd (pend st) = 13 \<and> use_kbdbuf_flush_alarm st \<and> queue_get st (head_idx st) = Some 13")
    case True
    then show ?thesis using Suc.prems flush_time_not_zero [of st] by (auto simp: Let_def)
  next
    case False
    then show ?thesis using Suc flush_time_not_zero [of st]
      by (fastforce simp: Let_def clock_ok_def removefromqueue_def tokbdbuffer_ram bind_eq_Some_conv split: if_splits)
  qed
qed simp

text \<open>When a flush has nothing to do.\<close>

definition flush_idle :: "kbd \<Rightarrow> bool" where
  "flush_idle st \<longleftrightarrow> \<not> kbd_buf_enabled st \<or> num_pending st = 0 \<or> \<not> kbdbuf_is_empty st
     \<or> maincpu_clk st < kernal_init_cycles st \<or> kbdbuf_flush_alarm_time st \<noteq> 0"

lemma flush_idle_same:
  assumes "\<not> prevent_recursion st" "flush_idle st"
  shows "kbdbuf_flush st = Some st"
proof -
  have "st\<lparr>prevent_recursion := False\<rparr> = st" using assms(1) by (cases st) simp
  then show ?thesis using assms by (simp add: kbdbuf_flush_def flush_idle_def kbdbuf_is_empty_def)
qed

lemma flush_moves:
  assumes inv: "kb_inv xs st"
  shows "\<exists>st'. kbdbuf_flush st = Some st' \<and> kb_inv xs st' \<and> kbuf st' @ pend st' = kbuf st @ pend st
    \<and> kbd_buf_enabled st' = kbd_buf_enabled st \<and> maincpu_clk st' = maincpu_clk st
    \<and> (\<not> flush_idle st \<longrightarrow> kbdbuf_flush_alarm_time st' = 0 \<longrightarrow> kcount st' > 0)"
proof (cases "flush_idle st")
  case True
  then show ?thesis using inv flush_idle_same [of st] by (simp add: kb_inv_def)
next
  case False
  let ?st = "st\<lparr>prevent_recursion := True\<rparr>"
  have rl: "ring_ok ?st" "layout_ok ?st" "kcount ?st = kcount st" "kbuf ?st = kbuf st" "pend ?st = pend st" "clock_ok ?st"
    using inv by (simp_all add: kb_inv_def flow_defs pend_def)
  have z: "kcount st = 0" using False by (simp add: flush_idle_def kbdbuf_is_empty_def kcount_def count_addr_def)
  have fc: "int (flush_count ?st) = min (num_pending st) (buffer_size st)"
    using flush_count_nat [OF rl(1,2)] by simp
  have "burst_ok xs ?st"
    using inv rl False alarm_ok_cong [of ?st st] by (simp add: burst_ok_def kb_inv_def flush_idle_def)
  moreover have "int (flush_count ?st) \<le> num_pending ?st" "int (kcount ?st + flush_count ?st) \<le> buffer_size ?st"
    using fc z rl(3) by simp_all
  ultimately obtain early st' where
    f: "flush_loop (flush_count ?st) ?st = Some (early, st')" and r: "ring_ok st'" "layout_ok st'" "alarm_ok xs st'"
      "int (kcount st') \<le> buffer_size st'" "kbuf st' @ pend st' = kbuf st @ pend st"
      "\<not> early \<longrightarrow> kcount st' = flush_count ?st" "kbd_buf_enabled st' = kbd_buf_enabled st"
      "cycles_per_frame st' = cycles_per_frame st" "maincpu_clk st' = maincpu_clk st"
    using flush_loop_moves [of xs ?st "flush_count ?st"] z rl(3,4,5) by auto
  have t: "early \<longrightarrow> kbdbuf_flush_alarm_time st' \<noteq> 0"
    using f rl(6) early_sets_time [of "flush_count ?st" ?st st'] by auto
  define st2 where "st2 = (if early then st'\<lparr>prevent_recursion := False\<rparr>
    else st'\<lparr>kbd_buf_cmdline := False, prevent_recursion := False\<rparr>)"
  have fl: "kbdbuf_flush st = Some st2"
    using inv False f by (simp add: kbdbuf_flush_def kb_inv_def flush_idle_def kbdbuf_is_empty_def st2_def)
  have same: "pend st2 = pend st'" "kbuf st2 = kbuf st'" "kcount st2 = kcount st'" "\<not> prevent_recursion st2"
    "kbdbuf_flush_alarm_time st2 = kbdbuf_flush_alarm_time st'" "kbd_buf_enabled st2 = kbd_buf_enabled st'"
    "maincpu_clk st2 = maincpu_clk st'" "alarm_ok xs st2 = alarm_ok xs st'"
    by (simp_all add: st2_def pend_def flow_defs alarm_ok_def)
  have "ring_ok st2" "layout_ok st2" "clock_ok st2" "int (kcount st2) \<le> buffer_size st2"
    using r rl(6) by (simp_all add: st2_def flow_defs)
  moreover have "flush_count ?st > 0"
    using fc False rl(1,2) by (simp add: flush_idle_def ring_ok_def layout_ok_def min_def split: if_splits)
  ultimately show ?thesis using fl same r t by (auto simp: kb_inv_def)
qed


section \<open>The alarm and the callers\<close>

lemma alarm_moves_return:
  assumes inv: "kb_inv xs st" and t: "kbdbuf_flush_alarm_time st \<noteq> 0"
  shows "kb_inv xs (kbdbuf_flush_alarm_triggered st)"
    "kbuf (kbdbuf_flush_alarm_triggered st) @ pend (kbdbuf_flush_alarm_triggered st) = kbuf st @ pend st"
    "kbdbuf_flush_alarm_time (kbdbuf_flush_alarm_triggered st) = 0"
    "length (pend (kbdbuf_flush_alarm_triggered st)) < length (pend st)"
proof -
  let ?c = "maincpu_alarm_context st" and ?a = "kbdbuf_flush_alarm st"
  let ?st = "st\<lparr>maincpu_alarm_context := alarm_unset ?c ?a, kbdbuf_flush_alarm_time := 0\<rparr>"
  have a: "alarm_wf xs ?c" "?a \<in> set xs" "length xs \<le> max_pending_alarms" "int (kcount st) < buffer_size st"
    "pend st \<noteq> []" "hd (pend st) = 13"
    using inv t by (auto simp: kb_inv_def alarm_ok_def)
  have s: "ring_ok ?st" "layout_ok ?st" "kcount ?st = kcount st" "kbuf ?st = kbuf st" "pend ?st = pend st" "clock_ok ?st"
    using inv by (simp_all add: kb_inv_def flow_defs pend_def)
  obtain cs where p: "pend ?st = 13 # cs" using a(5,6) s(5) by (cases "pend st") auto
  have tr: "kbdbuf_flush_alarm_triggered st = move 13 ?st"
    by (simp add: kbdbuf_flush_alarm_triggered_def move_def)
  have d: "deadline (alarm_unset ?c ?a) ?a = None" "alarm_wf xs (alarm_unset ?c ?a)"
    using contexts.due_unset [OF a(1,2,2)] contexts.ok_unset [OF a(1,2)] by simp_all
  have k: "int (kcount ?st) < buffer_size ?st" using a(4) s(3) by simp
  note mk = move_key [OF s(1,2) k p]
  show "kb_inv xs (kbdbuf_flush_alarm_triggered st)"
    using inv a(2,3) d mk(1,2,3) s(3,6) k unfolding tr
    by (simp add: kb_inv_def alarm_ok_def move_frame clock_ok_def del: deadline_None_iff)
  show "kbuf (kbdbuf_flush_alarm_triggered st) @ pend (kbdbuf_flush_alarm_triggered st) = kbuf st @ pend st"
    using mk(4) s(4,5) tr by simp
  show "kbdbuf_flush_alarm_time (kbdbuf_flush_alarm_triggered st) = 0" by (simp add: tr move_frame)
  show "length (pend (kbdbuf_flush_alarm_triggered st)) < length (pend st)"
    using mk(5) p s(5) tr by (simp del: length_pend)
qed

lemma string_to_queue_put:
  "string_to_queue s st =
     (if num_pending st + int (length (c_str s)) > int QUEUE_SIZE \<or> \<not> kbd_buf_enabled st then Some (-1, st)
      else Option.bind (put_keys (c_str s) st) (\<lambda>st. map_option (Pair 0) (kbdbuf_flush st)))"
  by (cases "queue_store (c_str s) (c_rem (head_idx st + num_pending st) (int QUEUE_SIZE)) st")
     (auto simp: string_to_queue_def put_keys_def Let_def)

lemma string_to_queue_accepts:
  assumes inv: "kb_inv xs st"
  shows "\<exists>r st'. string_to_queue s st = Some (r, st') \<and> kb_inv xs st'
    \<and> kbuf st' @ pend st' = kbuf st @ pend st @ (if r = 0 then c_str s else [])
    \<and> (r = 0 \<longleftrightarrow> length (pend st) + length (c_str s) \<le> QUEUE_SIZE \<and> kbd_buf_enabled st)"
proof (cases "num_pending st + int (length (c_str s)) > int QUEUE_SIZE \<or> \<not> kbd_buf_enabled st")
  case True
  then show ?thesis using inv by (auto simp: string_to_queue_put kb_inv_def ring_ok_def)
next
  case False
  have ro: "ring_ok st" using inv by (simp add: kb_inv_def)
  have len: "length (pend st) + length (c_str s) \<le> QUEUE_SIZE"
    using False ro by (auto simp: ring_ok_def nat_le_iff le_nat_iff)
  obtain q where q: "put_keys (c_str s) st = Some (st\<lparr>kb_queue := q, num_pending := num_pending st + int (length (c_str s))\<rparr>)"
    "length q = QUEUE_SIZE" "pend (st\<lparr>kb_queue := q, num_pending := num_pending st + int (length (c_str s))\<rparr>) = pend st @ c_str s"
    using put_keys_pend [OF ro len] by blast
  let ?st = "st\<lparr>kb_queue := q, num_pending := num_pending st + int (length (c_str s))\<rparr>"
  have "kb_inv xs ?st"
    using inv q False by (auto simp: kb_inv_def flow_defs alarm_ok_def hd_append)
  moreover have "kbuf ?st = kbuf st" by (simp add: flow_defs)
  ultimately obtain st' where "kbdbuf_flush ?st = Some st'" "kb_inv xs st'" "kbuf st' @ pend st' = kbuf st @ pend st @ c_str s"
    using flush_moves [of xs ?st] q(3) by auto
  then show ?thesis using False q(1) len by (auto simp: string_to_queue_put)
qed

lemma feed_accepts:
  assumes "kb_inv xs st"
  shows "\<exists>r st'. kbdbuf_feed s st = Some (r, st') \<and> kb_inv xs st'
      \<and> kbuf st' @ pend st' = kbuf st @ pend st @ (if r = 0 then c_str s else [])"
    "\<exists>r st'. kbdbuf_feed_runcmd s st = Some (r, st') \<and> kb_inv xs st'
      \<and> kbuf st' @ pend st' = kbuf st @ pend st @ (if r = 0 then c_str s else [])"
proof -
  have same: "kb_inv xs (st\<lparr>use_kbdbuf_flush_alarm := b\<rparr>) = kb_inv xs st"
    "pend (st\<lparr>use_kbdbuf_flush_alarm := b\<rparr>) = pend st" "kbuf (st\<lparr>use_kbdbuf_flush_alarm := b\<rparr>) = kbuf st" for b
    by (simp_all add: kb_inv_def flow_defs alarm_ok_def pend_def)
  show "\<exists>r st'. kbdbuf_feed s st = Some (r, st') \<and> kb_inv xs st'
      \<and> kbuf st' @ pend st' = kbuf st @ pend st @ (if r = 0 then c_str s else [])"
    using string_to_queue_accepts [of xs "st\<lparr>use_kbdbuf_flush_alarm := False\<rparr>" s] assms
    unfolding kbdbuf_feed_def same by blast
  show "\<exists>r st'. kbdbuf_feed_runcmd s st = Some (r, st') \<and> kb_inv xs st'
      \<and> kbuf st' @ pend st' = kbuf st @ pend st @ (if r = 0 then c_str s else [])"
    using string_to_queue_accepts [of xs "st\<lparr>use_kbdbuf_flush_alarm := True\<rparr>" s] assms
    unfolding kbdbuf_feed_runcmd_def same by blast
qed

section \<open>Runs\<close>

text \<open>
  \<open>kb_run xs st fed got st'\<close>: the program goes from \<open>st\<close> to \<open>st'\<close>; the callers had the
  strings \<open>fed\<close> accepted and the machine took the keys \<open>got\<close>. The machine takes keys by
  changing its memory, the rest of the emulator moves the clock, draws random numbers and
  changes other alarms of the context; the alarm handler runs while its alarm is set.
\<close>

inductive kb_run :: "nat list \<Rightarrow> kbd \<Rightarrow> u8 list \<Rightarrow> u8 list \<Rightarrow> kbd \<Rightarrow> bool" for xs st where
  run_start: "kb_run xs st [] [] st"
| run_feed: "kb_run xs st fed got st1 \<Longrightarrow> kbdbuf_feed s st1 = Some (r, st2)
    \<Longrightarrow> kb_run xs st (if r = 0 then fed @ c_str s else fed) got st2"
| run_feed_runcmd: "kb_run xs st fed got st1 \<Longrightarrow> kbdbuf_feed_runcmd s st1 = Some (r, st2)
    \<Longrightarrow> kb_run xs st (if r = 0 then fed @ c_str s else fed) got st2"
| run_flush: "kb_run xs st fed got st1 \<Longrightarrow> kbdbuf_flush st1 = Some st2 \<Longrightarrow> kb_run xs st fed got st2"
| run_alarm: "kb_run xs st fed got st1 \<Longrightarrow> deadline (maincpu_alarm_context st1) (kbdbuf_flush_alarm st1) \<noteq> None
    \<Longrightarrow> kb_run xs st fed got (kbdbuf_flush_alarm_triggered st1)"
| run_take: "kb_run xs st fed got st1 \<Longrightarrow> kbuf st1 = ks @ kbuf (st1\<lparr>mem_ram := r\<rparr>)
    \<Longrightarrow> kb_run xs st fed (got @ ks) (st1\<lparr>mem_ram := r\<rparr>)"
| run_machine: "kb_run xs st fed got st1
    \<Longrightarrow> alarm_wf xs c \<Longrightarrow> deadline c (kbdbuf_flush_alarm st1) = deadline (maincpu_alarm_context st1) (kbdbuf_flush_alarm st1)
    \<Longrightarrow> clock_ok (st1\<lparr>maincpu_clk := k\<rparr>)
    \<Longrightarrow> kb_run xs st fed got (st1\<lparr>maincpu_alarm_context := c, maincpu_clk := k, rand_uint32 := v\<rparr>)"

lemma length_kbuf [simp]: "length (kbuf st) = kcount st"
  by (simp add: kbuf_def)

lemma kb_run_inv:
  "kb_run xs st fed got st' \<Longrightarrow> kb_inv xs st
    \<Longrightarrow> kb_inv xs st' \<and> got @ kbuf st' @ pend st' = kbuf st @ pend st @ fed"
proof (induction rule: kb_run.induct)
  case (run_feed fed got st1 s r st2)
  then show ?case using feed_accepts(1) [of xs st1 s] by auto
next
  case (run_feed_runcmd fed got st1 s r st2)
  then show ?case using feed_accepts(2) [of xs st1 s] by auto
next
  case (run_flush fed got st1 st2)
  then show ?case using flush_moves [of xs st1] by auto
next
  case (run_alarm fed got st1)
  then have "kbdbuf_flush_alarm_time st1 \<noteq> 0" "kb_inv xs st1"
    by (auto simp: kb_inv_def alarm_ok_def simp del: deadline_None_iff split: if_splits)
  then show ?case using alarm_moves_return [of xs st1] run_alarm by simp
next
  case (run_take fed got st1 ks r)
  then have i: "kb_inv xs st1" by simp
  have "kcount (st1\<lparr>mem_ram := r\<rparr>) \<le> kcount st1"
    using run_take.hyps(2) by (metis length_append length_kbuf le_add2)
  then have "kb_inv xs (st1\<lparr>mem_ram := r\<rparr>)"
    using i by (auto simp: kb_inv_def alarm_ok_def clock_ok_def) (auto simp: layout_ok_def)
  then show ?case using run_take by simp
next
  case (run_machine fed got st1 c k v)
  then have "kb_inv xs (st1\<lparr>maincpu_alarm_context := c, maincpu_clk := k, rand_uint32 := v\<rparr>)"
    by (simp add: kb_inv_def flow_defs alarm_ok_def pend_def del: deadline_None_iff)
  then show ?case using run_machine by (simp add: kbuf_def key_addr_def kcount_def count_addr_def pend_def)
qed simp

section \<open>Runs with resets\<close>

text \<open>
  A reset drops the queue (\<open>kbdbuf_abort\<close>) or moves the machine's buffer (\<open>kbdbuf_reset\<close>).
  \<open>kb_life\<close> are the runs with such resets in between. The queue is dropped only while the
  flush alarm is not set (or the strings of the command line keep it from being dropped);
  the machine's buffer moves to a place that is not full.
\<close>

inductive kb_life :: "nat list \<Rightarrow> kbd \<Rightarrow> kbd \<Rightarrow> bool" for xs st where
  life_run: "kb_run xs st fed got st' \<Longrightarrow> kb_life xs st st'"
| life_more: "kb_life xs st st1 \<Longrightarrow> kb_run xs st1 fed got st' \<Longrightarrow> kb_life xs st st'"
| life_abort: "kb_life xs st st1 \<Longrightarrow> kbdbuf_flush_alarm_time st1 = 0 \<or> kbd_buf_cmdline st1 \<Longrightarrow> kb_life xs st (kbdbuf_abort st1)"
| life_reset: "kb_life xs st st1 \<Longrightarrow> st' = kbdbuf_reset location plocation sz mincycles st1 \<Longrightarrow> layout_ok st'
    \<Longrightarrow> int (kcount st') < sz \<Longrightarrow> kb_life xs st st'"

lemma abort_inv:
  assumes "kb_inv xs st" "kbdbuf_flush_alarm_time st = 0 \<or> kbd_buf_cmdline st"
  shows "kb_inv xs (kbdbuf_abort st)"
  using assms by (auto simp: kbdbuf_abort_def kb_inv_def flow_defs alarm_ok_def QUEUE_SIZE_def)

lemma reset_inv:
  assumes "kb_inv xs st" "layout_ok (kbdbuf_reset l p sz m st)" "int (kcount (kbdbuf_reset l p sz m st)) < sz"
  shows "kb_inv xs (kbdbuf_reset l p sz m st)"
proof -
  have "pend (kbdbuf_reset l p sz m st) = pend st" by (simp add: kbdbuf_reset_def pend_def)
  then show ?thesis
    using assms by (auto simp: kb_inv_def alarm_ok_def) (auto simp: kbdbuf_reset_def ring_ok_def clock_ok_def)
qed

lemma kb_life_inv: "kb_life xs st st' \<Longrightarrow> kb_inv xs st \<Longrightarrow> kb_inv xs st'"
proof (induction rule: kb_life.induct)
  case (life_run fed got st')
  then show ?case using kb_run_inv by blast
next
  case (life_more st1 fed got st')
  then show ?case using kb_run_inv by blast
qed (auto intro: abort_inv reset_inv)

end
