(* ===== verification/Kbdbuf_Runs.thy ===== *)
theory Kbdbuf_Runs
  imports Kbdbuf_Flow
begin

text \<open>
  The properties of the keyboard queue: keys flow in order through any run of callers,
  flushes, alarms and machine; the queue empties when the machine keeps taking keys; escapes
  write every byte; and what a reset does while the flush alarm is set.
\<close>

section \<open>A queue to compute with\<close>

definition demo_kbd :: kbd where
  "demo_kbd = \<lparr>buffer_location = 631, num_pending_location = 198, buffer_size = 10, kernal_init_cycles = 1,
     kb_queue = replicate QUEUE_SIZE 0, head_idx = int QUEUE_SIZE - 1, num_pending = 0, kbd_buf_enabled = True,
     kbd_buf_cmdline = False, kbd_buf_string = None, KbdbufDelay = 0, use_kbdbuf_flush_alarm = False,
     kbdbuf_flush_alarm = 1, kbdbuf_init_cmdline_fed = True, kbdbuf_flush_alarm_time = 0, prevent_recursion = False,
     mem_ram = (\<lambda>_. 0), maincpu_alarm_context = demo_context, maincpu_clk = 100, cycles_per_frame = 20,
     rand_uint32 = 5\<rparr>"

lemma demo_deadline: "deadline demo_context 1 = None"
  by (simp add: demo_context_def alarm_new_def alarm_init_def alarm_context_init_def upd_alarm_def Let_def)

lemma demo_kbd_inv: "kb_inv [2, 1] demo_kbd"
  using alarm_reach_wf [OF demo_context_reach] demo_deadline
  by (simp add: kb_inv_def flow_defs alarm_ok_def demo_kbd_def QUEUE_SIZE_def max_pending_alarms_def del: deadline_None_iff)

section \<open>First in, first out\<close>

text \<open>
  C8. Whatever the order in which callers feed strings, flushes run, the alarm fires and the
  machine takes keys, the machine gets exactly the accepted keys in the order in which they
  were fed: what it took, then its buffer, then the queue, is the buffer and the queue of the
  start followed by the accepted strings. The ring, the machine's buffer and the flush alarm
  stay consistent.
\<close>

theorem kbdbuf_fifo:
  assumes "kb_run xs st fed got st'" "kb_inv xs st"
  shows "kb_inv xs st' \<and> got @ kbuf st' @ pend st' = kbuf st @ pend st @ fed"
  using kb_run_inv [OF assms] .

theorem kbdbuf_fifo_witness: "\<exists>st'. kbdbuf_feed [65, 66] demo_kbd = Some (0, st') \<and> kbuf st' @ pend st' = [65, 66]"
proof -
  have c: "c_str [65, 66] = [65, 66]" by (simp add: c_str_def)
  obtain r st' where s: "kbdbuf_feed [65, 66] demo_kbd = Some (r, st')"
    using feed_accepts(1) [OF demo_kbd_inv] by blast
  have e: "kbd_buf_enabled demo_kbd" "pend demo_kbd = []" "kbuf demo_kbd = []" "num_pending demo_kbd = 0"
    by (simp_all add: demo_kbd_def pend_def kbuf_def kcount_def)
  have r: "r = 0"
    using s e c by (auto simp: kbdbuf_feed_def string_to_queue_def QUEUE_SIZE_def bind_eq_Some_conv split: if_splits)
  from kbdbuf_fifo [OF run_feed [OF run_start s] demo_kbd_inv] show ?thesis
    using s e r c by auto
qed

text \<open>
  C35. In any run of feeding, flushing, alarms, machine and resets (\<open>kb_life\<close>: the queue is
  not dropped by a reset while the flush alarm is set) no operation accesses memory outside
  the ring or loops beyond it: feeding, flushing and feeding a command always give a result, and
  a string is refused (with -1) exactly when it does not fit or the queue is disabled. The
  condition on resets is needed: \<open>kbdbuf_abort_keeps_alarm\<close> shows that after a reset with the
  alarm set \<^verbatim>\<open>kbdbuf_feed\<close> can store before the ring.
\<close>

theorem kbdbuf_operations_return:
  assumes "kb_life xs st st'" "kb_inv xs st"
  defines "r \<equiv> \<lambda>s. if length (pend st') + length (c_str s) \<le> QUEUE_SIZE \<and> kbd_buf_enabled st' then 0 else -1"
  shows "(\<exists>st2. kbdbuf_flush st' = Some st2) \<and> (\<exists>st2. kbdbuf_feed_runcmd s st' = Some (r s, st2))
    \<and> (\<exists>st2. kbdbuf_feed s st' = Some (r s, st2))"
proof -
  have inv: "kb_inv xs st'" using kb_life_inv [OF assms(1,2)] .
  then have "\<exists>st2. kbdbuf_flush st' = Some st2" using flush_moves by blast
  moreover have same: "kb_inv xs (st'\<lparr>use_kbdbuf_flush_alarm := b\<rparr>)" for b
    using inv by (simp add: kb_inv_def flow_defs alarm_ok_def pend_def)
  have e: "string_to_queue s st = Some (r, st2) \<Longrightarrow> r = 0 \<or> r = -1" for r st st2
    by (auto simp: string_to_queue_put bind_eq_Some_conv split: if_splits)
  have "\<exists>st2. string_to_queue s (st'\<lparr>use_kbdbuf_flush_alarm := b\<rparr>) = Some (r s, st2)" for b
    using string_to_queue_accepts [OF same [of b], of s] e by (fastforce simp: pend_def r_def)
  ultimately show ?thesis unfolding kbdbuf_feed_runcmd_def kbdbuf_feed_def by blast
qed

theorem kbdbuf_operations_return_witness: "\<exists>st2. kbdbuf_feed [65] (kbdbuf_abort demo_kbd) = Some (0, st2)"
proof -
  have "kb_life [2, 1] demo_kbd (kbdbuf_abort demo_kbd)"
    by (rule life_abort [OF life_run [OF run_start]]) (simp add: demo_kbd_def)
  from kbdbuf_operations_return [OF this demo_kbd_inv, of "[65]"] show ?thesis
    by (simp add: c_str_def demo_kbd_def QUEUE_SIZE_def kbdbuf_abort_def)
qed

section \<open>The queue empties\<close>

text \<open>
  One round of a machine that keeps taking keys: it empties its buffer, then the alarm fires
  if it is set, otherwise the frame flushes the queue.
\<close>

definition emptied :: "kbd \<Rightarrow> kbd" where
  "emptied st = st\<lparr>mem_ram := (mem_ram st)(count_addr st := 0)\<rparr>"

fun serve_rounds :: "nat \<Rightarrow> kbd \<Rightarrow> (u8 list \<times> kbd) option" where
  "serve_rounds 0 st = Some ([], st)"
| "serve_rounds (Suc n) st =
     Option.bind (if kbdbuf_flush_alarm_time st \<noteq> 0 then Some (kbdbuf_flush_alarm_triggered (emptied st))
                  else kbdbuf_flush (emptied st))
       (\<lambda>st'. map_option (\<lambda>(ks, st'). (kbuf st @ ks, st')) (serve_rounds n st'))"

lemma emptied_simps:
  assumes "kb_inv xs st"
  shows "kb_inv xs (emptied st)" "kbuf (emptied st) = []" "kcount (emptied st) = 0" "pend (emptied st) = pend st"
    "kbdbuf_flush_alarm_time (emptied st) = kbdbuf_flush_alarm_time st" "kbd_buf_enabled (emptied st) = kbd_buf_enabled st"
    "maincpu_clk (emptied st) = maincpu_clk st" "kernal_init_cycles (emptied st) = kernal_init_cycles st"
  using assms by (simp_all add: emptied_def kb_inv_def flow_defs alarm_ok_def pend_def)


text \<open>A flush lets the queue grow no longer, and keeps the condition under which it works.\<close>

definition flush_enabled :: "kbd \<Rightarrow> bool" where
  "flush_enabled st \<longleftrightarrow> kbd_buf_enabled st \<and> kernal_init_cycles st \<le> maincpu_clk st"

lemma flush_loop_config: "flush_loop n st = Some (e, st') \<Longrightarrow> kernal_init_cycles st' = kernal_init_cycles st"
proof (induction n arbitrary: st)
  case (Suc n)
  obtain c where g: "queue_get st (head_idx st) = Some c"
    using Suc.prems by (cases "queue_get st (head_idx st)") auto
  show ?case
  proof (cases "c = 13 \<and> use_kbdbuf_flush_alarm st")
    case True
    then show ?thesis using Suc.prems g by (auto simp: Let_def)
  next
    case False
    then have "flush_loop n (move c st) = Some (e, st')"
      using Suc.prems g by (auto simp: move_def)
    then show ?thesis using Suc.IH by (simp add: move_frame)
  qed
qed simp

lemma flush_config:
  assumes "kbdbuf_flush st = Some st'"
  shows "kernal_init_cycles st' = kernal_init_cycles st"
proof (cases "flush_idle st \<or> prevent_recursion st")
  case True
  then show ?thesis using assms
    by (auto simp: kbdbuf_flush_def flush_idle_def kbdbuf_is_empty_def Let_def split: if_splits)
next
  case False
  let ?st = "st\<lparr>prevent_recursion := True\<rparr>"
  obtain e st1 where f: "flush_loop (flush_count ?st) ?st = Some (e, st1)"
    and st': "st' = (if e then st1\<lparr>prevent_recursion := False\<rparr> else st1\<lparr>kbd_buf_cmdline := False, prevent_recursion := False\<rparr>)"
    using assms False by (auto simp: kbdbuf_flush_def flush_idle_def kbdbuf_is_empty_def Let_def)
  show ?thesis using flush_loop_config [OF f] by (simp add: st')
qed

text \<open>The rounds still needed: two for each pending key, one less while the alarm is set.\<close>

definition rounds :: "kbd \<Rightarrow> nat" where
  "rounds st = 2 * length (pend st) - (if kbdbuf_flush_alarm_time st \<noteq> 0 then 1 else 0)"

lemma serve_progress:
  assumes inv: "kb_inv xs st" and en: "flush_enabled st"
  shows "\<exists>st'. (if kbdbuf_flush_alarm_time st \<noteq> 0 then Some (kbdbuf_flush_alarm_triggered (emptied st))
      else kbdbuf_flush (emptied st)) = Some st' \<and> kb_inv xs st' \<and> flush_enabled st' \<and> kbuf st' @ pend st' = pend st
      \<and> (pend st \<noteq> [] \<longrightarrow> rounds st' < rounds st)"
proof (cases "kbdbuf_flush_alarm_time st = 0")
  case False
  let ?st = "emptied st"
  note e = emptied_simps [OF inv]
  have t: "kbdbuf_flush_alarm_time ?st \<noteq> 0" using False e(5) by simp
  note am = alarm_moves_return [OF e(1) t]
  have "flush_enabled (kbdbuf_flush_alarm_triggered ?st)"
    using en by (simp add: flush_enabled_def kbdbuf_flush_alarm_triggered_def removefromqueue_def tokbdbuffer_ram emptied_def Let_def)
  moreover have "2 * length (pend (kbdbuf_flush_alarm_triggered ?st)) < 2 * length (pend st) - 1"
    using am(4) unfolding e(4) by linarith
  ultimately show ?thesis using am(1,2,3) e(2,4) False by (simp add: rounds_def del: length_pend)
next
  case True
  let ?st = "emptied st"
  note e = emptied_simps [OF inv]
  obtain st' where st': "kbdbuf_flush ?st = Some st'" "kb_inv xs st'" "kbuf st' @ pend st' = pend st"
    "kbd_buf_enabled st' = kbd_buf_enabled st" "maincpu_clk st' = maincpu_clk st"
    "\<not> flush_idle ?st \<longrightarrow> kbdbuf_flush_alarm_time st' = 0 \<longrightarrow> kcount st' > 0"
    using flush_moves [OF e(1)] e by auto
  have "rounds st' < rounds st" if p: "pend st \<noteq> []"
  proof -
    have "num_pending st \<noteq> 0" using p by (metis length_greater_0_conv length_pend less_irrefl nat_0)
    then have "\<not> flush_idle ?st"
      using e(3) en True by (simp add: flush_idle_def flush_enabled_def kbdbuf_is_empty_def kcount_def count_addr_def
          emptied_def not_less)
    moreover have l: "kcount st' + length (pend st') = length (pend st)"
      using st'(3) by (metis length_append length_kbuf)
    moreover have "kbdbuf_flush_alarm_time st' \<noteq> 0 \<Longrightarrow> length (pend st') > 0"
      using st'(2) by (auto simp: kb_inv_def alarm_ok_def simp del: length_pend)
    ultimately show ?thesis using st'(6) True
      by (cases "kbdbuf_flush_alarm_time st' = 0") (simp_all add: rounds_def del: length_pend length_greater_0_conv)
  qed
  moreover have "flush_enabled st'"
    using flush_config [OF st'(1)] st'(4,5) en by (simp add: flush_enabled_def emptied_def)
  ultimately show ?thesis using True st' by auto
qed

text \<open>
  C17. When the machine keeps taking keys, the queue empties: from a consistent state (\<open>kb_inv\<close>)
  in which the queue is enabled and the clock is past \<^verbatim>\<open>kernal_init_cycles\<close>, any number of
  rounds greater than twice the number of pending keys gives the machine its buffer and all
  pending keys, in order, and leaves both empty. For n keys that is 2n + 1 rounds: up to two
  for each key (one to set the alarm for a RETURN or to move a burst, one for the alarm), and a last
  one in which the machine takes what the round before has put into its buffer.
\<close>

theorem kbdbuf_drains:
  assumes "kb_inv xs st" "kbd_buf_enabled st" "kernal_init_cycles st \<le> maincpu_clk st" "2 * length (pend st) < n"
  shows "\<exists>st'. serve_rounds n st = Some (kbuf st @ pend st, st') \<and> pend st' = [] \<and> kbuf st' = []"
proof -
  have "kb_inv xs st \<Longrightarrow> flush_enabled st \<Longrightarrow> rounds st < n
      \<Longrightarrow> \<exists>st'. serve_rounds n st = Some (kbuf st @ pend st, st') \<and> pend st' = [] \<and> kbuf st' = []" for st
  proof (induction n arbitrary: st)
    case (Suc n)
    obtain st' where s: "(if kbdbuf_flush_alarm_time st \<noteq> 0 then Some (kbdbuf_flush_alarm_triggered (emptied st))
      else kbdbuf_flush (emptied st)) = Some st'" "kb_inv xs st'" "flush_enabled st'" "kbuf st' @ pend st' = pend st"
      "pend st \<noteq> [] \<longrightarrow> rounds st' < rounds st"
      using serve_progress [OF Suc.prems(1,2)] by blast
    show ?case
    proof (cases n)
      case 0
      then have "pend st = []" using Suc.prems(1,3) by (cases "pend st") (auto simp: rounds_def split: if_splits)
      then show ?thesis using s 0 by (auto simp del: length_pend)
    next
      case (Suc m)
      have "rounds st' < n"
      proof (cases "pend st = []")
        case True
        then show ?thesis using s(4) Suc by (simp add: rounds_def del: length_pend)
      next
        case False
        then show ?thesis using s(5) Suc.prems by simp
      qed
      then obtain st2 where "serve_rounds n st' = Some (kbuf st' @ pend st', st2)" "pend st2 = []" "kbuf st2 = []"
        using Suc.IH [OF s(2,3)] by blast
      then show ?thesis using s(1,4) by auto
    qed
  qed simp
  moreover have "rounds st < n" using assms(4) by (simp add: rounds_def)
  ultimately show ?thesis using assms(1-3) by (simp add: flush_enabled_def)
qed

definition demo_waiting :: kbd where
  "demo_waiting = demo_kbd\<lparr>kb_queue := (replicate QUEUE_SIZE 0)[16383 := 82, 0 := 13], num_pending := 2,
     use_kbdbuf_flush_alarm := True\<rparr>"

lemma pend_demo_waiting: "pend demo_waiting = [82, 13]"
  by (simp add: pend_def demo_waiting_def demo_kbd_def QUEUE_SIZE_def upt_rec nth_list_update)

lemma demo_waiting_inv: "kb_inv [2, 1] demo_waiting"
  using demo_kbd_inv by (simp add: kb_inv_def flow_defs alarm_ok_def demo_waiting_def demo_kbd_def QUEUE_SIZE_def)

theorem kbdbuf_drains_witness: "\<exists>st'. serve_rounds 5 demo_waiting = Some ([82, 13], st')"
proof -
  have "kbd_buf_enabled demo_waiting" "kernal_init_cycles demo_waiting \<le> maincpu_clk demo_waiting"
    "2 * length (pend demo_waiting) < 5" "kbuf demo_waiting = []"
    by (simp_all add: demo_waiting_def demo_kbd_def kbuf_def kcount_def)
  then show ?thesis using kbdbuf_drains [OF demo_waiting_inv, of 5] pend_demo_waiting by auto
qed

section \<open>Reset\<close>

lemma alarm_after_abort:
  assumes "\<not> kbd_buf_cmdline st"
  shows "num_pending (kbdbuf_flush_alarm_triggered (kbdbuf_abort st)) = -1"
    "head_idx (kbdbuf_flush_alarm_triggered (kbdbuf_abort st)) = c_rem (head_idx st + 1) (int QUEUE_SIZE)"
    "kbd_buf_enabled (kbdbuf_flush_alarm_triggered (kbdbuf_abort st)) = kbd_buf_enabled st"
    "buffer_size (kbdbuf_flush_alarm_triggered (kbdbuf_abort st)) = buffer_size st"
  using assms
  by (simp_all add: kbdbuf_abort_def kbdbuf_flush_alarm_triggered_def removefromqueue_def tokbdbuffer_ram Let_def)

text \<open>
  \<open>kbdbuf_abort\<close>, called by a reset, empties the queue but leaves the flush alarm set. When
  the alarm then fires, the number of pending keys becomes -1: a burst would now have
  \<open>2\<^sup>3\<^sup>2 - 1\<close> keys, and when the ring was at its last slot, the next string fed is stored
  before the ring.
\<close>

theorem kbdbuf_abort_keeps_alarm:
  assumes "kb_inv xs st" "kbdbuf_flush_alarm_time st \<noteq> 0" "\<not> kbd_buf_cmdline st"
  defines "st' \<equiv> kbdbuf_flush_alarm_triggered (kbdbuf_abort st)"
  shows "deadline (maincpu_alarm_context (kbdbuf_abort st)) (kbdbuf_flush_alarm st) = Some (kbdbuf_flush_alarm_time st)
    \<and> num_pending st' = -1 \<and> flush_count st' = 2 ^ 32 - 1
    \<and> (head_idx st = int QUEUE_SIZE - 1 \<and> kbd_buf_enabled st \<and> c_str s \<noteq> [] \<and> length (c_str s) \<le> QUEUE_SIZE
        \<longrightarrow> kbdbuf_feed s st' = None)"
proof (intro conjI impI)
  note aa = alarm_after_abort [OF assms(3)]
  have "maincpu_alarm_context (kbdbuf_abort st) = maincpu_alarm_context st" by (simp add: kbdbuf_abort_def)
  then show "deadline (maincpu_alarm_context (kbdbuf_abort st)) (kbdbuf_flush_alarm st) = Some (kbdbuf_flush_alarm_time st)"
    using assms(1,2) by (simp add: kb_inv_def alarm_ok_def)
  show "num_pending st' = -1" using aa by (simp add: st'_def)
  show "flush_count st' = 2 ^ 32 - 1"
    using assms(1) aa by (simp add: st'_def flush_count_def kb_inv_def layout_ok_def unsigned_minus_1_eq_mask mask_eq_exp_minus_1)
  assume h: "head_idx st = int QUEUE_SIZE - 1 \<and> kbd_buf_enabled st \<and> c_str s \<noteq> [] \<and> length (c_str s) \<le> QUEUE_SIZE"
  then obtain c cs where "c_str s = c # cs" by (cases "c_str s") auto
  moreover have "c_rem (head_idx st' + num_pending st') (int QUEUE_SIZE) = -1"
    using h aa by (simp add: st'_def c_rem_def QUEUE_SIZE_def)
  ultimately show "kbdbuf_feed s st' = None"
    using h aa by (simp add: st'_def kbdbuf_feed_def string_to_queue_def)
qed

definition demo_return :: kbd where
  "demo_return = demo_kbd\<lparr>kb_queue := (replicate QUEUE_SIZE 0)[16383 := 13], num_pending := 1,
     maincpu_alarm_context := alarm_set demo_context 1 130, kbdbuf_flush_alarm_time := 130\<rparr>"

theorem kbdbuf_abort_keeps_alarm_witness:
  "kbdbuf_feed [65] (kbdbuf_flush_alarm_triggered (kbdbuf_abort demo_return)) = None"
proof -
  have wf: "alarm_wf [2, 1] demo_context" using alarm_reach_wf [OF demo_context_reach] .
  have "num_pending_alarms demo_context < max_pending_alarms"
    using contexts.room_few [OF wf, of 1] demo_deadline by (simp add: max_pending_alarms_def)
  then have "deadline (alarm_set demo_context 1 130) 1 = Some 130" "alarm_wf [2, 1] (alarm_set demo_context 1 130)"
    using contexts.due_set [OF wf, of 1 1] contexts.ok_set [OF wf, of 1] by simp_all
  moreover have "pend demo_return = [13]"
    by (simp add: pend_def demo_return_def demo_kbd_def QUEUE_SIZE_def upt_rec nth_list_update)
  ultimately have "kb_inv [2, 1] demo_return"
    by (simp add: kb_inv_def flow_defs alarm_ok_def demo_return_def demo_kbd_def QUEUE_SIZE_def max_pending_alarms_def)
  moreover have "c_str [65] = [65]" by (simp add: c_str_def)
  ultimately show ?thesis using kbdbuf_abort_keeps_alarm [of "[2, 1]" demo_return "[65]"]
    by (simp add: demo_return_def demo_kbd_def QUEUE_SIZE_def)
qed

section \<open>Escapes\<close>

definition hex_char :: "u8 \<Rightarrow> u8" where
  "hex_char n = (if n < 10 then 0x30 + n else 0x57 + n)"

definition escape :: "u8 \<Rightarrow> u8 list" where
  "escape b = [0x5c, 0x78, hex_char (b div 16), hex_char (b mod 16)]"

lemma hex_char_digit:
  assumes "n < 16"
  shows "isxdigit (hex_char n)" "hex_digit (hex_char n) = n" "hex_char n \<noteq> 0"
proof -
  have "unat n \<in> set [0..<16]" using assms by (simp add: word_less_nat_alt)
  then have "unat n \<in> {0, 1, 2, 3, 4, 5, 6, 7, 8, 9, 10, 11, 12, 13, 14, 15}" by (auto simp: upt_rec)
  then have "n \<in> {0, 1, 2, 3, 4, 5, 6, 7, 8, 9, 10, 11, 12, 13, 14, 15}"
    by (auto simp: word_unat_eq_iff)
  then show "isxdigit (hex_char n)" "hex_digit (hex_char n) = n" "hex_char n \<noteq> 0"
    by (auto simp: hex_char_def isxdigit_def hex_digit_def)
qed

lemma byte_halves: "(b :: u8) div 16 < 16" "b mod 16 < 16" "16 * (b div 16) + b mod 16 = b"
proof -
  have "unat b < 256" using unsigned_less [of b] by simp
  then show "(b :: u8) div 16 < 16" "b mod 16 < 16" by (simp_all add: word_less_nat_alt unat_div unat_mod)
  show "16 * (b div 16) + b mod 16 = b" by (simp add: mult_div_mod_eq)
qed

lemma parse_escape:
  "r \<ge> 3 \<Longrightarrow> parse_loop len (Suc r) (escape b @ s) = b # parse_loop len (r - 3) s"
  using hex_char_digit [OF byte_halves(1) [of b]] hex_char_digit [OF byte_halves(2) [of b]] byte_halves(3) [of b]
  by (simp add: escape_def)

lemma parse_escapes: "parse_loop len (4 * length bs) (concat (map escape bs) @ s) = bs"
proof (induction bs)
  case (Cons b bs)
  have "4 * length (b # bs) = Suc (4 * length bs + 3)" by simp
  then show ?case using Cons parse_escape [of "4 * length bs + 3"] by simp
qed simp

lemma length_escapes: "length (concat (map escape bs)) = 4 * length bs"
  by (induction bs) (simp_all add: escape_def)

lemma escape_no_zero: "0 \<notin> set (escape b)"
  using hex_char_digit(3) [OF byte_halves(1) [of b]] hex_char_digit(3) [OF byte_halves(2) [of b]]
  by (auto simp: escape_def eq_commute [of 0])

lemma escapes_no_zero: "0 \<notin> set (concat (map escape bs))"
  by (induction bs) (simp_all add: escape_no_zero)

text \<open>
  Every sequence of bytes can be given to the queue: written as hexadecimal escapes it is
  the string that \<open>kbd_buf_parse_string\<close> keeps, byte for byte.
\<close>

theorem kbd_escape_roundtrip:
  assumes "4 * length bs \<le> QUEUE_SIZE"
  shows "kbd_buf_string (kbd_buf_parse_string (concat (map escape bs)) st) = Some bs"
proof -
  have "c_str (concat (map escape bs)) = concat (map escape bs)"
    unfolding c_str_def by (rule takeWhile_eq_all_conv [THEN iffD2]) (metis escapes_no_zero)
  then show ?thesis using assms parse_escapes [of _ bs "[0]"]
    by (simp add: kbd_buf_parse_string_def length_escapes)
qed

theorem kbd_escape_roundtrip_witness:
  "kbd_buf_string (kbd_buf_parse_string (escape 0x41 @ escape 0xff) demo_kbd) = Some [0x41, 0xff]"
  using kbd_escape_roundtrip [of "[0x41, 0xff]" demo_kbd] by (simp add: QUEUE_SIZE_def)

end
