(* ===== verification/Gcr.thy ===== *)
theory Gcr
  imports Vice_Prelude
begin

text \<open>
  The group coded recording of Commodore disks, \<^verbatim>\<open>src/src/gcr.c\<close>: four bytes become five, a
  sector becomes two synchronised blocks on a raw track, and sectors are found, read and
  written on the circular bit stream of the track. \<open>None\<close> is an access outside the track's
  memory, or a header search that has not ended within its fuel.
\<close>

section \<open>Four bytes and five\<close>

definition GCR_conv_data :: "u8 list" where
  "GCR_conv_data = [
    0x0a, 0x0b, 0x12, 0x13,
    0x0e, 0x0f, 0x16, 0x17,
    0x09, 0x19, 0x1a, 0x1b,
    0x0d, 0x1d, 0x1e, 0x15]"

definition From_GCR_conv_data :: "u8 list" where
  "From_GCR_conv_data = [
    0, 0, 0, 0, 0, 0, 0, 0,
    0, 8, 0, 1, 0, 12, 4, 5,
    0, 0, 2, 3, 0, 15, 6, 7,
    0, 9, 10, 11, 0, 13, 14, 0]"

text \<open>The loop over the source bytes; the shift count is 2, 4, 6, 8.\<close>

fun convert_to_GCR_loop :: "u8 list \<Rightarrow> nat \<Rightarrow> u32 \<Rightarrow> u8 list" where
  "convert_to_GCR_loop [] i tdest = [ucast tdest]"
| "convert_to_GCR_loop (s # source) i tdest =
     (let tdest = push_bit 5 tdest;
          tdest = tdest OR ucast (GCR_conv_data ! unat (drop_bit 4 s));
          tdest = push_bit 5 tdest;
          tdest = tdest OR ucast (GCR_conv_data ! unat (s AND 0x0f))
      in ucast (drop_bit i tdest) # convert_to_GCR_loop source (i + 2) tdest)"

definition gcr_convert_4bytes_to_GCR :: "u8 list \<Rightarrow> u8 list" where
  "gcr_convert_4bytes_to_GCR source = convert_to_GCR_loop (take 4 source) 2 0"

text \<open>The loop over the four bytes after the first; the shift count is 5, 7, 9, 11.\<close>

definition from_GCR :: "u32 \<Rightarrow> u8" where
  "from_GCR tdest = From_GCR_conv_data ! unat (drop_bit 16 tdest AND 0x1f)"

fun convert_from_GCR_loop :: "u8 list \<Rightarrow> nat \<Rightarrow> u32 \<Rightarrow> u8 list" where
  "convert_from_GCR_loop [] i tdest = []"
| "convert_from_GCR_loop (s # source) i tdest =
     (let tdest = tdest OR push_bit i (ucast s);
          d = push_bit 4 (from_GCR tdest);
          tdest = push_bit 5 tdest;
          d = d OR from_GCR tdest;
          tdest = push_bit 5 tdest
      in d # convert_from_GCR_loop source (i + 2) tdest)"

definition gcr_convert_GCR_to_4bytes :: "u8 list \<Rightarrow> u8 list" where
  "gcr_convert_GCR_to_4bytes source =
     convert_from_GCR_loop (take 4 (tl source)) 5 (push_bit 13 (ucast (hd source)))"

section \<open>Sectors as GCR\<close>

definition CBMDOS_FDC_ERR_OK :: nat where "CBMDOS_FDC_ERR_OK = 1"
definition CBMDOS_FDC_ERR_HEADER :: nat where "CBMDOS_FDC_ERR_HEADER = 2"
definition CBMDOS_FDC_ERR_SYNC :: nat where "CBMDOS_FDC_ERR_SYNC = 3"
definition CBMDOS_FDC_ERR_NOBLOCK :: nat where "CBMDOS_FDC_ERR_NOBLOCK = 4"
definition CBMDOS_FDC_ERR_DCHECK :: nat where "CBMDOS_FDC_ERR_DCHECK = 5"
definition CBMDOS_FDC_ERR_HCHECK :: nat where "CBMDOS_FDC_ERR_HCHECK = 9"
definition CBMDOS_FDC_ERR_ID :: nat where "CBMDOS_FDC_ERR_ID = 11"

lemmas fdc_errs = CBMDOS_FDC_ERR_OK_def CBMDOS_FDC_ERR_HEADER_def CBMDOS_FDC_ERR_SYNC_def
  CBMDOS_FDC_ERR_NOBLOCK_def CBMDOS_FDC_ERR_DCHECK_def CBMDOS_FDC_ERR_HCHECK_def CBMDOS_FDC_ERR_ID_def

record gcr_header =
  h_sector :: u8
  h_track :: u8
  h_id2 :: u8
  h_id1 :: u8

definition xor_all :: "u8 \<Rightarrow> u8 list \<Rightarrow> u8" where
  "xor_all c xs = fold (\<lambda>x c. c XOR x) xs c"

text \<open>The loop over the 63 full groups of the data block: the GCR, and the checksum.\<close>

fun sector_groups :: "nat \<Rightarrow> u8 list \<Rightarrow> u8 \<Rightarrow> u8 list \<times> u8" where
  "sector_groups 0 buffer chksum = ([], chksum)"
| "sector_groups (Suc n) buffer chksum =
     (let chksum = xor_all chksum (take 4 buffer);
          (gs, c) = sector_groups n (drop 4 buffer) chksum
      in (gcr_convert_4bytes_to_GCR buffer @ gs, c))"

text \<open>
  The bytes \<^verbatim>\<open>gcr_convert_sector_to_GCR\<close> stores: those before the gap, and those from the
  gap on. The gap itself is skipped, so its old bytes stay.
\<close>

definition sector_header_GCR :: "gcr_header \<Rightarrow> nat \<Rightarrow> u8 list" where
  "sector_header_GCR header error_code =
     (let idm = (if error_code = CBMDOS_FDC_ERR_ID then 0xff else 0);
          chksum = (if error_code = CBMDOS_FDC_ERR_HCHECK then 0xff else 0);
          chksum = chksum XOR (h_sector header XOR h_track header XOR h_id2 header XOR h_id1 header XOR idm)
      in replicate 5 (if error_code = CBMDOS_FDC_ERR_SYNC then 0x55 else 0xff)
         @ gcr_convert_4bytes_to_GCR [if error_code = CBMDOS_FDC_ERR_HEADER then 0xff else 0x08,
             chksum, h_sector header, h_track header]
         @ gcr_convert_4bytes_to_GCR [h_id2 header, h_id1 header XOR idm, 0x0f, 0x0f])"

definition sector_data_GCR :: "u8 list \<Rightarrow> nat \<Rightarrow> nat \<Rightarrow> u8 list" where
  "sector_data_GCR buffer sync error_code =
     (let chksum = (if error_code = CBMDOS_FDC_ERR_DCHECK then 0xff else 0);
          b0 = (if error_code = CBMDOS_FDC_ERR_NOBLOCK then 0x00 else 0x07);
          chksum = xor_all chksum (take 3 buffer);
          (gs, chksum) = sector_groups 63 (drop 3 buffer) chksum;
          last = buffer ! 255
      in replicate sync (if error_code = CBMDOS_FDC_ERR_SYNC then 0x55 else 0xff)
         @ gcr_convert_4bytes_to_GCR (b0 # take 3 buffer) @ gs
         @ gcr_convert_4bytes_to_GCR [last, chksum XOR last, 0, 0])"

definition gcr_convert_sector_to_GCR :: "u8 list \<Rightarrow> u8 list \<Rightarrow> nat \<Rightarrow> gcr_header \<Rightarrow> nat \<Rightarrow> nat \<Rightarrow> nat
    \<Rightarrow> u8 list option" where
  "gcr_convert_sector_to_GCR buffer mem data header gap sync error_code =
     Option.bind (store_bytes data (sector_header_GCR header error_code) mem)
       (store_bytes (data + 15 + gap) (sector_data_GCR buffer sync error_code))"

section \<open>Raw tracks\<close>

record disk_track =
  t_data :: "u8 list option"
  t_size :: nat

definition rd :: "u8 list \<Rightarrow> int \<Rightarrow> u8 option" where
  "rd d i = (if 0 \<le> i \<and> i < int (length d) then Some (d ! nat i) else None)"

text \<open>The position is an \<^verbatim>\<open>int\<close>; a negative result is an error code.\<close>

fun find_sync_loop :: "nat \<Rightarrow> u8 list \<Rightarrow> int \<Rightarrow> int \<Rightarrow> u32 \<Rightarrow> u32 \<Rightarrow> int option" where
  "find_sync_loop 0 d sz p w b = Some (- int CBMDOS_FDC_ERR_SYNC)"
| "find_sync_loop (Suc s) d sz p w b =
     (if \<not> bit b 7 \<and> NOT w AND 0x3ff = 0 then Some p
      else
        let w = (if bit b 7 then push_bit 1 w OR 1 else push_bit 1 w)
        in if p mod 8 \<noteq> 7 then find_sync_loop s d sz (p + 1) w (push_bit 1 b)
           else
             let p = (if p + 1 \<ge> sz * 8 then 0 else p + 1)
             in case rd d (p div 8) of
                  None \<Rightarrow> None
                | Some x \<Rightarrow> find_sync_loop s d sz p w (ucast x))"

definition gcr_find_sync :: "disk_track \<Rightarrow> int \<Rightarrow> nat \<Rightarrow> int option" where
  "gcr_find_sync raw p s =
     (case t_data raw of
        None \<Rightarrow> Some (- int CBMDOS_FDC_ERR_SYNC)
      | Some d \<Rightarrow>
          if t_size raw = 0 then Some (- int CBMDOS_FDC_ERR_SYNC)
          else (case rd d (p div 8) of
              None \<Rightarrow> None
            | Some x \<Rightarrow> find_sync_loop s d (int (t_size raw)) p 0 (push_bit (nat (p mod 8)) (ucast x))))"

text \<open>The inner loop of \<^verbatim>\<open>gcr_decode_block\<close>: the next bytes of GCR, the offset and the carry.\<close>

fun read_gcr :: "nat \<Rightarrow> u8 list \<Rightarrow> int \<Rightarrow> nat \<Rightarrow> int \<Rightarrow> u8 \<Rightarrow> (u8 list \<times> int \<times> u8) option" where
  "read_gcr 0 d sz shift offset b = Some ([], offset, b)"
| "read_gcr (Suc n) d sz shift offset b =
     (let offset = (if offset + 1 \<ge> sz then 0 else offset + 1)
      in case rd d offset of
           None \<Rightarrow> None
         | Some x \<Rightarrow>
             let g = (if shift \<noteq> 0 then b OR ucast (drop_bit 8 (push_bit shift (ucast x :: u32))) else b);
                 b = (if shift \<noteq> 0 then push_bit shift x else x)
             in map_option (\<lambda>(gs, r). (g # gs, r)) (read_gcr n d sz shift offset b))"

fun decode_blocks :: "nat \<Rightarrow> u8 list \<Rightarrow> int \<Rightarrow> nat \<Rightarrow> int \<Rightarrow> u8 \<Rightarrow> u8 list option" where
  "decode_blocks 0 d sz shift offset b = Some []"
| "decode_blocks (Suc num) d sz shift offset b =
     (case read_gcr 5 d sz shift offset b of
        None \<Rightarrow> None
      | Some (gcr, offset, b) \<Rightarrow>
          map_option (\<lambda>bs. gcr_convert_GCR_to_4bytes gcr @ bs) (decode_blocks num d sz shift offset b))"

definition gcr_decode_block :: "disk_track \<Rightarrow> int \<Rightarrow> nat \<Rightarrow> u8 list option" where
  "gcr_decode_block raw p num =
     (let shift = nat (p mod 8)
      in case t_data raw of
           None \<Rightarrow> None
         | Some d \<Rightarrow> Option.bind (rd d (p div 8))
             (\<lambda>x. decode_blocks num d (int (t_size raw)) shift (p div 8) (push_bit shift x)))"

text \<open>The search for a sector header; \<open>p2\<close> is the first sync found.\<close>

fun find_header_loop :: "nat \<Rightarrow> disk_track \<Rightarrow> u8 \<Rightarrow> int \<Rightarrow> int \<Rightarrow> int option" where
  "find_header_loop 0 raw sector p p2 = None"
| "find_header_loop (Suc fuel) raw sector p p2 =
     (case gcr_find_sync raw p (t_size raw * 8) of
        None \<Rightarrow> None
      | Some p \<Rightarrow>
          if p2 = p then Some (if p2 < 0 then p2 else - int CBMDOS_FDC_ERR_HEADER)
          else
            let p2 = (if p2 < 0 then p else p2)
            in case gcr_decode_block raw p 1 of
                 None \<Rightarrow> None
               | Some header \<Rightarrow>
                   if header ! 0 = 0x08 \<and> header ! 2 = sector then Some p
                   else find_header_loop fuel raw sector p p2)"

definition gcr_find_sector_header :: "nat \<Rightarrow> disk_track \<Rightarrow> u8 \<Rightarrow> int option" where
  "gcr_find_sector_header fuel raw sector =
     find_header_loop fuel raw sector 0 (- int CBMDOS_FDC_ERR_SYNC)"

text \<open>The first steps of reading and writing: the position of the data block, or an error.\<close>

definition find_data_block :: "nat \<Rightarrow> disk_track \<Rightarrow> u8 \<Rightarrow> int option" where
  "find_data_block fuel raw sector =
     Option.bind (gcr_find_sector_header fuel raw sector)
       (\<lambda>p. if p < 0 then Some p else gcr_find_sync raw p (500 * 8))"

definition gcr_read_sector :: "nat \<Rightarrow> disk_track \<Rightarrow> u8 \<Rightarrow> (nat \<times> u8 list) option" where
  "gcr_read_sector fuel raw sector =
     Option.bind (find_data_block fuel raw sector) (\<lambda>p.
       if p < 0 then Some (nat (- p), [])
       else Option.bind (gcr_decode_block raw p 65) (\<lambda>buffer.
         let data = take 256 (tl buffer);
             b = xor_all (buffer ! 257) data
         in Some (if buffer ! 0 \<noteq> 0x07 then CBMDOS_FDC_ERR_NOBLOCK
                  else if b \<noteq> 0 then CBMDOS_FDC_ERR_DCHECK else CBMDOS_FDC_ERR_OK, data)))"

fun write_gcr :: "u8 list \<Rightarrow> int \<Rightarrow> nat \<Rightarrow> u8 list \<times> int \<times> u8 \<Rightarrow> (u8 list \<times> int \<times> u8) option" where
  "write_gcr [] sz shift st = Some st"
| "write_gcr (g # gs) sz shift (d, offset, b) =
     (if 0 \<le> offset \<and> offset < int (length d) then
        let x = (if shift \<noteq> 0 then b OR drop_bit shift g else g);
            b = (if shift \<noteq> 0 then ucast (drop_bit shift (push_bit 8 (ucast g :: u32))) else b);
            d = d[nat offset := x];
            offset = (if offset + 1 \<ge> sz then 0 else offset + 1)
        in write_gcr gs sz shift (d, offset, b)
      else None)"

fun write_blocks :: "nat \<Rightarrow> u8 list \<Rightarrow> int \<Rightarrow> nat \<Rightarrow> u8 list \<times> int \<times> u8 \<Rightarrow> (u8 list \<times> int \<times> u8) option" where
  "write_blocks 0 buf sz shift st = Some st"
| "write_blocks (Suc n) buf sz shift st =
     Option.bind (write_gcr (gcr_convert_4bytes_to_GCR buf) sz shift st)
       (write_blocks n (drop 4 buf) sz shift)"

definition gcr_write_sector :: "nat \<Rightarrow> disk_track \<Rightarrow> u8 list \<Rightarrow> u8 \<Rightarrow> (nat \<times> disk_track) option" where
  "gcr_write_sector fuel raw data sector =
     Option.bind (find_data_block fuel raw sector) (\<lambda>p.
       if p < 0 then Some (nat (- p), raw)
       else
         let shift = nat (p mod 8); offset = p div 8;
             buffer = 0x07 # data @ [xor_all (hd data) (tl data), 0, 0]
         in case t_data raw of
              None \<Rightarrow> None
            | Some d \<Rightarrow>
                Option.bind (rd d offset) (\<lambda>x.
                Option.bind (write_blocks 65 buffer (int (t_size raw)) shift
                    (d, offset, x AND ucast (drop_bit shift (0xff00 :: u32)))) (\<lambda>(d, offset, b).
                Option.bind (rd d offset) (\<lambda>x. Some (CBMDOS_FDC_ERR_OK, raw\<lparr>t_data :=
                    Some (d[nat offset := b OR (x AND ucast (drop_bit shift (0xff :: u32)))])\<rparr>)))))"

end
