(* ===== verification/Disk_Geometry.thy ===== *)
theory Disk_Geometry
  imports Gcr
begin

text \<open>
  The geometry of disk images, \<^verbatim>\<open>src/src/diskimage/diskimage.c\<close> and
  \<^verbatim>\<open>src/src/diskimage/fsimage-check.c\<close>: speed zones, sectors per track, and the block number
  of a track and sector. The constants are those of \<^verbatim>\<open>src/src/diskconstants.h\<close>. The types of
  \<^verbatim>\<open>src/src/diskimage.h\<close> are a datatype; the build has no X64 images and no real drives.
\<close>

section \<open>Images\<close>

datatype disk_type = D64 | D67 | D71 | D81 | D80 | D82 | G64 | G71 | P64 | D1M | D2M | D4M | DHD | D90 | TAP

datatype disk_device = DEVICE_FS | DEVICE_REAL | DEVICE_RAW

text \<open>
  \<^verbatim>\<open>struct disk_image_s\<close> with the \<^verbatim>\<open>struct fsimage_s\<close> it points to: \<open>fd\<close> is the contents of the open
  file, \<open>err_map\<close> and \<open>err_len\<close> are \<^verbatim>\<open>error_info\<close>, \<open>img_gcr\<close> the raw tracks, if any.
\<close>

record disk_image =
  fd :: "u8 list option"
  err_map :: "u8 list option"
  err_len :: nat
  read_only :: int
  device :: disk_device
  img_type :: disk_type
  img_tracks :: nat
  img_sectors :: nat
  img_gcr :: "(nat \<Rightarrow> disk_track) option"

section \<open>Constants\<close>

definition NUM_TRACKS_1541 :: nat where "NUM_TRACKS_1541 = 35"
definition NUM_BLOCKS_1541 :: nat where "NUM_BLOCKS_1541 = 683"
definition MAX_TRACKS_1541 :: nat where "MAX_TRACKS_1541 = 42"
definition MAX_BLOCKS_1541 :: nat where "MAX_BLOCKS_1541 = 802"
definition MAX_TRACKS_2040 :: nat where "MAX_TRACKS_2040 = 35"
definition MAX_BLOCKS_2040 :: nat where "MAX_BLOCKS_2040 = 690"
definition NUM_TRACKS_1571 :: nat where "NUM_TRACKS_1571 = 70"
definition MAX_TRACKS_1571 :: nat where "MAX_TRACKS_1571 = 70"
definition MAX_BLOCKS_1571 :: nat where "MAX_BLOCKS_1571 = 1366"
definition NUM_TRACKS_1581 :: nat where "NUM_TRACKS_1581 = 80"
definition NUM_SECTORS_1581 :: nat where "NUM_SECTORS_1581 = 40"
definition MAX_TRACKS_1581 :: nat where "MAX_TRACKS_1581 = 83"
definition MAX_BLOCKS_1581 :: nat where "MAX_BLOCKS_1581 = 3320"
definition NUM_TRACKS_8050 :: nat where "NUM_TRACKS_8050 = 77"
definition NUM_BLOCKS_8050 :: nat where "NUM_BLOCKS_8050 = 2083"
definition MAX_TRACKS_8050 :: nat where "MAX_TRACKS_8050 = 77"
definition MAX_BLOCKS_8050 :: nat where "MAX_BLOCKS_8050 = 2083"
definition NUM_TRACKS_8250 :: nat where "NUM_TRACKS_8250 = 154"
definition MAX_TRACKS_8250 :: nat where "MAX_TRACKS_8250 = 154"
definition MAX_BLOCKS_8250 :: nat where "MAX_BLOCKS_8250 = 4166"
definition NUM_TRACKS_1000 :: nat where "NUM_TRACKS_1000 = 13"
definition NUM_SYS_SECTORS_1000 :: nat where "NUM_SYS_SECTORS_1000 = 168"
definition MAX_BLOCKS_1000 :: nat where "MAX_BLOCKS_1000 = 3240"
definition NUM_TRACKS_2000 :: nat where "NUM_TRACKS_2000 = 26"
definition NUM_SYS_SECTORS_2000 :: nat where "NUM_SYS_SECTORS_2000 = 80"
definition MAX_BLOCKS_2000 :: nat where "MAX_BLOCKS_2000 = 6480"
definition NUM_TRACKS_4000 :: nat where "NUM_TRACKS_4000 = 51"
definition NUM_SYS_SECTORS_4000 :: nat where "NUM_SYS_SECTORS_4000 = 160"
definition MAX_BLOCKS_4000 :: nat where "MAX_BLOCKS_4000 = 12960"

definition FSIMAGE_BAD_TRKNUM :: int where "FSIMAGE_BAD_TRKNUM = -2"
definition FSIMAGE_BAD_SECNUM :: int where "FSIMAGE_BAD_SECNUM = -3"

section \<open>Tracks\<close>

definition zone_d64 :: "nat \<Rightarrow> nat" where
  "zone_d64 track = of_bool (track < 31) + of_bool (track < 25) + of_bool (track < 18)"

definition zone_d80 :: "nat \<Rightarrow> nat" where
  "zone_d80 track = of_bool (track < 65) + of_bool (track < 54) + of_bool (track < 40)"

fun disk_image_speed_map :: "disk_type \<Rightarrow> nat \<Rightarrow> nat" where
  "disk_image_speed_map D67 track = zone_d64 track"
| "disk_image_speed_map D64 track = zone_d64 track"
| "disk_image_speed_map G64 track = zone_d64 track"
| "disk_image_speed_map P64 track = zone_d64 track"
| "disk_image_speed_map D80 track = zone_d80 track"
| "disk_image_speed_map D82 track = zone_d80 (if track > 77 then track - 77 else track)"
| "disk_image_speed_map D71 track = zone_d64 (if track > 35 then track - 35 else track)"
| "disk_image_speed_map G71 track = zone_d64 (if track > 42 then track - 42 else track)"
| "disk_image_speed_map _ track = 0"

definition sector_map_d64 :: "nat list" where "sector_map_d64 = [17, 18, 19, 21]"
definition sector_map_d67 :: "nat list" where "sector_map_d67 = [17, 18, 20, 21]"
definition sector_map_d80 :: "nat list" where "sector_map_d80 = [23, 25, 27, 29]"

definition disk_image_sector_per_track :: "disk_type \<Rightarrow> nat \<Rightarrow> nat" where
  "disk_image_sector_per_track format track =
     (if format \<in> {D64, G64, P64, D71, G71} then sector_map_d64 ! disk_image_speed_map format track
      else if format = D67 then sector_map_d67 ! disk_image_speed_map format track
      else if format \<in> {D80, D82} then sector_map_d80 ! disk_image_speed_map format track
      else 0)"

section \<open>Blocks\<close>

text \<open>The loop that adds up the sectors of the tracks below \<open>track\<close>.\<close>

definition sectors_below :: "disk_type \<Rightarrow> nat \<Rightarrow> nat" where
  "sectors_below format track = sum_list (map (disk_image_sector_per_track format) [1..<track])"

text \<open>\<^verbatim>\<open>(int)\<close> of an \<^verbatim>\<open>unsigned int\<close>.\<close>

definition c_int :: "nat \<Rightarrow> int" where
  "c_int n = signed_take_bit 31 (int n)"

definition check_tracks :: "nat \<Rightarrow> nat \<Rightarrow> nat \<Rightarrow> nat \<Rightarrow> nat \<Rightarrow> int" where
  "check_tracks max_track track sectors sector base =
     (if track > max_track then FSIMAGE_BAD_TRKNUM
      else if sector \<ge> sectors then FSIMAGE_BAD_SECNUM
      else c_int (base + sector))"

text \<open>The partitioned images have 256 sectors in a track, and fewer in the last one.\<close>

definition check_dxm :: "nat \<Rightarrow> nat \<Rightarrow> nat \<Rightarrow> nat \<Rightarrow> int" where
  "check_dxm tracks sys_sectors track sector =
     (if track > tracks then FSIMAGE_BAD_TRKNUM
      else if sector > 255 \<or> track = tracks \<and> sector \<ge> sys_sectors then FSIMAGE_BAD_SECNUM
      else c_int ((track - 1) * 256 + sector))"

definition fsimage_check_sector :: "disk_image \<Rightarrow> nat \<Rightarrow> nat \<Rightarrow> int" where
  "fsimage_check_sector img track sector =
     (if img_type img \<noteq> D90 \<and> track < 1 then FSIMAGE_BAD_TRKNUM
      else case img_type img of
        D64 \<Rightarrow> check_tracks MAX_TRACKS_1541 track (disk_image_sector_per_track D64 track) sector (sectors_below D64 track)
      | D67 \<Rightarrow> check_tracks MAX_TRACKS_2040 track (disk_image_sector_per_track D67 track) sector (sectors_below D67 track)
      | D71 \<Rightarrow>
          if track > MAX_TRACKS_1571 then FSIMAGE_BAD_TRKNUM
          else
            let side2 = track > NUM_TRACKS_1541;
                sectors = (if side2 then NUM_BLOCKS_1541 else 0);
                track = (if side2 then track - NUM_TRACKS_1541 else track)
            in if sector \<ge> disk_image_sector_per_track D64 track then FSIMAGE_BAD_SECNUM
               else c_int (sectors + sectors_below D64 track + sector)
      | D81 \<Rightarrow> check_tracks MAX_TRACKS_1581 track NUM_SECTORS_1581 sector ((track - 1) * NUM_SECTORS_1581)
      | D80 \<Rightarrow> check_tracks MAX_TRACKS_8050 track (disk_image_sector_per_track D80 track) sector (sectors_below D80 track)
      | D82 \<Rightarrow>
          if track > MAX_TRACKS_8250 then FSIMAGE_BAD_TRKNUM
          else
            let side2 = track > NUM_TRACKS_8050;
                sectors = (if side2 then NUM_BLOCKS_8050 else 0);
                track = (if side2 then track - NUM_TRACKS_8050 else track)
            in if sector \<ge> disk_image_sector_per_track D80 track then FSIMAGE_BAD_SECNUM
               else c_int (sectors + sectors_below D80 track + sector)
      | G64 \<Rightarrow> check_tracks (min (img_tracks img) MAX_TRACKS_1541) track (disk_image_sector_per_track D64 track) sector (sectors_below D64 track)
      | G71 \<Rightarrow> check_tracks (min (img_tracks img) MAX_TRACKS_1541) track (disk_image_sector_per_track D64 track) sector (sectors_below D64 track)
      | P64 \<Rightarrow> check_tracks (min (img_tracks img) MAX_TRACKS_1541) track (disk_image_sector_per_track D64 track) sector (sectors_below D64 track)
      | D1M \<Rightarrow> check_dxm NUM_TRACKS_1000 NUM_SYS_SECTORS_1000 track sector
      | D2M \<Rightarrow> check_dxm NUM_TRACKS_2000 NUM_SYS_SECTORS_2000 track sector
      | D4M \<Rightarrow> check_dxm NUM_TRACKS_4000 NUM_SYS_SECTORS_4000 track sector
      | DHD \<Rightarrow>
          if track > 0xffff then FSIMAGE_BAD_TRKNUM
          else if sector > 0xffff then FSIMAGE_BAD_SECNUM
          else c_int ((track - 1) * 65536 + sector)
      | D90 \<Rightarrow>
          if track > img_tracks img then FSIMAGE_BAD_TRKNUM
          else if sector \<ge> img_sectors img then FSIMAGE_BAD_SECNUM
          else c_int (track * (img_sectors img - img_sectors img mod 32) + sector)
      | TAP \<Rightarrow> -1)"

definition disk_image_check_sector :: "disk_image \<Rightarrow> nat \<Rightarrow> nat \<Rightarrow> int" where
  "disk_image_check_sector img track sector =
     (if device img = DEVICE_FS then fsimage_check_sector img track sector else 0)"


section \<open>Layouts of tracks\<close>

text \<open>
  Blocks laid down track after track: \<open>spt\<close> gives the sectors of the tracks 1 to \<open>n\<close>, and block
  numbers count the sectors before a sector.
\<close>

definition below :: "(nat \<Rightarrow> nat) \<Rightarrow> nat \<Rightarrow> nat" where
  "below spt t = sum_list (map spt [1..<t])"

locale track_layout =
  fixes spt :: "nat \<Rightarrow> nat" and n :: nat and blocks :: nat
  assumes total: "sum_list (map spt [1..<Suc n]) = blocks"
begin

lemma below_Suc: "1 \<le> t \<Longrightarrow> below spt (Suc t) = below spt t + spt t"
  by (simp add: below_def)

lemma below_mono: "t \<le> u \<Longrightarrow> 1 \<le> t \<Longrightarrow> below spt t \<le> below spt u"
  by (induction rule: dec_induct) (simp_all add: below_Suc)

lemma below_next: "1 \<le> t \<Longrightarrow> t < u \<Longrightarrow> below spt t + spt t \<le> below spt u"
  using below_mono [of "Suc t" u] by (simp add: below_Suc)

lemma block_less: "1 \<le> t \<Longrightarrow> t \<le> n \<Longrightarrow> s < spt t \<Longrightarrow> below spt t + s < blocks"
  using below_next [of t "Suc n"] total by (simp add: below_def)

lemma block_inj:
  assumes "1 \<le> t" "s < spt t" "1 \<le> t'" "s' < spt t'" "below spt t + s = below spt t' + s'"
  shows "t = t' \<and> s = s'"
proof -
  have "\<not> t < t'" using below_next [of t t'] assms by linarith
  moreover have "\<not> t' < t" using below_next [of t' t] assms by linarith
  ultimately show ?thesis using assms(5) by simp
qed

lemma block_exists:
  assumes "b < blocks"
  obtains t s where "1 \<le> t" "t \<le> n" "s < spt t" "b = below spt t + s"
proof -
  have "\<exists>t s. 1 \<le> t \<and> t \<le> u \<and> s < spt t \<and> b = below spt t + s" if "b < below spt (Suc u)" for u
    using that
  proof (induction u)
    case 0
    then show ?case by (simp add: below_def)
  next
    case (Suc u)
    show ?case
    proof (cases "b < below spt (Suc u)")
      case True
      then show ?thesis using Suc.IH le_SucI by blast
    next
      case False
      then have "b - below spt (Suc u) < spt (Suc u)" "b = below spt (Suc u) + (b - below spt (Suc u))"
        using Suc.prems below_Suc [of "Suc u"] by simp_all
      then show ?thesis by (metis le_SucI le_add1 le_refl plus_1_eq_Suc)
    qed
  qed
  moreover have "b < below spt (Suc n)" using assms total by (simp add: below_def)
  ultimately show ?thesis using that by blast
qed

lemma block_bij:
  "bij_betw (\<lambda>(t, s). below spt t + s) {(t, s). 1 \<le> t \<and> t \<le> n \<and> s < spt t} {..<blocks}"
proof (rule bij_betw_imageI)
  show "inj_on (\<lambda>(t, s). below spt t + s) {(t, s). 1 \<le> t \<and> t \<le> n \<and> s < spt t}"
    using block_inj by (auto simp: inj_on_def)
  show "(\<lambda>(t, s). below spt t + s) ` {(t, s). 1 \<le> t \<and> t \<le> n \<and> s < spt t} = {..<blocks}"
  proof (intro equalityI subsetI)
    fix b assume "b \<in> {..<blocks}"
    then obtain t s where "1 \<le> t" "t \<le> n" "s < spt t" "b = below spt t + s"
      using block_exists [of b] by auto
    then show "b \<in> (\<lambda>(t, s). below spt t + s) ` {(t, s). 1 \<le> t \<and> t \<le> n \<and> s < spt t}" by force
  qed (auto simp: block_less)
qed

end

text \<open>The sectors of a track and the number of tracks and blocks of the images of fixed size.\<close>

definition type_spt :: "disk_type \<Rightarrow> nat \<Rightarrow> nat" where
  "type_spt ty t =
     (if ty = D81 then NUM_SECTORS_1581
      else if ty = D1M then (if t = NUM_TRACKS_1000 then NUM_SYS_SECTORS_1000 else 256)
      else if ty = D2M then (if t = NUM_TRACKS_2000 then NUM_SYS_SECTORS_2000 else 256)
      else if ty = D4M then (if t = NUM_TRACKS_4000 then NUM_SYS_SECTORS_4000 else 256)
      else disk_image_sector_per_track ty t)"

fun type_tracks :: "disk_type \<Rightarrow> nat" where
  "type_tracks D64 = MAX_TRACKS_1541" | "type_tracks D67 = MAX_TRACKS_2040" | "type_tracks D71 = MAX_TRACKS_1571"
| "type_tracks D81 = MAX_TRACKS_1581" | "type_tracks D80 = MAX_TRACKS_8050" | "type_tracks D82 = MAX_TRACKS_8250"
| "type_tracks D1M = NUM_TRACKS_1000" | "type_tracks D2M = NUM_TRACKS_2000" | "type_tracks D4M = NUM_TRACKS_4000"
| "type_tracks _ = 0"

fun type_blocks :: "disk_type \<Rightarrow> nat" where
  "type_blocks D64 = MAX_BLOCKS_1541" | "type_blocks D67 = MAX_BLOCKS_2040" | "type_blocks D71 = MAX_BLOCKS_1571"
| "type_blocks D81 = MAX_BLOCKS_1581" | "type_blocks D80 = MAX_BLOCKS_8050" | "type_blocks D82 = MAX_BLOCKS_8250"
| "type_blocks D1M = MAX_BLOCKS_1000" | "type_blocks D2M = MAX_BLOCKS_2000" | "type_blocks D4M = MAX_BLOCKS_4000"
| "type_blocks _ = 0"

definition fixed_types :: "disk_type set" where
  "fixed_types = {D64, D67, D71, D81, D80, D82, D1M, D2M, D4M}"

lemmas track_consts = MAX_TRACKS_1541_def MAX_TRACKS_2040_def MAX_TRACKS_1571_def MAX_TRACKS_1581_def
  MAX_TRACKS_8050_def MAX_TRACKS_8250_def NUM_TRACKS_1000_def NUM_TRACKS_2000_def NUM_TRACKS_4000_def
  NUM_SYS_SECTORS_1000_def NUM_SYS_SECTORS_2000_def NUM_SYS_SECTORS_4000_def NUM_SECTORS_1581_def
  NUM_TRACKS_1541_def NUM_TRACKS_8050_def

lemmas block_consts = MAX_BLOCKS_1541_def MAX_BLOCKS_2040_def MAX_BLOCKS_1571_def MAX_BLOCKS_1581_def
  MAX_BLOCKS_8050_def MAX_BLOCKS_8250_def MAX_BLOCKS_1000_def MAX_BLOCKS_2000_def MAX_BLOCKS_4000_def
  NUM_BLOCKS_1541_def NUM_BLOCKS_8050_def

lemmas spt_defs = disk_image_sector_per_track_def zone_d64_def zone_d80_def sector_map_d64_def sector_map_d67_def
  sector_map_d80_def

lemma type_totals: "ty \<in> fixed_types \<Longrightarrow> sum_list (map (type_spt ty) [1..<Suc (type_tracks ty)]) = type_blocks ty"
  unfolding fixed_types_def
  by (elim insertE; simp add: type_spt_def track_consts block_consts spt_defs upt_rec)

end
