(* ===== verification/Disk_Layout.thy ===== *)
theory Disk_Layout
  imports Disk_Geometry
begin

lemma c_int_small: "n < 2 ^ 31 \<Longrightarrow> c_int n = int n"
  by (simp add: c_int_def signed_take_bit_int_eq_self_iff)

interpretation layout: track_layout "type_spt ty" "if ty \<in> fixed_types then type_tracks ty else 0"
    "if ty \<in> fixed_types then type_blocks ty else 0" for ty
  using type_totals by unfold_locales (simp del: upt_Suc)

lemma type_spt_track: "ty \<in> {D64, D67, D71, D80, D82} \<Longrightarrow> type_spt ty = disk_image_sector_per_track ty"
  by (auto simp: type_spt_def)

lemma below_sectors: "ty \<in> {D64, D67, D71, D80, D82} \<Longrightarrow> below (type_spt ty) t = sectors_below ty t"
  by (simp add: below_def sectors_below_def type_spt_track)

lemma below_per_track: "below (disk_image_sector_per_track ty) t = sectors_below ty t"
  by (simp add: below_def sectors_below_def)

lemma below_const: "(\<forall>i. 1 \<le> i \<and> i < t \<longrightarrow> type_spt ty i = k) \<Longrightarrow> below (type_spt ty) t = (t - 1) * k"
proof -
  assume "\<forall>i. 1 \<le> i \<and> i < t \<longrightarrow> type_spt ty i = k"
  then have "map (type_spt ty) [1..<t] = map (\<lambda>_. k) [1..<t]" by simp
  then show ?thesis unfolding below_def by (simp add: sum_list_triv del: map_eq_conv)
qed

text \<open>The second side of a double sided disk is laid out as the first.\<close>

lemma sectors_below_Suc: "1 \<le> t \<Longrightarrow> sectors_below ty (Suc t) = sectors_below ty t + disk_image_sector_per_track ty t"
  by (simp add: sectors_below_def)

lemma below_side2:
  assumes side: "\<And>i. 1 \<le> i \<Longrightarrow> disk_image_sector_per_track ty (m + i) = disk_image_sector_per_track ty1 i" and "Suc m \<le> t"
  shows "sectors_below ty t = sectors_below ty (Suc m) + sectors_below ty1 (t - m)"
  using assms(2)
proof (induction rule: dec_induct)
  case base
  then show ?case by (simp add: sectors_below_def)
next
  case (step t)
  then have "disk_image_sector_per_track ty t = disk_image_sector_per_track ty1 (t - m)" "Suc t - m = Suc (t - m)" "1 \<le> t - m"
    using side [of "t - m"] by simp_all
  then show ?case using step by (simp add: sectors_below_Suc)
qed

lemma side2_blocks:
  "35 < t \<Longrightarrow> sectors_below D71 t = NUM_BLOCKS_1541 + sectors_below D64 (t - 35)"
  "77 < t \<Longrightarrow> sectors_below D82 t = NUM_BLOCKS_8050 + sectors_below D80 (t - 77)"
proof -
  have "sectors_below D71 (Suc 35) = NUM_BLOCKS_1541" "sectors_below D82 (Suc 77) = NUM_BLOCKS_8050"
    by (simp_all add: sectors_below_def spt_defs block_consts upt_rec)
  then show "35 < t \<Longrightarrow> sectors_below D71 t = NUM_BLOCKS_1541 + sectors_below D64 (t - 35)"
    "77 < t \<Longrightarrow> sectors_below D82 t = NUM_BLOCKS_8050 + sectors_below D80 (t - 77)"
    using below_side2 [of D71 35 D64 t] below_side2 [of D82 77 D80 t] by (simp_all add: spt_defs)
qed

lemma side1_blocks:
  "t \<le> 36 \<Longrightarrow> sectors_below D71 t = sectors_below D64 t"
  "t \<le> 78 \<Longrightarrow> sectors_below D82 t = sectors_below D80 t"
  unfolding sectors_below_def
  by (intro arg_cong [of _ _ sum_list] map_cong refl; simp add: spt_defs)+

lemma spt_sides:
  "disk_image_sector_per_track D64 (if 35 < t then t - 35 else t) = disk_image_sector_per_track D71 t"
  "disk_image_sector_per_track D80 (if 77 < t then t - 77 else t) = disk_image_sector_per_track D82 t"
  by (simp_all add: spt_defs)

text \<open>The check is the block number in the layout, or an error.\<close>

lemma check_block:
  assumes "ty \<in> fixed_types" "img_type img = ty" "1 \<le> t" "t \<le> type_tracks ty"
  shows "fsimage_check_sector img t s =
    (if type_spt ty t \<le> s then FSIMAGE_BAD_SECNUM else c_int (below (type_spt ty) t + s))"
proof -
  consider "ty \<in> {D64, D67, D80}" | "ty = D71" | "ty = D82" | "ty = D81" | "ty \<in> {D1M, D2M, D4M}"
    using assms(1) by (auto simp: fixed_types_def)
  then show ?thesis
  proof cases
    case 1
    then have "below (type_spt ty) t = sectors_below ty t" by (auto intro!: below_sectors)
    then show ?thesis using 1 assms(2-4)
      by (auto simp: fsimage_check_sector_def check_tracks_def type_spt_track)
  next
    case 2
    then show ?thesis using assms(2-4) side2_blocks(1) [of t] side1_blocks(1) [of t] spt_sides(1) [of t]
      by (auto simp: fsimage_check_sector_def below_per_track type_spt_track Let_def track_consts)
  next
    case 3
    then show ?thesis using assms(2-4) side2_blocks(2) [of t] side1_blocks(2) [of t] spt_sides(2) [of t]
      by (auto simp: fsimage_check_sector_def below_per_track type_spt_track Let_def track_consts)
  next
    case 4
    have "below (type_spt D81) t = (t - 1) * NUM_SECTORS_1581" by (rule below_const) (simp add: type_spt_def)
    then show ?thesis using 4 assms(2-4)
      by (simp add: fsimage_check_sector_def check_tracks_def type_spt_def)
  next
    case 5
    have "below (type_spt ty) t = (t - 1) * 256"
      using 5 assms(4) by (intro below_const) (auto simp: type_spt_def track_consts)
    moreover have "fsimage_check_sector img t s = check_dxm (type_tracks ty) (type_spt ty (type_tracks ty)) t s"
      using 5 assms(2-4) by (auto simp: fsimage_check_sector_def type_spt_def track_consts)
    moreover have "t \<noteq> type_tracks ty \<Longrightarrow> type_spt ty t = 256" "type_spt ty (type_tracks ty) \<le> 256"
      using 5 by (auto simp: type_spt_def track_consts)
    ultimately show ?thesis using assms(4)
      by (cases "t = type_tracks ty") (auto simp: check_dxm_def)
  qed
qed

lemma check_bad_track:
  "ty \<in> fixed_types \<Longrightarrow> img_type img = ty \<Longrightarrow> t < 1 \<or> type_tracks ty < t \<Longrightarrow> fsimage_check_sector img t s = FSIMAGE_BAD_TRKNUM"
  unfolding fixed_types_def
  by (elim insertE disjE; simp add: fsimage_check_sector_def check_tracks_def check_dxm_def)

lemma check_layout:
  assumes "ty \<in> fixed_types" "img_type img = ty" "device img = DEVICE_FS"
  shows "disk_image_check_sector img t s =
    (if t < 1 \<or> type_tracks ty < t then FSIMAGE_BAD_TRKNUM
     else if type_spt ty t \<le> s then FSIMAGE_BAD_SECNUM else int (below (type_spt ty) t + s))"
proof (cases "1 \<le> t \<and> t \<le> type_tracks ty \<and> s < type_spt ty t")
  case True
  have "type_blocks ty \<le> 12960" using assms(1) by (auto simp: fixed_types_def block_consts)
  then have "c_int (below (type_spt ty) t + s) = int (below (type_spt ty) t + s)"
    using layout.block_less [of t ty s] True assms(1) by (intro c_int_small) simp
  then show ?thesis using True assms check_block [of ty img t s] by (simp add: disk_image_check_sector_def)
next
  case False
  then show ?thesis using assms check_block [of ty img t s] check_bad_track [of ty img t s]
    by (auto simp: disk_image_check_sector_def)
qed

text \<open>
  C33. On every image of fixed size the valid sectors are numbered without gaps or overlaps:
  \<open>disk_image_check_sector\<close> maps the tracks and sectors for which it gives no error one to one
  onto the block numbers below the number of blocks of the format.
\<close>

theorem sectors_fill_image:
  assumes "img_type img \<in> fixed_types" "device img = DEVICE_FS"
  shows "bij_betw (\<lambda>(t, s). nat (disk_image_check_sector img t s))
    {(t, s). 0 \<le> disk_image_check_sector img t s} {..<type_blocks (img_type img)}"
proof -
  let ?ty = "img_type img"
  note c = check_layout [OF assms(1) refl assms(2)]
  have "{(t, s). 0 \<le> disk_image_check_sector img t s} = {(t, s). 1 \<le> t \<and> t \<le> type_tracks ?ty \<and> s < type_spt ?ty t}"
    by (auto simp: c FSIMAGE_BAD_TRKNUM_def FSIMAGE_BAD_SECNUM_def split: if_splits)
  moreover have "bij_betw (\<lambda>(t, s). below (type_spt ?ty) t + s)
      {(t, s). 1 \<le> t \<and> t \<le> type_tracks ?ty \<and> s < type_spt ?ty t} {..<type_blocks ?ty}"
    using layout.block_bij [of ?ty] assms(1) by simp
  ultimately show ?thesis by (auto simp: c elim!: bij_betw_cong [THEN iffD1, rotated])
qed

theorem sectors_fill_image_witness:
  "bij_betw (\<lambda>(t, s). nat (disk_image_check_sector
      \<lparr>fd = None, err_map = None, err_len = 0, read_only = 0, device = DEVICE_FS, img_type = D64, img_tracks = 35,
       img_sectors = 0, img_gcr = None\<rparr> t s))
    {(t, s). 0 \<le> disk_image_check_sector
      \<lparr>fd = None, err_map = None, err_len = 0, read_only = 0, device = DEVICE_FS, img_type = D64, img_tracks = 35,
       img_sectors = 0, img_gcr = None\<rparr> t s} {..<802}"
  using sectors_fill_image [of "\<lparr>fd = None, err_map = None, err_len = 0, read_only = 0, device = DEVICE_FS, img_type = D64,
    img_tracks = 35, img_sectors = 0, img_gcr = None\<rparr>"]
  by (simp add: fixed_types_def block_consts)

end
