(* ===== verification/Disk_Image.thy ===== *)
theory Disk_Image
  imports Disk_Layout
begin

text \<open>
  Reading and writing sectors of disk images: the plain images of
  \<^verbatim>\<open>src/src/diskimage/fsimage-dxx.c\<close> with their error bytes, the raw images of
  \<^verbatim>\<open>src/src/diskimage/fsimage-gcr.c\<close>, and the dispatch of \<^verbatim>\<open>fsimage.c\<close> and \<^verbatim>\<open>diskimage.c\<close>.
  The outer \<open>None\<close> is undefined behaviour: an access outside an array or an overflow of a
  signed product. Host files accept every write. \<open>fuel\<close> bounds the header search on raw tracks.
  The images of type P64 use a library of another project, a parameter in \<open>disk_env\<close>.
\<close>

section \<open>Host files\<close>

definition util_fpread :: "u8 list \<Rightarrow> nat \<Rightarrow> int \<Rightarrow> u8 list option" where
  "util_fpread f num offset =
     (if 0 \<le> offset \<and> nat offset + num \<le> length f then Some (take num (drop (nat offset) f)) else None)"

definition util_fpwrite :: "u8 list \<Rightarrow> u8 list \<Rightarrow> nat \<Rightarrow> u8 list" where
  "util_fpwrite f buf offset =
     take offset (f @ replicate (offset - length f) 0) @ buf @ drop (offset + length buf) f"

definition util_le_buf_to_word :: "u8 list \<Rightarrow> nat" where
  "util_le_buf_to_word buf = unat (buf ! 0) + 256 * unat (buf ! 1)"

definition util_le_buf_to_dword :: "u8 list \<Rightarrow> nat" where
  "util_le_buf_to_dword buf = util_le_buf_to_word buf + 65536 * util_le_buf_to_word (drop 2 buf)"

definition util_word_to_le_buf :: "nat \<Rightarrow> u8 list" where
  "util_word_to_le_buf data = [of_nat data, of_nat (data div 256)]"

definition util_dword_to_le_buf :: "nat \<Rightarrow> u8 list" where
  "util_dword_to_le_buf data = [of_nat data, of_nat (data div 256), of_nat (data div 2 ^ 16), of_nat (data div 2 ^ 24)]"

section \<open>Error codes\<close>

definition CBMDOS_IPE_OK :: int where "CBMDOS_IPE_OK = 0"
definition CBMDOS_IPE_READ_ERROR_BNF :: int where "CBMDOS_IPE_READ_ERROR_BNF = 20"
definition CBMDOS_IPE_READ_ERROR_SYNC :: int where "CBMDOS_IPE_READ_ERROR_SYNC = 21"
definition CBMDOS_IPE_READ_ERROR_DATA :: int where "CBMDOS_IPE_READ_ERROR_DATA = 22"
definition CBMDOS_IPE_READ_ERROR_CHK :: int where "CBMDOS_IPE_READ_ERROR_CHK = 23"
definition CBMDOS_IPE_READ_ERROR_GCR :: int where "CBMDOS_IPE_READ_ERROR_GCR = 24"
definition CBMDOS_IPE_WRITE_ERROR_VER :: int where "CBMDOS_IPE_WRITE_ERROR_VER = 25"
definition CBMDOS_IPE_WRITE_PROTECT_ON :: int where "CBMDOS_IPE_WRITE_PROTECT_ON = 26"
definition CBMDOS_IPE_READ_ERROR_BCHK :: int where "CBMDOS_IPE_READ_ERROR_BCHK = 27"
definition CBMDOS_IPE_WRITE_ERROR_BIG :: int where "CBMDOS_IPE_WRITE_ERROR_BIG = 28"
definition CBMDOS_IPE_DISK_ID_MISMATCH :: int where "CBMDOS_IPE_DISK_ID_MISMATCH = 29"
definition CBMDOS_IPE_NOT_READY :: int where "CBMDOS_IPE_NOT_READY = 74"

definition CBMDOS_FDC_ERR_VERIFY :: nat where "CBMDOS_FDC_ERR_VERIFY = 7"
definition CBMDOS_FDC_ERR_WPROT :: nat where "CBMDOS_FDC_ERR_WPROT = 8"
definition CBMDOS_FDC_ERR_BLENGTH :: nat where "CBMDOS_FDC_ERR_BLENGTH = 10"
definition CBMDOS_FDC_ERR_DRIVE :: nat where "CBMDOS_FDC_ERR_DRIVE = 15"
definition CBMDOS_FDC_ERR_DECODE :: nat where "CBMDOS_FDC_ERR_DECODE = 16"

text \<open>The switch that both readers use; their default differs.\<close>

definition fdc_to_ipe :: "int \<Rightarrow> nat \<Rightarrow> int" where
  "fdc_to_ipe dflt rf =
     (if rf = CBMDOS_FDC_ERR_OK then CBMDOS_IPE_OK
      else if rf = CBMDOS_FDC_ERR_HEADER then CBMDOS_IPE_READ_ERROR_BNF
      else if rf = CBMDOS_FDC_ERR_SYNC then CBMDOS_IPE_READ_ERROR_SYNC
      else if rf = CBMDOS_FDC_ERR_NOBLOCK then CBMDOS_IPE_READ_ERROR_DATA
      else if rf = CBMDOS_FDC_ERR_DCHECK then CBMDOS_IPE_READ_ERROR_CHK
      else if rf = CBMDOS_FDC_ERR_VERIFY then CBMDOS_IPE_WRITE_ERROR_VER
      else if rf = CBMDOS_FDC_ERR_WPROT then CBMDOS_IPE_WRITE_PROTECT_ON
      else if rf = CBMDOS_FDC_ERR_HCHECK then CBMDOS_IPE_READ_ERROR_BCHK
      else if rf = CBMDOS_FDC_ERR_BLENGTH then CBMDOS_IPE_WRITE_ERROR_BIG
      else if rf = CBMDOS_FDC_ERR_ID then CBMDOS_IPE_DISK_ID_MISMATCH
      else if rf = CBMDOS_FDC_ERR_DRIVE then CBMDOS_IPE_NOT_READY
      else if rf = CBMDOS_FDC_ERR_DECODE then CBMDOS_IPE_READ_ERROR_GCR
      else dflt)"

section \<open>Plain images\<close>

definition MAX_GCR_TRACKS :: nat where "MAX_GCR_TRACKS = 168"

text \<open>\<^verbatim>\<open>tracks[(track * 2) - 2]\<close>, the index computed on unsigned integers.\<close>

definition gcr_index :: "nat \<Rightarrow> nat option" where
  "gcr_index track = (let i = nat ((int track * 2 - 2) mod 2 ^ 32) in if i < MAX_GCR_TRACKS then Some i else None)"

text \<open>\<^verbatim>\<open>sectors * 256\<close> on signed integers.\<close>

definition block_offset :: "int \<Rightarrow> nat option" where
  "block_offset sectors = (if sectors * 256 < 2 ^ 31 then Some (nat (sectors * 256)) else None)"

text \<open>The error byte of a block: \<open>Some None\<close> without a map, \<open>None\<close> outside the map.\<close>

definition error_entry :: "disk_image \<Rightarrow> int \<Rightarrow> nat option option" where
  "error_entry img sectors =
     (case err_map img of
        None \<Rightarrow> Some None
      | Some m \<Rightarrow> if nat sectors < length m then Some (Some (unat (m ! nat sectors))) else None)"

text \<open>The result is the return value and the sector, when the buffer is written.\<close>

definition fsimage_dxx_read_sector :: "nat \<Rightarrow> disk_image \<Rightarrow> nat \<Rightarrow> nat \<Rightarrow> (int \<times> u8 list option) option" where
  "fsimage_dxx_read_sector fuel img track sector =
     (let sectors = disk_image_check_sector img track sector
      in if sectors < 0 then Some (-1, None)
         else
           Option.bind (block_offset sectors) (\<lambda>offset.
           Option.bind (error_entry img sectors) (\<lambda>e.
             if (case e of None \<Rightarrow> False | Some rf \<Rightarrow> rf \<notin> {0, 1, 5, 7, 8})
             then Some (fdc_to_ipe CBMDOS_IPE_OK (the e), None)
             else case img_gcr img of
               None \<Rightarrow>
                 Option.bind (fd img) (\<lambda>f.
                   case util_fpread f 256 (int offset) of
                     None \<Rightarrow> Some (-1, None)
                   | Some buf \<Rightarrow> Some (fdc_to_ipe CBMDOS_IPE_OK (case e of Some rf \<Rightarrow> rf | None \<Rightarrow> CBMDOS_FDC_ERR_OK), Some buf))
             | Some tracks \<Rightarrow>
                 Option.bind (gcr_index track) (\<lambda>i.
                 Option.bind (gcr_read_sector fuel (tracks i) (of_nat sector)) (\<lambda>(rf, data).
                   let rf = (case e of Some x \<Rightarrow> if rf = CBMDOS_FDC_ERR_OK then x else rf | None \<Rightarrow> rf)
                   in Some (fdc_to_ipe CBMDOS_IPE_OK rf, if data = [] then None else Some data))))))"

text \<open>The part of \<open>fsimage_dxx_write_sector\<close> that clears the error of the block.\<close>

definition clear_error :: "int \<Rightarrow> disk_image \<Rightarrow> disk_image option" where
  "clear_error sectors img =
     (case err_map img of
        None \<Rightarrow> Some img
      | Some m \<Rightarrow>
          if nat sectors < length m
          then if m ! nat sectors \<noteq> of_nat CBMDOS_FDC_ERR_OK
               then Some (img\<lparr>fd := map_option (\<lambda>f. util_fpwrite f [of_nat CBMDOS_FDC_ERR_OK] (err_len img * 256 + nat sectors)) (fd img),
                 err_map := Some (m[nat sectors := of_nat CBMDOS_FDC_ERR_OK])\<rparr>)
               else Some img
          else None)"

definition fsimage_dxx_write_sector :: "nat \<Rightarrow> disk_image \<Rightarrow> u8 list \<Rightarrow> nat \<Rightarrow> nat \<Rightarrow> (int \<times> disk_image) option" where
  "fsimage_dxx_write_sector fuel img buf track sector =
     (let sectors = disk_image_check_sector img track sector
      in if sectors < 0 then Some (-1, img)
         else
           Option.bind (block_offset sectors) (\<lambda>offset.
           Option.bind (fd img) (\<lambda>f.
           let img = img\<lparr>fd := Some (util_fpwrite f buf offset)\<rparr>
           in Option.bind
                (case img_gcr img of
                   None \<Rightarrow> Some img
                 | Some tracks \<Rightarrow>
                     Option.bind (gcr_index track) (\<lambda>i.
                     Option.bind (gcr_write_sector fuel (tracks i) buf (of_nat sector)) (\<lambda>(rf, raw).
                       Some (img\<lparr>img_gcr := Some (tracks(i := raw))\<rparr>))))
                (\<lambda>img. map_option (Pair 0) (clear_error sectors img)))))"

section \<open>Raw images\<close>

definition gcr_image_header_expected_1541 :: "u8 list" where
  "gcr_image_header_expected_1541 = [0x47, 0x43, 0x52, 0x2D, 0x31, 0x35, 0x34, 0x31, 0x00]"

definition gcr_image_header_expected_1571 :: "u8 list" where
  "gcr_image_header_expected_1571 = [0x47, 0x43, 0x52, 0x2D, 0x31, 0x35, 0x37, 0x31, 0x00]"

definition raw_track_size_d64 :: "nat list" where "raw_track_size_d64 = [6250, 6666, 7142, 7692]"
definition raw_track_size_d67 :: "nat list" where "raw_track_size_d67 = [6250, 6666, 7142, 7692]"
definition raw_track_size_d80 :: "nat list" where "raw_track_size_d80 = [9375, 10000, 10714, 11538]"

definition disk_image_raw_track_size :: "disk_type \<Rightarrow> nat \<Rightarrow> nat" where
  "disk_image_raw_track_size format track =
     (if format \<in> {D64, G64, P64, D71, G71} then raw_track_size_d64 ! disk_image_speed_map format track
      else if format = D67 then raw_track_size_d67 ! disk_image_speed_map format track
      else if format \<in> {D80, D82} then raw_track_size_d80 ! disk_image_speed_map format track
      else 1)"

text \<open>The position of an entry of the table of half tracks, on unsigned integers.\<close>

definition half_track_entry :: "nat \<Rightarrow> nat \<Rightarrow> int" where
  "half_track_entry half_track n = (12 + (int half_track - 2 + int n) * 4) mod 2 ^ 32"

text \<open>The offset, the longest track and the number of half tracks; \<open>None\<close> is the result -1.\<close>

definition fsimage_gcr_seek_half_track :: "u8 list option \<Rightarrow> nat \<Rightarrow> (nat \<times> nat \<times> nat) option" where
  "fsimage_gcr_seek_half_track fo half_track =
     Option.bind fo (\<lambda>f.
     Option.bind (util_fpread f 12 0) (\<lambda>buf.
       if take 9 buf \<noteq> gcr_image_header_expected_1541 \<and> take 9 buf \<noteq> gcr_image_header_expected_1571 then None
       else if unat (buf ! 9) > MAX_GCR_TRACKS then None
       else map_option (\<lambda>b. (util_le_buf_to_dword b, util_le_buf_to_word (drop 10 buf), unat (buf ! 9)))
              (util_fpread f 4 (half_track_entry half_track 0))))"

definition fsimage_gcr_read_half_track :: "disk_image \<Rightarrow> nat \<Rightarrow> int \<times> disk_track" where
  "fsimage_gcr_read_half_track img half_track =
     (case fsimage_gcr_seek_half_track (fd img) half_track of
        None \<Rightarrow> (-1, \<lparr>t_data = None, t_size = 0\<rparr>)
      | Some (offset, max_track_length, num_half_tracks) \<Rightarrow>
          let f = the (fd img)
          in if offset \<noteq> 0 then
               case util_fpread f 2 (int offset) of
                 None \<Rightarrow> (-1, \<lparr>t_data = None, t_size = 0\<rparr>)
               | Some buf \<Rightarrow>
                   let track_len = util_le_buf_to_word buf
                   in if track_len < 1 \<or> track_len > max_track_length then (-1, \<lparr>t_data = None, t_size = 0\<rparr>)
                      else case util_fpread f track_len (int (offset + 2)) of
                        None \<Rightarrow> (-1, \<lparr>t_data = Some (take track_len (drop (offset + 2) f @ replicate track_len 0)), t_size = track_len\<rparr>)
                      | Some data \<Rightarrow> (0, \<lparr>t_data = Some data, t_size = track_len\<rparr>)
             else
               let sz = disk_image_raw_track_size (img_type img) (half_track div 2)
               in (0, \<lparr>t_data = Some (replicate sz 0x55), t_size = sz\<rparr>))"

definition fsimage_gcr_read_track :: "disk_image \<Rightarrow> nat \<Rightarrow> int \<times> disk_track" where
  "fsimage_gcr_read_track img track = fsimage_gcr_read_half_track img (2 * track)"

definition fsimage_gcr_write_half_track :: "disk_image \<Rightarrow> nat \<Rightarrow> disk_track \<Rightarrow> (int \<times> disk_image) option" where
  "fsimage_gcr_write_half_track img half_track raw =
     (case fsimage_gcr_seek_half_track (fd img) half_track of
        None \<Rightarrow> Some (-1, img)
      | Some (offset, max_track_length, num_half_tracks) \<Rightarrow>
          if read_only img \<noteq> 0 \<or> t_size raw > max_track_length then Some (-1, img)
          else
            let f = the (fd img);
                extend = (offset = 0);
                offset = (if extend then length f else offset)
            in case t_data raw of
                 None \<Rightarrow> Some (0, img)
               | Some data \<Rightarrow>
                   let f = util_fpwrite f (util_word_to_le_buf (t_size raw)) offset
                   in if t_size raw = 0 then Some (-1, img\<lparr>fd := Some f\<rparr>)
                      else if t_size raw > length data then None
                      else
                        let f = util_fpwrite f (take (t_size raw) data @ replicate (max_track_length - t_size raw) 0) (offset + 2)
                        in if extend then
                             let f = util_fpwrite f (util_dword_to_le_buf offset) (nat (half_track_entry half_track 0));
                                 f = util_fpwrite f (util_dword_to_le_buf (disk_image_speed_map (img_type img) (half_track div 2)))
                                       (nat (half_track_entry half_track num_half_tracks))
                             in Some (0, img\<lparr>fd := Some f\<rparr>)
                           else Some (0, img\<lparr>fd := Some f\<rparr>))"

definition fsimage_gcr_write_track :: "disk_image \<Rightarrow> nat \<Rightarrow> disk_track \<Rightarrow> (int \<times> disk_image) option" where
  "fsimage_gcr_write_track img track raw = fsimage_gcr_write_half_track img (2 * track) raw"

definition fsimage_gcr_read_sector :: "nat \<Rightarrow> disk_image \<Rightarrow> nat \<Rightarrow> nat \<Rightarrow> (int \<times> u8 list option) option" where
  "fsimage_gcr_read_sector fuel img track sector =
     (if track > img_tracks img then Some (-1, None)
      else
        Option.bind
          (case img_gcr img of
             None \<Rightarrow>
               (case fsimage_gcr_read_track img track of (r, raw) \<Rightarrow>
                  if r < 0 then Some (Inl (-1))
                  else if t_data raw = None then Some (Inl CBMDOS_IPE_NOT_READY)
                  else map_option Inr (gcr_read_sector fuel raw (of_nat sector)))
           | Some tracks \<Rightarrow>
               Option.bind (gcr_index track) (\<lambda>i. map_option Inr (gcr_read_sector fuel (tracks i) (of_nat sector))))
          (\<lambda>x. case x of
             Inl r \<Rightarrow> Some (r, None)
           | Inr (rf, data) \<Rightarrow> Some (fdc_to_ipe CBMDOS_IPE_NOT_READY rf, if data = [] then None else Some data)))"

definition fsimage_gcr_write_sector :: "nat \<Rightarrow> disk_image \<Rightarrow> u8 list \<Rightarrow> nat \<Rightarrow> nat \<Rightarrow> (int \<times> disk_image) option" where
  "fsimage_gcr_write_sector fuel img buf track sector =
     (if track > img_tracks img then Some (-1, img)
      else case img_gcr img of
        None \<Rightarrow>
          (case fsimage_gcr_read_track img track of (r, raw) \<Rightarrow>
             if r < 0 \<or> t_data raw = None then Some (-1, img)
             else
               Option.bind (gcr_write_sector fuel raw buf (of_nat sector)) (\<lambda>(rf, raw).
                 if rf \<noteq> CBMDOS_FDC_ERR_OK then Some (-1, img)
                 else Option.bind (fsimage_gcr_write_track img track raw) (\<lambda>(r, img).
                   if r < 0 then Some (-1, img) else Some (0, img))))
      | Some tracks \<Rightarrow>
          Option.bind (gcr_index track) (\<lambda>i.
          Option.bind (gcr_write_sector fuel (tracks i) buf (of_nat sector)) (\<lambda>(rf, raw).
            let img = img\<lparr>img_gcr := Some (tracks(i := raw))\<rparr>
            in if rf \<noteq> CBMDOS_FDC_ERR_OK then Some (-1, img)
               else Option.bind (fsimage_gcr_write_track img track raw) (\<lambda>(r, img).
                 if r < 0 then Some (-1, img) else Some (0, img)))))"

section \<open>Dispatch\<close>

text \<open>What stands for code of other projects: the P64 library, and the bound on header searches.\<close>

record disk_env =
  p64_read :: "disk_image \<Rightarrow> nat \<Rightarrow> nat \<Rightarrow> (int \<times> u8 list option) option"
  p64_write :: "disk_image \<Rightarrow> u8 list \<Rightarrow> nat \<Rightarrow> nat \<Rightarrow> (int \<times> disk_image) option"
  gcr_fuel :: nat

definition dxx_types :: "disk_type set" where
  "dxx_types = {D64, D67, D71, D81, D80, D82, D1M, D2M, D4M, DHD, D90}"

definition fsimage_read_sector :: "disk_env \<Rightarrow> disk_image \<Rightarrow> nat \<Rightarrow> nat \<Rightarrow> (int \<times> u8 list option) option" where
  "fsimage_read_sector e img track sector =
     (if fd img = None then Some (CBMDOS_IPE_NOT_READY, None)
      else if img_type img \<in> dxx_types then fsimage_dxx_read_sector (gcr_fuel e) img track sector
      else if img_type img \<in> {G64, G71} then fsimage_gcr_read_sector (gcr_fuel e) img track sector
      else if img_type img = P64 then p64_read e img track sector
      else Some (CBMDOS_IPE_NOT_READY, None))"

definition fsimage_write_sector :: "disk_env \<Rightarrow> disk_image \<Rightarrow> u8 list \<Rightarrow> nat \<Rightarrow> nat \<Rightarrow> (int \<times> disk_image) option" where
  "fsimage_write_sector e img buf track sector =
     (if fd img = None then Some (-1, img)
      else
        Option.bind
          (if img_type img \<in> dxx_types then fsimage_dxx_write_sector (gcr_fuel e) img buf track sector
           else if img_type img \<in> {G64, G71} then fsimage_gcr_write_sector (gcr_fuel e) img buf track sector
           else if img_type img = P64 then p64_write e img buf track sector
           else Some (-1, img))
          (\<lambda>(r, img). Some (if r < 0 then -1 else 0, img)))"

definition disk_image_read_sector :: "disk_env \<Rightarrow> disk_image \<Rightarrow> nat \<Rightarrow> nat \<Rightarrow> (int \<times> u8 list option) option" where
  "disk_image_read_sector e img track sector =
     (if device img = DEVICE_FS then fsimage_read_sector e img track sector else Some (-1, None))"

definition disk_image_write_sector :: "disk_env \<Rightarrow> disk_image \<Rightarrow> u8 list \<Rightarrow> nat \<Rightarrow> nat \<Rightarrow> (int \<times> disk_image) option" where
  "disk_image_write_sector e img buf track sector =
     (if read_only img \<noteq> 0 then Some (-1, img)
      else if device img = DEVICE_FS then fsimage_write_sector e img buf track sector
      else Some (-1, img))"

text \<open>A program with no P64 library, and a bound of more bits than a raw track has.\<close>

definition plain_env :: disk_env where
  "plain_env = \<lparr>p64_read = \<lambda>img t s. Some (-1, None), p64_write = \<lambda>img b t s. Some (-1, img), gcr_fuel = 0x80000\<rparr>"

end
