(* ===== verification/Vdrive.thy ===== *)
theory Vdrive
  imports Disk_Image
begin

text \<open>
  The virtual drive, \<^verbatim>\<open>src/src/vdrive/vdrive.c\<close>: its state, the geometry of the formats, and
  the way from logical tracks and sectors, in partitions of large images too, to the sectors
  of the image.
\<close>

section \<open>State\<close>

datatype image_format = FORMAT_1541 | FORMAT_1571 | FORMAT_1581 | FORMAT_8050 | FORMAT_8250 | FORMAT_2040
  | FORMAT_NP | FORMAT_SYS | FORMAT_9000 | FORMAT_NONE

text \<open>
  The members of \<^verbatim>\<open>struct vdrive_s\<close> that sector access and the BAM use. An empty \<open>bam\<close> is the
  null pointer; \<open>vd_error\<close> is the last error given to \<^verbatim>\<open>vdrive_command_set_error\<close>.
\<close>

record vdrive =
  vd_image :: "disk_image option"
  image_mode :: int
  image_format :: image_format
  Bam_Track :: nat
  Bam_Sector :: nat
  bam_name :: nat
  bam_id :: nat
  bam_state :: "int list"
  bam_tracks :: "int list"
  bam_sectors :: "int list"
  Header_Track :: nat
  Header_Sector :: nat
  Dir_Track :: nat
  Dir_Sector :: nat
  num_tracks :: nat
  Part_Start :: nat
  Part_End :: nat
  current_offset :: u32
  current_part :: int
  cheadertrack :: "nat \<Rightarrow> nat"
  cheadersector :: "nat \<Rightarrow> nat"
  cdirtrack :: "nat \<Rightarrow> nat"
  cdirsector :: "nat \<Rightarrow> nat"
  cpartstart :: "nat \<Rightarrow> nat"
  cpartend :: "nat \<Rightarrow> nat"
  d90toggle :: bool
  haspt :: bool
  bam_size :: nat
  bam :: "u8 list"
  vd_error :: "(int \<times> nat \<times> nat) option"

section \<open>Sectors of a track\<close>

text \<open>The results are used as unsigned numbers: -1 becomes the greatest one.\<close>

definition vdrive_get_max_sectors :: "vdrive \<Rightarrow> nat \<Rightarrow> nat" where
  "vdrive_get_max_sectors vd track =
     (case image_format vd of
        FORMAT_1541 \<Rightarrow> disk_image_sector_per_track D64 track
      | FORMAT_2040 \<Rightarrow> disk_image_sector_per_track D67 track
      | FORMAT_1571 \<Rightarrow> disk_image_sector_per_track D71 track
      | FORMAT_8050 \<Rightarrow> disk_image_sector_per_track D80 track
      | FORMAT_1581 \<Rightarrow> 40
      | FORMAT_8250 \<Rightarrow>
          if track \<le> NUM_TRACKS_8250 div 2 then disk_image_sector_per_track D80 track
          else disk_image_sector_per_track D80 (track - NUM_TRACKS_8250 div 2)
      | FORMAT_NP \<Rightarrow> 256
      | FORMAT_9000 \<Rightarrow> img_sectors (the (vd_image vd))
      | _ \<Rightarrow> 2 ^ 32 - 1)"

definition vdrive_get_max_sectors_per_head :: "vdrive \<Rightarrow> nat \<Rightarrow> nat" where
  "vdrive_get_max_sectors_per_head vd track =
     (if image_format vd = FORMAT_9000 then 32 else vdrive_get_max_sectors vd track)"

section \<open>Logical and physical sectors\<close>

definition tosec4171 :: "int list" where
  "tosec4171 = [
      -1,
       0,   21,   42,   63,   84,  105,  126,  147,  168,  189,
     210,  231,  252,  273,  294,  315,  336,  357,  376,  395,
     414,  433,  452,  471,  490,  508,  526,  544,  562,  580,
     598,  615,  632,  649,  666,
     683,  704,  725,  746,  767,  788,  809,  830,  851,  872,
     893,  914,  935,  956,  977,  998, 1019, 1040, 1059, 1078,
    1097, 1116, 1135, 1154, 1173, 1191, 1209, 1227, 1245, 1263,
    1281, 1298, 1315, 1332, 1349]"

definition max4171 :: "int list" where
  "max4171 = [
    -1,
    21, 21, 21, 21, 21, 21, 21, 21, 21, 21,
    21, 21, 21, 21, 21, 21, 21, 19, 19, 19,
    19, 19, 19, 19, 18, 18, 18, 18, 18, 18,
    17, 17, 17, 17, 17,
    21, 21, 21, 21, 21, 21, 21, 21, 21, 21,
    21, 21, 21, 21, 21, 21, 21, 19, 19, 19,
    19, 19, 19, 19, 18, 18, 18, 18, 18, 18,
    17, 17, 17, 17, 17]"

text \<open>The block of a sector in its partition; the limit of the system partition is its type's.\<close>

definition partition_offset :: "vdrive \<Rightarrow> disk_image \<Rightarrow> nat \<Rightarrow> nat \<Rightarrow> nat option" where
  "partition_offset vd img track sector =
     (if image_format vd \<noteq> FORMAT_SYS \<and> track < 1 then None
      else case image_format vd of
        FORMAT_1541 \<Rightarrow>
          if track > 35 \<or> int sector \<ge> max4171 ! track then None else Some (nat (tosec4171 ! track) + sector)
      | FORMAT_1571 \<Rightarrow>
          if track > 70 \<or> int sector \<ge> max4171 ! track then None else Some (nat (tosec4171 ! track) + sector)
      | FORMAT_1581 \<Rightarrow> if track > 80 \<or> sector \<ge> 40 then None else Some ((track - 1) * 40 + sector)
      | FORMAT_NP \<Rightarrow> if track > num_tracks vd \<or> sector > 255 then None else Some ((track - 1) * 256 + sector)
      | FORMAT_SYS \<Rightarrow>
          if track > 1 then None
          else if img_type img = DHD then (if sector > 255 then None else Some (track * 256 + sector))
          else if img_type img \<in> {D1M, D2M, D4M}
          then (if track = 0 \<and> sector > 7
                  \<or> sector \<ge> (if img_type img = D1M then 32 else if img_type img = D2M then 72 else 152)
                then None else Some (track * 8 + sector))
          else None
      | _ \<Rightarrow> None)"

definition vdrive_log_to_phy :: "vdrive \<Rightarrow> nat \<Rightarrow> nat \<Rightarrow> (nat \<times> nat) option" where
  "vdrive_log_to_phy vd track sector =
     (case vd_image vd of
        None \<Rightarrow> None
      | Some img \<Rightarrow>
          if current_offset vd = 0xffffffff then None
          else if haspt vd then
            map_option (\<lambda>offset.
              if img_type img = DHD then
                let t = unat (drop_bit 15 (current_offset vd)) + 1;
                    s = (2 * unat (current_offset vd)) mod 65536 + offset
                in if s \<ge> 65536 then (t + 1, s mod 65536) else (t, s)
              else
                let offset = (offset + 2 * unat (current_offset vd)) mod 2 ^ 32
                in (offset div 256 + 1, offset mod 256))
              (partition_offset vd img track sector)
          else if img_type img = G71 then
            (if track > 70 then None else Some (if track > 35 then track + 7 else track, sector))
          else Some (track, sector))"

section \<open>Reading and writing\<close>

definition vdrive_read_sector :: "disk_env \<Rightarrow> nat \<Rightarrow> nat \<Rightarrow> vdrive \<Rightarrow> (int \<times> u8 list option \<times> vdrive) option" where
  "vdrive_read_sector e track sector vd =
     (let vd = (case vd_image vd of Some img \<Rightarrow> vd\<lparr>image_mode := read_only img\<rparr> | None \<Rightarrow> vd)
      in if image_mode vd < 0 then Some (CBMDOS_IPE_NOT_READY, None, vd)
         else case vdrive_log_to_phy vd track sector of
           None \<Rightarrow> Some (CBMDOS_IPE_NOT_READY, None, vd)
         | Some (t, s) \<Rightarrow>
             map_option (\<lambda>(ret, buf). (ret, buf, vd)) (disk_image_read_sector e (the (vd_image vd)) t s))"

definition vdrive_write_sector :: "disk_env \<Rightarrow> u8 list \<Rightarrow> nat \<Rightarrow> nat \<Rightarrow> vdrive \<Rightarrow> (int \<times> vdrive) option" where
  "vdrive_write_sector e buf track sector vd =
     (let vd = (case vd_image vd of Some img \<Rightarrow> vd\<lparr>image_mode := read_only img\<rparr> | None \<Rightarrow> vd)
      in if image_mode vd > 0 then Some (CBMDOS_IPE_WRITE_PROTECT_ON, vd)
         else if image_mode vd < 0 then Some (CBMDOS_IPE_NOT_READY, vd)
         else case vdrive_log_to_phy vd track sector of
           None \<Rightarrow> Some (CBMDOS_IPE_NOT_READY, vd)
         | Some (t, s) \<Rightarrow>
             map_option (\<lambda>(ret, img). (ret, vd\<lparr>vd_image := Some img\<rparr>))
               (disk_image_write_sector e (the (vd_image vd)) buf t s))"

section \<open>Geometry\<close>

definition set_places :: "nat \<times> nat \<Rightarrow> nat \<times> nat \<Rightarrow> nat \<times> nat \<Rightarrow> nat \<times> nat \<Rightarrow> vdrive \<Rightarrow> vdrive" where
  "set_places bamts header offsets dirts vd = vd\<lparr>Bam_Track := fst bamts, Bam_Sector := snd bamts,
     bam_name := fst offsets, bam_id := snd offsets, Header_Track := fst header, Header_Sector := snd header,
     Dir_Track := fst dirts, Dir_Sector := snd dirts\<rparr>"

text \<open>The drives D9090 and D9060 keep the places in their first sector; \<open>tmp\<close> is its buffer.\<close>

definition geometry_9000 :: "u8 list \<Rightarrow> vdrive \<Rightarrow> vdrive" where
  "geometry_9000 tmp vd =
     (let i = num_tracks vd div 2;
          b = (\<lambda>k. unat (tmp ! k))
      in (if b 4 \<noteq> i \<or> b 6 \<noteq> i \<or> b 8 \<noteq> 1 \<or> b 5 \<noteq> 10 \<or> b 7 \<noteq> 20
          then set_places (1, 0) (i, 20) (6, 24) (i, 10) vd
          else set_places (b 8, b 9) (b 6, b 7) (6, 24) (b 4, b 5) vd)\<lparr>Part_Start := 0\<rparr>)"

text \<open>\<open>stack\<close> is what the uninitialised buffer holds when the sector cannot be read.\<close>

definition vdrive_set_disk_geometry :: "disk_env \<Rightarrow> u8 list \<Rightarrow> vdrive \<Rightarrow> vdrive option" where
  "vdrive_set_disk_geometry e stack vd =
     (let vd = vd\<lparr>Part_Start := 1\<rparr>
      in Option.bind
           (case image_format vd of
              FORMAT_1541 \<Rightarrow> Some (set_places (18, 0) (18, 0) (144, 162) (18, 1) vd)
            | FORMAT_2040 \<Rightarrow> Some (set_places (18, 0) (18, 0) (144, 162) (18, 1) vd)
            | FORMAT_1571 \<Rightarrow> Some (set_places (18, 0) (18, 0) (144, 162) (18, 1) vd)
            | FORMAT_1581 \<Rightarrow> Some (set_places (40, 0) (40, 0) (4, 22) (40, 3) vd)
            | FORMAT_8050 \<Rightarrow> Some (set_places (38, 0) (39, 0) (6, 24) (39, 1) vd)
            | FORMAT_8250 \<Rightarrow> Some (set_places (38, 0) (39, 0) (6, 24) (39, 1) vd)
            | FORMAT_NP \<Rightarrow> Some (set_places (1, 1) (1, 1) (4, 22) (1, 34) vd)
            | FORMAT_SYS \<Rightarrow> Some (set_places (0, 0) (0, 0) (0, 0) (1, 0) vd)
            | FORMAT_9000 \<Rightarrow>
                map_option (\<lambda>(ret, buf, vd). geometry_9000 (case buf of Some b \<Rightarrow> b | None \<Rightarrow> stack) vd)
                  (vdrive_read_sector e 0 0 vd)
            | FORMAT_NONE \<Rightarrow> Some vd)
           (\<lambda>vd.
             let vd = vd\<lparr>Part_End := num_tracks vd\<rparr>; p = nat (current_part vd)
             in if current_part vd < 0 \<or> current_part vd > 255 then None
                else if cheadertrack vd p = 0 then
                  Some (vd\<lparr>cheadertrack := (cheadertrack vd)(p := Header_Track vd),
                    cheadersector := (cheadersector vd)(p := Header_Sector vd),
                    cdirtrack := (cdirtrack vd)(p := Dir_Track vd),
                    cdirsector := (cdirsector vd)(p := Dir_Sector vd),
                    cpartstart := (cpartstart vd)(p := 1),
                    cpartend := (cpartend vd)(p := num_tracks vd)\<rparr>)
                else
                  let vd = vd\<lparr>Header_Track := cheadertrack vd p, Header_Sector := cheadersector vd p,
                    Dir_Track := cdirtrack vd p, Dir_Sector := cdirsector vd p,
                    Part_Start := cpartstart vd p, Part_End := cpartend vd p\<rparr>
                  in Some (if image_format vd = FORMAT_1581
                     then vd\<lparr>Bam_Track := Header_Track vd, Bam_Sector := Header_Sector vd\<rparr> else vd)))"

end
