(* ===== verification/Vdrive_Bam.thy ===== *)
theory Vdrive_Bam
  imports Vdrive
begin

text \<open>
  The block availability map of the virtual drive, \<^verbatim>\<open>src/src/vdrive/vdrive-bam.c\<close>: loading and
  storing its blocks, the entry of a track in each format, allocating and freeing sectors,
  and the searches for free ones. \<open>None\<close> is an access outside an array. Unsigned numbers are
  natural numbers where the code does not let them wrap.
\<close>

section \<open>Constants\<close>

definition VDRIVE_BAM_MAX_STATES :: nat where "VDRIVE_BAM_MAX_STATES = 33"
definition BAM_BIT_MAP :: nat where "BAM_BIT_MAP = 4"
definition BAM_BIT_MAP_1581 :: nat where "BAM_BIT_MAP_1581 = 16"
definition BAM_BIT_MAP_8050 :: nat where "BAM_BIT_MAP_8050 = 6"
definition BAM_BIT_MAP_NP :: nat where "BAM_BIT_MAP_NP = 32"
definition BAM_BIT_MAP_9000 :: nat where "BAM_BIT_MAP_9000 = 16"
definition BAM_EXT_BIT_MAP_1541 :: nat where "BAM_EXT_BIT_MAP_1541 = 192"
definition BAM_EXT_BIT_MAP_1571 :: nat where "BAM_EXT_BIT_MAP_1571 = 221"
definition BAM_TRACK_1581 :: nat where "BAM_TRACK_1581 = 40"
definition DIR_TRACK_NP :: nat where "DIR_TRACK_NP = 1"
definition CBMDOS_IPE_ILLEGAL_TRACK_OR_SECTOR :: int where "CBMDOS_IPE_ILLEGAL_TRACK_OR_SECTOR = 66"
definition CBMDOS_IPE_NO_BLOCK :: int where "CBMDOS_IPE_NO_BLOCK = 65"

section \<open>Arrays\<close>

definition bam_byte :: "nat \<Rightarrow> vdrive \<Rightarrow> u8 option" where
  "bam_byte i vd = (if i < length (bam vd) then Some (bam vd ! i) else None)"

definition bam_store :: "nat \<Rightarrow> u8 \<Rightarrow> vdrive \<Rightarrow> vdrive option" where
  "bam_store i x vd = (if i < length (bam vd) then Some (vd\<lparr>bam := (bam vd)[i := x]\<rparr>) else None)"

definition set_bam_state :: "nat \<Rightarrow> int \<Rightarrow> vdrive \<Rightarrow> vdrive option" where
  "set_bam_state p x vd =
     (if p < VDRIVE_BAM_MAX_STATES then Some (vd\<lparr>bam_state := (bam_state vd)[p := x]\<rparr>) else None)"

definition set_bam_place :: "nat \<Rightarrow> int \<times> int \<Rightarrow> vdrive \<Rightarrow> vdrive" where
  "set_bam_place i ts vd = vd\<lparr>bam_tracks := (bam_tracks vd)[i := fst ts], bam_sectors := (bam_sectors vd)[i := snd ts]\<rparr>"

section \<open>Loading blocks\<close>

text \<open>The 1581 has a BAM in each partition; its places are set on each access.\<close>

definition places_1581 :: "vdrive \<Rightarrow> vdrive" where
  "places_1581 vd = fold (\<lambda>i. set_bam_place i (int (Bam_Track vd), int (Bam_Sector vd + i))) [0, 1, 2] vd"

text \<open>The switch and the end of \<^verbatim>\<open>vdrive_bam_read_bam_block\<close>; \<open>err\<close> is its value before.\<close>

definition load_bam_block :: "disk_env \<Rightarrow> nat \<Rightarrow> int \<Rightarrow> vdrive \<Rightarrow> (int \<times> vdrive) option" where
  "load_bam_block e block err vd =
     (let vd = (if image_format vd = FORMAT_1581 then places_1581 vd else vd)
      in Option.bind
           (if image_format vd \<in> {FORMAT_SYS, FORMAT_NONE} \<or> bam_tracks vd ! block < 0 then Some (err, vd)
            else
              Option.bind (vdrive_read_sector e (nat (bam_tracks vd ! block)) (nat (bam_sectors vd ! block)) vd)
                (\<lambda>(err, buf, vd). case buf of
                   None \<Rightarrow> Some (err, vd)
                 | Some b \<Rightarrow> map_option (\<lambda>m. (err, vd\<lparr>bam := m\<rparr>)) (store_bytes (256 * block) b (bam vd))))
           (\<lambda>(err, vd).
             let vd = (if err = 0 then vd\<lparr>bam_state := (bam_state vd)[block := 0]\<rparr> else vd)
             in Some (if err < 0 then CBMDOS_IPE_NOT_READY else err, vd)))"

text \<open>
  The loop over the links of the D9090 is \<open>bam_links\<close>, with \<open>j\<close> for \<^verbatim>\<open>i - 1\<close>: \<open>Inr\<close> is the error it
  returns at once, \<open>Inl\<close> the value of \<^verbatim>\<open>err\<close> after it.
\<close>

function (sequential) vdrive_bam_read_bam_block :: "disk_env \<Rightarrow> nat \<Rightarrow> vdrive \<Rightarrow> (int \<times> vdrive) option"
  and bam_links :: "disk_env \<Rightarrow> nat \<Rightarrow> nat \<Rightarrow> int \<Rightarrow> vdrive \<Rightarrow> ((int + int) \<times> vdrive) option" where
  "vdrive_bam_read_bam_block e block vd =
     (if block \<ge> VDRIVE_BAM_MAX_STATES then Some (-1, vd)
      else if bam_state vd ! block \<ge> 0 then Some (CBMDOS_IPE_OK, vd)
      else
        Option.bind (if image_format vd = FORMAT_9000 then bam_links e block 1 (-1) vd else Some (Inl (-1), vd))
          (\<lambda>(r, vd). case r of Inr err \<Rightarrow> Some (err, vd) | Inl err \<Rightarrow> load_bam_block e block err vd))"
| "bam_links e block j err vd =
     (if j \<ge> block then Some (Inl err, vd)
      else if bam_tracks vd ! Suc j < 0 then
        Option.bind (vdrive_bam_read_bam_block e j vd) (\<lambda>(err, vd).
          if err < 0 then Some (Inr CBMDOS_IPE_NOT_READY, vd)
          else if err > 0 then Some (Inr err, vd)
          else
            Option.bind (bam_byte (256 * j) vd) (\<lambda>t.
            Option.bind (bam_byte (256 * j + 1) vd) (\<lambda>s.
              bam_links e block (Suc j) err (set_bam_place (Suc j) (uint t, uint s) vd))))
      else bam_links e block (Suc j) err vd)"
  by pat_completeness auto
termination
  by (relation "measures [\<lambda>x. case x of Inl (e, block, vd) \<Rightarrow> block | Inr (e, block, j, err, vd) \<Rightarrow> block,
        \<lambda>x. case x of Inl _ \<Rightarrow> 1 | Inr _ \<Rightarrow> 0,
        \<lambda>x. case x of Inl _ \<Rightarrow> 0 | Inr (e, block, j, err, vd) \<Rightarrow> block - j]") auto

declare vdrive_bam_read_bam_block.simps [simp del] bam_links.simps [simp del]

section \<open>Entries\<close>

text \<open>The blocks of the 8050 and 8250, and those of the D9090, name the tracks they hold.\<close>

fun find_entry_8050 :: "disk_env \<Rightarrow> nat list \<Rightarrow> nat \<Rightarrow> vdrive \<Rightarrow> (nat option \<times> vdrive) option" where
  "find_entry_8050 e [] track vd = Some (None, vd)"
| "find_entry_8050 e (i # is) track vd =
     (if bam_tracks vd ! i > 0 then
        Option.bind (vdrive_bam_read_bam_block e i vd) (\<lambda>(err, vd).
          if err \<noteq> 0 then Some (None, vd)
          else
            Option.bind (bam_byte (i * 0x100 + 4) vd) (\<lambda>lo.
            Option.bind (bam_byte (i * 0x100 + 5) vd) (\<lambda>hi.
              if unat lo \<le> track \<and> track < unat hi
              then Some (Some (i * 0x100 + BAM_BIT_MAP_8050 + 5 * (track - unat lo)), vd)
              else find_entry_8050 e is track vd)))
      else find_entry_8050 e is track vd)"

fun find_entry_9000 :: "disk_env \<Rightarrow> nat list \<Rightarrow> nat \<Rightarrow> nat \<Rightarrow> vdrive \<Rightarrow> (nat option \<times> vdrive) option" where
  "find_entry_9000 e [] track grp vd = Some (None, vd)"
| "find_entry_9000 e (i # is) track grp vd =
     Option.bind (vdrive_bam_read_bam_block e i vd) (\<lambda>(err, vd).
       if err \<noteq> 0 then Some (None, vd)
       else
         Option.bind (bam_byte (i * 0x100 + 4) vd) (\<lambda>lo.
         Option.bind (bam_byte (i * 0x100 + 5) vd) (\<lambda>hi.
           if unat lo \<le> track \<and> track < unat hi
           then Some (Some (i * 0x100 + BAM_BIT_MAP_9000
                  + 5 * ((track - unat lo) * (img_sectors (the (vd_image vd)) div 32) + grp)), vd)
           else find_entry_9000 e is track grp vd)))"

text \<open>The offset of the entry in \<^verbatim>\<open>bam\<close>.\<close>

definition vdrive_bam_get_track_entry :: "disk_env \<Rightarrow> nat \<Rightarrow> nat \<Rightarrow> vdrive \<Rightarrow> (nat option \<times> vdrive) option" where
  "vdrive_bam_get_track_entry e track sector vd =
     (if track = 0 \<and> image_format vd \<noteq> FORMAT_9000 then Some (None, vd)
      else if image_format vd \<in> {FORMAT_1541, FORMAT_2040} then
        Some (Some (if track \<le> NUM_TRACKS_1541 then BAM_BIT_MAP + 4 * (track - 1)
          else BAM_EXT_BIT_MAP_1541 + 4 * (track - NUM_TRACKS_1541 - 1)), vd)
      else if image_format vd = FORMAT_1571 then
        Some (Some (if track \<le> NUM_TRACKS_1571 div 2 then BAM_BIT_MAP + 4 * (track - 1)
          else 0x100 + 3 * (track - NUM_TRACKS_1571 div 2 - 1) - 1), vd)
      else if image_format vd = FORMAT_1581 then
        Some (Some (if track \<le> BAM_TRACK_1581 then 0x100 + BAM_BIT_MAP_1581 + 6 * (track - 1)
          else 0x200 + BAM_BIT_MAP_1581 + 6 * (track - BAM_TRACK_1581 - 1)), vd)
      else if image_format vd \<in> {FORMAT_8050, FORMAT_8250} then find_entry_8050 e [1, 2, 3, 4] track vd
      else if image_format vd = FORMAT_NP then
        Some (Some (0x100 + BAM_BIT_MAP_NP + 32 * (track - 1) - 1), vd)
      else if image_format vd = FORMAT_9000 then
        find_entry_9000 e [1..<bam_size vd div 256] track (sector div 32) vd
      else Some (None, vd))"

section \<open>Bits\<close>

definition bam_bit_byte :: "nat \<Rightarrow> nat \<Rightarrow> nat" where
  "bam_bit_byte bamp sector = bamp + 1 + sector div 8"

definition vdrive_bam_set :: "disk_env \<Rightarrow> nat \<Rightarrow> nat \<Rightarrow> vdrive \<Rightarrow> vdrive option" where
  "vdrive_bam_set e bamp sector vd =
     (let t = bam_bit_byte bamp sector; p = t div 256
      in Option.bind (vdrive_bam_read_bam_block e p vd) (\<lambda>(err, vd).
         Option.bind (bam_byte t vd) (\<lambda>x.
         Option.bind (bam_store t (x OR push_bit (sector mod 8) 1) vd) (set_bam_state p 1))))"

definition vdrive_bam_clr :: "disk_env \<Rightarrow> nat \<Rightarrow> nat \<Rightarrow> vdrive \<Rightarrow> vdrive option" where
  "vdrive_bam_clr e bamp sector vd =
     (let t = bam_bit_byte bamp sector; p = t div 256
      in Option.bind (vdrive_bam_read_bam_block e p vd) (\<lambda>(err, vd).
         Option.bind (bam_byte t vd) (\<lambda>x.
         Option.bind (bam_store t (x AND NOT (push_bit (sector mod 8) 1)) vd) (set_bam_state p 1))))"

definition vdrive_bam_isset :: "disk_env \<Rightarrow> nat \<Rightarrow> nat \<Rightarrow> vdrive \<Rightarrow> (bool \<times> vdrive) option" where
  "vdrive_bam_isset e bamp sector vd =
     (let t = bam_bit_byte bamp sector; p = t div 256
      in Option.bind (vdrive_bam_read_bam_block e p vd) (\<lambda>(err, vd).
         map_option (\<lambda>x. (x AND push_bit (sector mod 8) 1 \<noteq> 0, vd)) (bam_byte t vd)))"

text \<open>Adding \<open>add\<close> to the byte at \<open>t\<close> whose block is \<open>t div 256\<close>.\<close>

definition bam_add :: "disk_env \<Rightarrow> nat \<Rightarrow> int \<Rightarrow> vdrive \<Rightarrow> vdrive option" where
  "bam_add e t add vd =
     Option.bind (vdrive_bam_read_bam_block e (t div 256) vd) (\<lambda>(err, vd).
     Option.bind (bam_byte t vd) (\<lambda>x.
     Option.bind (bam_store t (x + word_of_int add) vd) (set_bam_state (t div 256) 1)))"

definition vdrive_bam_sector_free :: "disk_env \<Rightarrow> nat \<Rightarrow> nat \<Rightarrow> int \<Rightarrow> vdrive \<Rightarrow> vdrive option" where
  "vdrive_bam_sector_free e bamp track add vd =
     (if image_format vd \<in> {FORMAT_1541, FORMAT_2040, FORMAT_1581, FORMAT_8050, FORMAT_8250, FORMAT_9000}
      then bam_add e bamp add vd
      else if image_format vd = FORMAT_1571 then
        if track \<le> NUM_TRACKS_1571 div 2 then bam_add e bamp add vd
        else
          Option.bind (vdrive_bam_read_bam_block e (bamp div 256) vd) (\<lambda>(err, vd).
          Option.bind (set_bam_state (bamp div 256) 1 vd)
            (bam_add e (BAM_EXT_BIT_MAP_1571 + track - NUM_TRACKS_1571 div 2 - 1) add))
      else Some vd)"

section \<open>Sectors\<close>

text \<open>The entry and the sector within it; \<open>None\<close> for tracks without one.\<close>

definition bam_entry :: "disk_env \<Rightarrow> nat \<Rightarrow> nat \<Rightarrow> vdrive \<Rightarrow> ((nat \<times> nat) option \<times> vdrive) option" where
  "bam_entry e track sector vd =
     (let sector = (if image_format vd = FORMAT_NP then sector XOR 7 else sector)
      in map_option (\<lambda>(bamp, vd).
           (map_option (\<lambda>b. (b, if image_format vd = FORMAT_9000 then sector mod 32 else sector)) bamp, vd))
           (vdrive_bam_get_track_entry e track sector vd))"

definition vdrive_bam_allocate_sector :: "disk_env \<Rightarrow> nat \<Rightarrow> nat \<Rightarrow> vdrive \<Rightarrow> (bool \<times> vdrive) option" where
  "vdrive_bam_allocate_sector e track sector vd =
     (if track > NUM_TRACKS_1571 \<and> image_format vd = FORMAT_1571 then Some (False, vd)
      else
        Option.bind (bam_entry e track sector vd) (\<lambda>(en, vd). case en of
          None \<Rightarrow> Some (False, vd)
        | Some (bamp, s) \<Rightarrow>
            Option.bind (vdrive_bam_isset e bamp s vd) (\<lambda>(set, vd).
              if set then
                map_option (Pair True)
                  (Option.bind (vdrive_bam_clr e bamp s vd) (vdrive_bam_sector_free e bamp track (-1)))
              else Some (False, vd))))"

definition vdrive_bam_free_sector :: "disk_env \<Rightarrow> nat \<Rightarrow> nat \<Rightarrow> vdrive \<Rightarrow> (bool \<times> vdrive) option" where
  "vdrive_bam_free_sector e track sector vd =
     (if track > NUM_TRACKS_1571 \<and> image_format vd = FORMAT_1571 then Some (False, vd)
      else
        Option.bind (bam_entry e track sector vd) (\<lambda>(en, vd). case en of
          None \<Rightarrow> Some (False, vd)
        | Some (bamp, s) \<Rightarrow>
            Option.bind (vdrive_bam_isset e bamp s vd) (\<lambda>(set, vd).
              if \<not> set then
                map_option (Pair True)
                  (Option.bind (vdrive_bam_set e bamp s vd) (vdrive_bam_sector_free e bamp track 1))
              else Some (False, vd))))"

definition vdrive_bam_is_sector_allocated :: "disk_env \<Rightarrow> nat \<Rightarrow> nat \<Rightarrow> vdrive \<Rightarrow> (int \<times> vdrive) option" where
  "vdrive_bam_is_sector_allocated e track sector vd =
     (if track > NUM_TRACKS_1571 \<and> image_format vd = FORMAT_1571 then Some (-1, vd)
      else
        Option.bind (bam_entry e track sector vd) (\<lambda>(en, vd). case en of
          None \<Rightarrow> Some (0, vd)
        | Some (bamp, s) \<Rightarrow>
            map_option (\<lambda>(set, vd). (if \<not> set then 1 else 0, vd)) (vdrive_bam_isset e bamp s vd)))"


section \<open>Searching\<close>

text \<open>\<^verbatim>\<open>vdrive_calculate_disk_half\<close>; the caller takes the result as unsigned.\<close>

definition vdrive_calculate_disk_half :: "vdrive \<Rightarrow> nat" where
  "vdrive_calculate_disk_half vd =
     (case image_format vd of
        FORMAT_1541 \<Rightarrow> 17 + 5 | FORMAT_2040 \<Rightarrow> 17 + 5 | FORMAT_1571 \<Rightarrow> 17 + 35 | FORMAT_1581 \<Rightarrow> 40
      | FORMAT_8050 \<Rightarrow> 39 | FORMAT_8250 \<Rightarrow> 39 + 78
      | FORMAT_NP \<Rightarrow> num_tracks vd - 1 | FORMAT_9000 \<Rightarrow> num_tracks vd - 1 | _ \<Rightarrow> 2 ^ 32 - 1)"

definition vdrive_bam_get_interleave :: "vdrive \<Rightarrow> nat" where
  "vdrive_bam_get_interleave vd =
     (case image_format vd of
        FORMAT_1541 \<Rightarrow> if haspt vd then 1 else 10
      | FORMAT_1571 \<Rightarrow> if haspt vd then 1 else 6
      | FORMAT_2040 \<Rightarrow> 10 | FORMAT_1581 \<Rightarrow> 1 | FORMAT_8050 \<Rightarrow> 6 | FORMAT_8250 \<Rightarrow> 5
      | FORMAT_NP \<Rightarrow> 1 | FORMAT_9000 \<Rightarrow> 10 | _ \<Rightarrow> 10)"

text \<open>
  The inner loop of \<^verbatim>\<open>vdrive_bam_alloc_worker\<close> over the sectors of one head: the sector found,
  the value of \<^verbatim>\<open>s\<close> after it, and the drive. The first number counts the rounds left.
\<close>

fun scan_head :: "nat \<Rightarrow> disk_env \<Rightarrow> nat \<Rightarrow> nat \<Rightarrow> nat \<Rightarrow> nat \<Rightarrow> vdrive \<Rightarrow> (nat option \<times> nat \<times> vdrive) option" where
  "scan_head 0 e track max_sector h s vd = Some (None, s, vd)"
| "scan_head (Suc k) e track max_sector h s vd =
     Option.bind (vdrive_bam_allocate_sector e track (s + h) vd) (\<lambda>(ok, vd).
       if ok then Some (Some (s + h), s, vd)
       else scan_head k e track max_sector h (if s + 1 \<ge> max_sector then 0 else s + 1) vd)"

fun scan_heads :: "nat \<Rightarrow> disk_env \<Rightarrow> nat \<Rightarrow> nat \<Rightarrow> nat \<Rightarrow> nat \<Rightarrow> nat \<Rightarrow> vdrive \<Rightarrow> (nat option \<times> vdrive) option" where
  "scan_heads 0 e track max_sector max_sector_all h s vd = Some (None, vd)"
| "scan_heads (Suc k) e track max_sector max_sector_all h s vd =
     Option.bind (scan_head max_sector e track max_sector h s vd) (\<lambda>(found, s, vd). case found of
       Some x \<Rightarrow> Some (Some x, vd)
     | None \<Rightarrow> scan_heads k e track max_sector max_sector_all
         (if h + max_sector \<ge> max_sector_all then 0 else h + max_sector) s vd)"

text \<open>The sector found, or \<open>None\<close> for the result -1.\<close>

definition vdrive_bam_alloc_worker :: "disk_env \<Rightarrow> nat \<Rightarrow> nat \<Rightarrow> vdrive \<Rightarrow> (nat option \<times> vdrive) option" where
  "vdrive_bam_alloc_worker e track sector vd =
     (let max_sector = vdrive_get_max_sectors_per_head vd track;
          max_sector_all = vdrive_get_max_sectors vd track
      in if max_sector = 0 then None
         else scan_heads ((max_sector_all + max_sector - 1) div max_sector) e track max_sector max_sector_all
           (sector div max_sector * max_sector) (sector mod max_sector) vd)"

definition vdrive_bam_alloc_add_interleave :: "vdrive \<Rightarrow> nat \<Rightarrow> nat \<Rightarrow> nat \<Rightarrow> nat" where
  "vdrive_bam_alloc_add_interleave vd track sector interleave =
     (let max_sector = vdrive_get_max_sectors_per_head vd track;
          (s, h) = (if sector \<ge> vdrive_get_max_sectors vd track then (sector, 0)
                    else (sector mod max_sector, sector div max_sector * max_sector));
          s = s + interleave;
          s = (if s \<ge> max_sector then (let s = s - max_sector in if s \<noteq> 0 then s - 1 else s) else s)
      in s + h)"

text \<open>The scans from \<open>t\<close> down to track 1, and over \<open>k\<close> tracks upwards.\<close>

fun vdrive_bam_alloc_down :: "disk_env \<Rightarrow> nat \<Rightarrow> nat \<Rightarrow> nat \<Rightarrow> vdrive \<Rightarrow> ((nat \<times> nat) option \<times> vdrive) option" where
  "vdrive_bam_alloc_down e 0 sector interleave vd = Some (None, vd)"
| "vdrive_bam_alloc_down e (Suc t) sector interleave vd =
     Option.bind (vdrive_bam_alloc_worker e (Suc t) (vdrive_bam_alloc_add_interleave vd (Suc t) sector interleave) vd)
       (\<lambda>(found, vd). case found of
          Some s \<Rightarrow> Some (Some (Suc t, s), vd)
        | None \<Rightarrow> vdrive_bam_alloc_down e t sector interleave vd)"

fun alloc_up_loop :: "nat \<Rightarrow> disk_env \<Rightarrow> nat \<Rightarrow> nat \<Rightarrow> nat \<Rightarrow> vdrive \<Rightarrow> ((nat \<times> nat) option \<times> vdrive) option" where
  "alloc_up_loop 0 e t sector interleave vd = Some (None, vd)"
| "alloc_up_loop (Suc k) e t sector interleave vd =
     Option.bind (vdrive_bam_alloc_worker e t (vdrive_bam_alloc_add_interleave vd t sector interleave) vd)
       (\<lambda>(found, vd). case found of
          Some s \<Rightarrow> Some (Some (t, s), vd)
        | None \<Rightarrow> alloc_up_loop k e (Suc t) sector interleave vd)"

definition vdrive_bam_alloc_up :: "disk_env \<Rightarrow> nat \<Rightarrow> nat \<Rightarrow> nat \<Rightarrow> vdrive \<Rightarrow> ((nat \<times> nat) option \<times> vdrive) option" where
  "vdrive_bam_alloc_up e track sector interleave vd =
     alloc_up_loop (Suc (num_tracks vd) - track) e track sector interleave vd"

definition vdrive_bam_alloc_next_free_sector_reset :: "vdrive \<Rightarrow> nat \<Rightarrow> nat \<Rightarrow> nat \<Rightarrow> nat" where
  "vdrive_bam_alloc_next_free_sector_reset vd track sector interleave =
     (let s = vdrive_bam_alloc_add_interleave vd track sector interleave;
          max_sector = vdrive_get_max_sectors_per_head vd track
      in s div max_sector * max_sector)"

text \<open>The search of native partitions, sector by sector around the partition.\<close>

fun scan_partition :: "nat \<Rightarrow> disk_env \<Rightarrow> nat \<Rightarrow> nat \<Rightarrow> nat \<Rightarrow> vdrive \<Rightarrow> ((nat \<times> nat) option \<times> vdrive) option" where
  "scan_partition 0 e max_sector track sector vd = Some (None, vd)"
| "scan_partition (Suc k) e max_sector track sector vd =
     (let sector = sector + 1;
          (track, sector) = (if sector \<ge> max_sector then (if track + 1 > num_tracks vd then 1 else track + 1, 0)
                             else (track, sector));
          sector = (if track = DIR_TRACK_NP \<and> sector < 64 then 64 else sector)
      in Option.bind (vdrive_bam_allocate_sector e track sector vd) (\<lambda>(ok, vd).
           if ok then Some (Some (track, sector), vd) else scan_partition k e max_sector track sector vd))"

text \<open>The passes below and above the directory track, three of them.\<close>

fun alloc_passes :: "nat \<Rightarrow> disk_env \<Rightarrow> nat \<Rightarrow> nat \<Rightarrow> nat \<Rightarrow> vdrive \<Rightarrow> ((nat \<times> nat) option \<times> vdrive) option" where
  "alloc_passes 0 e track sector interleave vd = Some (None, vd)"
| "alloc_passes (Suc k) e track sector interleave vd =
     (let split = Dir_Track vd
      in if track > 0 \<and> track < split then
           Option.bind (vdrive_bam_alloc_down e track sector interleave vd) (\<lambda>(found, vd). case found of
             Some ts \<Rightarrow> Some (Some ts, vd)
           | None \<Rightarrow>
               alloc_passes k e (split + 1)
                 (vdrive_bam_alloc_next_free_sector_reset vd (split + 1) sector interleave) interleave vd)
         else if track \<ge> split then
           Option.bind (vdrive_bam_alloc_up e track sector interleave vd) (\<lambda>(found, vd). case found of
             Some ts \<Rightarrow> Some (Some ts, vd)
           | None \<Rightarrow>
               alloc_passes k e (split - 1)
                 (vdrive_bam_alloc_next_free_sector_reset vd (split - 1) sector interleave) interleave vd)
         else alloc_passes k e track sector interleave vd)"

definition vdrive_bam_alloc_next_free_sector_interleave ::
    "disk_env \<Rightarrow> nat \<Rightarrow> nat \<Rightarrow> nat \<Rightarrow> vdrive \<Rightarrow> ((nat \<times> nat) option \<times> vdrive) option" where
  "vdrive_bam_alloc_next_free_sector_interleave e track sector interleave vd =
     (if track = Dir_Track vd \<and> image_format vd \<notin> {FORMAT_9000, FORMAT_NP} then Some (None, vd)
      else
        let sector = (if track = Dir_Track vd \<and> image_format vd = FORMAT_NP \<and> sector < 63 then 63 else sector)
        in if image_format vd = FORMAT_NP then
             let max_sector = vdrive_get_max_sectors_per_head vd track
             in scan_partition (max_sector * num_tracks vd) e max_sector track sector vd
           else
             Option.bind (vdrive_bam_alloc_worker e track (vdrive_bam_alloc_add_interleave vd track sector interleave) vd)
               (\<lambda>(found, vd). case found of
                  Some s \<Rightarrow> Some (Some (track, s), vd)
                | None \<Rightarrow>
                    Option.bind (alloc_passes 3 e track sector interleave vd) (\<lambda>(found, vd). case found of
                      Some ts \<Rightarrow> Some (Some ts, vd)
                    | None \<Rightarrow>
                        if image_format vd = FORMAT_9000 then
                          map_option (\<lambda>(found, vd). (map_option (Pair (Dir_Track vd)) found, vd))
                            (vdrive_bam_alloc_worker e (Dir_Track vd) 10 vd)
                        else Some (None, vd))))"

definition vdrive_bam_alloc_next_free_sector ::
    "disk_env \<Rightarrow> nat \<Rightarrow> nat \<Rightarrow> vdrive \<Rightarrow> ((nat \<times> nat) option \<times> vdrive) option" where
  "vdrive_bam_alloc_next_free_sector e track sector vd =
     vdrive_bam_alloc_next_free_sector_interleave e track sector (vdrive_bam_get_interleave vd) vd"

text \<open>The butterfly around the directory track, \<open>d\<close> tracks away on each side.\<close>

definition butterfly_try :: "disk_env \<Rightarrow> int \<Rightarrow> vdrive \<Rightarrow> ((nat \<times> nat) option \<times> vdrive) option" where
  "butterfly_try e t vd =
     map_option (\<lambda>(found, vd). (map_option (Pair (nat t)) found, vd)) (vdrive_bam_alloc_worker e (nat t) 0 vd)"

fun butterfly :: "nat \<Rightarrow> disk_env \<Rightarrow> nat \<Rightarrow> vdrive \<Rightarrow> ((nat \<times> nat) option \<times> vdrive) option" where
  "butterfly 0 e d vd = Some (None, vd)"
| "butterfly (Suc k) e d vd =
     Option.bind
       (let t = int (Dir_Track vd) - int d in if d \<noteq> 0 \<and> t \<ge> 1 then butterfly_try e t vd else Some (None, vd))
       (\<lambda>(found, vd). case found of
          Some ts \<Rightarrow> Some (Some ts, vd)
        | None \<Rightarrow>
            Option.bind
              (let t = int (Dir_Track vd) + int d
               in if t \<le> int (num_tracks vd) \<and> d \<noteq> 0 then butterfly_try e t vd else Some (None, vd))
              (\<lambda>(found, vd). case found of
                 Some ts \<Rightarrow> Some (Some ts, vd)
               | None \<Rightarrow> butterfly k e (d + 1) vd))"

definition vdrive_bam_alloc_first_free_sector :: "disk_env \<Rightarrow> vdrive \<Rightarrow> ((nat \<times> nat) option \<times> vdrive) option" where
  "vdrive_bam_alloc_first_free_sector e vd =
     (if image_format vd = FORMAT_9000 then
        let vd = vd\<lparr>d90toggle := \<not> d90toggle vd\<rparr>
        in vdrive_bam_alloc_next_free_sector e (if d90toggle vd then Dir_Track vd + 1 else Dir_Track vd - 1) 0 vd
      else if image_format vd = FORMAT_NP then
        vdrive_bam_alloc_next_free_sector e (Dir_Track vd) (Dir_Sector vd) vd
      else butterfly (vdrive_calculate_disk_half vd + 1) e 0 vd)"

end
