(* ===== verification/Vdrive_Bam_Map.thy ===== *)
theory Vdrive_Bam_Map
  imports Vdrive_Bam
begin

text \<open>
  What the block availability map means: the set of free sectors, and the count of free
  sectors of each track. A layout says where the bit of a sector and the count of a track lie;
  it is interpreted for each format of the virtual drive with a fixed layout.
\<close>

section \<open>Layouts\<close>

locale bam_layout =
  fixes slot :: "nat \<Rightarrow> nat \<Rightarrow> nat \<times> nat"
    and cnt :: "nat \<Rightarrow> nat option"
    and valid :: "(nat \<times> nat) set"
    and n :: nat
  assumes slot_in: "(t, s) \<in> valid \<Longrightarrow> fst (slot t s) < n \<and> snd (slot t s) < 8"
    and slot_inj: "(t, s) \<in> valid \<Longrightarrow> (t', s') \<in> valid \<Longrightarrow> slot t s = slot t' s' \<Longrightarrow> t = t' \<and> s = s'"
    and cnt_in: "(t, s) \<in> valid \<Longrightarrow> cnt t = Some c \<Longrightarrow> c < n"
    and cnt_inj: "(t, s) \<in> valid \<Longrightarrow> (t', s') \<in> valid \<Longrightarrow> cnt t = Some c \<Longrightarrow> cnt t' = Some c \<Longrightarrow> t = t'"
    and cnt_apart: "(t, s) \<in> valid \<Longrightarrow> (t', s') \<in> valid \<Longrightarrow> cnt t' = Some c \<Longrightarrow> c \<noteq> fst (slot t s)"
    and valid_finite: "finite valid"
    and track_small: "cnt t = Some c \<Longrightarrow> card {s. (t, s) \<in> valid} < 256"
begin

definition free_in :: "u8 list \<Rightarrow> (nat \<times> nat) set" where
  "free_in m = {(t, s) \<in> valid. bit (m ! fst (slot t s)) (snd (slot t s))}"

definition counts_in :: "u8 list \<Rightarrow> bool" where
  "counts_in m \<longleftrightarrow> (\<forall>(t, s)\<in>valid. \<forall>c. cnt t = Some c \<longrightarrow> unat (m ! c) = card {s. (t, s) \<in> free_in m})"

definition change_count :: "nat \<Rightarrow> int \<Rightarrow> u8 list \<Rightarrow> u8 list" where
  "change_count t add m = (case cnt t of None \<Rightarrow> m | Some c \<Rightarrow> m[c := m ! c + word_of_int add])"

definition take_slot :: "nat \<Rightarrow> nat \<Rightarrow> u8 list \<Rightarrow> u8 list" where
  "take_slot t s m = (case slot t s of (i, b) \<Rightarrow> change_count t (-1) (m[i := m ! i AND NOT (push_bit b 1)]))"

definition give_slot :: "nat \<Rightarrow> nat \<Rightarrow> u8 list \<Rightarrow> u8 list" where
  "give_slot t s m = (case slot t s of (i, b) \<Rightarrow> change_count t 1 (m[i := m ! i OR push_bit b 1]))"

lemma length_change [simp]: "length (change_count t add m) = length m"
  by (simp add: change_count_def split: option.split)

lemma length_slots [simp]: "length (take_slot t s m) = length m" "length (give_slot t s m) = length m"
  by (simp_all add: take_slot_def give_slot_def split: prod.split)

lemma finite_sectors: "finite {s. (t, s) \<in> valid}"
  using finite_imageI [OF valid_finite, of snd] by (rule finite_subset [rotated]) force

lemma free_change:
  assumes "(t, s) \<in> valid"
  shows "free_in (change_count t add m) = free_in m"
  using assms cnt_apart by (auto simp: free_in_def change_count_def split: option.splits)

lemma bit_byte:
  assumes "b < 8" "b' < 8"
  shows "bit ((x :: u8) AND NOT (push_bit b 1)) b' \<longleftrightarrow> bit x b' \<and> b' \<noteq> b"
    "bit (x OR push_bit b 1) b' \<longleftrightarrow> bit x b' \<or> b' = b"
  using assms by (auto simp: bit_simps)

lemma free_bit:
  assumes "(t, s) \<in> valid" "length m = n" "slot t s = (i, b)"
  shows "free_in (m[i := m ! i AND NOT (push_bit b 1)]) = free_in m - {(t, s)}"
    "free_in (m[i := m ! i OR push_bit b 1]) = insert (t, s) (free_in m)"
proof -
  have ib: "i < n" "b < 8" using slot_in [OF assms(1)] assms(3) by simp_all
  have other: "slot t' s' = (i, b) \<longleftrightarrow> t' = t \<and> s' = s" if "(t', s') \<in> valid" for t' s'
    using slot_inj [OF that assms(1)] assms(3) by auto
  have b': "snd (slot t' s') < 8" if "(t', s') \<in> valid" for t' s' using slot_in [OF that] by simp
  have a: "bit (m[i := m ! i AND NOT (push_bit b 1)] ! fst (slot t' s')) (snd (slot t' s'))
      \<longleftrightarrow> bit (m ! fst (slot t' s')) (snd (slot t' s')) \<and> (t', s') \<noteq> (t, s)"
    "bit (m[i := m ! i OR push_bit b 1] ! fst (slot t' s')) (snd (slot t' s'))
      \<longleftrightarrow> bit (m ! fst (slot t' s')) (snd (slot t' s')) \<or> (t', s') = (t, s)"
    if v: "(t', s') \<in> valid" for t' s'
    using other [OF v] bit_byte [OF ib(2) b' [OF v]] ib(1) assms(2)
    by (cases "slot t' s'"; cases "fst (slot t' s') = i"; auto)+
  then show "free_in (m[i := m ! i AND NOT (push_bit b 1)]) = free_in m - {(t, s)}"
    "free_in (m[i := m ! i OR push_bit b 1]) = insert (t, s) (free_in m)"
    using assms(1) by (auto simp: free_in_def)
qed

lemma free_take:
  assumes "(t, s) \<in> valid" "length m = n"
  shows "free_in (take_slot t s m) = free_in m - {(t, s)}"
  using free_change [OF assms(1)] free_bit(1) [OF assms] by (cases "slot t s") (simp add: take_slot_def)

lemma free_give:
  assumes "(t, s) \<in> valid" "length m = n"
  shows "free_in (give_slot t s m) = insert (t, s) (free_in m)"
  using free_change [OF assms(1)] free_bit(2) [OF assms] by (cases "slot t s") (simp add: give_slot_def)

lemma free_card_bound: "cnt t = Some c \<Longrightarrow> card {s. (t, s) \<in> free_in m} < 256"
proof -
  assume c: "cnt t = Some c"
  have "{s. (t, s) \<in> free_in m} \<subseteq> {s. (t, s) \<in> valid}" by (auto simp: free_in_def)
  from card_mono [OF finite_sectors this] track_small [OF c] show ?thesis by linarith
qed

text \<open>The counts stay right when the bit that changes was the other way before.\<close>

lemma counts_step:
  assumes v: "(t, s) \<in> valid" and m: "length m = n" "length m1 = n" and c: "counts_in m"
    and bits: "\<And>t' s' c'. (t', s') \<in> valid \<Longrightarrow> cnt t' = Some c' \<Longrightarrow> m1 ! c' = m ! c'"
    and own: "\<And>c'. cnt t = Some c' \<Longrightarrow> unat (m ! c' + word_of_int add) = card {s. (t, s) \<in> free_in m1}"
    and rest: "\<And>t'. t' \<noteq> t \<Longrightarrow> {s. (t', s) \<in> free_in m1} = {s. (t', s) \<in> free_in m}"
  shows "counts_in (change_count t add m1)"
  unfolding counts_in_def free_change [OF v]
proof clarify
  fix t' s' c' assume v': "(t', s') \<in> valid" and c': "cnt t' = Some c'"
  show "unat (change_count t add m1 ! c') = card {s. (t', s) \<in> free_in m1}"
  proof (cases "t' = t")
    case True
    then show ?thesis using own [of c'] c' bits [OF v' c'] cnt_in [OF v' c'] m by (simp add: change_count_def)
  next
    case False
    have "cnt t \<noteq> Some c'" using cnt_inj [OF v' v c'] False by auto
    then have "change_count t add m1 ! c' = m1 ! c'"
      by (cases "cnt t") (simp_all add: change_count_def)
    then show ?thesis using rest [OF False] bits [OF v' c'] c v' c' by (auto simp: counts_in_def)
  qed
qed

lemma counts_take:
  assumes v: "(t, s) \<in> valid" and m: "length m = n" and c: "counts_in m" and f: "(t, s) \<in> free_in m"
  shows "counts_in (take_slot t s m)"
proof -
  obtain i b where ib: "slot t s = (i, b)" by (cases "slot t s")
  let ?m1 = "m[i := m ! i AND NOT (push_bit b 1)]"
  note fb = free_bit(1) [OF v m ib]
  have "counts_in (change_count t (-1) ?m1)"
  proof (rule counts_step [OF v m _ c])
    show "length ?m1 = n" using m by simp
    show "?m1 ! c' = m ! c'" if "(t', s') \<in> valid" "cnt t' = Some c'" for t' s' c'
      using cnt_apart [OF v that] ib by auto
    show "{s. (t', s) \<in> free_in ?m1} = {s. (t', s) \<in> free_in m}" if "t' \<noteq> t" for t' using that fb by auto
    fix c' assume c': "cnt t = Some c'"
    have "{s'. (t, s') \<in> free_in ?m1} = {s'. (t, s') \<in> free_in m} - {s}" using fb by auto
    moreover have "finite {s'. (t, s') \<in> free_in m}"
      using finite_sectors [of t] by (rule finite_subset [rotated]) (auto simp: free_in_def)
    ultimately have "Suc (card {s'. (t, s') \<in> free_in ?m1}) = card {s'. (t, s') \<in> free_in m}"
      using f card_Suc_Diff1 [of "{s'. (t, s') \<in> free_in m}" s] by simp
    moreover have "unat (m ! c') = card {s'. (t, s') \<in> free_in m}" using c v c' by (auto simp: counts_in_def)
    ultimately have "unat (m ! c') = Suc (card {s. (t, s) \<in> free_in ?m1})" by simp
    moreover from this have "m ! c' \<noteq> 0" by (metis nat.simps(3) unsigned_0)
    ultimately show "unat (m ! c' + word_of_int (-1)) = card {s. (t, s) \<in> free_in ?m1}"
      using unat_minus_one [of "m ! c'"] by simp
  qed
  then show ?thesis using ib by (simp add: take_slot_def)
qed

lemma counts_give:
  assumes v: "(t, s) \<in> valid" and m: "length m = n" and c: "counts_in m" and f: "(t, s) \<notin> free_in m"
  shows "counts_in (give_slot t s m)"
proof -
  obtain i b where ib: "slot t s = (i, b)" by (cases "slot t s")
  let ?m1 = "m[i := m ! i OR push_bit b 1]"
  note fb = free_bit(2) [OF v m ib]
  have "counts_in (change_count t 1 ?m1)"
  proof (rule counts_step [OF v m _ c])
    show "length ?m1 = n" using m by simp
    show "?m1 ! c' = m ! c'" if "(t', s') \<in> valid" "cnt t' = Some c'" for t' s' c'
      using cnt_apart [OF v that] ib by auto
    show "{s. (t', s) \<in> free_in ?m1} = {s. (t', s) \<in> free_in m}" if "t' \<noteq> t" for t' using that fb by auto
    fix c' assume c': "cnt t = Some c'"
    have "{s'. (t, s') \<in> free_in ?m1} = insert s {s'. (t, s') \<in> free_in m}" using fb by auto
    moreover have "finite {s'. (t, s') \<in> free_in m}"
      using finite_sectors [of t] by (rule finite_subset [rotated]) (auto simp: free_in_def)
    ultimately have "card {s'. (t, s') \<in> free_in ?m1} = Suc (card {s'. (t, s') \<in> free_in m})"
      using f by simp
    moreover have "unat (m ! c') = card {s'. (t, s') \<in> free_in m}" using c v c' by (auto simp: counts_in_def)
    moreover have "card {s'. (t, s') \<in> free_in ?m1} < 256" using free_card_bound [OF c'] .
    ultimately show "unat (m ! c' + word_of_int 1) = card {s. (t, s) \<in> free_in ?m1}"
      by (simp add: unat_word_ariths)
  qed
  then show ?thesis using ib by (simp add: give_slot_def)
qed

end

end
