(* ===== verification/Vdrive_Bam_Disk.thy ===== *)
theory Vdrive_Bam_Disk
  imports Vdrive_Bam
begin

text \<open>
  The rest of \<^verbatim>\<open>src/src/vdrive/vdrive-bam.c\<close>: setting up, loading, storing, clearing and
  creating a BAM, allocating chains, and counting free blocks.
\<close>

section \<open>Blocks of bytes\<close>

definition bam_fill :: "nat \<Rightarrow> u8 \<Rightarrow> nat \<Rightarrow> vdrive \<Rightarrow> vdrive option" where
  "bam_fill at v n vd = map_option (\<lambda>m. vd\<lparr>bam := m\<rparr>) (store_bytes at (replicate n v) (bam vd))"

definition bam_write_bytes :: "nat \<Rightarrow> u8 list \<Rightarrow> vdrive \<Rightarrow> vdrive option" where
  "bam_write_bytes at bs vd = map_option (\<lambda>m. vd\<lparr>bam := m\<rparr>) (store_bytes at bs (bam vd))"

text \<open>A sequence of assignments of bytes to the BAM.\<close>

fun bam_stores :: "(nat \<times> nat) list \<Rightarrow> vdrive \<Rightarrow> vdrive option" where
  "bam_stores [] vd = Some vd"
| "bam_stores ((i, x) # xs) vd = Option.bind (bam_store i (of_nat x) vd) (bam_stores xs)"

fun set_bam_states :: "nat list \<Rightarrow> vdrive \<Rightarrow> vdrive option" where
  "set_bam_states [] vd = Some vd"
| "set_bam_states (p # ps) vd = Option.bind (set_bam_state p 1 vd) (set_bam_states ps)"

definition mystrncpy :: "nat \<Rightarrow> u8 list \<Rightarrow> nat \<Rightarrow> vdrive \<Rightarrow> vdrive option" where
  "mystrncpy d s n = bam_write_bytes d (take n (takeWhile (\<lambda>c. c \<noteq> 0) s))"

section \<open>Setting up\<close>

text \<open>\<open>mem\<close> is what the new block of \<^verbatim>\<open>lib_malloc\<close> holds.\<close>

definition vdrive_bam_setup_bam :: "u8 list \<Rightarrow> vdrive \<Rightarrow> vdrive" where
  "vdrive_bam_setup_bam mem vd =
     (let vd = vd\<lparr>bam := take (bam_size vd) mem,
                  bam_state := replicate VDRIVE_BAM_MAX_STATES (-1),
                  bam_tracks := replicate VDRIVE_BAM_MAX_STATES (-1),
                  bam_sectors := replicate VDRIVE_BAM_MAX_STATES (-1)\<rparr>;
          places = (\<lambda>ps. fold (\<lambda>(i, t, s). set_bam_place i (t, s)) ps)
      in case image_format vd of
           FORMAT_1571 \<Rightarrow> places [(1, 18 + int (num_tracks vd div 2), 0), (0, 18, 0)] vd
         | FORMAT_1541 \<Rightarrow> places [(0, 18, 0)] vd
         | FORMAT_2040 \<Rightarrow> places [(0, 18, 0)] vd
         | FORMAT_8250 \<Rightarrow> places [(3, 38, 6), (4, 38, 9), (0, 39, 0), (1, 38, 0), (2, 38, 3)] vd
         | FORMAT_8050 \<Rightarrow> places [(0, 39, 0), (1, 38, 0), (2, 38, 3)] vd
         | FORMAT_NP \<Rightarrow> places (map (\<lambda>i. (i, 1, int (1 + i))) [0..<33]) vd
         | FORMAT_9000 \<Rightarrow>
             places [(0, int (Header_Track vd), int (Header_Sector vd)), (1, int (Bam_Track vd), int (Bam_Sector vd))] vd
         | _ \<Rightarrow> vd)"

section \<open>Loading and storing\<close>

fun read_blocks :: "disk_env \<Rightarrow> nat list \<Rightarrow> int \<Rightarrow> vdrive \<Rightarrow> (int \<times> vdrive) option" where
  "read_blocks e [] err vd = Some (err, vd)"
| "read_blocks e (i # is) err vd =
     Option.bind (vdrive_bam_read_bam_block e i vd) (\<lambda>(err, vd).
       if err \<noteq> 0 then Some (err, vd) else read_blocks e is err vd)"

definition vdrive_bam_read_bam :: "disk_env \<Rightarrow> vdrive \<Rightarrow> (int \<times> vdrive) option" where
  "vdrive_bam_read_bam e vd =
     map_option (\<lambda>(err, vd). (if err < 0 then CBMDOS_IPE_NOT_READY else err, vd))
       (if image_format vd = FORMAT_SYS then Some (0, vd)
        else if image_format vd = FORMAT_NONE then Some (-1, vd)
        else read_blocks e [0..<bam_size vd div 256] (-1) vd)"

fun write_bam_blocks :: "disk_env \<Rightarrow> nat list \<Rightarrow> int \<Rightarrow> vdrive \<Rightarrow> (int \<times> vdrive) option" where
  "write_bam_blocks e [] err vd = Some (err, vd)"
| "write_bam_blocks e (i # is) err vd =
     (if i < VDRIVE_BAM_MAX_STATES then
        if bam_state vd ! i > 0 then
          if 256 * i + 256 \<le> length (bam vd) then
            Option.bind (vdrive_write_sector e (take 256 (drop (256 * i) (bam vd)))
                (nat (bam_tracks vd ! i)) (nat (bam_sectors vd ! i)) vd) (\<lambda>(err, vd).
              if err \<noteq> 0 then Some (err, vd)
              else write_bam_blocks e is err (vd\<lparr>bam_state := (bam_state vd)[i := 0]\<rparr>))
          else None
        else write_bam_blocks e is err vd
      else None)"

definition vdrive_bam_write_bam :: "disk_env \<Rightarrow> vdrive \<Rightarrow> (int \<times> vdrive) option" where
  "vdrive_bam_write_bam e vd =
     (if bam vd = [] then Some (-1, vd)
      else
        let vd = (if image_format vd = FORMAT_1581 then places_1581 vd else vd)
        in if image_format vd \<in> {FORMAT_SYS, FORMAT_NONE} then Some (CBMDOS_IPE_OK, vd)
           else write_bam_blocks e [0..<bam_size vd div 256] CBMDOS_IPE_OK vd)"

section \<open>Chains\<close>

text \<open>The first number bounds the length of the chain; \<open>stop\<close> is the track that ends it.\<close>

fun allocate_chain_loop :: "nat \<Rightarrow> disk_env \<Rightarrow> nat \<Rightarrow> nat \<Rightarrow> nat \<Rightarrow> vdrive \<Rightarrow> (int \<times> vdrive) option" where
  "allocate_chain_loop 0 e stop t s vd = None"
| "allocate_chain_loop (Suc n) e stop t s vd =
     (if t = stop then Some (CBMDOS_IPE_OK, vd)
      else if disk_image_check_sector (the (vd_image vd)) t s < 0
      then Some (CBMDOS_IPE_ILLEGAL_TRACK_OR_SECTOR, vd\<lparr>vd_error := Some (CBMDOS_IPE_ILLEGAL_TRACK_OR_SECTOR, s, t)\<rparr>)
      else
        Option.bind (vdrive_bam_allocate_sector e t s vd) (\<lambda>(ok, vd).
          if \<not> ok then Some (CBMDOS_IPE_NO_BLOCK, vd\<lparr>vd_error := Some (CBMDOS_IPE_NO_BLOCK, s, t)\<rparr>)
          else
            Option.bind (vdrive_read_sector e t s vd) (\<lambda>(rc, buf, vd).
              if rc > 0 then Some (rc, vd)
              else if rc < 0 then Some (CBMDOS_IPE_NOT_READY, vd)
              else Option.bind buf (\<lambda>tmp. allocate_chain_loop n e stop (unat (tmp ! 0)) (unat (tmp ! 1)) vd))))"

definition vdrive_bam_allocate_chain :: "nat \<Rightarrow> disk_env \<Rightarrow> nat \<Rightarrow> nat \<Rightarrow> vdrive \<Rightarrow> (int \<times> vdrive) option" where
  "vdrive_bam_allocate_chain n e t s vd = allocate_chain_loop n e 0 t s vd"

definition vdrive_bam_allocate_chain_255 :: "nat \<Rightarrow> disk_env \<Rightarrow> nat \<Rightarrow> nat \<Rightarrow> vdrive \<Rightarrow> (int \<times> vdrive) option" where
  "vdrive_bam_allocate_chain_255 n e t s vd = allocate_chain_loop n e 255 t s vd"

section \<open>Clearing\<close>

fun clear_blocks :: "nat list \<Rightarrow> nat \<Rightarrow> vdrive \<Rightarrow> vdrive option" where
  "clear_blocks [] from vd = Some vd"
| "clear_blocks (i # is) from vd =
     Option.bind (bam_fill (256 * i + from) 0 (0x100 - from) vd) (\<lambda>vd.
     Option.bind (set_bam_state i 1 vd) (clear_blocks is from))"

definition vdrive_bam_clear_all :: "disk_env \<Rightarrow> vdrive \<Rightarrow> vdrive option" where
  "vdrive_bam_clear_all e vd =
     Option.bind (vdrive_bam_read_bam e vd) (\<lambda>(err, vd).
       case image_format vd of
         FORMAT_1541 \<Rightarrow>
           Option.bind (bam_fill BAM_EXT_BIT_MAP_1541 0 (4 * 5) vd) (\<lambda>vd.
           Option.bind (bam_fill BAM_BIT_MAP 0 (4 * NUM_TRACKS_1541) vd) (set_bam_state 0 1))
       | FORMAT_2040 \<Rightarrow> Option.bind (bam_fill BAM_BIT_MAP 0 (4 * NUM_TRACKS_1541) vd) (set_bam_state 0 1)
       | FORMAT_1571 \<Rightarrow>
           Option.bind (bam_fill BAM_BIT_MAP 0 (4 * NUM_TRACKS_1571 div 2) vd) (\<lambda>vd.
           Option.bind (bam_fill BAM_EXT_BIT_MAP_1571 0 (NUM_TRACKS_1571 div 2) vd) (\<lambda>vd.
           Option.bind (set_bam_state 0 1 vd) (\<lambda>vd.
           Option.bind (bam_fill 0x100 0 (3 * NUM_TRACKS_1571 div 2) vd) (set_bam_state 1 1))))
       | FORMAT_1581 \<Rightarrow>
           Option.bind (bam_fill (0x100 + BAM_BIT_MAP_1581) 0 (6 * NUM_TRACKS_1581 div 2) vd) (\<lambda>vd.
           Option.bind (set_bam_state 1 1 vd) (\<lambda>vd.
           Option.bind (bam_fill (0x200 + BAM_BIT_MAP_1581) 0 (6 * NUM_TRACKS_1581 div 2) vd) (set_bam_state 2 1)))
       | FORMAT_8250 \<Rightarrow> clear_blocks [3, 4, 1, 2] BAM_BIT_MAP_8050 vd
       | FORMAT_8050 \<Rightarrow> clear_blocks [1, 2] BAM_BIT_MAP_8050 vd
       | FORMAT_NP \<Rightarrow>
           Option.bind (bam_fill (0x100 + BAM_BIT_MAP_NP) 255 (255 * 32) vd) (set_bam_states [1..<33])
       | FORMAT_9000 \<Rightarrow> clear_blocks [1..<(bam_size vd + 255) div 256] BAM_BIT_MAP_9000 vd
       | _ \<Rightarrow> Some vd)"

section \<open>Creating\<close>

text \<open>The name and the id, at their places in the first block.\<close>

definition write_name :: "nat \<Rightarrow> u8 list \<Rightarrow> u8 list \<Rightarrow> vdrive \<Rightarrow> vdrive option" where
  "write_name pad name did vd =
     Option.bind (bam_fill (bam_name vd) 0xa0 pad vd) (\<lambda>vd.
     Option.bind (mystrncpy (bam_name vd) name 16 vd) (\<lambda>vd. mystrncpy (bam_id vd) did 2 vd))"

text \<open>The loop over the blocks of a D9090: \<open>t\<close>, \<open>tb\<close>, \<open>tp\<close> and \<open>sp\<close> are the variables of the code.\<close>

fun create_9000_blocks :: "nat list \<Rightarrow> nat \<Rightarrow> nat \<Rightarrow> nat \<Rightarrow> nat \<Rightarrow> nat \<Rightarrow> vdrive \<Rightarrow> vdrive option" where
  "create_9000_blocks [] td t tb tp sp vd = Some vd"
| "create_9000_blocks (b # bs) td t tb tp sp vd =
     (let i = 256 * b;
          last = (i + 0x100 \<ge> bam_size vd);
          tn = (if \<not> last \<and> t + td > num_tracks vd then num_tracks vd else t + td)
      in Option.bind
           (bam_stores
             ((if last then [(i, 255), (i + 1, 255), (i + 4, tb), (i + 5, num_tracks vd + 1)]
               else [(i, tn), (i + 1, 0), (i + 4, tb), (i + 5, tb + td)]) @ [(i + 2, tp), (i + 3, sp)]) vd)
           (\<lambda>vd. Option.bind (set_bam_state b 1 (set_bam_place b (int t, 0) vd))
             (create_9000_blocks bs td tn (tb + td) t 0)))"

definition create_9000 :: "disk_env \<Rightarrow> u8 list \<Rightarrow> u8 list \<Rightarrow> vdrive \<Rightarrow> vdrive option" where
  "create_9000 e name did vd =
     (let half = of_nat (num_tracks vd div 2) :: u8;
          tmp = [0, 1, 0, 0xff, half, 10, half, 20, 1, 0, did ! 0, did ! 1] @ replicate 244 0
      in Option.bind (vdrive_write_sector e tmp 0 0 vd) (\<lambda>(r, vd).
         let vd = vd\<lparr>Bam_Track := 1, Bam_Sector := 0, Header_Track := unat half, Header_Sector := 20,
           Dir_Track := unat half, Dir_Sector := 10\<rparr>
         in Option.bind (vdrive_write_sector e (replicate 256 0xff) 0 1 vd) (\<lambda>(r, vd).
         Option.bind (bam_stores [(0, Dir_Track vd), (1, Dir_Sector vd)] vd) (\<lambda>vd.
         Option.bind (write_name 27 name did vd) (\<lambda>vd.
         Option.bind (bam_stores [(27, 51), (28, 65)] vd) (\<lambda>vd.
           let groups = img_sectors (the (vd_image vd)) div 32
           in if groups = 0 then None
              else create_9000_blocks [1..<(bam_size vd + 255) div 256] (240 div groups div 5) 1 0 255 255 vd))))))"

definition create_1581 :: "u8 list \<Rightarrow> vdrive \<Rightarrow> vdrive option" where
  "create_1581 did vd =
     (let a = unat (did ! 0); b = unat (did ! 1)
      in Option.bind (bam_stores [(2, 68), (0x100, Bam_Track vd), (0x101, 2), (0x200, 0), (0x201, 0xff),
           (25, 51), (26, 68),
           (0x102, 68), (0x103, 0xbb), (0x104, a), (0x105, b), (0x106, 0xc0),
           (0x202, 68), (0x203, 0xbb), (0x204, a), (0x205, b), (0x206, 0xc0)] vd) (set_bam_states [1, 2]))"

text \<open>The 8050 and 8250: \<open>rest\<close> are the blocks after the first bitmap block.\<close>

definition create_8050 :: "u8 list \<Rightarrow> u8 list \<Rightarrow> vdrive \<Rightarrow> vdrive option" where
  "create_8050 name did vd =
     Option.bind (bam_stores [(0, 38), (1, 0), (2, 67)] vd) (\<lambda>vd.
     Option.bind (write_name 27 name did vd) (\<lambda>vd.
     Option.bind (bam_stores [(27, 50), (28, 67), (0x100, 38), (0x101, 3), (0x102, 67), (0x104, 1), (0x105, 51)] vd) (\<lambda>vd.
     Option.bind (set_bam_states [1, 2] vd) (\<lambda>vd.
       if image_format vd = FORMAT_8050
       then bam_stores [(0x200, 39), (0x201, 1), (0x202, 67), (0x204, 51), (0x205, 78)] vd
       else
         Option.bind (bam_stores [(0x200, 38), (0x201, 6), (0x202, 67), (0x204, 51), (0x205, 101),
           (0x300, 38), (0x301, 9), (0x302, 67), (0x304, 101), (0x305, 151),
           (0x400, 39), (0x401, 1), (0x402, 67), (0x404, 151), (0x405, 155)] vd) (set_bam_states [3, 4])))))"

definition create_np :: "u8 list \<Rightarrow> vdrive \<Rightarrow> vdrive option" where
  "create_np did vd =
     Option.bind (bam_stores [(2, 72), (25, 49), (26, 72), (0x20, Bam_Track vd), (0x21, Bam_Sector vd),
       (0x102, 72), (0x103, 255 - 72), (0x104, unat (did ! 0)), (0x105, unat (did ! 1)), (0x106, 0xc0),
       (0x108, num_tracks vd)] vd) (set_bam_state 1 1)"

definition vdrive_bam_create_empty_bam ::
    "disk_env \<Rightarrow> u8 list \<Rightarrow> u8 list \<Rightarrow> u8 list \<Rightarrow> vdrive \<Rightarrow> vdrive option" where
  "vdrive_bam_create_empty_bam e mem name did vd =
     (let vd = vdrive_bam_setup_bam mem vd
      in Option.bind (bam_fill 0 0 (bam_size vd) vd) (\<lambda>vd.
         Option.bind (set_bam_state 0 1 vd) (\<lambda>vd.
         Option.bind
           (if image_format vd \<notin> {FORMAT_8050, FORMAT_8250, FORMAT_9000} then
              Option.bind (bam_stores ([(0, Dir_Track vd), (1, Dir_Sector vd), (2, 65)]
                  @ (if image_format vd = FORMAT_1571 then [(3, 0x80)] else [])) vd)
                (write_name (if image_format vd \<in> {FORMAT_1581, FORMAT_NP} then 25 else 27) name did)
            else Some vd) (\<lambda>vd.
           case image_format vd of
             FORMAT_2040 \<Rightarrow> bam_stores [(2, 1), (0xa4, 0x20), (0xa5, 0x20)] vd
           | FORMAT_1541 \<Rightarrow> bam_stores [(165, 50), (166, 65)] vd
           | FORMAT_1571 \<Rightarrow> bam_stores [(165, 50), (166, 65)] vd
           | FORMAT_1581 \<Rightarrow> create_1581 did vd
           | FORMAT_8050 \<Rightarrow> create_8050 name did vd
           | FORMAT_8250 \<Rightarrow> create_8050 name did vd
           | FORMAT_NP \<Rightarrow> create_np did vd
           | FORMAT_9000 \<Rightarrow> create_9000 e name did vd
           | _ \<Rightarrow> Some vd))))"

definition vdrive_bam_int_get_disk_id :: "disk_env \<Rightarrow> vdrive \<Rightarrow> (u8 list \<times> vdrive) option" where
  "vdrive_bam_int_get_disk_id e vd =
     Option.bind (vdrive_bam_read_bam_block e (bam_id vd div 256) vd) (\<lambda>(err, vd).
       if bam_id vd + 2 \<le> length (bam vd) then Some (take 2 (drop (bam_id vd) (bam vd)), vd) else None)"

section \<open>Counting\<close>

definition bitcount :: "u8 \<Rightarrow> nat" where
  "bitcount x = sum_list (map (\<lambda>i. of_bool (bit x i)) [0..<8])"

text \<open>The blocks an entry counts; tracks without an entry count nothing.\<close>

definition entry_blocks :: "disk_env \<Rightarrow> nat \<Rightarrow> nat \<Rightarrow> vdrive \<Rightarrow> (nat \<times> vdrive) option" where
  "entry_blocks e track sector vd =
     Option.bind (vdrive_bam_get_track_entry e track sector vd) (\<lambda>(bamp, vd). case bamp of
       None \<Rightarrow> Some (0, vd)
     | Some b \<Rightarrow> map_option (\<lambda>x. (unat x, vd)) (bam_byte b vd))"

fun add_entries :: "disk_env \<Rightarrow> nat \<Rightarrow> nat list \<Rightarrow> vdrive \<Rightarrow> (nat \<times> vdrive) option" where
  "add_entries e t [] vd = Some (0, vd)"
| "add_entries e t (s # ss) vd =
     Option.bind (entry_blocks e t s vd) (\<lambda>(n, vd). map_option (\<lambda>(m, vd). (n + m, vd)) (add_entries e t ss vd))"

fun add_bits :: "nat list \<Rightarrow> vdrive \<Rightarrow> nat option" where
  "add_bits [] vd = Some 0"
| "add_bits (i # is) vd = Option.bind (bam_byte i vd) (\<lambda>x. map_option (\<lambda>m. bitcount x + m) (add_bits is vd))"

definition track_blocks :: "disk_env \<Rightarrow> nat \<Rightarrow> vdrive \<Rightarrow> (nat \<times> vdrive) option" where
  "track_blocks e t vd =
     (if image_format vd \<in> {FORMAT_2040, FORMAT_1541, FORMAT_1581, FORMAT_8050, FORMAT_8250} then
        (if t \<noteq> Dir_Track vd then entry_blocks e t 0 vd else Some (0, vd))
      else if image_format vd = FORMAT_1571 then
        (if t \<noteq> Dir_Track vd \<and> t \<noteq> Dir_Track vd + 35 then
           if t \<le> NUM_TRACKS_1571 div 2 then entry_blocks e t 0 vd
           else map_option (\<lambda>x. (unat x, vd)) (bam_byte (BAM_EXT_BIT_MAP_1571 + t - NUM_TRACKS_1571 div 2 - 1) vd)
         else Some (0, vd))
      else if image_format vd = FORMAT_NP then
        map_option (\<lambda>n. (n, vd))
          (add_bits (map (\<lambda>s. BAM_BIT_MAP_NP + 256 + 32 * (t - 1) + s) [(if t = Bam_Track vd then 8 else 0)..<32]) vd)
      else if image_format vd = FORMAT_9000 then
        add_entries e t (map (\<lambda>g. 32 * g) [0..<(img_sectors (the (vd_image vd)) + 31) div 32]) vd
      else Some (0, vd))"

fun count_tracks :: "disk_env \<Rightarrow> nat list \<Rightarrow> vdrive \<Rightarrow> (nat \<times> vdrive) option" where
  "count_tracks e [] vd = Some (0, vd)"
| "count_tracks e (t # ts) vd =
     Option.bind (track_blocks e t vd) (\<lambda>(n, vd). map_option (\<lambda>(m, vd). (n + m, vd)) (count_tracks e ts vd))"

definition vdrive_bam_free_block_count :: "disk_env \<Rightarrow> vdrive \<Rightarrow> (nat \<times> vdrive) option" where
  "vdrive_bam_free_block_count e vd =
     Option.bind (vdrive_bam_read_bam e vd) (\<lambda>(err, vd).
       if err \<noteq> 0 then Some (0, vd) else count_tracks e [1..<Suc (num_tracks vd)] vd)"

definition geosmagic :: "u8 list" where
  "geosmagic = [0x47, 0x45, 0x4f, 0x53, 0x20, 0x66, 0x6f, 0x72, 0x6d, 0x61, 0x74, 0x20, 0x56, 0x31, 0x2e]"

definition vdrive_bam_isgeos :: "vdrive \<Rightarrow> bool option" where
  "vdrive_bam_isgeos vd =
     (if image_format vd \<in> {FORMAT_1541, FORMAT_1571, FORMAT_1581, FORMAT_NP} then
        if 0xad + 15 \<le> length (bam vd) then Some (take 15 (drop 0xad (bam vd)) = geosmagic) else None
      else Some False)"

end
