(* ===== verification/Vdrive_Bam_Layouts.thy ===== *)
theory Vdrive_Bam_Layouts
  imports Vdrive_Bam_Map Vdrive_Bam_Disk
begin

text \<open>
  The layouts of the formats with a fixed one, and that the code's operations on an entry are
  the operations of the layout.
\<close>

section \<open>The formats\<close>

fun format_tracks :: "image_format \<Rightarrow> nat" where
  "format_tracks FORMAT_1541 = 35" | "format_tracks FORMAT_2040 = 35" | "format_tracks FORMAT_1571 = 70"
| "format_tracks FORMAT_1581 = 80" | "format_tracks FORMAT_8050 = 77" | "format_tracks FORMAT_8250 = 154"
| "format_tracks FORMAT_NP = 255" | "format_tracks _ = 0"

fun format_sectors :: "image_format \<Rightarrow> nat \<Rightarrow> nat" where
  "format_sectors FORMAT_1541 t = disk_image_sector_per_track D64 t"
| "format_sectors FORMAT_2040 t = disk_image_sector_per_track D67 t"
| "format_sectors FORMAT_1571 t = disk_image_sector_per_track D71 t"
| "format_sectors FORMAT_1581 t = 40"
| "format_sectors FORMAT_8050 t = disk_image_sector_per_track D80 t"
| "format_sectors FORMAT_8250 t = disk_image_sector_per_track D82 t"
| "format_sectors FORMAT_NP t = 256"
| "format_sectors _ t = 0"

fun format_blocks :: "image_format \<Rightarrow> nat" where
  "format_blocks FORMAT_1541 = 1" | "format_blocks FORMAT_2040 = 1" | "format_blocks FORMAT_1571 = 2"
| "format_blocks FORMAT_1581 = 3" | "format_blocks FORMAT_8050 = 3" | "format_blocks FORMAT_8250 = 5"
| "format_blocks FORMAT_NP = 33" | "format_blocks _ = 0"

text \<open>The block of an 8050 or 8250 track and the first track of the block.\<close>

definition block_8050 :: "nat \<Rightarrow> nat \<times> nat" where
  "block_8050 t = (if t < 51 then (1, 1) else if t < 101 then (2, 51) else if t < 151 then (3, 101) else (4, 151))"

text \<open>The offset of the first byte of the bits of a track.\<close>

fun bits_at :: "image_format \<Rightarrow> nat \<Rightarrow> nat" where
  "bits_at FORMAT_1541 t = 4 * t + 1"
| "bits_at FORMAT_2040 t = 4 * t + 1"
| "bits_at FORMAT_1571 t = (if t \<le> 35 then 4 * t + 1 else 256 + 3 * (t - 36))"
| "bits_at FORMAT_1581 t = (if t \<le> 40 then 273 + 6 * (t - 1) else 529 + 6 * (t - 41))"
| "bits_at FORMAT_8050 t = (case block_8050 t of (i, lo) \<Rightarrow> 256 * i + 7 + 5 * (t - lo))"
| "bits_at FORMAT_8250 t = (case block_8050 t of (i, lo) \<Rightarrow> 256 * i + 7 + 5 * (t - lo))"
| "bits_at FORMAT_NP t = 288 + 32 * (t - 1)"
| "bits_at _ t = 0"

definition sector_bit :: "image_format \<Rightarrow> nat \<Rightarrow> nat" where
  "sector_bit f s = (if f = FORMAT_NP then s XOR 7 else s)"

definition layout_slot :: "image_format \<Rightarrow> nat \<Rightarrow> nat \<Rightarrow> nat \<times> nat" where
  "layout_slot f t s = (bits_at f t + sector_bit f s div 8, sector_bit f s mod 8)"

definition layout_cnt :: "image_format \<Rightarrow> nat \<Rightarrow> nat option" where
  "layout_cnt f t = (if f = FORMAT_NP then None
     else if f = FORMAT_1571 \<and> t > 35 then Some (221 + (t - 36)) else Some (bits_at f t - 1))"

definition layout_valid :: "image_format \<Rightarrow> (nat \<times> nat) set" where
  "layout_valid f = {(t, s). 1 \<le> t \<and> t \<le> format_tracks f \<and> s < format_sectors f t}"

lemma per_track_bound:
  "disk_image_sector_per_track D64 t \<le> 21" "disk_image_sector_per_track D67 t \<le> 21"
  "disk_image_sector_per_track D71 t \<le> 21" "disk_image_sector_per_track D80 t \<le> 29"
  "disk_image_sector_per_track D82 t \<le> 29"
  by (simp_all add: spt_defs)

lemma xor_7: "(s :: nat) < 256 \<Longrightarrow> s XOR 7 < 256" "((s :: nat) XOR 7) XOR 7 = s"
proof -
  assume "s < 256"
  then have "take_bit 8 s = s" by (simp add: take_bit_nat_eq_self)
  moreover have "take_bit 8 (7 :: nat) = 7" by (simp add: take_bit_nat_eq_self)
  ultimately have "take_bit 8 (s XOR 7) = s XOR 7" by simp
  then show "s XOR 7 < 256" using take_bit_nat_less_exp [of 8 "s XOR 7"] by simp
next
  show "(s XOR 7) XOR 7 = s" by (simp add: xor.assoc)
qed

lemma sector_bit_inj: "sector_bit f s = sector_bit f s' \<Longrightarrow> s = s'"
  unfolding sector_bit_def by (metis xor_7(2))

text \<open>The bits of a track take less than its share of bytes, and the tracks follow in order.\<close>

fun bits_width :: "image_format \<Rightarrow> nat" where
  "bits_width FORMAT_1541 = 3" | "bits_width FORMAT_2040 = 3" | "bits_width FORMAT_1571 = 3"
| "bits_width FORMAT_1581 = 5" | "bits_width FORMAT_8050 = 4" | "bits_width FORMAT_8250 = 4"
| "bits_width FORMAT_NP = 32" | "bits_width _ = 0"

lemma sector_bit_width: "(t, s) \<in> layout_valid f \<Longrightarrow> sector_bit f s div 8 < bits_width f"
  using per_track_bound [of t] xor_7(1) [of s]
  by (cases f) (simp_all add: layout_valid_def sector_bit_def div_less_iff_less_mult)

lemma bits_ordered:
  "1 \<le> t \<Longrightarrow> t < t' \<Longrightarrow> t' \<le> format_tracks f \<Longrightarrow> bits_at f t + bits_width f \<le> bits_at f t'"
  by (cases f) (auto simp: block_8050_def)

lemma bits_in: "1 \<le> t \<Longrightarrow> t \<le> format_tracks f \<Longrightarrow> bits_at f t + bits_width f \<le> 256 * format_blocks f"
  by (cases f) (auto simp: block_8050_def)

text \<open>The formats that count in the entry leave a byte for it before the bits.\<close>

definition side2 :: "image_format \<Rightarrow> nat \<Rightarrow> bool" where
  "side2 f t \<longleftrightarrow> f = FORMAT_1571 \<and> t > 35"

lemma bits_ordered_cnt:
  "f \<noteq> FORMAT_NP \<Longrightarrow> \<not> side2 f t' \<Longrightarrow> 1 \<le> t \<Longrightarrow> t < t' \<Longrightarrow> t' \<le> format_tracks f
    \<Longrightarrow> bits_at f t + bits_width f < bits_at f t'"
  by (cases f) (auto simp: block_8050_def side2_def)

lemma bits_pos: "1 \<le> t \<Longrightarrow> t \<le> format_tracks f \<Longrightarrow> 0 < bits_at f t"
  by (cases f) (auto simp: block_8050_def)

lemma side2_bits:
  "1 \<le> t \<Longrightarrow> t \<le> 35 \<Longrightarrow> bits_at FORMAT_1571 t + bits_width FORMAT_1571 \<le> 144" "35 < t \<Longrightarrow> 256 \<le> bits_at FORMAT_1571 t"
  by simp_all

lemma cnt_cases:
  assumes "layout_cnt f t = Some c" "1 \<le> t" "t \<le> format_tracks f"
  obtains "side2 f t" "c = 221 + (t - 36)" "c < 256" | "\<not> side2 f t" "f \<noteq> FORMAT_NP" "Suc c = bits_at f t"
  using assms bits_pos [of t f] by (auto simp: layout_cnt_def side2_def split: if_splits)

lemma cnt_between:
  assumes t: "1 \<le> t" "t \<le> format_tracks f" "1 \<le> t'" "t' \<le> format_tracks f" and c: "layout_cnt f t' = Some c"
  shows "c < bits_at f t \<or> bits_at f t + bits_width f \<le> c"
  using c t(3,4)
proof (cases rule: cnt_cases)
  case 1
  then show ?thesis using side2_bits [of t] t(1) by (cases "t \<le> 35") (auto simp: side2_def)
next
  case 2
  then show ?thesis using bits_ordered_cnt [of f t' t] bits_ordered [of t' t f] t
    by (cases t t' rule: linorder_cases) auto
qed

lemma cnt_differ:
  assumes t: "1 \<le> t" "t < t'" "t' \<le> format_tracks f"
    and c: "layout_cnt f t = Some c" "layout_cnt f t' = Some c'"
  shows "c < c'"
proof -
  have t2: "t \<le> format_tracks f" "1 \<le> t'" using t by simp_all
  from c(1) t(1) t2(1) show ?thesis
  proof (cases rule: cnt_cases)
    case 1
    then have "side2 f t'" using t by (simp add: side2_def)
    then show ?thesis using c(2) 1 t(2) by (simp add: layout_cnt_def side2_def)
  next
    case low: 2
    from c(2) t2(2) t(3) show ?thesis
    proof (cases rule: cnt_cases)
      case 1
      then show ?thesis using low t by (simp add: side2_def)
    next
      case 2
      then show ?thesis using low bits_ordered_cnt [of f t' t] t by simp
    qed
  qed
qed

lemma valid_iff: "(t, s) \<in> layout_valid f \<longleftrightarrow> 1 \<le> t \<and> t \<le> format_tracks f \<and> s < format_sectors f t"
  by (simp add: layout_valid_def)

lemma format_sectors_bound: "format_sectors f t \<le> 256" "f \<noteq> FORMAT_NP \<Longrightarrow> format_sectors f t < 256"
  using per_track_bound [of t] by (cases f; simp)+

interpretation lay: bam_layout "layout_slot f" "layout_cnt f" "layout_valid f" "256 * format_blocks f" for f
proof
  fix t s assume v: "(t, s) \<in> layout_valid f"
  then show "fst (layout_slot f t s) < 256 * format_blocks f \<and> snd (layout_slot f t s) < 8"
    using sector_bit_width [OF v] bits_in [of t f] by (simp add: layout_slot_def layout_valid_def)
  show "c < 256 * format_blocks f" if c: "layout_cnt f t = Some c" for c
  proof -
    have t: "1 \<le> t" "t \<le> format_tracks f" using v by (simp_all add: layout_valid_def)
    from c t show ?thesis
    proof (cases rule: cnt_cases)
      case 1
      then show ?thesis by (simp add: side2_def)
    next
      case 2
      then show ?thesis using bits_in [OF t] by linarith
    qed
  qed
  fix t' s' assume v': "(t', s') \<in> layout_valid f"
  show "t = t' \<and> s = s'" if eq: "layout_slot f t s = layout_slot f t' s'"
  proof -
    note w = sector_bit_width [OF v] sector_bit_width [OF v']
    have e: "bits_at f t + sector_bit f s div 8 = bits_at f t' + sector_bit f s' div 8" "sector_bit f s mod 8 = sector_bit f s' mod 8"
      using eq by (simp_all add: layout_slot_def)
    have "t = t'"
      using bits_ordered [of t t' f] bits_ordered [of t' t f] v v' w e(1)
      unfolding valid_iff by (cases t t' rule: linorder_cases) simp_all
    then have "sector_bit f s = sector_bit f s'" using e by (metis add_left_cancel div_mult_mod_eq)
    then show ?thesis using \<open>t = t'\<close> sector_bit_inj by simp
  qed
  show "t = t'" if "layout_cnt f t = Some c" "layout_cnt f t' = Some c" for c
    using that v v' cnt_differ [of t t' f c c] cnt_differ [of t' t f c c]
    unfolding valid_iff by (cases t t' rule: linorder_cases) simp_all
  show "c \<noteq> fst (layout_slot f t s)" if "layout_cnt f t' = Some c" for c
    using cnt_between [of t f t' c] that v v' sector_bit_width [OF v]
    unfolding valid_iff layout_slot_def fst_conv by linarith
next
  have "layout_valid f \<subseteq> {..format_tracks f} \<times> {..<256}"
    using format_sectors_bound(1) [of f] order_less_le_trans by (fastforce simp: layout_valid_def)
  then show "finite (layout_valid f)" by (rule finite_subset) simp
next
  fix t c assume "layout_cnt f t = Some c"
  then have f: "f \<noteq> FORMAT_NP" by (auto simp: layout_cnt_def)
  then have "format_sectors f t < 256" by (rule format_sectors_bound(2))
  moreover have "{s. (t, s) \<in> layout_valid f} \<subseteq> {..<format_sectors f t}" by (auto simp: layout_valid_def)
  then have "card {s. (t, s) \<in> layout_valid f} \<le> format_sectors f t"
    using card_mono [of "{..<format_sectors f t}"] by fastforce
  ultimately show "card {s. (t, s) \<in> layout_valid f} < 256" by linarith
qed

end
