(* ===== verification/Vdrive_Bam_Alloc.thy ===== *)
theory Vdrive_Bam_Alloc
  imports Vdrive_Bam_Layouts
begin

text \<open>
  Allocating and freeing sectors in a loaded BAM is removing them from and adding them to the
  set of free sectors, with right counts and with every changed block marked as changed.
\<close>

section \<open>Loaded maps\<close>

definition fixed_formats :: "image_format set" where
  "fixed_formats = {FORMAT_1541, FORMAT_2040, FORMAT_1571, FORMAT_1581, FORMAT_8050, FORMAT_8250, FORMAT_NP}"

text \<open>The tracks that the blocks of an 8050 or 8250 hold, as their headers say.\<close>

fun block_range :: "image_format \<Rightarrow> nat \<Rightarrow> u8 \<times> u8" where
  "block_range f i = (if i = 1 then (1, 51) else if i = 2 then (51, if f = FORMAT_8050 then 78 else 101)
     else if i = 3 then (101, 151) else (151, 155))"

definition headers_ok :: "image_format \<Rightarrow> u8 list \<Rightarrow> bool" where
  "headers_ok f m \<longleftrightarrow> (f \<in> {FORMAT_8050, FORMAT_8250} \<longrightarrow>
     (\<forall>i\<in>{1..<format_blocks f}. (m ! (i * 0x100 + 4), m ! (i * 0x100 + 5)) = block_range f i))"

definition bam_loaded :: "vdrive \<Rightarrow> bool" where
  "bam_loaded vd \<longleftrightarrow> image_format vd \<in> fixed_formats \<and> num_tracks vd \<le> format_tracks (image_format vd)
     \<and> length (bam vd) = 256 * format_blocks (image_format vd) \<and> bam_size vd = length (bam vd)
     \<and> length (bam_state vd) = VDRIVE_BAM_MAX_STATES
     \<and> (\<forall>p<format_blocks (image_format vd). 0 \<le> bam_state vd ! p)
     \<and> headers_ok (image_format vd) (bam vd)
     \<and> (image_format vd \<in> {FORMAT_8050, FORMAT_8250} \<longrightarrow>
          (\<forall>i\<in>{1, 2, 3, 4}. 0 < bam_tracks vd ! i \<longleftrightarrow> i < format_blocks (image_format vd)))"

lemma format_blocks_states: "format_blocks f \<le> VDRIVE_BAM_MAX_STATES"
  by (cases f) (simp_all add: VDRIVE_BAM_MAX_STATES_def)

lemma read_loaded:
  "bam_loaded vd \<Longrightarrow> p < format_blocks (image_format vd) \<Longrightarrow> vdrive_bam_read_bam_block e p vd = Some (0, vd)"
  using format_blocks_states [of "image_format vd"]
  by (simp add: vdrive_bam_read_bam_block.simps bam_loaded_def CBMDOS_IPE_OK_def)

lemma byte_loaded: "bam_loaded vd \<Longrightarrow> i < 256 * format_blocks (image_format vd) \<Longrightarrow> bam_byte i vd = Some (bam vd ! i)"
  by (simp add: bam_byte_def bam_loaded_def)

lemma store_loaded:
  "bam_loaded vd \<Longrightarrow> i < 256 * format_blocks (image_format vd) \<Longrightarrow> bam_store i x vd = Some (vd\<lparr>bam := (bam vd)[i := x]\<rparr>)"
  by (simp add: bam_store_def bam_loaded_def)

lemma header_bytes:
  assumes "bam_loaded vd" "image_format vd \<in> {FORMAT_8050, FORMAT_8250}" "1 \<le> i" "i < format_blocks (image_format vd)"
  shows "bam_byte (i * 0x100 + 4) vd = Some (fst (block_range (image_format vd) i))"
    "bam_byte (i * 0x100 + 5) vd = Some (snd (block_range (image_format vd) i))"
proof -
  have "(bam vd ! (i * 0x100 + 4), bam vd ! (i * 0x100 + 5)) = block_range (image_format vd) i"
    using assms by (auto simp: bam_loaded_def headers_ok_def simp del: block_range.simps)
  then have "bam vd ! (i * 0x100 + 4) = fst (block_range (image_format vd) i)"
    "bam vd ! (i * 0x100 + 5) = snd (block_range (image_format vd) i)" by (metis prod.sel)+
  moreover have "i * 0x100 + 5 < 256 * format_blocks (image_format vd)" using assms(4) by linarith
  ultimately show "bam_byte (i * 0x100 + 4) vd = Some (fst (block_range (image_format vd) i))"
    "bam_byte (i * 0x100 + 5) vd = Some (snd (block_range (image_format vd) i))"
    using byte_loaded [OF assms(1), of "i * 0x100 + 4"] byte_loaded [OF assms(1), of "i * 0x100 + 5"] by simp_all
qed

lemma find_entry_loaded:
  assumes l: "bam_loaded vd" and f: "image_format vd \<in> {FORMAT_8050, FORMAT_8250}"
    and t: "1 \<le> t" "t \<le> format_tracks (image_format vd)"
  shows "find_entry_8050 e [1, 2, 3, 4] t vd = Some (Some (bits_at (image_format vd) t - 1), vd)"
proof -
  let ?f = "image_format vd"
  note h = header_bytes [OF l f]
  have tr: "0 < bam_tracks vd ! i \<longleftrightarrow> i < format_blocks ?f" if "i \<in> {1, 2, 3, 4}" for i
    using l f that unfolding bam_loaded_def by blast
  have hit: "find_entry_8050 e (i # is) t vd = Some (Some (i * 0x100 + 6 + 5 * (t - unat (fst (block_range ?f i)))), vd)"
    if "i \<in> {1, 2, 3, 4}" "i < format_blocks ?f" "unat (fst (block_range ?f i)) \<le> t" "t < unat (snd (block_range ?f i))" for i "is"
    using that tr [of i] read_loaded [OF l that(2), of e] h [of i]
    by (auto simp: BAM_BIT_MAP_8050_def simp del: block_range.simps)
  have miss: "find_entry_8050 e (i # is) t vd = find_entry_8050 e is t vd"
    if "i \<in> {1, 2, 3, 4}" "i < format_blocks ?f" "unat (snd (block_range ?f i)) \<le> t" for i "is"
    using that tr [of i] read_loaded [OF l that(2), of e] h [of i]
    by (auto simp: BAM_BIT_MAP_8050_def simp del: block_range.simps)
  consider "t < 51" | "51 \<le> t" "t < 101" | "101 \<le> t" "t < 151" | "151 \<le> t" by linarith
  then show ?thesis
  proof cases
    case 1
    then show ?thesis using hit [of 1 "[2, 3, 4]"] f t
      by (auto simp: block_8050_def simp del: find_entry_8050.simps)
  next
    case 2
    then show ?thesis using miss [of 1 "[2, 3, 4]"] hit [of 2 "[3, 4]"] f t
      by (auto simp: block_8050_def simp del: find_entry_8050.simps)
  next
    case 3
    then show ?thesis using miss [of 1 "[2, 3, 4]"] miss [of 2 "[3, 4]"] hit [of 3 "[4]"] f t
      by (auto simp: block_8050_def simp del: find_entry_8050.simps)
  next
    case 4
    then show ?thesis using miss [of 1 "[2, 3, 4]"] miss [of 2 "[3, 4]"] miss [of 3 "[4]"] hit [of 4 "[]"] f t
      by (auto simp: block_8050_def simp del: find_entry_8050.simps)
  qed
qed

text \<open>The entry of a valid sector.\<close>

lemma entry_loaded:
  assumes l: "bam_loaded vd" and v: "(t, s) \<in> layout_valid (image_format vd)"
  shows "bam_entry e t s vd = Some (Some (bits_at (image_format vd) t - 1, sector_bit (image_format vd) s), vd)"
proof -
  let ?f = "image_format vd"
  have t: "1 \<le> t" "t \<le> format_tracks ?f" using v by (simp_all add: valid_iff)
  have "vdrive_bam_get_track_entry e t s' vd = Some (Some (bits_at ?f t - 1), vd)" for s'
  proof (cases "?f \<in> {FORMAT_8050, FORMAT_8250}")
    case True
    then show ?thesis using find_entry_loaded [OF l True t] t(1)
      by (auto simp: vdrive_bam_get_track_entry_def simp del: find_entry_8050.simps bits_at.simps)
  next
    case False
    then show ?thesis using l t
      by (auto simp: vdrive_bam_get_track_entry_def bam_loaded_def fixed_formats_def BAM_BIT_MAP_def BAM_BIT_MAP_1581_def
          BAM_BIT_MAP_NP_def BAM_TRACK_1581_def NUM_TRACKS_1541_def NUM_TRACKS_1571_def)
  qed
  then show ?thesis using l by (auto simp: bam_entry_def sector_bit_def bam_loaded_def fixed_formats_def)
qed

lemma slot_byte:
  assumes "(t, s) \<in> layout_valid f"
  shows "bam_bit_byte (bits_at f t - 1) (sector_bit f s) = fst (layout_slot f t s)"
  using assms bits_pos [of t f] by (simp add: bam_bit_byte_def layout_slot_def valid_iff)

lemma slot_block: "(t, s) \<in> layout_valid f \<Longrightarrow> fst (layout_slot f t s) div 256 < format_blocks f"
  using lay.slot_in [of t s f] by (simp add: div_less_iff_less_mult mult.commute)

lemma and_single_bit: "(x :: u8) AND 2 ^ b \<noteq> 0 \<longleftrightarrow> bit x b \<and> b < 8"
proof
  assume "x AND 2 ^ b \<noteq> 0"
  then obtain k where "bit (x AND 2 ^ b) k" by (metis bit_eqI bit_0_eq bot_apply bot_bool_def)
  then show "bit x b \<and> b < 8" by (auto simp: bit_simps)
next
  assume "bit x b \<and> b < 8"
  then have "bit (x AND 2 ^ b) b" by (simp add: bit_simps)
  then show "x AND 2 ^ b \<noteq> 0" by auto
qed

lemma isset_loaded:
  assumes l: "bam_loaded vd" and v: "(t, s) \<in> layout_valid (image_format vd)"
  shows "vdrive_bam_isset e (bits_at (image_format vd) t - 1) (sector_bit (image_format vd) s) vd
    = Some ((t, s) \<in> lay.free_in (image_format vd) (bam vd), vd)"
proof -
  let ?f = "image_format vd" and ?i = "fst (layout_slot (image_format vd) t s)"
  have i: "?i < 256 * format_blocks ?f" using lay.slot_in [OF v] by simp
  have b: "snd (layout_slot ?f t s) = sector_bit ?f s mod 8" by (simp add: layout_slot_def)
  note r = read_loaded [OF l slot_block [OF v], of e]
  show ?thesis
    unfolding vdrive_bam_isset_def Let_def slot_byte [OF v] r
    using byte_loaded [OF l i] v b by (simp add: and_single_bit lay.free_in_def)
qed

text \<open>Blocks marked as changed.\<close>

definition changed :: "nat list \<Rightarrow> vdrive \<Rightarrow> vdrive" where
  "changed ps vd = vd\<lparr>bam_state := fold (\<lambda>p st. st[p := 1]) ps (bam_state vd)\<rparr>"

lemma fold_changed: "length (fold (\<lambda>p st. st[p := 1 :: int]) ps st) = length st"
  by (induction ps arbitrary: st) simp_all

lemma fold_changed_nonneg:
  "0 \<le> st ! q \<Longrightarrow> 0 \<le> fold (\<lambda>p st. st[p := 1 :: int]) ps st ! q"
proof (induction ps arbitrary: st)
  case (Cons p ps)
  have "0 \<le> st[p := 1] ! q" using Cons.prems by (cases "p < length st") (simp_all add: nth_list_update list_update_beyond)
  then show ?case using Cons.IH by simp
qed simp

lemma changed_sel [simp]:
  "image_format (changed ps vd) = image_format vd" "bam (changed ps vd) = bam vd" "num_tracks (changed ps vd) = num_tracks vd"
  "bam_size (changed ps vd) = bam_size vd" "bam_tracks (changed ps vd) = bam_tracks vd"
  by (simp_all add: changed_def)

lemma changed_loaded: "bam_loaded vd \<Longrightarrow> bam_loaded (changed ps vd)"
  using fold_changed_nonneg by (simp add: bam_loaded_def changed_def fold_changed)

text \<open>Storing outside the headers keeps the map loaded.\<close>

lemma store_keeps:
  assumes "bam_loaded vd" "image_format vd \<in> {FORMAT_8050, FORMAT_8250} \<Longrightarrow> 6 \<le> i mod 256"
  shows "bam_loaded (vd\<lparr>bam := (bam vd)[i := x]\<rparr>)"
proof -
  have "headers_ok (image_format vd) ((bam vd)[i := x])"
    unfolding headers_ok_def
  proof (intro impI ballI)
    fix k assume f: "image_format vd \<in> {FORMAT_8050, FORMAT_8250}" and k: "k \<in> {1..<format_blocks (image_format vd)}"
    have "i \<noteq> k * 256 + 4" "i \<noteq> k * 256 + 5" using assms(2) [OF f] by auto
    then show "((bam vd)[i := x] ! (k * 256 + 4), (bam vd)[i := x] ! (k * 256 + 5)) = block_range (image_format vd) k"
      using assms(1) f k by (auto simp: bam_loaded_def headers_ok_def simp del: block_range.simps)
  qed
  then show ?thesis using assms(1) by (simp add: bam_loaded_def)
qed

text \<open>Reading, changing and marking one byte.\<close>

definition poke :: "nat \<Rightarrow> (u8 \<Rightarrow> u8) \<Rightarrow> vdrive \<Rightarrow> vdrive" where
  "poke i g vd = changed [i div 256] (vd\<lparr>bam := (bam vd)[i := g (bam vd ! i)]\<rparr>)"

lemma poke_sel [simp]:
  "image_format (poke i g vd) = image_format vd" "bam (poke i g vd) = (bam vd)[i := g (bam vd ! i)]"
  by (simp_all add: poke_def)

lemma poke_loaded:
  "bam_loaded vd \<Longrightarrow> (image_format vd \<in> {FORMAT_8050, FORMAT_8250} \<Longrightarrow> 6 \<le> i mod 256) \<Longrightarrow> bam_loaded (poke i g vd)"
  unfolding poke_def by (intro changed_loaded store_keeps)

lemma poke_steps:
  assumes l: "bam_loaded vd" and i: "i < 256 * format_blocks (image_format vd)"
  shows "Option.bind (vdrive_bam_read_bam_block e (i div 256) vd) (\<lambda>(err, vd).
           Option.bind (bam_byte i vd) (\<lambda>x.
           Option.bind (bam_store i (g x) vd) (set_bam_state (i div 256) 1))) = Some (poke i g vd)"
proof -
  have p: "i div 256 < format_blocks (image_format vd)" using i by (simp add: div_less_iff_less_mult mult.commute)
  then have q: "i div 256 < VDRIVE_BAM_MAX_STATES" using format_blocks_states order_less_le_trans by blast
  show ?thesis
    unfolding read_loaded [OF l p]
    using byte_loaded [OF l i] store_loaded [OF l i] q by (simp add: set_bam_state_def poke_def changed_def)
qed


lemma changed_changed [simp]: "changed ps (changed qs vd) = changed (qs @ ps) vd"
  by (simp add: changed_def)

lemma changed_Nil [simp]: "changed [] vd = vd"
  by (simp add: changed_def)

lemma changed_bam [simp]: "changed ps vd\<lparr>bam := m\<rparr> = changed ps (vd\<lparr>bam := m\<rparr>)"
  by (simp add: changed_def)

lemma add_loaded:
  assumes "bam_loaded vd" "i < 256 * format_blocks (image_format vd)"
  shows "bam_add e i add vd = Some (poke i (\<lambda>x. x + word_of_int add) vd)"
  using poke_steps [OF assms, of e "\<lambda>x. x + word_of_int add"] by (simp add: bam_add_def)

section \<open>One sector\<close>

lemma slot_offset: "f \<in> {FORMAT_8050, FORMAT_8250} \<Longrightarrow> (t, s) \<in> layout_valid f \<Longrightarrow> 6 \<le> fst (layout_slot f t s) mod 256"
proof -
  assume f: "f \<in> {FORMAT_8050, FORMAT_8250}" and v: "(t, s) \<in> layout_valid f"
  obtain i lo where b: "block_8050 t = (i, lo)" by (cases "block_8050 t")
  have lo: "lo \<le> t \<and> t - lo < 50" using v b f by (auto simp: valid_iff block_8050_def split: if_splits)
  have w: "sector_bit f s div 8 < 4" using sector_bit_width [OF v] f by auto
  have "fst (layout_slot f t s) = 256 * i + (7 + 5 * (t - lo) + sector_bit f s div 8)"
    using f b by (auto simp: layout_slot_def)
  moreover have "7 + 5 * (t - lo) + sector_bit f s div 8 < 256" using lo w by linarith
  ultimately show ?thesis by simp
qed

lemma cnt_offset:
  assumes f: "f \<in> {FORMAT_8050, FORMAT_8250}" and t: "1 \<le> t" "t \<le> format_tracks f"
  shows "6 \<le> (bits_at f t - 1) mod 256"
proof -
  obtain i lo where b: "block_8050 t = (i, lo)" by (cases "block_8050 t")
  have lo: "lo \<le> t \<and> t - lo < 50" using t b f by (auto simp: block_8050_def split: if_splits)
  have "bits_at f t - 1 = 256 * i + (6 + 5 * (t - lo))" using f b by auto
  moreover have "6 + 5 * (t - lo) < 256" using lo by linarith
  ultimately show ?thesis by simp
qed

text \<open>The blocks that a change of a sector marks.\<close>

definition count_marks :: "image_format \<Rightarrow> nat \<Rightarrow> nat list" where
  "count_marks f t = (if f = FORMAT_NP then [] else if side2 f t then [(bits_at f t - 1) div 256, 0]
     else [(bits_at f t - 1) div 256])"

definition marks :: "image_format \<Rightarrow> nat \<Rightarrow> nat \<Rightarrow> nat list" where
  "marks f t s = fst (layout_slot f t s) div 256 # count_marks f t"

lemma sector_free_loaded:
  assumes l: "bam_loaded vd" and v: "(t, s) \<in> layout_valid (image_format vd)"
  shows "vdrive_bam_sector_free e (bits_at (image_format vd) t - 1) t add vd
    = Some (changed (count_marks (image_format vd) t) (vd\<lparr>bam := lay.change_count (image_format vd) t add (bam vd)\<rparr>))"
proof -
  let ?f = "image_format vd" and ?p = "bits_at (image_format vd) t - 1"
  have t: "1 \<le> t" "t \<le> format_tracks ?f" using v by (simp_all add: valid_iff)
  have p: "?p < 256 * format_blocks ?f" using bits_in [OF t] bits_pos [OF t] by linarith
  have fs: "?f \<in> fixed_formats" using l by (simp add: bam_loaded_def)
  consider "?f = FORMAT_NP" | "side2 ?f t" "?f = FORMAT_1571" | "?f \<noteq> FORMAT_NP" "\<not> side2 ?f t" by (auto simp: side2_def)
  then show ?thesis
  proof cases
    case 1
    then show ?thesis by (simp add: vdrive_bam_sector_free_def count_marks_def lay.change_count_def layout_cnt_def)
  next
    case 2
    have b: "?p div 256 < format_blocks ?f" using p by (simp add: div_less_iff_less_mult mult.commute)
    then have q: "?p div 256 < VDRIVE_BAM_MAX_STATES" using format_blocks_states order_less_le_trans by blast
    have c: "221 + t - 36 < 256 * format_blocks ?f" "221 + t - 36 < 256" using t 2 by simp_all
    have st: "set_bam_state (?p div 256) 1 vd = Some (changed [?p div 256] vd)"
      using q by (simp add: set_bam_state_def changed_def)
    have a: "bam_add e (221 + t - 36) add (changed [?p div 256] vd)
        = Some (poke (221 + t - 36) (\<lambda>x. x + word_of_int add) (changed [?p div 256] vd))"
      using add_loaded [OF changed_loaded [OF l], of "221 + t - 36"] c by simp
    have n: "BAM_EXT_BIT_MAP_1571 + t - NUM_TRACKS_1571 div 2 - 1 = 221 + t - 36" "NUM_TRACKS_1571 div 2 = 35"
      by (simp_all add: BAM_EXT_BIT_MAP_1571_def NUM_TRACKS_1571_def)
    have "vdrive_bam_sector_free e ?p t add vd = Some (poke (221 + t - 36) (\<lambda>x. x + word_of_int add) (changed [?p div 256] vd))"
      unfolding vdrive_bam_sector_free_def n read_loaded [OF l b] using 2 st a by (simp add: side2_def BAM_EXT_BIT_MAP_1571_def)
    then show ?thesis using 2 c by (simp add: poke_def count_marks_def lay.change_count_def layout_cnt_def side2_def)
  next
    case 3
    have "vdrive_bam_sector_free e ?p t add vd = bam_add e ?p add vd"
      using 3 fs by (auto simp: vdrive_bam_sector_free_def fixed_formats_def side2_def NUM_TRACKS_1571_def)
    moreover have "layout_cnt ?f t = Some ?p" using 3 by (auto simp: layout_cnt_def side2_def)
    moreover have "count_marks ?f t = [?p div 256]" using 3 by (simp add: count_marks_def)
    ultimately show ?thesis using add_loaded [OF l p, of e add] by (simp add: poke_def lay.change_count_def)
  qed
qed

lemma clr_loaded:
  assumes l: "bam_loaded vd" and v: "(t, s) \<in> layout_valid (image_format vd)"
  shows "vdrive_bam_clr e (bits_at (image_format vd) t - 1) (sector_bit (image_format vd) s) vd
      = Some (poke (fst (layout_slot (image_format vd) t s))
          (\<lambda>x. x AND NOT (push_bit (snd (layout_slot (image_format vd) t s)) 1)) vd)"
    "vdrive_bam_set e (bits_at (image_format vd) t - 1) (sector_bit (image_format vd) s) vd
      = Some (poke (fst (layout_slot (image_format vd) t s))
          (\<lambda>x. x OR push_bit (snd (layout_slot (image_format vd) t s)) 1) vd)"
proof -
  have i: "fst (layout_slot (image_format vd) t s) < 256 * format_blocks (image_format vd)" using lay.slot_in [OF v] by simp
  have b: "sector_bit (image_format vd) s mod 8 = snd (layout_slot (image_format vd) t s)" by (simp add: layout_slot_def)
  show "vdrive_bam_clr e (bits_at (image_format vd) t - 1) (sector_bit (image_format vd) s) vd
      = Some (poke (fst (layout_slot (image_format vd) t s))
          (\<lambda>x. x AND NOT (push_bit (snd (layout_slot (image_format vd) t s)) 1)) vd)"
    unfolding vdrive_bam_clr_def Let_def slot_byte [OF v] b by (rule poke_steps [OF l i])
  show "vdrive_bam_set e (bits_at (image_format vd) t - 1) (sector_bit (image_format vd) s) vd
      = Some (poke (fst (layout_slot (image_format vd) t s))
          (\<lambda>x. x OR push_bit (snd (layout_slot (image_format vd) t s)) 1) vd)"
    unfolding vdrive_bam_set_def Let_def slot_byte [OF v] b by (rule poke_steps [OF l i])
qed


text \<open>The drive after a sector was taken or given.\<close>

definition took :: "nat \<Rightarrow> nat \<Rightarrow> vdrive \<Rightarrow> vdrive" where
  "took t s vd = changed (marks (image_format vd) t s) (vd\<lparr>bam := lay.take_slot (image_format vd) t s (bam vd)\<rparr>)"

definition gave :: "nat \<Rightarrow> nat \<Rightarrow> vdrive \<Rightarrow> vdrive" where
  "gave t s vd = changed (marks (image_format vd) t s) (vd\<lparr>bam := lay.give_slot (image_format vd) t s (bam vd)\<rparr>)"

lemma took_sel [simp]:
  "image_format (took t s vd) = image_format vd" "num_tracks (took t s vd) = num_tracks vd"
  "bam (took t s vd) = lay.take_slot (image_format vd) t s (bam vd)"
  "image_format (gave t s vd) = image_format vd" "num_tracks (gave t s vd) = num_tracks vd"
  "bam (gave t s vd) = lay.give_slot (image_format vd) t s (bam vd)"
  by (simp_all add: took_def gave_def)

lemma poke_then_count:
  assumes l: "bam_loaded vd" and v: "(t, s) \<in> layout_valid (image_format vd)"
    and sl: "layout_slot (image_format vd) t s = (i, b)"
  shows "vdrive_bam_sector_free e (bits_at (image_format vd) t - 1) t add (poke i g vd)
    = Some (changed (marks (image_format vd) t s)
        (vd\<lparr>bam := lay.change_count (image_format vd) t add ((bam vd)[i := g (bam vd ! i)])\<rparr>))"
proof -
  let ?f = "image_format vd"
  have "bam_loaded (poke i g vd)" using poke_loaded [OF l] slot_offset [of ?f t s] v sl by auto
  then have "vdrive_bam_sector_free e (bits_at ?f t - 1) t add (poke i g vd)
      = Some (changed (count_marks ?f t) ((poke i g vd)\<lparr>bam := lay.change_count ?f t add (bam (poke i g vd))\<rparr>))"
    using sector_free_loaded [of "poke i g vd" t s e add] v by simp
  then show ?thesis using sl by (simp add: poke_def marks_def)
qed

lemma change_loaded:
  assumes l: "bam_loaded vd" and v: "(t, s) \<in> layout_valid (image_format vd)"
    and sl: "layout_slot (image_format vd) t s = (i, b)"
  shows "bam_loaded (changed ps (vd\<lparr>bam := lay.change_count (image_format vd) t add ((bam vd)[i := x])\<rparr>))"
proof -
  let ?f = "image_format vd"
  have t: "1 \<le> t" "t \<le> format_tracks ?f" using v by (simp_all add: valid_iff)
  have a: "bam_loaded (vd\<lparr>bam := (bam vd)[i := x]\<rparr>)" using store_keeps [OF l] slot_offset [of ?f t s] v sl by auto
  have "bam_loaded (vd\<lparr>bam := lay.change_count ?f t add ((bam vd)[i := x])\<rparr>)"
  proof (cases "layout_cnt ?f t")
    case None
    then show ?thesis using a by (simp add: lay.change_count_def)
  next
    case (Some c)
    have "?f \<in> {FORMAT_8050, FORMAT_8250} \<Longrightarrow> 6 \<le> c mod 256"
      using Some cnt_offset [OF _ t] by (auto simp: layout_cnt_def split: if_splits)
    then show ?thesis using store_keeps [OF a, of c "(bam vd)[i := x] ! c + word_of_int add"] Some
      by (simp add: lay.change_count_def)
  qed
  then show ?thesis by (rule changed_loaded)
qed

lemma took_loaded:
  assumes "bam_loaded vd" "(t, s) \<in> layout_valid (image_format vd)"
  shows "bam_loaded (took t s vd)" "bam_loaded (gave t s vd)"
  using change_loaded [OF assms] unfolding took_def gave_def lay.take_slot_def lay.give_slot_def
  by (cases "layout_slot (image_format vd) t s"; simp)+

lemma not_beyond: "(t, s) \<in> layout_valid (image_format vd) \<Longrightarrow> \<not> (t > NUM_TRACKS_1571 \<and> image_format vd = FORMAT_1571)"
  by (auto simp: valid_iff NUM_TRACKS_1571_def)

lemma allocate_loaded:
  assumes l: "bam_loaded vd" and v: "(t, s) \<in> layout_valid (image_format vd)"
  shows "vdrive_bam_allocate_sector e t s vd
    = Some (if (t, s) \<in> lay.free_in (image_format vd) (bam vd) then (True, took t s vd) else (False, vd))"
proof -
  obtain i b where sl: "layout_slot (image_format vd) t s = (i, b)" by (cases "layout_slot (image_format vd) t s")
  note c = clr_loaded(1) [OF l v, of e, unfolded sl fst_conv snd_conv]
  show ?thesis
    unfolding vdrive_bam_allocate_sector_def entry_loaded [OF l v]
    using not_beyond [OF v] isset_loaded [OF l v, of e] c poke_then_count [OF l v sl]
    by (simp add: took_def lay.take_slot_def sl)
qed

lemma free_loaded:
  assumes l: "bam_loaded vd" and v: "(t, s) \<in> layout_valid (image_format vd)"
  shows "vdrive_bam_free_sector e t s vd
    = Some (if (t, s) \<in> lay.free_in (image_format vd) (bam vd) then (False, vd) else (True, gave t s vd))"
proof -
  obtain i b where sl: "layout_slot (image_format vd) t s = (i, b)" by (cases "layout_slot (image_format vd) t s")
  note c = clr_loaded(2) [OF l v, of e, unfolded sl fst_conv snd_conv]
  show ?thesis
    unfolding vdrive_bam_free_sector_def entry_loaded [OF l v]
    using not_beyond [OF v] isset_loaded [OF l v, of e] c poke_then_count [OF l v sl]
    by (simp add: gave_def lay.give_slot_def sl)
qed

lemma query_loaded:
  assumes l: "bam_loaded vd" and v: "(t, s) \<in> layout_valid (image_format vd)"
  shows "vdrive_bam_is_sector_allocated e t s vd
    = Some (if (t, s) \<in> lay.free_in (image_format vd) (bam vd) then 0 else 1, vd)"
  unfolding vdrive_bam_is_sector_allocated_def entry_loaded [OF l v]
  using not_beyond [OF v] isset_loaded [OF l v, of e] by simp

section \<open>The set of free sectors\<close>

definition free_sectors :: "vdrive \<Rightarrow> (nat \<times> nat) set" where
  "free_sectors vd = lay.free_in (image_format vd) (bam vd)"

definition bam_ok :: "vdrive \<Rightarrow> bool" where
  "bam_ok vd \<longleftrightarrow> bam_loaded vd \<and> lay.counts_in (image_format vd) (bam vd)"

lemma bam_length: "bam_loaded vd \<Longrightarrow> length (bam vd) = 256 * format_blocks (image_format vd)"
  by (simp add: bam_loaded_def)

lemma took_free:
  assumes "bam_loaded vd" "(t, s) \<in> layout_valid (image_format vd)"
  shows "free_sectors (took t s vd) = free_sectors vd - {(t, s)}" "free_sectors (gave t s vd) = insert (t, s) (free_sectors vd)"
  using lay.free_take [OF assms(2) bam_length [OF assms(1)]] lay.free_give [OF assms(2) bam_length [OF assms(1)]]
  by (simp_all add: free_sectors_def)

lemma took_ok:
  assumes "bam_ok vd" "(t, s) \<in> layout_valid (image_format vd)"
  shows "(t, s) \<in> free_sectors vd \<Longrightarrow> bam_ok (took t s vd)" "(t, s) \<notin> free_sectors vd \<Longrightarrow> bam_ok (gave t s vd)"
  using assms took_loaded [OF _ assms(2)] lay.counts_take [OF assms(2) bam_length] lay.counts_give [OF assms(2) bam_length]
  by (simp_all add: bam_ok_def free_sectors_def)

end
