(* ===== verification/Vdrive_Bam_Sets.thy ===== *)
theory Vdrive_Bam_Sets
  imports Vdrive_Bam_Alloc
begin

text \<open>
  Sequences of operations on a loaded BAM, against the set of free sectors.
\<close>

section \<open>Operations and their specification\<close>

datatype bam_op = Allocate nat nat | Release nat nat | Query nat nat

fun bam_run :: "disk_env \<Rightarrow> bam_op list \<Rightarrow> vdrive \<Rightarrow> (int list \<times> vdrive) option" where
  "bam_run e [] vd = Some ([], vd)"
| "bam_run e (c # cs) vd =
     Option.bind (case c of
         Allocate t s \<Rightarrow> map_option (map_prod of_bool (\<lambda>vd. vd)) (vdrive_bam_allocate_sector e t s vd)
       | Release t s \<Rightarrow> map_option (map_prod of_bool (\<lambda>vd. vd)) (vdrive_bam_free_sector e t s vd)
       | Query t s \<Rightarrow> vdrive_bam_is_sector_allocated e t s vd)
       (\<lambda>(r, vd). map_option (map_prod (Cons r) (\<lambda>vd. vd)) (bam_run e cs vd))"

text \<open>What they promise: results and the free sectors after them.\<close>

fun bam_spec :: "bam_op list \<Rightarrow> (nat \<times> nat) set \<Rightarrow> int list \<times> (nat \<times> nat) set" where
  "bam_spec [] F = ([], F)"
| "bam_spec (Allocate t s # cs) F = map_prod (Cons (of_bool ((t, s) \<in> F))) (\<lambda>F. F) (bam_spec cs (F - {(t, s)}))"
| "bam_spec (Release t s # cs) F = map_prod (Cons (of_bool ((t, s) \<notin> F))) (\<lambda>F. F) (bam_spec cs (insert (t, s) F))"
| "bam_spec (Query t s # cs) F = map_prod (Cons (of_bool ((t, s) \<notin> F))) (\<lambda>F. F) (bam_spec cs F)"

fun op_sector :: "bam_op \<Rightarrow> nat \<times> nat" where
  "op_sector (Allocate t s) = (t, s)" | "op_sector (Release t s) = (t, s)" | "op_sector (Query t s) = (t, s)"

text \<open>The drive after an operation.\<close>

fun op_after :: "bam_op \<Rightarrow> vdrive \<Rightarrow> vdrive" where
  "op_after (Allocate t s) vd = (if (t, s) \<in> free_sectors vd then took t s vd else vd)"
| "op_after (Release t s) vd = (if (t, s) \<in> free_sectors vd then vd else gave t s vd)"
| "op_after (Query t s) vd = vd"

lemma op_after_format [simp]: "image_format (op_after c vd) = image_format vd"
  by (cases c) simp_all

lemma op_after_ok: "bam_ok vd \<Longrightarrow> op_sector c \<in> layout_valid (image_format vd) \<Longrightarrow> bam_ok (op_after c vd)"
  using took_ok by (cases c) simp_all

lemma bam_run_step:
  assumes "bam_ok vd" "op_sector c \<in> layout_valid (image_format vd)"
  shows "bam_run e (c # cs) vd
    = map_option (map_prod (Cons (hd (fst (bam_spec [c] (free_sectors vd))))) (\<lambda>vd. vd)) (bam_run e cs (op_after c vd))"
  using assms allocate_loaded [of vd _ _ e] free_loaded [of vd _ _ e] query_loaded [of vd _ _ e]
  by (cases c) (simp_all add: bam_ok_def free_sectors_def)

lemma bam_spec_step:
  assumes "bam_ok vd" "op_sector c \<in> layout_valid (image_format vd)"
  shows "bam_spec (c # cs) (free_sectors vd)
    = map_prod (Cons (hd (fst (bam_spec [c] (free_sectors vd))))) (\<lambda>F. F) (bam_spec cs (free_sectors (op_after c vd)))"
  using assms took_free by (cases c) (auto simp: bam_ok_def insert_absorb)

section \<open>Changed blocks\<close>

text \<open>Every byte of the BAM that differs from \<open>m\<close> lies in a block to be written.\<close>

definition marked_since :: "u8 list \<Rightarrow> vdrive \<Rightarrow> bool" where
  "marked_since m vd \<longleftrightarrow> (\<forall>i < length (bam vd). bam vd ! i \<noteq> m ! i \<longrightarrow> 0 < bam_state vd ! (i div 256))"

lemma fold_changed_hit:
  "(q \<in> set ps \<and> q < length st) \<or> 0 < st ! q \<Longrightarrow> 0 < fold (\<lambda>p st. st[p := 1 :: int]) ps st ! q"
proof (induction ps arbitrary: st)
  case (Cons p ps)
  have "(q \<in> set ps \<and> q < length (st[p := 1])) \<or> 0 < st[p := 1] ! q"
    using Cons.prems by (cases "p < length st") (auto simp: nth_list_update list_update_beyond)
  then show ?case using Cons.IH by simp
qed simp

lemma marked_change:
  assumes m: "marked_since m vd" and st: "length (bam_state vd) = VDRIVE_BAM_MAX_STATES"
    and len: "length (bam vd) = 256 * format_blocks (image_format vd)"
    and sub: "\<And>i. i < length (bam vd) \<Longrightarrow> b' ! i \<noteq> bam vd ! i \<Longrightarrow> i div 256 \<in> set ps" and l': "length b' = length (bam vd)"
  shows "marked_since m (changed ps (vd\<lparr>bam := b'\<rparr>))"
  unfolding marked_since_def
proof (intro allI impI)
  fix i assume i: "i < length (bam (changed ps (vd\<lparr>bam := b'\<rparr>)))" and d: "bam (changed ps (vd\<lparr>bam := b'\<rparr>)) ! i \<noteq> m ! i"
  have i': "i < length (bam vd)" using i l' by simp
  then have "i div 256 < length (bam_state vd)" using len st format_blocks_states [of "image_format vd"]
    by (simp add: div_less_iff_less_mult)
  then show "0 < bam_state (changed ps (vd\<lparr>bam := b'\<rparr>)) ! (i div 256)"
    using sub [OF i'] m i' d by (cases "b' ! i = bam vd ! i") (simp_all add: changed_def fold_changed_hit marked_since_def)
qed


lemma count_changes:
  assumes "lay.change_count f t add m ! i \<noteq> m ! i" "1 \<le> t" "t \<le> format_tracks f"
  shows "i div 256 \<in> set (count_marks f t)"
proof -
  obtain c where c: "layout_cnt f t = Some c" and i: "i = c"
    using assms(1) by (cases "layout_cnt f t") (auto simp: lay.change_count_def, metis nth_list_update_neq)
  from c assms(2,3) show ?thesis by (cases rule: cnt_cases) (auto simp: i count_marks_def side2_def)
qed

lemma marked_op:
  assumes l: "bam_loaded vd" and v: "op_sector c \<in> layout_valid (image_format vd)" and m: "marked_since m vd"
  shows "marked_since m (op_after c vd)"
proof -
  obtain t s where ts: "op_sector c = (t, s)" by (cases "op_sector c")
  let ?f = "image_format vd"
  have t: "1 \<le> t" "t \<le> format_tracks ?f" using v ts by (simp_all add: valid_iff)
  obtain i b where sl: "layout_slot ?f t s = (i, b)" by (cases "layout_slot ?f t s")
  have "marked_since m (changed (marks ?f t s) (vd\<lparr>bam := lay.change_count ?f t add ((bam vd)[i := x])\<rparr>))" for add x
  proof (rule marked_change [OF m])
    fix j assume "j < length (bam vd)" "lay.change_count ?f t add ((bam vd)[i := x]) ! j \<noteq> bam vd ! j"
    then show "j div 256 \<in> set (marks ?f t s)"
      using count_changes [OF _ t, of add "(bam vd)[i := x]" j] sl by (cases "j = i") (auto simp: marks_def)
  qed (use l in \<open>simp_all add: bam_loaded_def\<close>)
  then have "marked_since m (took t s vd)" "marked_since m (gave t s vd)"
    using sl by (simp_all add: took_def gave_def lay.take_slot_def lay.give_slot_def)
  then show ?thesis using m ts by (cases c) simp_all
qed

section \<open>Sequences\<close>

text \<open>A sequence changes the BAM and the states of its blocks only.\<close>

lemma op_after_parts: "op_after c vd = vd\<lparr>bam := bam (op_after c vd), bam_state := bam_state (op_after c vd)\<rparr>"
  by (cases c) (simp_all add: took_def gave_def changed_def)

lemma bam_run_result:
  assumes "bam_ok vd" "op_sector ` set cs \<subseteq> layout_valid (image_format vd)" "marked_since m vd"
  shows "\<exists>rs b st. bam_run e cs vd = Some (rs, vd\<lparr>bam := b, bam_state := st\<rparr>) \<and> bam_ok (vd\<lparr>bam := b, bam_state := st\<rparr>)
    \<and> bam_spec cs (free_sectors vd) = (rs, free_sectors (vd\<lparr>bam := b, bam_state := st\<rparr>))
    \<and> marked_since m (vd\<lparr>bam := b, bam_state := st\<rparr>) \<and> length b = length (bam vd)"
  using assms
proof (induction cs arbitrary: vd)
  case Nil
  have "vd\<lparr>bam := bam vd, bam_state := bam_state vd\<rparr> = vd" by simp
  then show ?case using Nil by (metis bam_run.simps(1) bam_spec.simps(1))
next
  case (Cons c cs)
  have v: "op_sector c \<in> layout_valid (image_format vd)" using Cons.prems(2) by simp
  have l: "bam_loaded vd" using Cons.prems(1) by (simp add: bam_ok_def)
  note ok1 = op_after_ok [OF Cons.prems(1) v]
  have len: "length (bam (op_after c vd)) = length (bam vd)" using bam_length [of "op_after c vd"] bam_length [OF l] ok1
    by (simp add: bam_ok_def)
  have v2: "op_sector ` set cs \<subseteq> layout_valid (image_format (op_after c vd))" using Cons.prems(2) by simp
  have p: "op_after c vd\<lparr>bam := b, bam_state := st\<rparr> = vd\<lparr>bam := b, bam_state := st\<rparr>" for b st
    by (subst op_after_parts) simp
  from Cons.IH [OF ok1 v2 marked_op [OF l v Cons.prems(3)]] obtain rs b st where
    "bam_run e cs (op_after c vd) = Some (rs, vd\<lparr>bam := b, bam_state := st\<rparr>)" "bam_ok (vd\<lparr>bam := b, bam_state := st\<rparr>)"
    "bam_spec cs (free_sectors (op_after c vd)) = (rs, free_sectors (vd\<lparr>bam := b, bam_state := st\<rparr>))"
    "marked_since m (vd\<lparr>bam := b, bam_state := st\<rparr>)" "length b = length (bam vd)"
    unfolding p len by blast
  then show ?case
    using bam_run_step [OF Cons.prems(1) v, of e cs] bam_spec_step [OF Cons.prems(1) v, of cs]
    by (intro exI [of _ "hd (fst (bam_spec [c] (free_sectors vd))) # rs"] exI [of _ b] exI [of _ st]) simp
qed

lemma marked_self: "marked_since (bam vd) vd"
  by (simp add: marked_since_def)

text \<open>
  C1. The BAM is a set of free sectors: on a loaded BAM with right counts, in each format with
  a fixed layout, any sequence of allocating, freeing and querying valid sectors ends, gives
  the results that the same operations on the set of free sectors give, leaves the BAM of the
  resulting set, and keeps the count of every track right.
\<close>

theorem bam_refines_set:
  assumes "bam_ok vd" "op_sector ` set cs \<subseteq> layout_valid (image_format vd)"
  shows "\<exists>rs vd'. bam_run e cs vd = Some (rs, vd') \<and> bam_ok vd' \<and> image_format vd' = image_format vd
    \<and> bam_spec cs (free_sectors vd) = (rs, free_sectors vd')"
  using bam_run_result [OF assms marked_self, of e] by force

section \<open>A concrete drive\<close>

text \<open>A 1541 whose BAM has no free sector, loaded.\<close>

definition full_bam :: vdrive where
  "full_bam = \<lparr>vd_image = None, image_mode = 0, image_format = FORMAT_1541, Bam_Track = 18, Bam_Sector = 0,
     bam_name = 144, bam_id = 162, bam_state = replicate 33 0, bam_tracks = replicate 33 (-1), bam_sectors = replicate 33 (-1),
     Header_Track = 18, Header_Sector = 0, Dir_Track = 18, Dir_Sector = 1, num_tracks = 35, Part_Start = 1, Part_End = 35,
     current_offset = 0, current_part = 0, cheadertrack = (\<lambda>_. 0), cheadersector = (\<lambda>_. 0), cdirtrack = (\<lambda>_. 0),
     cdirsector = (\<lambda>_. 0), cpartstart = (\<lambda>_. 0), cpartend = (\<lambda>_. 0), d90toggle = False, haspt = False,
     bam_size = 256, bam = replicate 256 0, vd_error = None\<rparr>"

lemma full_bam_free: "free_sectors full_bam = {}"
  using lay.slot_in [of _ _ FORMAT_1541] by (auto simp: free_sectors_def full_bam_def lay.free_in_def)

lemma full_bam_ok: "bam_ok full_bam"
proof -
  have "lay.counts_in FORMAT_1541 (replicate 256 0)"
    using full_bam_free lay.cnt_in [of _ _ FORMAT_1541]
    by (fastforce simp: lay.counts_in_def free_sectors_def full_bam_def)
  then show ?thesis
    by (simp add: bam_ok_def bam_loaded_def full_bam_def fixed_formats_def headers_ok_def VDRIVE_BAM_MAX_STATES_def)
qed

theorem bam_refines_set_witness:
  "\<exists>vd'. bam_run plain_env [Release 17 3, Release 17 3, Query 17 3, Allocate 17 3, Allocate 17 3, Query 17 3] full_bam
      = Some ([1, 0, 0, 1, 0, 1], vd') \<and> bam_ok vd' \<and> free_sectors vd' = {}"
proof -
  have v: "(17, 3) \<in> layout_valid (image_format full_bam)" by (simp add: full_bam_def valid_iff spt_defs)
  show ?thesis
    using bam_refines_set [OF full_bam_ok, of "[Release 17 3, Release 17 3, Query 17 3, Allocate 17 3, Allocate 17 3, Query 17 3]" plain_env] v
    by (auto simp: full_bam_free simp del: bam_run.simps)
qed

text \<open>
  C29. No change to a loaded BAM is lost: after any sequence of allocating, freeing and querying
  valid sectors, every byte of the BAM that differs from its old value lies in a block that is
  marked as changed, so that \<open>vdrive_bam_write_bam\<close> writes it.
\<close>

theorem bam_changes_marked:
  assumes "bam_ok vd" "op_sector ` set cs \<subseteq> layout_valid (image_format vd)"
  shows "\<exists>rs vd'. bam_run e cs vd = Some (rs, vd') \<and> length (bam vd') = length (bam vd)
    \<and> (\<forall>i<length (bam vd). bam vd' ! i \<noteq> bam vd ! i \<longrightarrow> 0 < bam_state vd' ! (i div 256))"
  using bam_run_result [OF assms marked_self, of e] by (force simp: marked_since_def)

theorem bam_changes_marked_witness:
  "\<exists>rs vd'. bam_run plain_env [Release 17 3] full_bam = Some (rs, vd')
    \<and> (\<forall>i<256. bam vd' ! i \<noteq> 0 \<longrightarrow> 0 < bam_state vd' ! (i div 256))"
proof -
  have "op_sector ` set [Release 17 3] \<subseteq> layout_valid (image_format full_bam)"
    by (simp add: full_bam_def valid_iff spt_defs)
  then show ?thesis
    using bam_changes_marked [OF full_bam_ok, of "[Release 17 3]" plain_env] by (auto simp: full_bam_def simp del: bam_run.simps)
qed

end
