(* ===== verification/Vdrive_Bam_Search.thy ===== *)
theory Vdrive_Bam_Search
  imports Vdrive_Bam_Sets
begin

text \<open>
  The searches for free sectors, \<^verbatim>\<open>vdrive_bam_alloc_*\<close>, find one whenever the tracks they may use
  have one.
\<close>

section \<open>Sectors of the tracks\<close>

lemma max_sectors_format:
  "image_format vd \<in> fixed_formats \<Longrightarrow> vdrive_get_max_sectors vd t = format_sectors (image_format vd) t"
  using spt_sides(2) [of t]
  by (auto simp: fixed_formats_def vdrive_get_max_sectors_def NUM_TRACKS_8250_def split: if_splits)

lemma max_per_head:
  "image_format vd \<in> fixed_formats \<Longrightarrow> vdrive_get_max_sectors_per_head vd t = format_sectors (image_format vd) t"
  using max_sectors_format [of vd t] by (auto simp: vdrive_get_max_sectors_per_head_def fixed_formats_def)

fun min_sectors :: "image_format \<Rightarrow> nat" where
  "min_sectors FORMAT_1541 = 17" | "min_sectors FORMAT_2040 = 17" | "min_sectors FORMAT_1571 = 17"
| "min_sectors FORMAT_1581 = 40" | "min_sectors FORMAT_8050 = 23" | "min_sectors FORMAT_8250 = 23"
| "min_sectors FORMAT_NP = 256" | "min_sectors _ = 0"

lemma min_sectors_le: "min_sectors f \<le> format_sectors f t"
  by (cases f) (simp_all add: spt_defs)

lemma min_sectors_pos: "f \<in> fixed_formats \<Longrightarrow> 0 < min_sectors f"
  by (auto simp: fixed_formats_def)

lemma format_sectors_pos: "f \<in> fixed_formats \<Longrightarrow> 0 < format_sectors f t"
  using min_sectors_pos min_sectors_le order_less_le_trans by blast

section \<open>One track\<close>

text \<open>
  What a search over the tracks \<open>ts\<close> has done: nothing when they have no free sector, else it
  took a free one of them.
\<close>

definition searched :: "vdrive \<Rightarrow> (nat \<times> nat) set \<Rightarrow> ((nat \<times> nat) option \<times> vdrive) option \<Rightarrow> bool" where
  "searched vd S r \<longleftrightarrow> (case r of
       None \<Rightarrow> False
     | Some (None, vd') \<Rightarrow> vd' = vd \<and> S \<inter> free_sectors vd = {}
     | Some (Some (t, s), vd') \<Rightarrow> (t, s) \<in> S \<inter> free_sectors vd \<and> vd' = took t s vd)"

lemma searched_none: "searched vd S (Some (None, vd')) \<longleftrightarrow> vd' = vd \<and> S \<inter> free_sectors vd = {}"
  and searched_some: "searched vd S (Some (Some (t, s), vd')) \<longleftrightarrow> (t, s) \<in> S \<inter> free_sectors vd \<and> vd' = took t s vd"
  by (simp_all add: searched_def)

lemma searched_cases:
  assumes "searched vd S r"
  obtains "r = Some (None, vd)" "S \<inter> free_sectors vd = {}"
    | t s where "r = Some (Some (t, s), took t s vd)" "(t, s) \<in> S" "(t, s) \<in> free_sectors vd"
proof (cases r)
  case None
  then show ?thesis using assms by (simp add: searched_def)
next
  case (Some x)
  then obtain found vd' where "r = Some (found, vd')" by (cases x) simp
  then show ?thesis using assms that by (cases found) (auto simp: searched_def)
qed

lemma searched_mono:
  "searched vd S r \<Longrightarrow> S \<subseteq> S' \<Longrightarrow> S' \<inter> free_sectors vd \<subseteq> S \<Longrightarrow> searched vd S' r"
  by (elim searched_cases) (auto simp: searched_none searched_some)

text \<open>A search that goes on where another found nothing.\<close>

lemma searched_then:
  assumes "searched vd S r" "searched vd S' (r' vd)"
  shows "searched vd (S \<union> S') (Option.bind r (\<lambda>(found, vd). case found of Some ts \<Rightarrow> Some (Some ts, vd) | None \<Rightarrow> r' vd))"
  using assms(1)
proof (cases rule: searched_cases)
  case 1
  from assms(2) show ?thesis using 1 by (elim searched_cases) (auto simp: searched_none searched_some)
next
  case (2 t s)
  then show ?thesis by (simp add: searched_some)
qed

lemma worker_then:
  assumes "searched vd S (map_option (\<lambda>(found, vd). (map_option (Pair t) found, vd)) w)" "searched vd S' (r' vd)"
  shows "searched vd (S \<union> S') (Option.bind w (\<lambda>(found, vd). case found of Some s \<Rightarrow> Some (Some (t, s), vd) | None \<Rightarrow> r' vd))"
proof -
  have "Option.bind w (\<lambda>(found, vd). case found of Some s \<Rightarrow> Some (Some (t, s), vd) | None \<Rightarrow> r' vd)
      = Option.bind (map_option (\<lambda>(found, vd). (map_option (Pair t) found, vd)) w)
          (\<lambda>(found, vd). case found of Some ts \<Rightarrow> Some (Some ts, vd) | None \<Rightarrow> r' vd)"
    by (cases w) (auto split: option.split)
  then show ?thesis using searched_then [OF assms(1), of S' r'] assms(2) by simp
qed

lemma allocate_searched:
  assumes "bam_loaded vd" "(t, s) \<in> layout_valid (image_format vd)"
  shows "searched vd {(t, s)} (map_option (\<lambda>(ok, vd). (if ok then Some (t, s) else None, vd)) (vdrive_bam_allocate_sector e t s vd))"
  using allocate_loaded [OF assms, of e] by (simp add: searched_none searched_some free_sectors_def)

definition track_sectors :: "image_format \<Rightarrow> nat \<Rightarrow> (nat \<times> nat) set" where
  "track_sectors f t = {t} \<times> {..<format_sectors f t}"

lemma track_sectors_valid: "1 \<le> t \<Longrightarrow> t \<le> format_tracks f \<Longrightarrow> track_sectors f t \<subseteq> layout_valid f"
  by (auto simp: track_sectors_def layout_valid_def)

lemma scan_head_finds:
  assumes l: "bam_loaded vd" and t: "1 \<le> t" "t \<le> format_tracks (image_format vd)"
    and s: "s < format_sectors (image_format vd) t"
  shows "\<exists>found s' vd'. scan_head k e t (format_sectors (image_format vd) t) 0 s vd = Some (found, s', vd')
    \<and> searched vd ((\<lambda>j. (t, (s + j) mod format_sectors (image_format vd) t)) ` {..<k}) (Some (map_option (Pair t) found, vd'))"
  using s
proof (induction k arbitrary: s)
  case 0
  then show ?case by (simp add: searched_none)
next
  case (Suc k)
  let ?m = "format_sectors (image_format vd) t"
  let ?s = "if s + 1 \<ge> ?m then 0 else s + 1"
  have v: "(t, s) \<in> layout_valid (image_format vd)" using t Suc.prems by (simp add: valid_iff)
  have s': "?s = Suc s mod ?m" using Suc.prems by (cases "Suc s = ?m") auto
  have st: "(?s + j) mod ?m = (s + Suc j) mod ?m" for j using s' by (simp add: mod_add_left_eq)
  show ?case
  proof (cases "(t, s) \<in> free_sectors vd")
    case True
    then show ?thesis using allocate_loaded [OF l v, of e] Suc.prems
      by (force simp: free_sectors_def searched_some image_iff)
  next
    case False
    have "?s < ?m" using Suc.prems by simp
    from Suc.IH [OF this] obtain found s2 vd2 where r: "scan_head k e t ?m 0 ?s vd = Some (found, s2, vd2)"
      and sr: "searched vd ((\<lambda>j. (t, (?s + j) mod ?m)) ` {..<k}) (Some (map_option (Pair t) found, vd2))" by blast
    have im: "(\<lambda>j. (t, (s + j) mod ?m)) ` {..<Suc k} = insert (t, s) ((\<lambda>j. (t, (?s + j) mod ?m)) ` {..<k})"
      using Suc.prems unfolding st lessThan_Suc_eq_insert_0 by (simp add: image_image)
    have "searched vd ((\<lambda>j. (t, (s + j) mod ?m)) ` {..<Suc k}) (Some (map_option (Pair t) found, vd2))"
      unfolding im by (rule searched_mono [OF sr]) (use False in auto)
    then show ?thesis using r allocate_loaded [OF l v, of e] False by (simp add: free_sectors_def)
  qed
qed

lemma all_residues:
  assumes s: "s < m"
  shows "(\<lambda>j. (t, (s + j) mod m)) ` {..<m} = {t :: nat} \<times> {..<m :: nat}"
proof (intro equalityI subsetI)
  fix x assume "x \<in> {t} \<times> {..<m}"
  then obtain y where y: "x = (t, y)" "y < m" by blast
  have "\<exists>j<m. (s + j) mod m = y"
  proof (cases "s \<le> y")
    case True
    then show ?thesis using y(2) by (intro exI [of _ "y - s"]) simp
  next
    case False
    then show ?thesis using y(2) s by (intro exI [of _ "y + m - s"]) simp
  qed
  then show "x \<in> (\<lambda>j. (t, (s + j) mod m)) ` {..<m}" using y(1) by blast
next
  fix x assume "x \<in> (\<lambda>j. (t, (s + j) mod m)) ` {..<m}"
  then show "x \<in> {t} \<times> {..<m}" using s by clarsimp
qed

lemma worker_finds:
  assumes l: "bam_loaded vd" and t: "1 \<le> t" "t \<le> format_tracks (image_format vd)"
    and s: "s < format_sectors (image_format vd) t"
  shows "searched vd (track_sectors (image_format vd) t)
    (map_option (\<lambda>(found, vd). (map_option (Pair t) found, vd)) (vdrive_bam_alloc_worker e t s vd))"
proof -
  let ?m = "format_sectors (image_format vd) t"
  have f: "image_format vd \<in> fixed_formats" using l by (simp add: bam_loaded_def)
  have "(?m + ?m - 1) div ?m = 1" using s by (intro div_nat_eqI) simp_all
  then have w: "vdrive_bam_alloc_worker e t s vd = scan_heads 1 e t ?m ?m 0 s vd"
    using s by (simp add: vdrive_bam_alloc_worker_def max_sectors_format [OF f] max_per_head [OF f] Let_def)
  obtain found s' vd' where "scan_head ?m e t ?m 0 s vd = Some (found, s', vd')"
      "searched vd (track_sectors (image_format vd) t) (Some (map_option (Pair t) found, vd'))"
    using scan_head_finds [OF l t s, of ?m e] unfolding all_residues [OF s] track_sectors_def by blast
  then show ?thesis unfolding w by (cases found) simp_all
qed


section \<open>Tracks\<close>

definition tracks_sectors :: "image_format \<Rightarrow> nat set \<Rightarrow> (nat \<times> nat) set" where
  "tracks_sectors f ts = (\<Union>t\<in>ts. track_sectors f t)"

lemma tracks_sectors_simps [simp]:
  "tracks_sectors f {} = {}" "tracks_sectors f (insert t ts) = track_sectors f t \<union> tracks_sectors f ts"
  "tracks_sectors f (ts \<union> ts') = tracks_sectors f ts \<union> tracks_sectors f ts'"
  by (auto simp: tracks_sectors_def)

lemma tracks_sectors_iff: "(t, s) \<in> tracks_sectors f ts \<longleftrightarrow> t \<in> ts \<and> s < format_sectors f t"
  by (auto simp: tracks_sectors_def track_sectors_def)

lemma interleave_in:
  assumes f: "image_format vd \<in> fixed_formats" and s: "s + il \<le> 2 * min_sectors (image_format vd)"
  shows "vdrive_bam_alloc_add_interleave vd t s il < format_sectors (image_format vd) t"
  using s min_sectors_le [of "image_format vd" t] format_sectors_pos [OF f, of t]
  by (auto simp: vdrive_bam_alloc_add_interleave_def max_sectors_format [OF f] max_per_head [OF f] Let_def)

lemma reset_zero:
  assumes f: "image_format vd \<in> fixed_formats" and s: "s + il \<le> 2 * min_sectors (image_format vd)"
  shows "vdrive_bam_alloc_next_free_sector_reset vd t s il = 0"
  using interleave_in [OF assms] by (simp add: vdrive_bam_alloc_next_free_sector_reset_def max_per_head [OF f] Let_def)

lemma worker_interleave:
  assumes l: "bam_loaded vd" and t: "1 \<le> t" "t \<le> num_tracks vd" and s: "s + il \<le> 2 * min_sectors (image_format vd)"
  shows "searched vd (track_sectors (image_format vd) t)
    (map_option (\<lambda>(found, vd). (map_option (Pair t) found, vd))
      (vdrive_bam_alloc_worker e t (vdrive_bam_alloc_add_interleave vd t s il) vd))"
proof (rule worker_finds [OF l t(1)])
  show "t \<le> format_tracks (image_format vd)" using l t(2) by (simp add: bam_loaded_def)
  show "vdrive_bam_alloc_add_interleave vd t s il < format_sectors (image_format vd) t"
    using interleave_in s l by (simp add: bam_loaded_def)
qed

lemma down_finds:
  assumes l: "bam_loaded vd" and s: "s + il \<le> 2 * min_sectors (image_format vd)" and t: "t \<le> num_tracks vd"
  shows "searched vd (tracks_sectors (image_format vd) {1..t}) (vdrive_bam_alloc_down e t s il vd)"
  using t
proof (induction t)
  case 0
  then show ?case by (simp add: searched_none)
next
  case (Suc t)
  have "{1..Suc t} = insert (Suc t) {1..t}" by auto
  then show ?case
    using worker_then [OF worker_interleave [OF l _ _ s, of "Suc t" e], of _ "vdrive_bam_alloc_down e t s il"] Suc
    by simp
qed

lemma up_loop_finds:
  assumes l: "bam_loaded vd" and s: "s + il \<le> 2 * min_sectors (image_format vd)" and t: "1 \<le> t" "t + k \<le> Suc (num_tracks vd)"
  shows "searched vd (tracks_sectors (image_format vd) {t..<t + k}) (alloc_up_loop k e t s il vd)"
  using t
proof (induction k arbitrary: t)
  case 0
  then show ?case by (simp add: searched_none)
next
  case (Suc k)
  have "{t..<t + Suc k} = insert t {Suc t..<Suc t + k}" by auto
  then show ?case
    using worker_then [OF worker_interleave [OF l _ _ s, of t e], of _ "alloc_up_loop k e (Suc t) s il"] Suc.IH [of "Suc t"] Suc.prems
    by simp
qed

lemma up_finds:
  assumes "bam_loaded vd" "s + il \<le> 2 * min_sectors (image_format vd)" "1 \<le> t"
  shows "searched vd (tracks_sectors (image_format vd) {t..num_tracks vd}) (vdrive_bam_alloc_up e t s il vd)"
proof (cases "t \<le> num_tracks vd")
  case True
  then have "{t..<t + (Suc (num_tracks vd) - t)} = {t..num_tracks vd}" by auto
  then show ?thesis
    using up_loop_finds [OF assms, of "Suc (num_tracks vd) - t" e] True by (simp add: vdrive_bam_alloc_up_def)
next
  case False
  then show ?thesis by (simp add: vdrive_bam_alloc_up_def searched_none)
qed

text \<open>One pass below the directory track and one above it, in either order.\<close>

lemma pass_below:
  assumes l: "bam_loaded vd" and s: "s + il \<le> 2 * min_sectors (image_format vd)" and d: "Dir_Track vd \<le> Suc (num_tracks vd)"
    and t: "0 < t" "t < Dir_Track vd" and r: "searched vd S (alloc_passes k e (Dir_Track vd + 1) 0 il vd)"
  shows "searched vd (tracks_sectors (image_format vd) {1..t} \<union> S) (alloc_passes (Suc k) e t s il vd)"
proof -
  have f: "image_format vd \<in> fixed_formats" using l by (simp add: bam_loaded_def)
  have a: "alloc_passes (Suc k) e t s il vd = Option.bind (vdrive_bam_alloc_down e t s il vd) (\<lambda>(found, vd). case found of
      Some ts \<Rightarrow> Some (Some ts, vd)
    | None \<Rightarrow> alloc_passes k e (Dir_Track vd + 1) (vdrive_bam_alloc_next_free_sector_reset vd (Dir_Track vd + 1) s il) il vd)"
    if "searched vd S1 (vdrive_bam_alloc_down e t s il vd)" for S1
    using that t by (elim searched_cases) (simp_all add: Let_def)
  have b: "searched vd (tracks_sectors (image_format vd) {1..t}) (vdrive_bam_alloc_down e t s il vd)"
    using down_finds [OF l s, of t e] t d by simp
  show ?thesis unfolding a [OF b] by (rule searched_then [OF b]) (use r reset_zero [OF f s] in simp)
qed

lemma pass_above:
  assumes l: "bam_loaded vd" and s: "s + il \<le> 2 * min_sectors (image_format vd)" and d: "1 \<le> Dir_Track vd"
    and t: "Dir_Track vd \<le> t" and r: "searched vd S (alloc_passes k e (Dir_Track vd - 1) 0 il vd)"
  shows "searched vd (tracks_sectors (image_format vd) {t..num_tracks vd} \<union> S) (alloc_passes (Suc k) e t s il vd)"
proof -
  have f: "image_format vd \<in> fixed_formats" using l by (simp add: bam_loaded_def)
  have b: "searched vd (tracks_sectors (image_format vd) {t..num_tracks vd}) (vdrive_bam_alloc_up e t s il vd)"
    using up_finds [OF l s, of t e] t d by simp
  have a: "alloc_passes (Suc k) e t s il vd = Option.bind (vdrive_bam_alloc_up e t s il vd) (\<lambda>(found, vd). case found of
      Some ts \<Rightarrow> Some (Some ts, vd)
    | None \<Rightarrow> alloc_passes k e (Dir_Track vd - 1) (vdrive_bam_alloc_next_free_sector_reset vd (Dir_Track vd - 1) s il) il vd)"
    using b t by (elim searched_cases) (simp_all add: Let_def)
  show ?thesis unfolding a by (rule searched_then [OF b]) (use r reset_zero [OF f s] in simp)
qed


lemma passes_find:
  assumes l: "bam_loaded vd" and s: "s + il \<le> 2 * min_sectors (image_format vd)"
    and d: "1 < Dir_Track vd" "Dir_Track vd \<le> num_tracks vd" and t: "1 \<le> t" "t \<le> num_tracks vd" "t \<noteq> Dir_Track vd"
  shows "searched vd (tracks_sectors (image_format vd) ({1..num_tracks vd} - {Dir_Track vd})) (alloc_passes 3 e t s il vd)"
proof -
  let ?T = "tracks_sectors (image_format vd)"
  have s0: "0 + il \<le> 2 * min_sectors (image_format vd)" using s by simp
  have d': "Dir_Track vd \<le> Suc (num_tracks vd)" "1 \<le> Dir_Track vd" using d by simp_all
  have n: "searched vd {} (alloc_passes 0 e t' 0 il vd)" for t' by (simp add: searched_none)
  have below: "searched vd (?T {1..Dir_Track vd - 1} \<union> S) (alloc_passes (Suc k) e (Dir_Track vd - 1) 0 il vd)"
    if "searched vd S (alloc_passes k e (Dir_Track vd + 1) 0 il vd)" for S k
    by (rule pass_below [OF l s0 d'(1) _ _ that]) (use d in simp_all)
  have above: "searched vd (?T {Dir_Track vd + 1..num_tracks vd} \<union> S) (alloc_passes (Suc k) e (Dir_Track vd + 1) 0 il vd)"
    if "searched vd S (alloc_passes k e (Dir_Track vd - 1) 0 il vd)" for S k
    by (rule pass_above [OF l s0 d'(2) _ that]) simp
  have e3: "3 = Suc (Suc (Suc 0))" by simp
  show ?thesis
  proof (cases "t < Dir_Track vd")
    case True
    have "searched vd (?T {1..t} \<union> (?T {Dir_Track vd + 1..num_tracks vd} \<union> (?T {1..Dir_Track vd - 1} \<union> {})))
        (alloc_passes 3 e t s il vd)"
      unfolding e3 by (rule pass_below [OF l s d'(1) _ _ above [OF below [OF n]]]) (use t True in simp_all)
    moreover have "{1..t} \<union> ({Dir_Track vd + 1..num_tracks vd} \<union> ({1..Dir_Track vd - 1} \<union> {})) = {1..num_tracks vd} - {Dir_Track vd}"
      using True d by auto
    ultimately show ?thesis by (metis tracks_sectors_simps(1,3))
  next
    case False
    have "searched vd (?T {t..num_tracks vd} \<union> (?T {1..Dir_Track vd - 1} \<union> (?T {Dir_Track vd + 1..num_tracks vd} \<union> {})))
        (alloc_passes 3 e t s il vd)"
      unfolding e3 by (rule pass_above [OF l s d'(2) _ below [OF above [OF n]]]) (use t False in simp_all)
    moreover have "{t..num_tracks vd} \<union> ({1..Dir_Track vd - 1} \<union> ({Dir_Track vd + 1..num_tracks vd} \<union> {})) = {1..num_tracks vd} - {Dir_Track vd}"
      using False d t by auto
    ultimately show ?thesis by (metis tracks_sectors_simps(1,3))
  qed
qed

section \<open>Native partitions\<close>

text \<open>The sectors of a partition in the order of the search, and the distance to a sector.\<close>

definition np_pos :: "nat \<Rightarrow> nat \<Rightarrow> nat" where
  "np_pos t s = (t - 1) * 256 + s"

definition np_gap :: "nat \<Rightarrow> nat \<Rightarrow> nat \<Rightarrow> nat" where
  "np_gap n p q = (if p < q then q - p else n * 256 - p + q)"

fun np_next :: "nat \<Rightarrow> nat \<times> nat \<Rightarrow> nat \<times> nat" where
  "np_next n (t, s) =
     (let (t, s) = (if s + 1 \<ge> 256 then (if t + 1 > n then 1 else t + 1, 0) else (t, s + 1))
      in (t, if t = 1 \<and> s < 64 then 64 else s))"

definition np_sectors :: "nat \<Rightarrow> (nat \<times> nat) set" where
  "np_sectors n = {(t, s). 1 \<le> t \<and> t \<le> n \<and> s < 256 \<and> \<not> (t = 1 \<and> s < 64)}"

lemma np_next_in: "1 \<le> n \<Longrightarrow> 1 \<le> t \<Longrightarrow> t \<le> n \<Longrightarrow> s < 256 \<Longrightarrow> np_next n (t, s) \<in> np_sectors n"
  by (auto simp: np_sectors_def Let_def)

lemma np_pos_next:
  assumes "1 \<le> t" "t \<le> n" "s < 256"
  obtains "np_pos (fst (np_next n (t, s))) (snd (np_next n (t, s))) = Suc (np_pos t s)" "Suc (np_pos t s) < n * 256"
    | "np_next n (t, s) = (1, 64)" "np_pos t s < 64 \<or> Suc (np_pos t s) = n * 256"
proof -
  have b: "(t - 1) * 256 + 256 = t * 256" "t * 256 \<le> n * 256" using assms by (simp_all add: diff_mult_distrib)
  consider "s + 1 < 256" "t = 1" "s + 1 < 64" | "s + 1 < 256" "\<not> (t = 1 \<and> s + 1 < 64)" | "s = 255" "t < n" | "s = 255" "t = n"
    using assms by linarith
  then show thesis
  proof cases
    case 1
    then show ?thesis using that(2) by (simp add: np_pos_def)
  next
    case 2
    then show ?thesis using that(1) b by (simp add: np_pos_def)
  next
    case 3
    then have "t * 256 + 256 \<le> n * 256" by simp
    then show ?thesis using that(1) 3 b assms by (simp add: np_pos_def)
  next
    case 4
    then show ?thesis using that(2) b by (simp add: np_pos_def)
  qed
qed

lemma np_gap_next:
  assumes "1 \<le> t" "t \<le> n" "s < 256" and q: "(t', s') \<in> np_sectors n" and ne: "np_next n (t, s) \<noteq> (t', s')"
  shows "np_gap n (np_pos (fst (np_next n (t, s))) (snd (np_next n (t, s)))) (np_pos t' s') < np_gap n (np_pos t s) (np_pos t' s')"
proof -
  have t': "1 \<le> t'" "t' \<le> n" "s' < 256" "t' = 1 \<longrightarrow> 64 \<le> s'" using q by (auto simp: np_sectors_def)
  have q': "64 \<le> np_pos t' s'" "np_pos t' s' < n * 256" using t' by (auto simp: np_pos_def)
  have "np_next n (t, s) \<in> np_sectors n" using np_next_in [OF _ assms(1-3)] assms(1,2) by simp
  then have "1 \<le> fst (np_next n (t, s))" "snd (np_next n (t, s)) < 256" by (auto simp: np_sectors_def simp del: np_next.simps)
  moreover have inj: "np_pos a b = np_pos t' s' \<Longrightarrow> 1 \<le> a \<Longrightarrow> b < 256 \<Longrightarrow> (a, b) = (t', s')" for a b
  proof -
    assume a: "np_pos a b = np_pos t' s'" "1 \<le> a" "b < 256"
    then have "((a - 1) * 256 + b) div 256 = ((t' - 1) * 256 + s') div 256" "((a - 1) * 256 + b) mod 256 = ((t' - 1) * 256 + s') mod 256"
      by (simp_all add: np_pos_def)
    then have "a - 1 = t' - 1" "b = s'" using a t' by simp_all
    then show "(a, b) = (t', s')" using a t' by simp
  qed
  ultimately have ne': "np_pos (fst (np_next n (t, s))) (snd (np_next n (t, s))) \<noteq> np_pos t' s'" using ne by force
  from assms(1-3) show ?thesis
  proof (cases rule: np_pos_next)
    case 1
    then show ?thesis using ne' q' by (auto simp: np_gap_def)
  next
    case 2
    have "np_pos 1 64 = 64" by (simp add: np_pos_def)
    then show ?thesis using 2 ne' q' by (auto simp: np_gap_def)
  qed
qed

lemma np_gap_pos: "0 < np_gap n p (np_pos t' s')" if "(t', s') \<in> np_sectors n" "p < n * 256"
  using that by (auto simp: np_gap_def)

lemma np_gap_bound: "np_gap n p q \<le> n * 256" if "q < n * 256" 
  using that by (auto simp: np_gap_def)

lemma scan_partition_next:
  "scan_partition (Suc k) e 256 t s vd = (case np_next (num_tracks vd) (t, s) of (t2, s2) \<Rightarrow>
     Option.bind (vdrive_bam_allocate_sector e t2 s2 vd) (\<lambda>(ok, vd).
       if ok then Some (Some (t2, s2), vd) else scan_partition k e 256 t2 s2 vd))"
  unfolding scan_partition.simps np_next.simps Let_def DIR_TRACK_NP_def
  by (cases "s + 1 \<ge> 256"; cases "t + 1 > num_tracks vd") (simp_all only: if_True if_False prod.case)

text \<open>The search takes a free sector at a distance of at most its rounds.\<close>

lemma partition_finds:
  assumes l: "bam_loaded vd" and f: "image_format vd = FORMAT_NP" and t: "1 \<le> t" "t \<le> num_tracks vd" "s < 256"
  shows "searched vd {(t', s') \<in> np_sectors (num_tracks vd). np_gap (num_tracks vd) (np_pos t s) (np_pos t' s') \<le> k}
    (scan_partition k e 256 t s vd) \<or>
    (\<exists>t' s'. searched vd {(t', s')} (scan_partition k e 256 t s vd) \<and> (t', s') \<in> np_sectors (num_tracks vd) \<inter> free_sectors vd)"
  using t
proof (induction k arbitrary: t s)
  case 0
  have "np_pos t s < num_tracks vd * 256"
    using 0 mult_le_mono1 [of t "num_tracks vd" 256] by (simp add: np_pos_def diff_mult_distrib)
  then show ?case using np_gap_pos [of _ _ "num_tracks vd" "np_pos t s"] by (force simp: searched_none)
next
  case (Suc k)
  let ?n = "num_tracks vd"
  obtain t2 s2 where nx: "np_next ?n (t, s) = (t2, s2)" by (cases "np_next ?n (t, s)")
  have in2: "(t2, s2) \<in> np_sectors ?n" using np_next_in [of ?n t s] Suc.prems nx by simp
  then have b2: "1 \<le> t2" "t2 \<le> ?n" "s2 < 256" by (auto simp: np_sectors_def)
  have v: "(t2, s2) \<in> layout_valid (image_format vd)" using b2 l f by (simp add: valid_iff bam_loaded_def)
  have step: "scan_partition (Suc k) e 256 t s vd = Option.bind (vdrive_bam_allocate_sector e t2 s2 vd) (\<lambda>(ok, vd).
      if ok then Some (Some (t2, s2), vd) else scan_partition k e 256 t2 s2 vd)"
    unfolding scan_partition_next nx by simp
  show ?case
  proof (cases "(t2, s2) \<in> free_sectors vd")
    case True
    then have "searched vd {(t2, s2)} (scan_partition (Suc k) e 256 t s vd)"
      unfolding step using allocate_loaded [OF l v, of e] by (simp add: free_sectors_def searched_some)
    then show ?thesis using in2 True by blast
  next
    case False
    have eq: "scan_partition (Suc k) e 256 t s vd = scan_partition k e 256 t2 s2 vd"
      unfolding step using allocate_loaded [OF l v, of e] False by (simp add: free_sectors_def)
    have sub: "np_gap ?n (np_pos t2 s2) (np_pos t' s') \<le> k"
      if "(t', s') \<in> np_sectors ?n" "(t', s') \<noteq> (t2, s2)" "np_gap ?n (np_pos t s) (np_pos t' s') \<le> Suc k" for t' s'
      using np_gap_next [OF Suc.prems that(1)] that nx by auto
    from Suc.IH [OF b2] show ?thesis
    proof
      assume a: "searched vd {(t', s') \<in> np_sectors ?n. np_gap ?n (np_pos t2 s2) (np_pos t' s') \<le> k} (scan_partition k e 256 t2 s2 vd)"
      show ?thesis
        unfolding eq using a
      proof (cases rule: searched_cases)
        case 1
        then have "searched vd {(t', s') \<in> np_sectors ?n. np_gap ?n (np_pos t s) (np_pos t' s') \<le> Suc k} (scan_partition k e 256 t2 s2 vd)"
          using sub False by (fastforce simp: searched_none)
        then show "searched vd {(t', s') \<in> np_sectors ?n. np_gap ?n (np_pos t s) (np_pos t' s') \<le> Suc k} (scan_partition k e 256 t2 s2 vd) \<or>
            (\<exists>t' s'. searched vd {(t', s')} (scan_partition k e 256 t2 s2 vd) \<and> (t', s') \<in> np_sectors ?n \<inter> free_sectors vd)" ..
      next
        case (2 t' s')
        then show "searched vd {(t', s') \<in> np_sectors ?n. np_gap ?n (np_pos t s) (np_pos t' s') \<le> Suc k} (scan_partition k e 256 t2 s2 vd) \<or>
            (\<exists>t' s'. searched vd {(t', s')} (scan_partition k e 256 t2 s2 vd) \<and> (t', s') \<in> np_sectors ?n \<inter> free_sectors vd)"
          by (auto simp: searched_some)
      qed
    qed (use eq in auto)
  qed
qed


lemma partition_searched:
  assumes l: "bam_loaded vd" and f: "image_format vd = FORMAT_NP" and t: "1 \<le> t" "t \<le> num_tracks vd" "s < 256"
  shows "searched vd (np_sectors (num_tracks vd)) (scan_partition (256 * num_tracks vd) e 256 t s vd)"
proof -
  let ?n = "num_tracks vd"
  have all: "{(t', s') \<in> np_sectors ?n. np_gap ?n (np_pos t s) (np_pos t' s') \<le> 256 * ?n} = np_sectors ?n"
  proof -
    have "np_gap ?n (np_pos t s) (np_pos t' s') \<le> 256 * ?n" if "(t', s') \<in> np_sectors ?n" for t' s'
    proof -
      have "(t' - 1) * 256 + 256 \<le> ?n * 256" "(t - 1) * 256 + 256 \<le> ?n * 256"
        using that t mult_le_mono1 [of t' ?n 256] mult_le_mono1 [of t ?n 256] by (auto simp: np_sectors_def diff_mult_distrib)
      then show ?thesis using that t by (auto simp: np_gap_def np_pos_def np_sectors_def)
    qed
    then show ?thesis by auto
  qed
  show ?thesis
    using partition_finds [OF l f t, of "256 * ?n" e] unfolding all
    by (elim disjE exE conjE) (auto elim!: searched_cases simp: searched_some)
qed

section \<open>Data sectors\<close>

text \<open>
  The sectors that the searches may take: all but the directory track, or the first 64 sectors
  of a native partition.
\<close>

definition data_sectors :: "vdrive \<Rightarrow> (nat \<times> nat) set" where
  "data_sectors vd =
     (if image_format vd = FORMAT_NP then np_sectors (num_tracks vd)
      else tracks_sectors (image_format vd) ({1..num_tracks vd} - {Dir_Track vd}))"

definition dir_in :: "vdrive \<Rightarrow> bool" where
  "dir_in vd \<longleftrightarrow> image_format vd \<noteq> FORMAT_NP \<longrightarrow> 1 < Dir_Track vd \<and> Dir_Track vd \<le> num_tracks vd"

lemma next_searched:
  assumes l: "bam_loaded vd" and d: "dir_in vd" and t: "1 \<le> t" "t \<le> num_tracks vd" and s: "s < 256"
    and il: "s + il \<le> 2 * min_sectors (image_format vd)" and nd: "image_format vd \<noteq> FORMAT_NP \<Longrightarrow> t \<noteq> Dir_Track vd"
  shows "searched vd (data_sectors vd) (vdrive_bam_alloc_next_free_sector_interleave e t s il vd)"
proof (cases "image_format vd = FORMAT_NP")
  case True
  have m: "vdrive_get_max_sectors_per_head vd t = 256" using max_per_head [of vd t] True by (simp add: fixed_formats_def)
  have "(if t = Dir_Track vd \<and> s < 63 then 63 else s) < 256" using s by simp
  from partition_searched [OF l True t this, of e] show ?thesis
    using True m by (simp add: vdrive_bam_alloc_next_free_sector_interleave_def data_sectors_def Let_def cong: if_cong)
next
  case False
  have f9: "image_format vd \<noteq> FORMAT_9000" using l by (auto simp: bam_loaded_def fixed_formats_def)
  have d': "1 < Dir_Track vd" "Dir_Track vd \<le> num_tracks vd" using d False by (simp_all add: dir_in_def)
  let ?last = "\<lambda>vd. if image_format vd = FORMAT_9000 then
      map_option (\<lambda>(found, vd). (map_option (Pair (Dir_Track vd)) found, vd)) (vdrive_bam_alloc_worker e (Dir_Track vd) 10 vd)
    else Some (None, vd)"
  let ?rest = "\<lambda>vd. Option.bind (alloc_passes 3 e t s il vd) (\<lambda>(found, vd). case found of
      Some ts \<Rightarrow> Some (Some ts, vd) | None \<Rightarrow> ?last vd)"
  have rest: "searched vd (data_sectors vd) (?rest vd)"
    using searched_then [OF passes_find [OF l il d' t nd [OF False], of e], of "{}" ?last] False f9
    by (simp add: data_sectors_def searched_none)
  have n: "vdrive_bam_alloc_next_free_sector_interleave e t s il vd
      = Option.bind (vdrive_bam_alloc_worker e t (vdrive_bam_alloc_add_interleave vd t s il) vd)
          (\<lambda>(found, vd). case found of Some s \<Rightarrow> Some (Some (t, s), vd) | None \<Rightarrow> ?rest vd)"
    using False nd f9 by (simp add: vdrive_bam_alloc_next_free_sector_interleave_def)
  have sub: "track_sectors (image_format vd) t \<union> data_sectors vd = data_sectors vd"
    using t nd [OF False] False by (auto simp: data_sectors_def tracks_sectors_def)
  show ?thesis
    unfolding n using worker_then [OF worker_interleave [OF l t il, of e], of "data_sectors vd" ?rest] rest unfolding sub by blast
qed

text \<open>The butterfly reaches the tracks at the distances \<open>d\<close> to \<open>d + k - 1\<close>.\<close>

definition near :: "vdrive \<Rightarrow> nat \<Rightarrow> nat \<Rightarrow> nat set" where
  "near vd d k = {t \<in> {1..num_tracks vd}. \<exists>i\<in>{d..<d + k}. t + i = Dir_Track vd \<or> t = Dir_Track vd + i}"

lemma near_Suc:
  "near vd d (Suc k) = {t \<in> {1..num_tracks vd}. t + d = Dir_Track vd} \<union> ({t \<in> {1..num_tracks vd}. t = Dir_Track vd + d} \<union> near vd (Suc d) k)"
proof -
  have e: "{d..<d + Suc k} = insert d {Suc d..<Suc d + k}" by auto
  show ?thesis unfolding near_def e by blast
qed

lemma butterfly_try_finds:
  assumes l: "bam_loaded vd" and t: "1 \<le> t" "t \<le> num_tracks vd"
  shows "searched vd (tracks_sectors (image_format vd) {t}) (butterfly_try e (int t) vd)"
proof -
  have "image_format vd \<in> fixed_formats" "t \<le> format_tracks (image_format vd)" using l t by (simp_all add: bam_loaded_def)
  then show ?thesis using worker_finds [OF l t(1), of 0 e] format_sectors_pos by (simp add: butterfly_try_def)
qed

lemma butterfly_finds:
  assumes l: "bam_loaded vd" and k: "1 \<le> d" and dir: "Dir_Track vd \<le> num_tracks vd"
  shows "searched vd (tracks_sectors (image_format vd) (near vd d k)) (butterfly k e d vd)"
  using k
proof (induction k arbitrary: d)
  case 0
  then show ?case by (simp add: searched_none near_def)
next
  case (Suc k)
  let ?T = "tracks_sectors (image_format vd)" and ?n = "num_tracks vd" and ?d = "Dir_Track vd"
  let ?low = "\<lambda>vd. if d \<noteq> 0 \<and> int (Dir_Track vd) - int d \<ge> 1 then butterfly_try e (int (Dir_Track vd) - int d) vd else Some (None, vd)"
  let ?high = "\<lambda>vd. if int (Dir_Track vd) + int d \<le> int (num_tracks vd) \<and> d \<noteq> 0 then butterfly_try e (int (Dir_Track vd) + int d) vd
    else Some (None, vd)"
  let ?next = "\<lambda>vd. butterfly k e (d + 1) vd"
  let ?rest = "\<lambda>vd. Option.bind (?high vd) (\<lambda>(found, vd). case found of Some ts \<Rightarrow> Some (Some ts, vd) | None \<Rightarrow> ?next vd)"
  have low: "searched vd (?T {t \<in> {1..?n}. t + d = ?d}) (?low vd)"
  proof (cases "d < ?d")
    case True
    then have "{t \<in> {1..?n}. t + d = ?d} = {?d - d}" "int ?d - int d = int (?d - d)" using dir by auto
    then show ?thesis using butterfly_try_finds [OF l, of "?d - d" e] True dir Suc.prems by simp
  next
    case False
    then have e: "{t \<in> {1..?n}. t + d = ?d} = {}" by auto
    show ?thesis unfolding e using False by (simp add: searched_none)
  qed
  have high: "searched vd (?T {t \<in> {1..?n}. t = ?d + d}) (?high vd)"
  proof (cases "?d + d \<le> ?n")
    case True
    then have "{t \<in> {1..?n}. t = ?d + d} = {?d + d}" using Suc.prems by auto
    then show ?thesis using butterfly_try_finds [OF l, of "?d + d" e] True Suc.prems by simp
  next
    case False
    then have e: "{t \<in> {1..?n}. t = ?d + d} = {}" by auto
    show ?thesis unfolding e using False by (simp add: searched_none)
  qed
  have "searched vd (?T {t \<in> {1..?n}. t = ?d + d} \<union> ?T (near vd (Suc d) k)) (?rest vd)"
    using searched_then [OF high, of "?T (near vd (Suc d) k)" ?next] Suc.IH [of "Suc d"] by simp
  with searched_then [OF low, of "?T {t \<in> {1..?n}. t = ?d + d} \<union> ?T (near vd (Suc d) k)" ?rest]
  show ?case unfolding near_Suc tracks_sectors_simps butterfly.simps Let_def by blast
qed


text \<open>The places of the directory that \<open>vdrive_set_disk_geometry\<close> gives to the formats.\<close>

fun dir_of :: "image_format \<Rightarrow> nat" where
  "dir_of FORMAT_1541 = 18" | "dir_of FORMAT_2040 = 18" | "dir_of FORMAT_1571 = 18" | "dir_of FORMAT_1581 = 40"
| "dir_of FORMAT_8050 = 39" | "dir_of FORMAT_8250 = 39" | "dir_of FORMAT_NP = 1" | "dir_of _ = 0"

lemma near_all:
  assumes "bam_loaded vd" "image_format vd \<noteq> FORMAT_NP" "Dir_Track vd = dir_of (image_format vd)"
  shows "near vd 1 (vdrive_calculate_disk_half vd) = {1..num_tracks vd} - {Dir_Track vd}"
proof -
  have "\<exists>i\<in>{1..<1 + vdrive_calculate_disk_half vd}. t + i = Dir_Track vd \<or> t = Dir_Track vd + i"
    if t: "1 \<le> t" "t \<le> num_tracks vd" "t \<noteq> Dir_Track vd" for t
  proof (cases "t < Dir_Track vd")
    case True
    then have "Dir_Track vd - t < 1 + vdrive_calculate_disk_half vd"
      using assms t by (auto simp: bam_loaded_def fixed_formats_def vdrive_calculate_disk_half_def)
    then show ?thesis using True by (intro bexI [of _ "Dir_Track vd - t"]) auto
  next
    case False
    then have "t - Dir_Track vd < 1 + vdrive_calculate_disk_half vd"
      using assms t by (auto simp: bam_loaded_def fixed_formats_def vdrive_calculate_disk_half_def)
    then show ?thesis using False t by (intro bexI [of _ "t - Dir_Track vd"]) auto
  qed
  then show ?thesis by (auto simp: near_def)
qed

lemma first_searched:
  assumes l: "bam_loaded vd" and d: "dir_in vd" "Dir_Track vd = dir_of (image_format vd)" "1 \<le> num_tracks vd"
    and s: "Dir_Sector vd < 256"
  shows "searched vd (data_sectors vd) (vdrive_bam_alloc_first_free_sector e vd)"
proof (cases "image_format vd = FORMAT_NP")
  case True
  have i: "vdrive_bam_get_interleave vd = 1" using True by (simp add: vdrive_bam_get_interleave_def)
  show ?thesis
    using next_searched [OF l d(1), of "Dir_Track vd" "Dir_Sector vd" 1 e] True d s i
    by (simp add: vdrive_bam_alloc_first_free_sector_def vdrive_bam_alloc_next_free_sector_def)
next
  case False
  have f9: "image_format vd \<noteq> FORMAT_9000" using l by (auto simp: bam_loaded_def fixed_formats_def)
  have dn: "Dir_Track vd \<le> num_tracks vd" using d(1) False by (simp add: dir_in_def)
  have "vdrive_bam_alloc_first_free_sector e vd = butterfly (vdrive_calculate_disk_half vd) e 1 vd"
    using False f9 by (simp add: vdrive_bam_alloc_first_free_sector_def)
  then show ?thesis
    using butterfly_finds [OF l _ dn, of 1 "vdrive_calculate_disk_half vd" e] near_all [OF l False d(2)] False
    by (simp add: data_sectors_def)
qed

text \<open>What a search leaves, over the set of free sectors.\<close>

lemma searched_result:
  assumes ok: "bam_ok vd" and sub: "data_sectors vd \<subseteq> layout_valid (image_format vd)" and r: "searched vd (data_sectors vd) r"
  shows "if data_sectors vd \<inter> free_sectors vd = {} then r = Some (None, vd)
    else \<exists>ts vd'. r = Some (Some ts, vd') \<and> ts \<in> data_sectors vd \<inter> free_sectors vd
      \<and> bam_ok vd' \<and> free_sectors vd' = free_sectors vd - {ts}"
  using r
proof (cases rule: searched_cases)
  case 1
  then show ?thesis by simp
next
  case (2 t s)
  have l: "bam_loaded vd" using ok by (simp add: bam_ok_def)
  have v: "(t, s) \<in> layout_valid (image_format vd)" using 2 sub by blast
  show ?thesis using 2 took_ok(1) [OF ok v] took_free(1) [OF l v] by (auto intro!: exI [of _ t] exI [of _ s])
qed

lemma data_valid: "bam_loaded vd \<Longrightarrow> data_sectors vd \<subseteq> layout_valid (image_format vd)"
  by (auto simp: data_sectors_def np_sectors_def tracks_sectors_iff valid_iff bam_loaded_def)

end
