(* ===== verification/Vdrive_Bam_Free.thy ===== *)
theory Vdrive_Bam_Free
  imports Vdrive_Bam_Search
begin

text \<open>
  The promises of the searches and of the count of free blocks.
\<close>

section \<open>Finding free sectors\<close>

lemma interleave_fits:
  "bam_loaded vd \<Longrightarrow> (t, s) \<in> layout_valid (image_format vd)
    \<Longrightarrow> s + vdrive_bam_get_interleave vd \<le> 2 * min_sectors (image_format vd)"
  using per_track_bound [of t]
  by (auto simp: bam_loaded_def fixed_formats_def vdrive_bam_get_interleave_def valid_iff)

text \<open>
  C16. A file gets a next sector as long as there is one: from every valid sector outside the
  directory track \<open>vdrive_bam_alloc_next_free_sector\<close> finds a free sector whenever any sector
  that data may use is free, marks exactly this one as used with the counts right, and without
  a free one reports that and leaves the drive as it is.
\<close>

theorem next_free_sector_complete:
  assumes "bam_ok vd" "dir_in vd" "(t, s) \<in> layout_valid (image_format vd)" "t \<le> num_tracks vd"
    and "image_format vd = FORMAT_NP \<or> t \<noteq> Dir_Track vd"
  shows "if data_sectors vd \<inter> free_sectors vd = {} then vdrive_bam_alloc_next_free_sector e t s vd = Some (None, vd)
    else \<exists>ts vd'. vdrive_bam_alloc_next_free_sector e t s vd = Some (Some ts, vd')
      \<and> ts \<in> data_sectors vd \<inter> free_sectors vd \<and> bam_ok vd' \<and> free_sectors vd' = free_sectors vd - {ts}"
proof -
  have l: "bam_loaded vd" using assms(1) by (simp add: bam_ok_def)
  have "1 \<le> t" "s < 256"
    using assms(3) format_sectors_bound(1) [of "image_format vd" t] by (auto simp: valid_iff)
  then have "searched vd (data_sectors vd) (vdrive_bam_alloc_next_free_sector e t s vd)"
    unfolding vdrive_bam_alloc_next_free_sector_def
    using assms(5) by (intro next_searched [OF l assms(2) _ assms(4) _ interleave_fits [OF l assms(3)]]) auto
  from searched_result [OF assms(1) data_valid [OF l] this] show ?thesis .
qed

lemma full_bam_tracks: "image_format full_bam = FORMAT_1541" "num_tracks full_bam = 35" "Dir_Track full_bam = 18"
  "Dir_Sector full_bam = 1"
  by (simp_all add: full_bam_def)

theorem next_free_sector_complete_witness:
  "vdrive_bam_alloc_next_free_sector plain_env 17 20 full_bam = Some (None, full_bam)"
  using next_free_sector_complete [OF full_bam_ok, of 17 20 plain_env]
  by (simp add: dir_in_def full_bam_tracks full_bam_free valid_iff spt_defs)

text \<open>
  C7. A new file gets a first sector as long as there is one: with the directory at the place
  of the format \<open>vdrive_bam_alloc_first_free_sector\<close> finds a free sector whenever any sector
  that data may use is free, marks exactly this one as used with the counts right, and without
  a free one reports that and leaves the drive as it is.
\<close>

theorem first_free_sector_complete:
  assumes "bam_ok vd" "dir_in vd" "Dir_Track vd = dir_of (image_format vd)" "1 \<le> num_tracks vd" "Dir_Sector vd < 256"
  shows "if data_sectors vd \<inter> free_sectors vd = {} then vdrive_bam_alloc_first_free_sector e vd = Some (None, vd)
    else \<exists>ts vd'. vdrive_bam_alloc_first_free_sector e vd = Some (Some ts, vd')
      \<and> ts \<in> data_sectors vd \<inter> free_sectors vd \<and> bam_ok vd' \<and> free_sectors vd' = free_sectors vd - {ts}"
proof -
  have l: "bam_loaded vd" using assms(1) by (simp add: bam_ok_def)
  from searched_result [OF assms(1) data_valid [OF l] first_searched [OF l assms(2-5)]] show ?thesis .
qed

text \<open>The same drive with the sector 3 of track 17 free.\<close>

definition one_free :: vdrive where
  "one_free = gave 17 3 full_bam"

lemma one_free_ok: "bam_ok one_free" "free_sectors one_free = {(17, 3)}"
proof -
  have v: "(17, 3) \<in> layout_valid (image_format full_bam)" by (simp add: full_bam_tracks valid_iff spt_defs)
  have l: "bam_loaded full_bam" using full_bam_ok by (simp add: bam_ok_def)
  show "bam_ok one_free" "free_sectors one_free = {(17, 3)}"
    unfolding one_free_def using took_ok(2) [OF full_bam_ok v] took_free(2) [OF l v] full_bam_free by simp_all
qed

lemma one_free_sel: "image_format one_free = FORMAT_1541" "num_tracks one_free = 35" "Dir_Track one_free = 18"
  "Dir_Sector one_free = 1"
  by (simp_all add: one_free_def gave_def changed_def full_bam_tracks)

lemma one_free_data: "data_sectors one_free \<inter> free_sectors one_free = {(17, 3)}"
  by (auto simp: one_free_ok data_sectors_def one_free_sel tracks_sectors_iff spt_defs)

theorem first_free_sector_complete_witness:
  "\<exists>vd'. vdrive_bam_alloc_first_free_sector plain_env one_free = Some (Some (17, 3), vd') \<and> free_sectors vd' = {}"
proof -
  have "(17, 3) \<in> data_sectors one_free" using one_free_data by blast
  then show ?thesis
    using first_free_sector_complete [OF one_free_ok(1), of plain_env] by (auto simp: one_free_ok(2) dir_in_def one_free_sel)
qed

section \<open>Filling a disk\<close>

text \<open>Taking first sectors again and again.\<close>

fun take_first :: "nat \<Rightarrow> disk_env \<Rightarrow> vdrive \<Rightarrow> ((nat \<times> nat) option list \<times> vdrive) option" where
  "take_first 0 e vd = Some ([], vd)"
| "take_first (Suc n) e vd =
     Option.bind (vdrive_bam_alloc_first_free_sector e vd) (\<lambda>(r, vd).
       map_option (map_prod (Cons r) (\<lambda>vd. vd)) (take_first n e vd))"

definition first_ready :: "vdrive \<Rightarrow> bool" where
  "first_ready vd \<longleftrightarrow> bam_ok vd \<and> dir_in vd \<and> Dir_Track vd = dir_of (image_format vd) \<and> 1 \<le> num_tracks vd \<and> Dir_Sector vd < 256"

lemma took_dir [simp]: "Dir_Track (took t s vd) = Dir_Track vd" "Dir_Sector (took t s vd) = Dir_Sector vd"
  "dir_in (took t s vd) = dir_in vd" "data_sectors (took t s vd) = data_sectors vd"
  by (simp_all add: took_def changed_def dir_in_def data_sectors_def)

lemma first_step:
  assumes "first_ready vd"
  obtains "data_sectors vd \<inter> free_sectors vd = {}" "vdrive_bam_alloc_first_free_sector e vd = Some (None, vd)"
    | ts vd' where "ts \<in> data_sectors vd \<inter> free_sectors vd" "vdrive_bam_alloc_first_free_sector e vd = Some (Some ts, vd')"
      "first_ready vd'" "free_sectors vd' = free_sectors vd - {ts}" "data_sectors vd' = data_sectors vd"
proof -
  have ok: "bam_ok vd" and l: "bam_loaded vd" using assms by (simp_all add: first_ready_def bam_ok_def)
  have "searched vd (data_sectors vd) (vdrive_bam_alloc_first_free_sector e vd)"
    using assms l by (intro first_searched) (simp_all add: first_ready_def)
  then show thesis
  proof (cases rule: searched_cases)
    case 1
    then show ?thesis using that(1) by simp
  next
    case (2 t s)
    have v: "(t, s) \<in> layout_valid (image_format vd)" using 2 data_valid [OF l] by blast
    show ?thesis
      by (rule that(2) [of "(t, s)" "took t s vd"])
        (use 2 took_ok(1) [OF ok v] took_free(1) [OF l v] assms in \<open>simp_all add: first_ready_def\<close>)
  qed
qed

text \<open>
  C27. A disk can be filled: taking first sectors over and over gives every free sector that
  data may use, each exactly once, and after them only the report that the disk is full.
\<close>

theorem disk_fills:
  assumes "bam_ok vd" "dir_in vd" "Dir_Track vd = dir_of (image_format vd)" "1 \<le> num_tracks vd" "Dir_Sector vd < 256"
    and "card (data_sectors vd \<inter> free_sectors vd) \<le> n"
  shows "\<exists>tss vd'. take_first n e vd = Some (map Some tss @ replicate (n - length tss) None, vd')
    \<and> distinct tss \<and> set tss = data_sectors vd \<inter> free_sectors vd \<and> data_sectors vd \<inter> free_sectors vd' = {}"
proof -
  have fin: "finite (data_sectors vd \<inter> free_sectors vd)" for vd
    using lay.valid_finite [of "image_format vd"] by (rule finite_subset [rotated]) (auto simp: free_sectors_def lay.free_in_def)
  have none: "take_first m e vd = Some (replicate m None, vd)" if "vdrive_bam_alloc_first_free_sector e vd = Some (None, vd)" for m vd
    using that by (induction m) simp_all
  have "\<exists>tss vd'. take_first n e vd = Some (map Some tss @ replicate (n - length tss) None, vd')
      \<and> distinct tss \<and> set tss = data_sectors vd \<inter> free_sectors vd \<and> data_sectors vd \<inter> free_sectors vd' = {}"
    if "first_ready vd" "card (data_sectors vd \<inter> free_sectors vd) \<le> n"
    using that
  proof (induction n arbitrary: vd)
    case 0
    then have "data_sectors vd \<inter> free_sectors vd = {}" using fin [of vd] by simp
    then show ?case by (intro exI [of _ "[]"]) simp
  next
    case (Suc n)
    from Suc.prems(1) show ?case
    proof (cases rule: first_step [of _ e])
      case 1
      then show ?thesis using none [OF 1(2), of "Suc n"] by (intro exI [of _ "[]"]) simp
    next
      case (2 ts vd')
      have "data_sectors vd' \<inter> free_sectors vd' = (data_sectors vd \<inter> free_sectors vd) - {ts}" using 2 by auto
      then have c: "card (data_sectors vd' \<inter> free_sectors vd') \<le> n" "data_sectors vd \<inter> free_sectors vd = insert ts (data_sectors vd' \<inter> free_sectors vd')"
        "ts \<notin> data_sectors vd' \<inter> free_sectors vd'"
        using Suc.prems(2) 2(1) fin [of vd] by auto
      from Suc.IH [OF 2(3) c(1)] obtain tss vd2 where
        "take_first n e vd' = Some (map Some tss @ replicate (n - length tss) None, vd2)" "distinct tss"
        "set tss = data_sectors vd' \<inter> free_sectors vd'" "data_sectors vd' \<inter> free_sectors vd2 = {}" by blast
      then show ?thesis using 2 c by (intro exI [of _ "ts # tss"]) auto
    qed
  qed
  then show ?thesis using assms by (simp add: first_ready_def)
qed

theorem disk_fills_witness:
  "\<exists>vd'. take_first 3 plain_env one_free = Some ([Some (17, 3), None, None], vd')"
proof -
  from disk_fills [OF one_free_ok(1), of 3 plain_env] obtain tss vd' where
    a: "take_first 3 plain_env one_free = Some (map Some tss @ replicate (3 - length tss) None, vd')" "distinct tss" "set tss = {(17, 3)}"
    by (auto simp: dir_in_def one_free_sel one_free_data)
  have "length tss = 1" using a(2,3) distinct_card [of tss] by simp
  then have "tss = [(17, 3)]" using a(3) by (cases tss) auto
  then show ?thesis using a(1) by (simp add: numeral_2_eq_2)
qed

end
