(* ===== verification/Vdrive_Bam_Count.thy ===== *)
theory Vdrive_Bam_Count
  imports Vdrive_Bam_Free
begin

text \<open>
  The count of free blocks that a directory listing shows: the sum of the counts of the BAM, and
  the number of free sectors when these counts agree with the bits.
\<close>

section \<open>Counting bits\<close>

lemma bitcount_card: "bitcount x = card {b. b < 8 \<and> bit x b}"
proof -
  have "bitcount x = (\<Sum>i\<in>{..<8}. of_bool (bit x i))"
    by (simp add: bitcount_def sum_list_distinct_conv_sum_set atLeast0LessThan)
  also have "\<dots> = (\<Sum>i\<in>{..<8} \<inter> {i. bit x i}. 1)" by (simp add: sum.If_cases flip: of_bool_conj cong: if_cong)
  also have "\<dots> = card {b. b < 8 \<and> bit x b}" by (simp add: Collect_conj_eq lessThan_def)
  finally show ?thesis .
qed

lemma xor_7_parts: "((8 * k + b) XOR 7) div 8 = k" "((8 * k + b) XOR 7) mod 8 = 7 - b" if "b < (8 :: nat)"
proof -
  have m: "(8 * k + b) mod 8 = b" "(8 * k + b) div 8 = k" using that by simp_all
  have "drop_bit 3 ((8 * k + b) XOR 7) = drop_bit 3 (8 * k + b) XOR drop_bit 3 7" by simp
  then show "((8 * k + b) XOR 7) div 8 = k" using m(2) by (simp add: drop_bit_eq_div)
  have "take_bit 3 ((8 * k + b) XOR 7) = take_bit 3 (8 * k + b) XOR take_bit 3 7" by simp
  then have x: "((8 * k + b) XOR 7) mod 8 = b XOR 7" using m(1) by (simp add: take_bit_eq_mod)
  have "b \<in> {0, 1, 2, 3, 4, 5, 6, 7}" using that by auto
  then show "((8 * k + b) XOR 7) mod 8 = 7 - b" unfolding x by auto
qed

text \<open>The set bits of a row of bytes are as many as the free sectors they stand for.\<close>

lemma np_byte: "card {s. s div 8 = k \<and> bit (m ! (i + (s XOR 7) div 8)) ((s XOR 7) mod 8)} = bitcount (m ! (i + k))"
proof -
  have inj: "inj_on (\<lambda>b. 8 * k + (7 - b)) {b. b < 8 \<and> bit (m ! (i + k)) b}" by (auto simp: inj_on_def)
  have "{s. s div 8 = k \<and> bit (m ! (i + (s XOR 7) div 8)) ((s XOR 7) mod 8)}
      = (\<lambda>b. 8 * k + (7 - b)) ` {b. b < 8 \<and> bit (m ! (i + k)) b}" (is "?A = ?B")
  proof (intro equalityI subsetI)
    fix s assume s: "s \<in> ?A"
    define b where "b = s mod 8"
    have sb: "s = 8 * k + b" "b < 8" using s by (auto simp: b_def)
    then have "s = 8 * k + (7 - (7 - b))" "bit (m ! (i + k)) (7 - b)" "7 - b < 8" using s xor_7_parts [of b k] by auto
    then show "s \<in> ?B" by blast
  next
    fix s assume "s \<in> ?B"
    then obtain b where b: "s = 8 * k + (7 - b)" "b < 8" "bit (m ! (i + k)) b" by blast
    then show "s \<in> ?A" using xor_7_parts [of "7 - b" k] by simp
  qed
  then show ?thesis using card_image [OF inj] by (simp add: bitcount_card)
qed

lemma np_bytes:
  assumes "a \<le> c"
  shows "card {s. 8 * a \<le> s \<and> s < 8 * c \<and> bit (m ! (i + (s XOR 7) div 8)) ((s XOR 7) mod 8)}
    = sum_list (map (\<lambda>k. bitcount (m ! (i + k))) [a..<c])"
  using assms
proof (induction rule: dec_induct)
  case base
  have "{s. 8 * a \<le> s \<and> s < 8 * a \<and> bit (m ! (i + (s XOR 7) div 8)) ((s XOR 7) mod 8)} = {}" by auto
  then show ?case by simp
next
  case (step n)
  let ?P = "\<lambda>s. bit (m ! (i + (s XOR 7) div 8)) ((s XOR 7) mod 8)"
  have "{s. 8 * a \<le> s \<and> s < 8 * Suc n \<and> ?P s} = {s. 8 * a \<le> s \<and> s < 8 * n \<and> ?P s} \<union> {s. s div 8 = n \<and> ?P s}"
    using step.hyps by auto
  moreover have "card ({s. 8 * a \<le> s \<and> s < 8 * n \<and> ?P s} \<union> {s. s div 8 = n \<and> ?P s})
      = card {s. 8 * a \<le> s \<and> s < 8 * n \<and> ?P s} + card {s. s div 8 = n \<and> ?P s}"
    by (rule card_Un_disjoint)
      (auto intro: finite_subset [of _ "{..<8 * n}"] finite_subset [of _ "{..<8 * Suc n}"])
  ultimately show ?case using step by (simp add: np_byte)
qed

lemma add_bits_loaded:
  "bam_loaded vd \<Longrightarrow> \<forall>i\<in>set is. i < 256 * format_blocks (image_format vd)
    \<Longrightarrow> add_bits is vd = Some (sum_list (map (\<lambda>i. bitcount (bam vd ! i)) is))"
  by (induction "is") (simp_all add: byte_loaded)

section \<open>Tracks\<close>

text \<open>The sectors that are counted: those that data may use, less the second side's BAM track.\<close>

definition counted_sectors :: "vdrive \<Rightarrow> (nat \<times> nat) set" where
  "counted_sectors vd = data_sectors vd - (if image_format vd = FORMAT_1571 then {Dir_Track vd + 35} \<times> UNIV else {})"

lemma entry_at:
  assumes "bam_loaded vd" "1 \<le> t" "t \<le> format_tracks (image_format vd)"
  shows "vdrive_bam_get_track_entry e t 0 vd = Some (Some (bits_at (image_format vd) t - 1), vd)"
proof -
  have f: "image_format vd \<in> fixed_formats" using assms(1) by (simp add: bam_loaded_def)
  have v: "(t, if image_format vd = FORMAT_NP then 7 else 0) \<in> layout_valid (image_format vd)"
    using assms(2,3) format_sectors_pos [OF f, of t] by (simp add: valid_iff)
  from entry_loaded [OF assms(1) v, of e] f show ?thesis
    by (cases "vdrive_bam_get_track_entry e t 0 vd") (auto simp: bam_entry_def fixed_formats_def split: option.splits)
qed

lemma read_bam_loaded:
  assumes l: "bam_loaded vd"
  shows "vdrive_bam_read_bam e vd = Some (0, vd)"
proof -
  let ?n = "format_blocks (image_format vd)"
  have f: "image_format vd \<in> fixed_formats" and bs: "bam_size vd = 256 * ?n" using l by (simp_all add: bam_loaded_def)
  then have n: "0 < ?n" by (auto simp: fixed_formats_def)
  have "read_blocks e is err vd = Some (if is = [] then err else 0, vd)" if "set is \<subseteq> {..<?n}" for "is" err
    using that
  proof (induction "is" arbitrary: err)
    case (Cons i "is")
    then show ?case using read_loaded [OF l, of i e] by (cases "is") simp_all
  qed simp
  from this [of "[0..<?n]" "-1"] have "read_blocks e [0..<?n] (-1) vd = Some (0, vd)" using n by (simp add: atLeast0LessThan)
  moreover have "image_format vd \<noteq> FORMAT_SYS" "image_format vd \<noteq> FORMAT_NONE" using f by (auto simp: fixed_formats_def)
  ultimately show ?thesis using bs by (simp add: vdrive_bam_read_bam_def)
qed


definition track_free :: "vdrive \<Rightarrow> nat \<Rightarrow> nat set" where
  "track_free vd t = {s. (t, s) \<in> counted_sectors vd \<inter> free_sectors vd}"

text \<open>
  What the listing shows for a track: the count byte of its BAM entry, whatever the bits say,
  for the formats that have counts; nothing for the directory and the second BAM track of a 1571.
\<close>

definition shown_free :: "vdrive \<Rightarrow> nat \<Rightarrow> nat" where
  "shown_free vd t = (case layout_cnt (image_format vd) t of
     None \<Rightarrow> card (track_free vd t)
   | Some c \<Rightarrow> if t = Dir_Track vd \<or> image_format vd = FORMAT_1571 \<and> t = Dir_Track vd + 35 then 0 else unat (bam vd ! c))"

lemma count_byte:
  assumes l: "bam_loaded vd" and t: "1 \<le> t" "t \<le> num_tracks vd" and c: "layout_cnt (image_format vd) t = Some c"
  shows "bam_byte c vd = Some (bam vd ! c)"
proof -
  have f: "image_format vd \<in> fixed_formats" and t2: "t \<le> format_tracks (image_format vd)"
    using l t by (simp_all add: bam_loaded_def)
  have v: "(t, 0) \<in> layout_valid (image_format vd)" using t(1) t2 format_sectors_pos [OF f, of t] by (simp add: valid_iff)
  show ?thesis using byte_loaded [OF l lay.cnt_in [OF v c]] .
qed

lemma dir_track_free:
  "image_format vd \<noteq> FORMAT_NP \<Longrightarrow> t = Dir_Track vd \<or> image_format vd = FORMAT_1571 \<and> t = Dir_Track vd + 35
    \<Longrightarrow> track_free vd t = {}"
  by (auto simp: track_free_def counted_sectors_def data_sectors_def tracks_sectors_iff)

lemma shown_free_np: "image_format vd = FORMAT_NP \<Longrightarrow> shown_free vd t = card (track_free vd t)"
  by (simp add: shown_free_def layout_cnt_def)

lemma shown_free_right:
  assumes ok: "bam_ok vd" and t: "1 \<le> t" "t \<le> num_tracks vd"
  shows "shown_free vd t = card (track_free vd t)"
proof (cases "layout_cnt (image_format vd) t")
  case (Some c)
  let ?f = "image_format vd"
  have np: "?f \<noteq> FORMAT_NP" using Some by (auto simp: layout_cnt_def)
  show ?thesis
  proof (cases "t = Dir_Track vd \<or> ?f = FORMAT_1571 \<and> t = Dir_Track vd + 35")
    case True
    then show ?thesis using dir_track_free [OF np True] Some by (simp add: shown_free_def)
  next
    case False
    have l: "bam_loaded vd" using ok by (simp add: bam_ok_def)
    then have f: "?f \<in> fixed_formats" and t2: "t \<le> format_tracks ?f" using t by (simp_all add: bam_loaded_def)
    have v: "(t, 0) \<in> layout_valid ?f" using t(1) t2 format_sectors_pos [OF f, of t] by (simp add: valid_iff)
    have "track_free vd t = {s. (t, s) \<in> free_sectors vd}"
      using t False np by (auto simp: track_free_def counted_sectors_def data_sectors_def tracks_sectors_iff free_sectors_def
          lay.free_in_def valid_iff)
    then show ?thesis
      using ok v Some False by (auto simp: shown_free_def bam_ok_def lay.counts_in_def free_sectors_def)
  qed
qed (simp add: shown_free_def)

lemma track_np:
  assumes l: "bam_loaded vd" and f: "image_format vd = FORMAT_NP" and t: "1 \<le> t" "t \<le> num_tracks vd" and b: "Bam_Track vd = 1"
  shows "track_blocks e t vd = Some (card (track_free vd t), vd)"
proof -
  let ?a = "if t = 1 then 8 else 0" and ?i = "288 + 32 * (t - 1)"
  have t2: "t \<le> 255" using l f t by (simp add: bam_loaded_def)
  have in_bam: "\<forall>i\<in>set (map (\<lambda>s. ?i + s) [?a..<32]). i < 256 * format_blocks (image_format vd)"
    using t t2 f by auto
  have e: "(\<lambda>s. BAM_BIT_MAP_NP + 256 + 32 * (t - 1) + s) = (\<lambda>s. ?i + s)" by (simp add: BAM_BIT_MAP_NP_def)
  have tb: "track_blocks e t vd = map_option (\<lambda>n. (n, vd)) (add_bits (map (\<lambda>s. ?i + s) [?a..<32]) vd)"
    unfolding track_blocks_def e using f b by simp
  have "track_free vd t = {s. 8 * ?a \<le> s \<and> s < 8 * 32 \<and> bit (bam vd ! (?i + (s XOR 7) div 8)) ((s XOR 7) mod 8)}"
    using t t2 f by (auto simp: track_free_def counted_sectors_def data_sectors_def np_sectors_def free_sectors_def
        lay.free_in_def valid_iff layout_slot_def sector_bit_def)
  then have "card (track_free vd t) = sum_list (map (\<lambda>k. bitcount (bam vd ! (?i + k))) [?a..<32])"
    using np_bytes [of ?a 32 "bam vd" ?i] by simp
  then show ?thesis unfolding tb add_bits_loaded [OF l in_bam] by (simp add: comp_def)
qed

lemma track_blocks_loaded:
  assumes l: "bam_loaded vd" and t: "1 \<le> t" "t \<le> num_tracks vd" and b: "image_format vd = FORMAT_NP \<Longrightarrow> Bam_Track vd = 1"
  shows "track_blocks e t vd = Some (shown_free vd t, vd)"
proof -
  let ?f = "image_format vd"
  have f: "?f \<in> fixed_formats" and t2: "t \<le> format_tracks ?f" using l t by (simp_all add: bam_loaded_def)
  note en = entry_at [OF l t(1) t2, of e]
  consider (np) "?f = FORMAT_NP" | (dir) "?f \<noteq> FORMAT_NP" "t = Dir_Track vd \<or> ?f = FORMAT_1571 \<and> t = Dir_Track vd + 35"
    | (side) "?f = FORMAT_1571" "t > 35" "t \<noteq> Dir_Track vd" "t \<noteq> Dir_Track vd + 35"
    | (entry) "?f \<noteq> FORMAT_NP" "\<not> side2 ?f t" "t \<noteq> Dir_Track vd" "?f = FORMAT_1571 \<Longrightarrow> t \<noteq> Dir_Track vd + 35"
    by (auto simp: side2_def)
  then show ?thesis
  proof cases
    case np
    then show ?thesis using track_np [OF l np t b] by (simp add: shown_free_def layout_cnt_def)
  next
    case dir
    moreover have "track_blocks e t vd = Some (0, vd)" using dir f by (auto simp: track_blocks_def fixed_formats_def)
    ultimately show ?thesis using dir_track_free [OF dir] by (simp add: shown_free_def split: option.splits)
  next
    case side
    then have c: "layout_cnt ?f t = Some (221 + (t - 36))" by (simp add: layout_cnt_def)
    have "BAM_EXT_BIT_MAP_1571 + t - NUM_TRACKS_1571 div 2 - 1 = 221 + (t - 36)"
      using side by (simp add: BAM_EXT_BIT_MAP_1571_def NUM_TRACKS_1571_def)
    then show ?thesis using side c count_byte [OF l t c] by (simp add: track_blocks_def NUM_TRACKS_1571_def shown_free_def)
  next
    case entry
    then have c: "layout_cnt ?f t = Some (bits_at ?f t - 1)" by (auto simp: layout_cnt_def side2_def)
    have "track_blocks e t vd = entry_blocks e t 0 vd"
      using entry f by (auto simp: track_blocks_def fixed_formats_def side2_def NUM_TRACKS_1571_def)
    moreover have "\<not> (t = Dir_Track vd \<or> ?f = FORMAT_1571 \<and> t = Dir_Track vd + 35)" using entry(3,4) by blast
    ultimately show ?thesis using count_byte [OF l t c] c en by (simp add: entry_blocks_def shown_free_def del: de_Morgan_disj)
  qed
qed

lemma count_tracks_loaded:
  assumes l: "bam_loaded vd" and b: "image_format vd = FORMAT_NP \<Longrightarrow> Bam_Track vd = 1"
    and ts: "set ts \<subseteq> {1..num_tracks vd}"
  shows "count_tracks e ts vd = Some (sum_list (map (shown_free vd) ts), vd)"
  using ts
proof (induction ts)
  case (Cons t ts)
  then show ?case using track_blocks_loaded [OF l _ _ b, of t e] by simp
qed simp

text \<open>
  C28. The blocks free of a directory listing are what the BAM's counts say: on a loaded BAM (of a
  format with a fixed layout; for a native partition with \<open>Bam_Track\<close> 1) \<open>vdrive_bam_free_block_count\<close> gives the sum of \<open>shown_free\<close> over the
  tracks. When the count bytes agree with the bits (\<open>bam_ok\<close>, which allocating and freeing
  keep) this is the number of free sectors that data may use, less those of track 53 (\<open>Dir_Track + 35\<close>) of a 1571,
  the second BAM track, which it never counts; for the format without counts it always is. On a
  disk whose count bytes are wrong, the listing follows the count bytes and not the bits.
\<close>

theorem free_block_count_right:
  assumes "bam_loaded vd" "image_format vd = FORMAT_NP \<longrightarrow> Bam_Track vd = 1"
  shows "vdrive_bam_free_block_count e vd = Some (\<Sum>t\<in>{1..num_tracks vd}. shown_free vd t, vd)
    \<and> (bam_ok vd \<or> image_format vd = FORMAT_NP \<longrightarrow>
        vdrive_bam_free_block_count e vd = Some (card (counted_sectors vd \<inter> free_sectors vd), vd))"
proof -
  have sub: "set [1..<Suc (num_tracks vd)] \<subseteq> {1..num_tracks vd}" by auto
  have "(\<Sum>t\<in>{1..num_tracks vd}. shown_free vd t) = sum_list (map (shown_free vd) [1..<Suc (num_tracks vd)])"
    by (simp add: sum_list_distinct_conv_sum_set atLeastLessThanSuc_atLeastAtMost del: upt_Suc)
  then have shown: "vdrive_bam_free_block_count e vd = Some (\<Sum>t\<in>{1..num_tracks vd}. shown_free vd t, vd)"
    using count_tracks_loaded [OF assms(1) _ sub, of e] assms(2) read_bam_loaded [OF assms(1), of e]
    by (simp add: vdrive_bam_free_block_count_def del: upt_Suc)
  have tr: "1 \<le> t \<and> t \<le> num_tracks vd" if "(t, s) \<in> counted_sectors vd" for t s
    using that by (auto simp: counted_sectors_def data_sectors_def np_sectors_def tracks_sectors_iff split: if_splits)
  have eq: "counted_sectors vd \<inter> free_sectors vd = Sigma {1..num_tracks vd} (track_free vd)"
    using tr by (auto simp: track_free_def)
  have fin: "finite (track_free vd t)" for t
    using lay.finite_sectors [of t "image_format vd"] by (rule finite_subset [rotated])
      (auto simp: track_free_def free_sectors_def lay.free_in_def)
  have "card (counted_sectors vd \<inter> free_sectors vd) = (\<Sum>t\<in>{1..num_tracks vd}. card (track_free vd t))"
    unfolding eq using fin by (simp add: card_SigmaI)
  moreover have "shown_free vd t = card (track_free vd t)"
    if "bam_ok vd \<or> image_format vd = FORMAT_NP" "1 \<le> t" "t \<le> num_tracks vd" for t
    using that shown_free_right [of vd t] by (auto simp: shown_free_np)
  ultimately show ?thesis using shown by (auto intro!: sum.cong)
qed

theorem free_block_count_right_witness:
  "vdrive_bam_free_block_count plain_env one_free = Some (1, one_free)"
proof -
  have "counted_sectors one_free \<inter> free_sectors one_free = {(17, 3)}"
    using one_free_data by (auto simp: counted_sectors_def one_free_sel)
  then show ?thesis using conjunct2 [OF free_block_count_right [of one_free plain_env]] one_free_ok(1) by (simp add: one_free_sel bam_ok_def)
qed

end
