(* ===== verification/Disk_Sectors.thy ===== *)
theory Disk_Sectors
  imports Vdrive
begin

text \<open>
  What disk images and virtual drives promise of their sectors: a sector that was written reads
  back, and the other sectors are as before.
\<close>

section \<open>Stores of sectors\<close>

text \<open>Reading and writing give an error code, 0 for success, as the code does.\<close>

locale sector_store =
  fixes ok :: "'d \<Rightarrow> bool" and valid :: "'d \<Rightarrow> (nat \<times> nat) set"
    and wr :: "'d \<Rightarrow> u8 list \<Rightarrow> nat \<Rightarrow> nat \<Rightarrow> (int \<times> 'd) option"
    and rd :: "'d \<Rightarrow> nat \<Rightarrow> nat \<Rightarrow> (int \<times> u8 list option) option"
  assumes write_read: "ok d \<Longrightarrow> (t, s) \<in> valid d \<Longrightarrow> length b = 256
      \<Longrightarrow> \<exists>d'. wr d b t s = Some (0, d') \<and> ok d' \<and> valid d' = valid d \<and> rd d' t s = Some (0, Some b)
        \<and> (\<forall>t' s'. (t', s') \<in> valid d \<longrightarrow> (t', s') \<noteq> (t, s) \<longrightarrow> rd d' t' s' = rd d t' s')"
begin

text \<open>Writing a list of sectors, up to the first error.\<close>

fun write_all :: "((nat \<times> nat) \<times> u8 list) list \<Rightarrow> 'd \<Rightarrow> (int \<times> 'd) option" where
  "write_all [] d = Some (0, d)"
| "write_all (((t, s), b) # ws) d =
     Option.bind (wr d b t s) (\<lambda>(r, d). if r \<noteq> 0 then Some (r, d) else write_all ws d)"

lemma write_all_reads:
  assumes "ok d" "\<forall>(ts, b)\<in>set ws. ts \<in> valid d \<and> length b = 256"
  shows "\<exists>d'. write_all ws d = Some (0, d') \<and> ok d' \<and> valid d' = valid d
    \<and> (\<forall>t s. (t, s) \<in> valid d \<longrightarrow>
         rd d' t s = (case map_of (rev ws) (t, s) of Some b \<Rightarrow> Some (0, Some b) | None \<Rightarrow> rd d t s))"
  using assms
proof (induction ws arbitrary: d)
  case (Cons w ws)
  obtain t s b where w: "w = ((t, s), b)" by (cases w) auto
  have v: "(t, s) \<in> valid d" "length b = 256" using Cons.prems(2) w by auto
  from write_read [OF Cons.prems(1) v] obtain d1 where d1: "wr d b t s = Some (0, d1)" "ok d1" "valid d1 = valid d"
    "rd d1 t s = Some (0, Some b)" "\<forall>t' s'. (t', s') \<in> valid d \<longrightarrow> (t', s') \<noteq> (t, s) \<longrightarrow> rd d1 t' s' = rd d t' s'" by blast
  from Cons.IH [OF d1(2)] Cons.prems(2) d1(3) obtain d2 where d2: "write_all ws d1 = Some (0, d2)" "ok d2" "valid d2 = valid d"
    "\<forall>t s. (t, s) \<in> valid d \<longrightarrow> rd d2 t s = (case map_of (rev ws) (t, s) of Some b \<Rightarrow> Some (0, Some b) | None \<Rightarrow> rd d1 t s)" by auto
  have "rd d2 t' s' = (case map_of (rev (w # ws)) (t', s') of Some b \<Rightarrow> Some (0, Some b) | None \<Rightarrow> rd d t' s')"
    if "(t', s') \<in> valid d" for t' s'
    using d2(4) that d1(4,5) w by (cases "(t', s') = (t, s)") (auto simp: map_add_def split: option.splits)
  then show ?case using w d1(1) d2 by auto
qed simp

end

section \<open>Images\<close>

text \<open>
  A plain image of fixed size, open for writing and without raw tracks; the error bytes, if
  any, follow its blocks. \<open>image_blocks\<close> is the number of blocks in the file.
\<close>

definition image_blocks :: "disk_image \<Rightarrow> nat" where
  "image_blocks img = (case err_map img of None \<Rightarrow> length (the (fd img)) div 256 | Some m \<Rightarrow> err_len img)"

definition image_ok :: "disk_image \<Rightarrow> bool" where
  "image_ok img \<longleftrightarrow> img_type img \<in> fixed_types \<and> device img = DEVICE_FS \<and> read_only img = 0 \<and> img_gcr img = None
     \<and> fd img \<noteq> None \<and> 256 * image_blocks img \<le> length (the (fd img))
     \<and> (\<forall>m. err_map img = Some m \<longrightarrow> length m = err_len img)"

definition block_of :: "disk_image \<Rightarrow> nat \<Rightarrow> nat \<Rightarrow> nat" where
  "block_of img t s = nat (disk_image_check_sector img t s)"

definition image_valid :: "disk_image \<Rightarrow> (nat \<times> nat) set" where
  "image_valid img = {(t, s). 0 \<le> disk_image_check_sector img t s \<and> block_of img t s < image_blocks img}"

lemma check_cong: "img_type img = img_type img' \<Longrightarrow> device img = device img' \<Longrightarrow> img_type img \<in> fixed_types
    \<Longrightarrow> device img = DEVICE_FS \<Longrightarrow> disk_image_check_sector img t s = disk_image_check_sector img' t s"
  by (simp add: check_layout)

lemma block_of_inj:
  assumes "image_ok img" "(t, s) \<in> image_valid img" "(t', s') \<in> image_valid img" "block_of img t s = block_of img t' s'"
  shows "(t, s) = (t', s')"
proof -
  have f: "img_type img \<in> fixed_types" "device img = DEVICE_FS" using assms(1) by (simp_all add: image_ok_def)
  note c = check_layout [OF f(1) refl f(2)]
  have p: "1 \<le> t" "s < type_spt (img_type img) t" "1 \<le> t'" "s' < type_spt (img_type img) t'"
    and e: "below (type_spt (img_type img)) t + s = below (type_spt (img_type img)) t' + s'"
    using assms(2-4) by (auto simp: image_valid_def block_of_def c FSIMAGE_BAD_TRKNUM_def FSIMAGE_BAD_SECNUM_def split: if_splits)
  from layout.block_inj [OF p e] show ?thesis by simp
qed

lemma block_small: "image_ok img \<Longrightarrow> (t, s) \<in> image_valid img \<Longrightarrow> block_of img t s < 12960"
proof -
  assume ok: "image_ok img" and v: "(t, s) \<in> image_valid img"
  have f: "img_type img \<in> fixed_types" "device img = DEVICE_FS" using ok by (simp_all add: image_ok_def)
  note c = check_layout [OF f(1) refl f(2)]
  have p: "1 \<le> t" "t \<le> type_tracks (img_type img)" "s < type_spt (img_type img) t"
    "block_of img t s = below (type_spt (img_type img)) t + s"
    using v by (auto simp: image_valid_def block_of_def c FSIMAGE_BAD_TRKNUM_def FSIMAGE_BAD_SECNUM_def split: if_splits)
  have "type_blocks (img_type img) \<le> 12960" using f(1) by (auto simp: fixed_types_def block_consts)
  then show ?thesis using layout.block_less [of t "img_type img" s] p f(1) by simp
qed

text \<open>Blocks of a file.\<close>

definition file_block :: "u8 list \<Rightarrow> nat \<Rightarrow> u8 list" where
  "file_block f b = take 256 (drop (256 * b) f)"

lemma length_fpwrite: "off + length buf \<le> length f \<Longrightarrow> length (util_fpwrite f buf off) = length f"
  by (simp add: util_fpwrite_def)

lemma fpwrite_nth:
  "off + length buf \<le> length f \<Longrightarrow> i < length f
    \<Longrightarrow> util_fpwrite f buf off ! i = (if off \<le> i \<and> i < off + length buf then buf ! (i - off) else f ! i)"
  by (auto simp: util_fpwrite_def nth_append min_def)

lemma block_write:
  assumes "256 * b + 256 \<le> length f" "256 * b' + 256 \<le> length f" "length buf = 256"
  shows "file_block (util_fpwrite f buf (256 * b)) b' = (if b' = b then buf else file_block f b')"
proof (rule nth_equalityI)
  have l: "length (util_fpwrite f buf (256 * b)) = length f" using assms by (simp add: length_fpwrite)
  show "length (file_block (util_fpwrite f buf (256 * b)) b') = length (if b' = b then buf else file_block f b')"
    using assms l by (simp add: file_block_def)
  fix i assume "i < length (file_block (util_fpwrite f buf (256 * b)) b')"
  then have i: "i < 256" using l assms by (simp add: file_block_def)
  have "256 * b \<le> 256 * b' + i \<and> 256 * b' + i < 256 * b + 256 \<longleftrightarrow> b' = b" using i by auto
  then show "file_block (util_fpwrite f buf (256 * b)) b' ! i = (if b' = b then buf else file_block f b') ! i"
    using assms i l fpwrite_nth [of "256 * b" buf f "256 * b' + i"] by (simp add: file_block_def)
qed

text \<open>Writing beyond the blocks, as the error bytes are.\<close>

lemma length_fpwrite_le: "length f \<le> length (util_fpwrite f buf off)"
  by (simp add: util_fpwrite_def)

lemma block_write_beyond:
  assumes "256 * b + 256 \<le> length f" "256 * b + 256 \<le> off"
  shows "file_block (util_fpwrite f buf off) b = file_block f b"
proof (rule nth_equalityI)
  show l: "length (file_block (util_fpwrite f buf off) b) = length (file_block f b)"
    using assms length_fpwrite_le [of f buf off] by (simp add: file_block_def)
  fix i assume "i < length (file_block (util_fpwrite f buf off) b)"
  then have i: "i < 256" using l assms by (simp add: file_block_def)
  have "util_fpwrite f buf off ! (256 * b + i) = f ! (256 * b + i)"
    using assms i by (simp add: util_fpwrite_def nth_append)
  then show "file_block (util_fpwrite f buf off) b ! i = file_block f b ! i"
    using assms i length_fpwrite_le [of f buf off] by (simp add: file_block_def)
qed

text \<open>The result of reading, from the blocks and the error bytes.\<close>

definition read_result :: "nat option \<Rightarrow> u8 list \<Rightarrow> int \<times> u8 list option" where
  "read_result err b =
     (case err of
        None \<Rightarrow> (0, Some b)
      | Some rf \<Rightarrow> (fdc_to_ipe CBMDOS_IPE_OK rf, if rf \<in> {0, 1, 5, 7, 8} then Some b else None))"

definition block_error :: "disk_image \<Rightarrow> nat \<Rightarrow> nat option" where
  "block_error img b = map_option (\<lambda>m. unat (m ! b)) (err_map img)"

lemma read_image:
  assumes ok: "image_ok img" and v: "(t, s) \<in> image_valid img"
  shows "disk_image_read_sector e img t s
    = Some (read_result (block_error img (block_of img t s)) (file_block (the (fd img)) (block_of img t s)))"
proof -
  let ?b = "block_of img t s"
  have c: "disk_image_check_sector img t s = int ?b" and b: "?b < image_blocks img" using v by (simp_all add: image_valid_def block_of_def)
  obtain f where f: "fd img = Some f" using ok by (auto simp: image_ok_def)
  have l: "256 * ?b + 256 \<le> length f" using ok b f by (simp add: image_ok_def)
  have o: "block_offset (int ?b) = Some (256 * ?b)" using block_small [OF ok v] by (simp add: block_offset_def nat_mult_distrib)
  have r: "util_fpread f 256 (int (256 * ?b)) = Some (file_block f ?b)" using l by (simp add: util_fpread_def file_block_def nat_mult_distrib)
  have g: "img_gcr img = None" "device img = DEVICE_FS" "img_type img \<in> dxx_types"
    using ok by (auto simp: image_ok_def fixed_types_def dxx_types_def)
  have er: "error_entry img (int ?b) = Some (block_error img ?b)"
    using ok b by (auto simp: error_entry_def block_error_def image_ok_def image_blocks_def split: option.splits)
  have ok0: "fdc_to_ipe CBMDOS_IPE_OK CBMDOS_FDC_ERR_OK = 0" by (simp add: fdc_to_ipe_def CBMDOS_IPE_OK_def)
  show ?thesis
    using f o r g er c ok0
    by (cases "block_error img ?b")
      (auto simp: disk_image_read_sector_def fsimage_read_sector_def fsimage_dxx_read_sector_def Let_def read_result_def
        block_error_def split: if_splits)
qed


lemma write_image:
  assumes ok: "image_ok img" and v: "(t, s) \<in> image_valid img" and b: "length buf = 256"
  shows "\<exists>img'. disk_image_write_sector e img buf t s = Some (0, img') \<and> image_ok img'
    \<and> image_blocks img' = image_blocks img \<and> img_type img' = img_type img
    \<and> (\<forall>k<image_blocks img. file_block (the (fd img')) k = (if k = block_of img t s then buf else file_block (the (fd img)) k))
    \<and> (\<forall>k. block_error img' k = (if k = block_of img t s then map_option (\<lambda>_. 1) (err_map img) else block_error img k))"
proof -
  let ?b = "block_of img t s"
  have c: "disk_image_check_sector img t s = int ?b" and bb: "?b < image_blocks img" using v by (simp_all add: image_valid_def block_of_def)
  obtain f where f: "fd img = Some f" using ok by (auto simp: image_ok_def)
  have n: "256 * image_blocks img \<le> length f" using ok f by (simp add: image_ok_def)
  then have l: "256 * ?b + 256 \<le> length f" using bb by linarith
  have o: "block_offset (int ?b) = Some (256 * ?b)" using block_small [OF ok v] by (simp add: block_offset_def nat_mult_distrib)
  have g: "img_gcr img = None" "device img = DEVICE_FS" "img_type img \<in> dxx_types" "img_type img \<in> fixed_types" "read_only img = 0"
    using ok by (auto simp: image_ok_def fixed_types_def dxx_types_def)
  let ?f1 = "util_fpwrite f buf (256 * ?b)" and ?img1 = "img\<lparr>fd := Some (util_fpwrite f buf (256 * block_of img t s))\<rparr>"
  have l1: "length ?f1 = length f" using l b by (simp add: length_fpwrite)
  have blk: "file_block ?f1 k = (if k = ?b then buf else file_block f k)" if "k < image_blocks img" for k
    using block_write [OF l _ b, of k] n that by simp
  have w: "disk_image_write_sector e img buf t s = map_option (Pair 0) (clear_error (int ?b) ?img1)"
    using f o g c by (cases "clear_error (int ?b) ?img1")
      (simp_all add: disk_image_write_sector_def fsimage_write_sector_def fsimage_dxx_write_sector_def Let_def)
  consider (plain) "clear_error (int ?b) ?img1 = Some ?img1" "\<forall>m. err_map img = Some m \<longrightarrow> m ! ?b = 1"
    | (clear) m where "err_map img = Some m" "clear_error (int ?b) ?img1 = Some (?img1\<lparr>
        fd := Some (util_fpwrite ?f1 [1] (err_len img * 256 + ?b)), err_map := Some (m[?b := 1])\<rparr>)"
  proof (cases "err_map img")
    case None
    then show ?thesis using that(1) by (simp add: clear_error_def)
  next
    case (Some m)
    then have m: "?b < length m" using ok bb by (simp add: image_ok_def image_blocks_def)
    show ?thesis
    proof (cases "m ! ?b = 1")
      case True
      then show ?thesis using that(1) Some m by (simp add: clear_error_def CBMDOS_FDC_ERR_OK_def)
    next
      case False
      then show ?thesis using that(2) Some m f by (simp add: clear_error_def CBMDOS_FDC_ERR_OK_def)
    qed
  qed
  then show ?thesis
  proof cases
    case plain
    have ib: "image_blocks ?img1 = image_blocks img" using f l1 by (simp add: image_blocks_def split: option.split)
    have "image_ok ?img1" using ok f l1 n unfolding image_ok_def ib by simp
    moreover note ib
    ultimately show ?thesis
      using plain w blk f by (intro exI [of _ ?img1]) (cases "err_map img"; simp add: block_error_def)
  next
    case (clear m)
    let ?f2 = "util_fpwrite ?f1 [1] (err_len img * 256 + ?b)"
    let ?img2 = "?img1\<lparr>fd := Some ?f2, err_map := Some (m[?b := 1])\<rparr>"
    have ib: "image_blocks img = err_len img" "length m = err_len img" using clear ok by (simp_all add: image_blocks_def image_ok_def)
    have l2: "length f \<le> length ?f2" using length_fpwrite_le [of ?f1] l1 by simp
    have "image_ok ?img2" using ok f l2 ib n clear by (simp add: image_ok_def image_blocks_def)
    moreover have "image_blocks ?img2 = image_blocks img" using ib by (simp add: image_blocks_def)
    moreover have "file_block ?f2 k = (if k = ?b then buf else file_block f k)" if "k < image_blocks img" for k
      using block_write_beyond [of k ?f1 "err_len img * 256 + ?b" "[1]"] blk [OF that] that ib n l1 by simp
    moreover have "block_error ?img2 k = (if k = ?b then map_option (\<lambda>_. 1) (err_map img) else block_error img k)" for k
      using clear ib bb by (simp add: block_error_def nth_list_update)
    ultimately show ?thesis using clear w f by (intro exI [of _ ?img2]) simp
  qed
qed

lemma image_valid_cong:
  assumes "image_ok img" "image_ok img'" "image_blocks img' = image_blocks img" "img_type img' = img_type img"
  shows "image_valid img' = image_valid img" "block_of img' = block_of img"
proof -
  have c: "disk_image_check_sector img' = disk_image_check_sector img"
    using assms by (intro ext check_cong) (simp_all add: image_ok_def)
  then have "block_of img' t s = block_of img t s" for t s by (simp add: block_of_def)
  then show "block_of img' = block_of img" by (intro ext)
  then show "image_valid img' = image_valid img" using c assms by (simp add: image_valid_def)
qed

interpretation image_store: sector_store image_ok image_valid "disk_image_write_sector e" "disk_image_read_sector e" for e
proof
  fix img t s and b :: "u8 list"
  assume ok: "image_ok img" and v: "(t, s) \<in> image_valid img" and b: "length b = 256"
  from write_image [OF ok v b, of e] obtain img' where w: "disk_image_write_sector e img b t s = Some (0, img')" "image_ok img'"
      "image_blocks img' = image_blocks img" "img_type img' = img_type img"
    and k: "\<forall>k<image_blocks img. file_block (the (fd img')) k = (if k = block_of img t s then b else file_block (the (fd img)) k)"
      "\<forall>k. block_error img' k = (if k = block_of img t s then map_option (\<lambda>_. 1) (err_map img) else block_error img k)"
    by auto
  note vc = image_valid_cong [OF ok w(2-4)]
  have lt: "block_of img t' s' < image_blocks img" if "(t', s') \<in> image_valid img" for t' s' using that by (simp add: image_valid_def)
  have "disk_image_read_sector e img' t s = Some (0, Some b)"
    using read_image [OF w(2), of t s e] v vc k lt [OF v]
    by (cases "err_map img") (simp_all add: read_result_def fdc_to_ipe_def CBMDOS_FDC_ERR_OK_def CBMDOS_IPE_OK_def)
  moreover have "disk_image_read_sector e img' t' s' = disk_image_read_sector e img t' s'"
    if v': "(t', s') \<in> image_valid img" "(t', s') \<noteq> (t, s)" for t' s'
  proof -
    have "block_of img t' s' \<noteq> block_of img t s" using block_of_inj [OF ok v'(1) v] v'(2) by auto
    then show ?thesis using read_image [OF w(2), of t' s' e] read_image [OF ok v'(1), of e] v'(1) vc k lt [OF v'(1)] by simp
  qed
  ultimately show "\<exists>img'. disk_image_write_sector e img b t s = Some (0, img') \<and> image_ok img' \<and> image_valid img' = image_valid img
      \<and> disk_image_read_sector e img' t s = Some (0, Some b)
      \<and> (\<forall>t' s'. (t', s') \<in> image_valid img \<longrightarrow> (t', s') \<noteq> (t, s) \<longrightarrow> disk_image_read_sector e img' t' s' = disk_image_read_sector e img t' s')"
    using w(1,2) vc by blast
qed


fun write_sectors :: "disk_env \<Rightarrow> ((nat \<times> nat) \<times> u8 list) list \<Rightarrow> disk_image \<Rightarrow> (int \<times> disk_image) option" where
  "write_sectors e [] img = Some (0, img)"
| "write_sectors e (((t, s), b) # ws) img =
     Option.bind (disk_image_write_sector e img b t s) (\<lambda>(r, img). if r \<noteq> 0 then Some (r, img) else write_sectors e ws img)"

lemma write_sectors_store: "write_sectors e ws img = image_store.write_all e ws img"
proof (induction ws arbitrary: img)
  case (Cons w ws)
  then show ?case by (cases w; cases "fst w") (simp cong: if_cong)
qed simp

text \<open>
  C12. Files on a disk image are safe: on every writable plain image of fixed size, with or
  without error bytes, any list of sectors written one after the other is written without
  error, and then each sector reads as it was written last, a recorded error on it gone, and
  every other sector reads as before, its recorded error included.
\<close>

theorem disk_image_write_read:
  assumes "image_ok img" "\<forall>(ts, b)\<in>set ws. ts \<in> image_valid img \<and> length b = 256"
  shows "\<exists>img'. write_sectors e ws img = Some (0, img') \<and> image_ok img'
    \<and> (\<forall>t s. (t, s) \<in> image_valid img \<longrightarrow>
         disk_image_read_sector e img' t s
           = (case map_of (rev ws) (t, s) of Some b \<Rightarrow> Some (0, Some b) | None \<Rightarrow> disk_image_read_sector e img t s))"
  using image_store.write_all_reads [OF assms, of e] unfolding write_sectors_store by blast

text \<open>An image of one track and a half, with an error recorded on its last sector.\<close>

definition small_image :: disk_image where
  "small_image = \<lparr>fd = Some (replicate (30 * 257) 0), err_map = Some (replicate 29 1 @ [11]), err_len = 30, read_only = 0,
     device = DEVICE_FS, img_type = D64, img_tracks = 35, img_sectors = 0, img_gcr = None\<rparr>"

lemma small_image_ok: "image_ok small_image"
  by (simp add: image_ok_def small_image_def image_blocks_def fixed_types_def)

lemma small_image_valid: "(2, 8) \<in> image_valid small_image" "(1, 0) \<in> image_valid small_image"
proof -
  have c: "disk_image_check_sector small_image t s =
      (if t < 1 \<or> 42 < t then FSIMAGE_BAD_TRKNUM
       else if type_spt D64 t \<le> s then FSIMAGE_BAD_SECNUM else int (below (type_spt D64) t + s))" for t s
    using check_layout [of D64 small_image t s] by (simp add: small_image_def fixed_types_def MAX_TRACKS_1541_def)
  show "(2, 8) \<in> image_valid small_image" "(1, 0) \<in> image_valid small_image"
    by (simp_all add: image_valid_def block_of_def c type_spt_def below_def spt_defs image_blocks_def upt_rec)
      (simp_all add: small_image_def)
qed

theorem disk_image_write_read_witness:
  "\<exists>img'. write_sectors plain_env [((2, 8), replicate 256 5)] small_image = Some (0, img')
    \<and> disk_image_read_sector plain_env img' 2 8 = Some (0, Some (replicate 256 5))"
proof -
  have "\<forall>(ts, b)\<in>set [((2, 8), replicate 256 5)]. ts \<in> image_valid small_image \<and> length (b :: u8 list) = 256"
    using small_image_valid by simp
  from disk_image_write_read [OF small_image_ok this, of plain_env] show ?thesis
    using small_image_valid(1) by fastforce
qed

section \<open>Virtual drives\<close>

definition vd_ok :: "vdrive \<Rightarrow> bool" where
  "vd_ok vd \<longleftrightarrow> (\<exists>img. vd_image vd = Some img \<and> image_ok img) \<and> current_offset vd \<noteq> 0xffffffff \<and> \<not> haspt vd"

definition vd_valid :: "vdrive \<Rightarrow> (nat \<times> nat) set" where
  "vd_valid vd = image_valid (the (vd_image vd))"

definition vd_read :: "disk_env \<Rightarrow> vdrive \<Rightarrow> nat \<Rightarrow> nat \<Rightarrow> (int \<times> u8 list option) option" where
  "vd_read e vd t s = map_option (\<lambda>(r, b, vd). (r, b)) (vdrive_read_sector e t s vd)"

lemma vd_phy: "vd_ok vd \<Longrightarrow> vdrive_log_to_phy vd t s = Some (t, s)"
  by (auto simp: vd_ok_def vdrive_log_to_phy_def image_ok_def fixed_types_def)

lemma vd_ok_mode [simp]: "vd_ok (vd\<lparr>image_mode := m\<rparr>) = vd_ok vd"
  by (simp add: vd_ok_def)

lemma vd_read_ok:
  assumes "vd_ok vd"
  shows "vdrive_read_sector e t s vd = map_option (\<lambda>(ret, buf). (ret, buf, vd\<lparr>image_mode := 0\<rparr>))
    (disk_image_read_sector e (the (vd_image vd)) t s)"
  using assms vd_phy [of "vd\<lparr>image_mode := 0\<rparr>" t s] by (auto simp: vd_ok_def vdrive_read_sector_def image_ok_def Let_def)

lemma vd_write_ok:
  assumes "vd_ok vd"
  shows "vdrive_write_sector e buf t s vd = map_option (\<lambda>(ret, img). (ret, vd\<lparr>image_mode := 0, vd_image := Some img\<rparr>))
    (disk_image_write_sector e (the (vd_image vd)) buf t s)"
  using assms vd_phy [of "vd\<lparr>image_mode := 0\<rparr>" t s] by (auto simp: vd_ok_def vdrive_write_sector_def image_ok_def Let_def)

lemma vd_read_image: "vd_ok vd \<Longrightarrow> vd_read e vd t s = disk_image_read_sector e (the (vd_image vd)) t s"
  by (cases "disk_image_read_sector e (the (vd_image vd)) t s") (auto simp: vd_read_def vd_read_ok)

interpretation vd_store: sector_store vd_ok vd_valid "\<lambda>vd b t s. vdrive_write_sector e b t s vd" "vd_read e" for e
proof
  fix vd t s and b :: "u8 list"
  assume ok: "vd_ok vd" and v: "(t, s) \<in> vd_valid vd" and b: "length b = 256"
  obtain img where img: "vd_image vd = Some img" "image_ok img" using ok by (auto simp: vd_ok_def)
  have v': "(t, s) \<in> image_valid img" using v img by (simp add: vd_valid_def)
  from image_store.write_read [OF img(2) v' b, of e] obtain img' where w: "disk_image_write_sector e img b t s = Some (0, img')"
    "image_ok img'" "image_valid img' = image_valid img" "disk_image_read_sector e img' t s = Some (0, Some b)"
    "\<forall>t' s'. (t', s') \<in> image_valid img \<longrightarrow> (t', s') \<noteq> (t, s) \<longrightarrow> disk_image_read_sector e img' t' s' = disk_image_read_sector e img t' s'"
    by blast
  let ?vd = "vd\<lparr>image_mode := 0, vd_image := Some img'\<rparr>"
  have "vd_ok ?vd" using ok w(2) by (simp add: vd_ok_def)
  then show "\<exists>vd'. vdrive_write_sector e b t s vd = Some (0, vd') \<and> vd_ok vd' \<and> vd_valid vd' = vd_valid vd
      \<and> vd_read e vd' t s = Some (0, Some b)
      \<and> (\<forall>t' s'. (t', s') \<in> vd_valid vd \<longrightarrow> (t', s') \<noteq> (t, s) \<longrightarrow> vd_read e vd' t' s' = vd_read e vd t' s')"
    using img w ok by (intro exI [of _ ?vd]) (simp add: vd_write_ok vd_read_image vd_valid_def)
qed

end
