(* ===== verification/Vdrive_Bam_Store.thy ===== *)
theory Vdrive_Bam_Store
  imports Vdrive_Bam_Count Disk_Sectors
begin

text \<open>
  The BAM and the disk: a BAM that was written back is the one that the next start of the drive
  reads, and allocations persist.
\<close>

section \<open>Places of the blocks\<close>

definition store_formats :: "image_format set" where
  "store_formats = {FORMAT_1541, FORMAT_2040, FORMAT_1571, FORMAT_1581, FORMAT_8050, FORMAT_8250}"

lemma store_fixed: "f \<in> store_formats \<Longrightarrow> f \<in> fixed_formats"
  by (auto simp: store_formats_def fixed_formats_def)

text \<open>The track and sector of a block of the BAM.\<close>

definition bam_place :: "vdrive \<Rightarrow> nat \<Rightarrow> nat \<times> nat" where
  "bam_place vd i =
     (if image_format vd = FORMAT_1581 then (Bam_Track vd, Bam_Sector vd + i)
      else if image_format vd = FORMAT_1571 then [(18, 0), (53, 0)] ! i
      else if image_format vd \<in> {FORMAT_8050, FORMAT_8250} then [(39, 0), (38, 0), (38, 3), (38, 6), (38, 9)] ! i
      else (18, 0))"

abbreviation blocks :: "vdrive \<Rightarrow> nat" where
  "blocks vd \<equiv> format_blocks (image_format vd)"

lemma blocks_less: "i < blocks vd \<Longrightarrow> i < VDRIVE_BAM_MAX_STATES"
  using format_blocks_states order_less_le_trans by blast

lemma small_blocks: "i < 2 \<longleftrightarrow> i = 0 \<or> i = 1" "i < 3 \<longleftrightarrow> i = 0 \<or> i = 1 \<or> i = 2"
  "i < 5 \<longleftrightarrow> i = 0 \<or> i = 1 \<or> i = 2 \<or> i = 3 \<or> i = 4" for i :: nat
  by auto

lemma bam_place_inj:
  assumes "image_format vd \<in> store_formats" "i < blocks vd" "j < blocks vd" "bam_place vd i = bam_place vd j"
  shows "i = j"
proof -
  consider "image_format vd = FORMAT_1581" | "image_format vd \<in> {FORMAT_1541, FORMAT_2040}" | "image_format vd = FORMAT_1571"
    | "image_format vd \<in> {FORMAT_8050, FORMAT_8250}" using assms(1) by (auto simp: store_formats_def)
  then show ?thesis
  proof cases
    case 3
    have "distinct [(18 :: nat, 0 :: nat), (53, 0)]" by simp
    from nth_eq_iff_index_eq [OF this, of i j] show ?thesis using 3 assms(2-4) by (simp add: bam_place_def)
  next
    case 4
    have "distinct [(39 :: nat, 0 :: nat), (38, 0), (38, 3), (38, 6), (38, 9)]" by simp
    from nth_eq_iff_index_eq [OF this, of i j] show ?thesis using 4 assms(2-4) by (auto simp: bam_place_def simp del: nth_Cons_0)
  qed (use assms(2-4) in \<open>auto simp: bam_place_def\<close>)
qed

definition placed :: "vdrive \<Rightarrow> bool" where
  "placed vd \<longleftrightarrow> length (bam_tracks vd) = VDRIVE_BAM_MAX_STATES \<and> length (bam_sectors vd) = VDRIVE_BAM_MAX_STATES
     \<and> (\<forall>i<blocks vd. bam_tracks vd ! i = int (fst (bam_place vd i)) \<and> bam_sectors vd ! i = int (snd (bam_place vd i)))"

text \<open>A drive with its BAM in memory, whose blocks have sectors of the image.\<close>

definition bam_on_disk :: "vdrive \<Rightarrow> bool" where
  "bam_on_disk vd \<longleftrightarrow> bam_ok vd \<and> vd_ok vd \<and> placed vd \<and> image_format vd \<in> store_formats
     \<and> (\<forall>i<blocks vd. bam_place vd i \<in> vd_valid vd) \<and> (image_format vd = FORMAT_1571 \<longrightarrow> num_tracks vd = 70)"

definition on_disk :: "disk_env \<Rightarrow> vdrive \<Rightarrow> nat \<Rightarrow> bool" where
  "on_disk e vd i \<longleftrightarrow> vd_read e vd (fst (bam_place vd i)) (snd (bam_place vd i)) = Some (0, Some (file_block (bam vd) i))"

text \<open>The parts of the drive that storing and loading do not change.\<close>

definition same_drive :: "vdrive \<Rightarrow> vdrive \<Rightarrow> bool" where
  "same_drive vd vd' \<longleftrightarrow> image_format vd' = image_format vd \<and> num_tracks vd' = num_tracks vd \<and> bam_size vd' = bam_size vd
     \<and> Bam_Track vd' = Bam_Track vd \<and> Bam_Sector vd' = Bam_Sector vd \<and> vd_valid vd' = vd_valid vd
     \<and> current_offset vd' = current_offset vd \<and> haspt vd' = haspt vd"

lemma same_drive_refl: "same_drive vd vd"
  and same_drive_trans: "same_drive vd vd' \<Longrightarrow> same_drive vd' vd'' \<Longrightarrow> same_drive vd vd''"
  by (simp_all add: same_drive_def)

lemma same_place: "same_drive vd vd' \<Longrightarrow> bam_place vd' = bam_place vd"
  by (auto simp: same_drive_def bam_place_def)

lemma write_blocks:
  assumes "vd_ok vd" "placed vd" "image_format vd \<in> store_formats" "\<forall>i<blocks vd. bam_place vd i \<in> vd_valid vd"
    and "length (bam vd) = 256 * blocks vd" "length (bam_state vd) = VDRIVE_BAM_MAX_STATES"
    and "\<forall>i<blocks vd. bam_state vd ! i \<le> 0 \<longrightarrow> on_disk e vd i" "set is \<subseteq> {..<blocks vd}"
  shows "\<exists>vd'. write_bam_blocks e is 0 vd = Some (0, vd') \<and> same_drive vd vd' \<and> bam vd' = bam vd \<and> vd_ok vd'
    \<and> (\<forall>i<blocks vd. bam_state vd ! i \<le> 0 \<or> i \<in> set is \<longrightarrow> on_disk e vd' i)"
  using assms
proof (induction "is" arbitrary: vd)
  case Nil
  then show ?case by (simp add: same_drive_refl)
next
  case (Cons i "is")
  have i: "i < blocks vd" "i < VDRIVE_BAM_MAX_STATES" using Cons.prems(8) blocks_less by auto
  show ?case
  proof (cases "bam_state vd ! i > 0")
    case False
    then have "write_bam_blocks e (i # is) 0 vd = write_bam_blocks e is 0 vd" using i by simp
    then show ?thesis using Cons.IH [OF Cons.prems(1-7)] Cons.prems(8) False i(1) by fastforce
  next
    case True
    obtain t s where ts: "bam_place vd i = (t, s)" by (cases "bam_place vd i")
    have pl: "bam_tracks vd ! i = int t" "bam_sectors vd ! i = int s" using Cons.prems(2) i(1) ts by (simp_all add: placed_def)
    have v: "(t, s) \<in> vd_valid vd" using Cons.prems(4) i(1) ts by force
    have len: "256 * i + 256 \<le> length (bam vd)" using Cons.prems(5) i(1) by simp
    let ?b = "file_block (bam vd) i"
    have b: "length ?b = 256" using len by (simp add: file_block_def)
    from vd_store.write_read [OF Cons.prems(1) v b, of e] obtain vd1 where w: "vdrive_write_sector e ?b t s vd = Some (0, vd1)"
      "vd_ok vd1" "vd_valid vd1 = vd_valid vd" "vd_read e vd1 t s = Some (0, Some ?b)"
      "\<forall>t' s'. (t', s') \<in> vd_valid vd \<longrightarrow> (t', s') \<noteq> (t, s) \<longrightarrow> vd_read e vd1 t' s' = vd_read e vd t' s'" by blast
    obtain img where vd1: "vd1 = vd\<lparr>image_mode := 0, vd_image := Some img\<rparr>"
      using w(1) vd_write_ok [OF Cons.prems(1), of e ?b t s] by auto
    let ?vd = "vd1\<lparr>bam_state := (bam_state vd)[i := 0]\<rparr>"
    have step: "write_bam_blocks e (i # is) 0 vd = write_bam_blocks e is 0 ?vd"
      using True i(2) len w(1) pl vd1 by (simp add: file_block_def)
    have sd: "same_drive vd ?vd" using vd1 w(3) by (simp add: same_drive_def vd_valid_def)
    have ok: "vd_ok ?vd" using w(2) by (simp add: vd_ok_def)
    have rd: "vd_read e ?vd t' s' = vd_read e vd1 t' s'" for t' s' using w(2) ok by (simp add: vd_read_image)
    have od: "on_disk e ?vd j" if j: "j < blocks vd" "j = i \<or> on_disk e vd j" for j
    proof (cases "j = i")
      case True
      then show ?thesis using w(4) ts rd vd1 same_place [OF sd] by (simp add: on_disk_def)
    next
      case False
      then have "bam_place vd j \<noteq> (t, s)" using bam_place_inj [OF Cons.prems(3) j(1) i(1)] ts by auto
      moreover have "bam_place vd j \<in> vd_valid vd" using Cons.prems(4) j(1) by blast
      ultimately show ?thesis using w(5) rd j False vd1 same_place [OF sd]
        by (cases "bam_place vd j") (simp add: on_disk_def)
    qed
    have "\<exists>vd'. write_bam_blocks e is 0 ?vd = Some (0, vd') \<and> same_drive ?vd vd' \<and> bam vd' = bam ?vd \<and> vd_ok vd'
        \<and> (\<forall>j<blocks ?vd. bam_state ?vd ! j \<le> 0 \<or> j \<in> set is \<longrightarrow> on_disk e vd' j)"
    proof (rule Cons.IH [OF ok])
      show "placed ?vd" using Cons.prems(2) vd1 same_place [OF sd] by (simp add: placed_def)
      show "image_format ?vd \<in> store_formats" "length (bam ?vd) = 256 * blocks ?vd"
        "length (bam_state ?vd) = VDRIVE_BAM_MAX_STATES" "set is \<subseteq> {..<blocks ?vd}"
        using Cons.prems vd1 by simp_all
      show "\<forall>j<blocks ?vd. bam_place ?vd j \<in> vd_valid ?vd" using Cons.prems(4) vd1 w(3) same_place [OF sd] by (simp add: vd_valid_def)
      show "\<forall>j<blocks ?vd. bam_state ?vd ! j \<le> 0 \<longrightarrow> on_disk e ?vd j"
      proof (intro allI impI)
        fix j assume j: "j < blocks ?vd" "bam_state ?vd ! j \<le> 0"
        then have "j = i \<or> bam_state vd ! j \<le> 0" by (cases "j = i") simp_all
        then show "on_disk e ?vd j" using od [of j] Cons.prems(7) j(1) vd1 by auto
      qed
    qed
    then obtain vd' where r: "write_bam_blocks e is 0 ?vd = Some (0, vd')" "same_drive ?vd vd'" "bam vd' = bam vd" "vd_ok vd'"
      "\<forall>j<blocks vd. bam_state ?vd ! j \<le> 0 \<or> j \<in> set is \<longrightarrow> on_disk e vd' j" using vd1 by auto
    have "\<forall>j<blocks vd. bam_state vd ! j \<le> 0 \<or> j \<in> set (i # is) \<longrightarrow> on_disk e vd' j"
    proof (intro allI impI)
      fix j assume j: "j < blocks vd" "bam_state vd ! j \<le> 0 \<or> j \<in> set (i # is)"
      have "bam_state ?vd ! j = (if j = i then 0 else bam_state vd ! j)" using i(2) Cons.prems(6) by simp
      then show "on_disk e vd' j" using r(5) j by (cases "j = i") auto
    qed
    then show ?thesis using r step same_drive_trans [OF sd r(2)] by auto
  qed
qed


lemma places_1581_id: "placed vd \<Longrightarrow> image_format vd = FORMAT_1581 \<Longrightarrow> places_1581 vd = vd"
proof -
  assume p: "placed vd" and f: "image_format vd = FORMAT_1581"
  have "bam_tracks vd ! i = int (Bam_Track vd)" "bam_sectors vd ! i = int (Bam_Sector vd + i)" if "i < 3" for i
    using p f that by (simp_all add: placed_def bam_place_def)
  then have "set_bam_place i (int (Bam_Track vd), int (Bam_Sector vd + i)) vd = vd" if "i < 3" for i
    using that list_update_id [of "bam_tracks vd" i] list_update_id [of "bam_sectors vd" i] by (simp add: set_bam_place_def)
  from this [of 0] this [of 1] this [of 2] show ?thesis by (simp add: places_1581_def add.commute)
qed

text \<open>After \<open>vdrive_bam_write_bam\<close> every block is on the disk.\<close>

lemma write_bam_stores:
  assumes on: "bam_on_disk vd" and clean: "\<forall>i<blocks vd. bam_state vd ! i \<le> 0 \<longrightarrow> on_disk e vd i"
  shows "\<exists>vd'. vdrive_bam_write_bam e vd = Some (0, vd') \<and> same_drive vd vd' \<and> bam vd' = bam vd \<and> vd_ok vd'
    \<and> (\<forall>i<blocks vd. on_disk e vd' i)"
proof -
  have l: "bam_loaded vd" and f: "image_format vd \<in> store_formats" using on by (simp_all add: bam_on_disk_def bam_ok_def)
  have len: "length (bam vd) = 256 * blocks vd" "bam_size vd div 256 = blocks vd" "length (bam_state vd) = VDRIVE_BAM_MAX_STATES"
    using l by (simp_all add: bam_loaded_def)
  have "0 < blocks vd" using f by (auto simp: store_formats_def)
  then have ne: "bam vd \<noteq> []" using len by auto
  have p: "(if image_format vd = FORMAT_1581 then places_1581 vd else vd) = vd"
    using places_1581_id on by (simp add: bam_on_disk_def)
  have nf: "image_format vd \<notin> {FORMAT_SYS, FORMAT_NONE}" using f by (auto simp: store_formats_def)
  have w: "vdrive_bam_write_bam e vd = write_bam_blocks e [0..<blocks vd] 0 vd"
    unfolding vdrive_bam_write_bam_def Let_def p using ne nf len(2) by (simp add: CBMDOS_IPE_OK_def)
  have sub: "set [0..<blocks vd] \<subseteq> {..<blocks vd}" by (simp add: atLeast0LessThan)
  have "vd_ok vd" "placed vd" "\<forall>i<blocks vd. bam_place vd i \<in> vd_valid vd" using on by (simp_all add: bam_on_disk_def)
  from write_blocks [OF this(1,2) f this(3) len(1,3) clean sub] obtain vd' where
    "write_bam_blocks e [0..<blocks vd] 0 vd = Some (0, vd')" "same_drive vd vd'" "bam vd' = bam vd" "vd_ok vd'"
    "\<forall>i<blocks vd. bam_state vd ! i \<le> 0 \<or> i \<in> set [0..<blocks vd] \<longrightarrow> on_disk e vd' i" by blast
  then show ?thesis unfolding w by (intro exI [of _ vd']) simp
qed

section \<open>Loading\<close>

text \<open>The places that \<open>vdrive_bam_setup_bam\<close> sets.\<close>

definition updates :: "(nat \<times> int) list \<Rightarrow> int list \<Rightarrow> int list" where
  "updates ps l = fold (\<lambda>(i, x) l. l[i := x]) ps l"

lemma updates_simps [simp]: "updates [] l = l" "updates ((i, x) # ps) l = updates ps (l[i := x])"
  by (simp_all add: updates_def)

lemma length_updates [simp]: "length (updates ps l) = length l"
  by (induction ps arbitrary: l) auto

lemma updates_other: "i \<notin> fst ` set ps \<Longrightarrow> updates ps l ! i = l ! i"
  by (induction ps arbitrary: l) auto

lemma updates_nth: "distinct (map fst ps) \<Longrightarrow> (i, x) \<in> set ps \<Longrightarrow> i < length l \<Longrightarrow> updates ps l ! i = x"
proof (induction ps arbitrary: l)
  case (Cons p ps)
  obtain j y where p: "p = (j, y)" by (cases p)
  show ?case
  proof (cases "(i, x) = p")
    case True
    then have "i \<notin> fst ` set ps" using Cons.prems(1) by force
    then show ?thesis using True p Cons.prems(3) updates_other [of i ps "l[i := x]"] by simp
  next
    case False
    then have "(i, x) \<in> set ps" using Cons.prems(2) by auto
    then show ?thesis using Cons.IH [of "l[j := y]"] Cons.prems p by simp
  qed
qed simp

lemma fold_places:
  "fold (\<lambda>(i, t, s). set_bam_place i (t, s)) ps vd
    = vd\<lparr>bam_tracks := updates (map (\<lambda>(i, t, s). (i, t)) ps) (bam_tracks vd),
         bam_sectors := updates (map (\<lambda>(i, t, s). (i, s)) ps) (bam_sectors vd)\<rparr>"
proof (induction ps arbitrary: vd)
  case (Cons p ps)
  obtain j t s where p: "p = (j, t, s)" by (cases p)
  show ?case by (simp only: p fold.simps comp_apply prod.case Cons.IH list.map updates_simps) (simp add: set_bam_place_def)
qed simp

definition setup_places :: "vdrive \<Rightarrow> (nat \<times> int \<times> int) list" where
  "setup_places vd =
     (case image_format vd of
        FORMAT_1571 \<Rightarrow> [(1, 18 + int (num_tracks vd div 2), 0), (0, 18, 0)]
      | FORMAT_1541 \<Rightarrow> [(0, 18, 0)]
      | FORMAT_2040 \<Rightarrow> [(0, 18, 0)]
      | FORMAT_8250 \<Rightarrow> [(3, 38, 6), (4, 38, 9), (0, 39, 0), (1, 38, 0), (2, 38, 3)]
      | FORMAT_8050 \<Rightarrow> [(0, 39, 0), (1, 38, 0), (2, 38, 3)]
      | FORMAT_NP \<Rightarrow> map (\<lambda>i. (i, 1, int (1 + i))) [0..<33]
      | FORMAT_9000 \<Rightarrow> [(0, int (Header_Track vd), int (Header_Sector vd)), (1, int (Bam_Track vd), int (Bam_Sector vd))]
      | _ \<Rightarrow> [])"

lemma setup_fold:
  "vdrive_bam_setup_bam mem vd = fold (\<lambda>(i, t, s). set_bam_place i (t, s)) (setup_places vd)
     (vd\<lparr>bam := take (bam_size vd) mem, bam_state := replicate VDRIVE_BAM_MAX_STATES (-1),
       bam_tracks := replicate VDRIVE_BAM_MAX_STATES (-1), bam_sectors := replicate VDRIVE_BAM_MAX_STATES (-1)\<rparr>)"
  by (cases "image_format vd") (simp_all add: vdrive_bam_setup_bam_def setup_places_def Let_def del: upt_Suc fold_simps)

text \<open>What is needed to load a block: its place, but for the 1581, where loading sets it.\<close>

definition loadable :: "vdrive \<Rightarrow> bool" where
  "loadable vd \<longleftrightarrow> vd_ok vd \<and> image_format vd \<in> store_formats \<and> length (bam vd) = 256 * blocks vd
     \<and> length (bam_state vd) = VDRIVE_BAM_MAX_STATES \<and> length (bam_tracks vd) = VDRIVE_BAM_MAX_STATES
     \<and> length (bam_sectors vd) = VDRIVE_BAM_MAX_STATES \<and> (image_format vd \<noteq> FORMAT_1581 \<longrightarrow> placed vd)"

lemma setup_has:
  assumes "image_format vd \<in> store_formats" "image_format vd \<noteq> FORMAT_1581"
    and "image_format vd = FORMAT_1571 \<longrightarrow> num_tracks vd = 70" "i < blocks vd"
  shows "(i, int (fst (bam_place vd i)), int (snd (bam_place vd i))) \<in> set (setup_places vd)"
proof -
  consider "image_format vd = FORMAT_1541 \<or> image_format vd = FORMAT_2040" | "image_format vd = FORMAT_1571" | "image_format vd = FORMAT_8050"
    | "image_format vd = FORMAT_8250" using assms(1,2) by (auto simp: store_formats_def)
  then show ?thesis
  proof cases
    case 1
    then show ?thesis using assms(4) by (elim disjE) (simp_all add: setup_places_def bam_place_def)
  next
    case 2
    then have "i = 0 \<or> i = 1" using assms(4) by auto
    then show ?thesis using 2 assms(3) by (elim disjE) (simp_all add: setup_places_def bam_place_def)
  next
    case 3
    then have "i = 0 \<or> i = 1 \<or> i = 2" using assms(4) by auto
    then show ?thesis using 3 by (elim disjE) (simp_all add: setup_places_def bam_place_def)
  next
    case 4
    then have "i = 0 \<or> i = 1 \<or> i = 2 \<or> i = 3 \<or> i = 4" using assms(4) by auto
    then show ?thesis using 4 by (elim disjE) (simp_all add: setup_places_def bam_place_def)
  qed
qed

lemma setup_loadable:
  assumes "vd_ok vd" "image_format vd \<in> store_formats" "image_format vd = FORMAT_1571 \<longrightarrow> num_tracks vd = 70"
    and "bam_size vd = 256 * blocks vd" "bam_size vd \<le> length mem"
  shows "loadable (vdrive_bam_setup_bam mem vd)" "same_drive vd (vdrive_bam_setup_bam mem vd)"
    "bam_state (vdrive_bam_setup_bam mem vd) = replicate VDRIVE_BAM_MAX_STATES (-1)"
    "vd_image (vdrive_bam_setup_bam mem vd) = vd_image vd"
proof -
  let ?u = "replicate VDRIVE_BAM_MAX_STATES (-1) :: int list"
  let ?bt = "updates (map (\<lambda>(i, t, s). (i, t)) (setup_places vd)) ?u"
  let ?bs = "updates (map (\<lambda>(i, t, s). (i, s)) (setup_places vd)) ?u"
  let ?vd = "vdrive_bam_setup_bam mem vd"
  have e: "?vd = vd\<lparr>bam := take (bam_size vd) mem, bam_state := ?u, bam_tracks := ?bt, bam_sectors := ?bs\<rparr>"
    unfolding setup_fold fold_places by simp
  show sd: "same_drive vd ?vd" unfolding e by (simp add: same_drive_def vd_valid_def)
  show "bam_state ?vd = ?u" "vd_image ?vd = vd_image vd" by (simp_all add: e)
  have "placed ?vd" if f: "image_format vd \<noteq> FORMAT_1581"
  proof -
    have d: "distinct (map fst (setup_places vd))" using assms(2) f by (auto simp: store_formats_def setup_places_def)
    have "?bt ! i = int (fst (bam_place vd i)) \<and> ?bs ! i = int (snd (bam_place vd i))" if i: "i < blocks vd" for i
    proof -
      have "(i, int (fst (bam_place vd i)), int (snd (bam_place vd i))) \<in> set (setup_places vd)"
        by (rule setup_has [OF assms(2) f assms(3) i])
      then have "(i, int (fst (bam_place vd i))) \<in> set (map (\<lambda>(i, t, s). (i, t)) (setup_places vd))"
        "(i, int (snd (bam_place vd i))) \<in> set (map (\<lambda>(i, t, s). (i, s)) (setup_places vd))" by force+
      moreover have "map fst (map (\<lambda>(i, t, s). (i, t)) (setup_places vd)) = map fst (setup_places vd)"
        "map fst (map (\<lambda>(i, t, s). (i, s)) (setup_places vd)) = map fst (setup_places vd)" by auto
      ultimately show ?thesis using updates_nth d blocks_less [OF i] by (metis length_replicate)
    qed
    then show ?thesis unfolding placed_def same_place [OF sd] by (simp add: e)
  qed
  then show "loadable ?vd" using assms by (simp add: loadable_def e vd_ok_def min_def)
qed

lemma set_place_sel [simp]:
  "bam_tracks (set_bam_place j ts vd) = (bam_tracks vd)[j := fst ts]"
  "bam_sectors (set_bam_place j ts vd) = (bam_sectors vd)[j := snd ts]"
  by (simp_all add: set_bam_place_def)

lemma places_1581_placed:
  assumes "loadable vd"
  shows "placed (if image_format vd = FORMAT_1581 then places_1581 vd else vd)"
    "same_drive vd (if image_format vd = FORMAT_1581 then places_1581 vd else vd)"
    "vd_image (if image_format vd = FORMAT_1581 then places_1581 vd else vd) = vd_image vd"
    "bam (if image_format vd = FORMAT_1581 then places_1581 vd else vd) = bam vd"
    "bam_state (if image_format vd = FORMAT_1581 then places_1581 vd else vd) = bam_state vd"
proof -
  let ?vd = "if image_format vd = FORMAT_1581 then places_1581 vd else vd"
  show sd: "same_drive vd ?vd" and "vd_image ?vd = vd_image vd" "bam ?vd = bam vd" "bam_state ?vd = bam_state vd"
    by (simp_all add: places_1581_def set_bam_place_def same_drive_def vd_valid_def)
  show "placed ?vd"
  proof (cases "image_format vd = FORMAT_1581")
    case True
    have l: "length (bam_tracks vd) = 33" "length (bam_sectors vd) = 33"
      using assms by (simp_all add: loadable_def VDRIVE_BAM_MAX_STATES_def)
    have "bam_tracks (places_1581 vd) ! i = int (Bam_Track vd) \<and> bam_sectors (places_1581 vd) ! i = int (Bam_Sector vd + i)"
      if "i < 3" for i
    proof -
      have "i = 0 \<or> i = 1 \<or> i = 2" using that by auto
      then show ?thesis using l by (elim disjE) (simp_all add: places_1581_def)
    qed
    moreover have "length (bam_tracks (places_1581 vd)) = 33" "length (bam_sectors (places_1581 vd)) = 33"
      using l by (simp_all add: places_1581_def)
    moreover have "image_format (places_1581 vd) = FORMAT_1581" using True sd by (simp add: same_drive_def)
    ultimately show ?thesis using True same_place [OF sd] by (simp add: placed_def VDRIVE_BAM_MAX_STATES_def bam_place_def)
  qed (use assms in \<open>simp add: loadable_def\<close>)
qed

lemma store_block:
  assumes "length m = 256 * n" "i < n" "length b = 256"
  shows "\<exists>m'. store_bytes (256 * i) b m = Some m' \<and> length m' = 256 * n
    \<and> (\<forall>j<n. file_block m' j = (if j = i then b else file_block m j))"
proof -
  have f: "256 * i + 256 \<le> length m" using assms(1,2) by simp
  then have "store_bytes (256 * i) b m = Some (util_fpwrite m b (256 * i))"
    using assms(3) by (simp add: store_bytes_def util_fpwrite_def)
  moreover have "length (util_fpwrite m b (256 * i)) = 256 * n" using f assms by (simp add: length_fpwrite)
  moreover have "file_block (util_fpwrite m b (256 * i)) j = (if j = i then b else file_block m j)" if "j < n" for j
    using block_write [OF f _ assms(3), of j] that assms(1) by simp
  ultimately show ?thesis by blast
qed

text \<open>Loading one block that is on the disk.\<close>

lemma load_block:
  assumes l: "loadable vd" and i: "i < blocks vd" "bam_state vd ! i < 0"
    and d: "vd_read e vd (fst (bam_place vd i)) (snd (bam_place vd i)) = Some (0, Some b)" "length b = 256"
  shows "\<exists>vd'. vdrive_bam_read_bam_block e i vd = Some (0, vd') \<and> loadable vd' \<and> placed vd' \<and> same_drive vd vd'
    \<and> vd_image vd' = vd_image vd \<and> bam_state vd' = (bam_state vd)[i := 0]
    \<and> (\<forall>j<blocks vd. file_block (bam vd') j = (if j = i then b else file_block (bam vd) j))"
proof -
  define vd1 where "vd1 = (if image_format vd = FORMAT_1581 then places_1581 vd else vd)"
  note p = places_1581_placed [OF l, folded vd1_def]
  have f: "image_format vd \<in> store_formats" and ok: "vd_ok vd" using l by (simp_all add: loadable_def)
  have f1: "image_format vd1 = image_format vd" "haspt vd1 = haspt vd" "current_offset vd1 = current_offset vd"
    using p(2) by (simp_all add: same_drive_def)
  have ok1: "vd_ok vd1" using ok p(3) f1 by (simp add: vd_ok_def)
  have i': "i < VDRIVE_BAM_MAX_STATES" using i(1) blocks_less by simp
  have pl: "nat (bam_tracks vd1 ! i) = fst (bam_place vd i)" "nat (bam_sectors vd1 ! i) = snd (bam_place vd i)" "0 \<le> bam_tracks vd1 ! i"
    using p(1) i(1) f1 same_place [OF p(2)] by (simp_all add: placed_def)
  have rd: "vdrive_read_sector e (fst (bam_place vd i)) (snd (bam_place vd i)) vd1 = Some (0, Some b, vd1\<lparr>image_mode := 0\<rparr>)"
    using d(1) vd_read_image [OF ok] vd_read_ok [OF ok1] p(3) by simp
  have len: "length (bam vd1) = 256 * blocks vd" using l p(4) by (simp add: loadable_def)
  from store_block [OF len i(1) d(2)] obtain m' where m: "store_bytes (256 * i) b (bam vd1) = Some m'" "length m' = 256 * blocks vd"
    "\<forall>j<blocks vd. file_block m' j = (if j = i then b else file_block (bam vd1) j)" by blast
  let ?vd = "vd1\<lparr>image_mode := 0, bam := m', bam_state := (bam_state vd1)[i := 0]\<rparr>"
  have nf: "image_format vd \<noteq> FORMAT_9000" "image_format vd1 \<notin> {FORMAT_SYS, FORMAT_NONE}" using f f1 by (auto simp: store_formats_def)
  have "vdrive_bam_read_bam_block e i vd = load_bam_block e i (-1) vd"
    using i' i(2) nf(1) by (simp add: vdrive_bam_read_bam_block.simps)
  also have "\<dots> = Some (0, ?vd)"
    unfolding load_bam_block_def vd1_def [symmetric] Let_def using nf(2) pl rd m(1) by simp
  finally have r: "vdrive_bam_read_bam_block e i vd = Some (0, ?vd)" .
  have sd: "same_drive vd ?vd" using p(2) by (simp add: same_drive_def vd_valid_def)
  have "placed ?vd" using p(1) same_place [OF sd] same_place [OF p(2)] by (simp add: placed_def)
  moreover have "loadable ?vd" using l calculation m(2) f1 p(3,5) by (simp add: loadable_def vd_ok_def placed_def)
  ultimately show ?thesis using r sd p(3,4,5) m(3) by (intro exI [of _ ?vd]) simp
qed

lemma load_blocks:
  assumes "loadable vd" "\<forall>i<blocks vd. bam_state vd ! i < 0 \<longrightarrow>
      vd_read e vd (fst (bam_place vd i)) (snd (bam_place vd i)) = Some (0, Some (file_block m i))"
    and "\<forall>i<blocks vd. 0 \<le> bam_state vd ! i \<longrightarrow> file_block (bam vd) i = file_block m i"
    and "length m = 256 * blocks vd" "set is \<subseteq> {..<blocks vd}" "is \<noteq> []" "\<forall>i\<in>set is. bam_state vd ! i < 0" "distinct is"
  shows "\<exists>vd'. read_blocks e is err vd = Some (0, vd') \<and> loadable vd' \<and> placed vd' \<and> same_drive vd vd' \<and> vd_image vd' = vd_image vd
    \<and> (\<forall>i<blocks vd. bam_state vd' ! i = (if i \<in> set is then 0 else bam_state vd ! i))
    \<and> (\<forall>i<blocks vd. 0 \<le> bam_state vd' ! i \<longrightarrow> file_block (bam vd') i = file_block m i)"
  using assms
proof (induction "is" arbitrary: vd err)
  case (Cons i "is")
  have i: "i < blocks vd" "bam_state vd ! i < 0" using Cons.prems by simp_all
  have lb: "length (file_block m i) = 256" using Cons.prems(4) i(1) by (simp add: file_block_def)
  have on: "vd_read e vd (fst (bam_place vd i)) (snd (bam_place vd i)) = Some (0, Some (file_block m i))"
    using Cons.prems(2) i by blast
  from load_block [OF Cons.prems(1) i on lb]
  obtain vd1 where r: "vdrive_bam_read_bam_block e i vd = Some (0, vd1)" "loadable vd1" "placed vd1" "same_drive vd vd1"
    "vd_image vd1 = vd_image vd" "bam_state vd1 = (bam_state vd)[i := 0]"
    "\<forall>j<blocks vd. file_block (bam vd1) j = (if j = i then file_block m i else file_block (bam vd) j)" by blast
  have f: "image_format vd1 = image_format vd" using r(4) by (simp add: same_drive_def)
  have len: "i < length (bam_state vd)" using Cons.prems(1) i(1) blocks_less by (simp add: loadable_def)
  have st: "bam_state vd1 ! j = (if j = i then 0 else bam_state vd ! j)" for j using r(6) len by simp
  have good: "\<forall>j<blocks vd. 0 \<le> bam_state vd1 ! j \<longrightarrow> file_block (bam vd1) j = file_block m j"
    using r(7) Cons.prems(3) st by auto
  show ?case
  proof (cases "is = []")
    case True
    then show ?thesis using r good st by (intro exI [of _ vd1]) simp
  next
    case False
    have "\<exists>vd'. read_blocks e is 0 vd1 = Some (0, vd') \<and> loadable vd' \<and> placed vd' \<and> same_drive vd1 vd' \<and> vd_image vd' = vd_image vd1
        \<and> (\<forall>j<blocks vd1. bam_state vd' ! j = (if j \<in> set is then 0 else bam_state vd1 ! j))
        \<and> (\<forall>j<blocks vd1. 0 \<le> bam_state vd' ! j \<longrightarrow> file_block (bam vd') j = file_block m j)"
    proof (rule Cons.IH [OF r(2)])
      have ok: "vd_ok vd" "vd_ok vd1" using Cons.prems(1) r(2) by (simp_all add: loadable_def)
      show "\<forall>j<blocks vd1. bam_state vd1 ! j < 0 \<longrightarrow>
          vd_read e vd1 (fst (bam_place vd1 j)) (snd (bam_place vd1 j)) = Some (0, Some (file_block m j))"
        using Cons.prems(2) st f same_place [OF r(4)] vd_read_image [OF ok(1)] vd_read_image [OF ok(2)] r(5) by simp
      show "\<forall>j<blocks vd1. 0 \<le> bam_state vd1 ! j \<longrightarrow> file_block (bam vd1) j = file_block m j" using good f by simp
      show "length m = 256 * blocks vd1" "set is \<subseteq> {..<blocks vd1}" "is \<noteq> []" "distinct is"
        using Cons.prems f False by simp_all
      show "\<forall>j\<in>set is. bam_state vd1 ! j < 0" using Cons.prems(7,8) st by auto
    qed
    then show ?thesis using r(1,5) f st same_drive_trans [OF r(4)] by auto
  qed
qed simp


lemma blocks_eq:
  assumes "length m = 256 * n" "length m' = 256 * n" "\<forall>j<n. file_block m j = file_block m' j"
  shows "m = m'"
proof (rule nth_equalityI)
  fix k assume k: "k < length m"
  then have "k div 256 < n" using assms(1) by (simp add: div_less_iff_less_mult mult.commute)
  then have "file_block m (k div 256) ! (k mod 256) = file_block m' (k div 256) ! (k mod 256)" using assms(3) by simp
  then show "m ! k = m' ! k" using k assms(1,2) by (simp add: file_block_def)
qed (use assms in simp)

text \<open>Setting up and reading a BAM that is on the disk gives it.\<close>

lemma reread_bam:
  assumes ok: "vd_ok vd" and f: "image_format vd \<in> store_formats" "image_format vd = FORMAT_1571 \<longrightarrow> num_tracks vd = 70"
    and len: "length (bam vd) = 256 * blocks vd" "bam_size vd = 256 * blocks vd" "bam_size vd \<le> length mem"
    and on: "\<forall>i<blocks vd. on_disk e vd i"
  shows "\<exists>vd'. vdrive_bam_read_bam e (vdrive_bam_setup_bam mem vd) = Some (0, vd') \<and> bam vd' = bam vd \<and> same_drive vd vd'"
proof -
  let ?s = "vdrive_bam_setup_bam mem vd"
  note su = setup_loadable [OF ok f len(2,3)]
  have fs: "image_format ?s = image_format vd" "bam_size ?s = bam_size vd" using su(2) by (simp_all add: same_drive_def)
  have sok: "vd_ok ?s" using su(1) by (simp add: loadable_def)
  have neg: "bam_state ?s ! i < 0" if "i < blocks vd" for i using su(3) blocks_less [OF that] by simp
  have n0: "0 < blocks vd" using f(1) by (auto simp: store_formats_def)
  have "\<exists>vd'. read_blocks e [0..<blocks ?s] (-1) ?s = Some (0, vd') \<and> loadable vd' \<and> placed vd' \<and> same_drive ?s vd' \<and> vd_image vd' = vd_image ?s
    \<and> (\<forall>i<blocks ?s. bam_state vd' ! i = (if i \<in> set [0..<blocks ?s] then 0 else bam_state ?s ! i))
    \<and> (\<forall>i<blocks ?s. 0 \<le> bam_state vd' ! i \<longrightarrow> file_block (bam vd') i = file_block (bam vd) i)"
  proof (rule load_blocks [OF su(1)])
    show "\<forall>i<blocks ?s. bam_state ?s ! i < 0 \<longrightarrow>
        vd_read e ?s (fst (bam_place ?s i)) (snd (bam_place ?s i)) = Some (0, Some (file_block (bam vd) i))"
      using on fs same_place [OF su(2)] vd_read_image [OF ok] vd_read_image [OF sok] su(4) by (simp add: on_disk_def)
    show "\<forall>i<blocks ?s. 0 \<le> bam_state ?s ! i \<longrightarrow> file_block (bam ?s) i = file_block (bam vd) i" using neg fs by force
    show "\<forall>i\<in>set [0..<blocks ?s]. bam_state ?s ! i < 0" using neg fs by simp
  qed (use len(1) fs n0 in auto)
  then obtain vd' where r: "read_blocks e [0..<blocks vd] (-1) ?s = Some (0, vd')" "loadable vd'" "same_drive ?s vd'"
    "\<forall>i<blocks vd. bam_state vd' ! i = 0" "\<forall>i<blocks vd. 0 \<le> bam_state vd' ! i \<longrightarrow> file_block (bam vd') i = file_block (bam vd) i"
    using fs by auto
  have f': "image_format vd' = image_format vd" using r(3) fs by (simp add: same_drive_def)
  have "bam vd' = bam vd"
    by (rule blocks_eq [of _ "blocks vd"]) (use r(2,4,5) len(1) f' in \<open>simp_all add: loadable_def\<close>)
  moreover have "vdrive_bam_read_bam e ?s = Some (0, vd')"
    using r(1) f(1) fs len(2) by (auto simp: vdrive_bam_read_bam_def store_formats_def)
  ultimately show ?thesis using same_drive_trans [OF su(2) r(3)] by blast
qed

text \<open>
  C4. What was allocated stays allocated: when the BAM in memory is the one on the disk, then
  after any sequence of allocating, freeing and querying valid sectors, writing the BAM back
  and starting the drive anew with memory of any contents, the BAM that it reads from the disk
  is the changed one, and its free sectors are those that the sequence leaves.
\<close>

theorem bam_persists:
  assumes "bam_on_disk vd" "\<forall>i<blocks vd. on_disk e vd i"
    and "op_sector ` set cs \<subseteq> layout_valid (image_format vd)" "bam_size vd \<le> length mem"
  shows "\<exists>rs vd1 vd2 vd3. bam_run e cs vd = Some (rs, vd1) \<and> vdrive_bam_write_bam e vd1 = Some (0, vd2)
    \<and> vdrive_bam_read_bam e (vdrive_bam_setup_bam mem vd2) = Some (0, vd3)
    \<and> bam vd3 = bam vd1 \<and> bam_spec cs (free_sectors vd) = (rs, free_sectors vd3)"
proof -
  have ok: "bam_ok vd" and f: "image_format vd \<in> store_formats" using assms(1) by (simp_all add: bam_on_disk_def)
  from bam_run_result [OF ok assms(3) marked_self, of e] obtain rs b st where
    run: "bam_run e cs vd = Some (rs, vd\<lparr>bam := b, bam_state := st\<rparr>)" and ok1: "bam_ok (vd\<lparr>bam := b, bam_state := st\<rparr>)"
    and sp: "bam_spec cs (free_sectors vd) = (rs, free_sectors (vd\<lparr>bam := b, bam_state := st\<rparr>))"
    and mk: "marked_since (bam vd) (vd\<lparr>bam := b, bam_state := st\<rparr>)" and lb: "length b = length (bam vd)" by blast
  let ?vd1 = "vd\<lparr>bam := b, bam_state := st\<rparr>"
  have sd1: "same_drive vd ?vd1" by (simp add: same_drive_def vd_valid_def)
  have vok: "vd_ok vd" "vd_ok ?vd1" using assms(1) by (simp_all add: bam_on_disk_def vd_ok_def)
  have rd: "vd_read e ?vd1 t s = vd_read e vd t s" for t s using vd_read_image [OF vok(1)] vd_read_image [OF vok(2)] by simp
  have len: "length (bam vd) = 256 * blocks vd" using ok by (simp add: bam_ok_def bam_loaded_def)
  have on1: "bam_on_disk ?vd1"
    using assms(1) ok1 vok(2) same_place [OF sd1] by (simp add: bam_on_disk_def placed_def vd_valid_def)
  have clean: "\<forall>i<blocks ?vd1. bam_state ?vd1 ! i \<le> 0 \<longrightarrow> on_disk e ?vd1 i"
  proof (intro allI impI)
    fix i assume i: "i < blocks ?vd1" "bam_state ?vd1 ! i \<le> 0"
    have "file_block b i = file_block (bam vd) i"
    proof (rule nth_equalityI)
      fix k assume "k < length (file_block b i)"
      then have k: "k < 256" "256 * i + k < length b" using lb len i(1) by (simp_all add: file_block_def)
      then have "(256 * i + k) div 256 = i" by simp
      then have "b ! (256 * i + k) = bam vd ! (256 * i + k)" using mk k i(2) by (auto simp: marked_since_def)
      then show "file_block b i ! k = file_block (bam vd) i ! k" using k lb by (simp add: file_block_def)
    qed (simp add: file_block_def lb)
    then show "on_disk e ?vd1 i" using assms(2) i(1) rd same_place [OF sd1] by (simp add: on_disk_def)
  qed
  from write_bam_stores [OF on1 clean] obtain vd2 where w: "vdrive_bam_write_bam e ?vd1 = Some (0, vd2)" "same_drive ?vd1 vd2"
    "bam vd2 = b" "vd_ok vd2" "\<forall>i<blocks vd. on_disk e vd2 i" by auto
  have f2: "image_format vd2 = image_format vd" "bam_size vd2 = bam_size vd" "num_tracks vd2 = num_tracks vd"
    using w(2) by (simp_all add: same_drive_def)
  have n: "image_format vd2 = FORMAT_1571 \<longrightarrow> num_tracks vd2 = 70" using assms(1) f2 by (simp add: bam_on_disk_def)
  have bs: "bam_size vd = 256 * blocks vd" using ok by (simp add: bam_ok_def bam_loaded_def)
  from reread_bam [of vd2 mem e] w(3-5) n f f2 lb len bs assms(4)
  obtain vd3 where r: "vdrive_bam_read_bam e (vdrive_bam_setup_bam mem vd2) = Some (0, vd3)" "bam vd3 = b" "same_drive vd2 vd3" by auto
  have "free_sectors vd3 = free_sectors ?vd1" using r(2,3) f2 by (simp add: free_sectors_def same_drive_def)
  then show ?thesis using run w(1) r sp by auto
qed


text \<open>A blank 1541 disk whose BAM has no free sector, loaded.\<close>

definition blank_image :: disk_image where
  "blank_image = \<lparr>fd = Some (replicate (256 * 683) 0), err_map = None, err_len = 0, read_only = 0, device = DEVICE_FS,
     img_type = D64, img_tracks = 35, img_sectors = 0, img_gcr = None\<rparr>"

definition blank_drive :: vdrive where
  "blank_drive = full_bam\<lparr>vd_image := Some blank_image, bam_tracks := 18 # replicate 32 (-1), bam_sectors := 0 # replicate 32 (-1)\<rparr>"

lemma blank_image_ok: "image_ok blank_image"
  by (simp add: image_ok_def blank_image_def image_blocks_def fixed_types_def)

lemma blank_check: "disk_image_check_sector blank_image 18 0 = 357"
proof -
  have "below (type_spt D64) 18 = 357" by (simp add: below_def type_spt_def spt_defs upt_rec)
  then show ?thesis
    using check_layout [of D64 blank_image 18 0]
    by (simp add: blank_image_def fixed_types_def MAX_TRACKS_1541_def type_spt_def spt_defs)
qed

lemma blank_on_disk: "bam_on_disk blank_drive" "\<forall>i<blocks blank_drive. on_disk e blank_drive i"
proof -
  have f: "image_format blank_drive = FORMAT_1541" "vd_image blank_drive = Some blank_image" "bam blank_drive = replicate 256 0"
    by (simp_all add: blank_drive_def full_bam_def)
  have v: "(18, 0) \<in> image_valid blank_image"
    by (simp add: image_valid_def block_of_def blank_check) (simp add: blank_image_def image_blocks_def)
  have ok: "vd_ok blank_drive" using blank_image_ok by (simp add: vd_ok_def f(2)) (simp add: blank_drive_def full_bam_def)
  have l: "bam_ok blank_drive"
    using full_bam_ok by (simp add: bam_ok_def bam_loaded_def blank_drive_def full_bam_def)
  show "bam_on_disk blank_drive"
    using l ok v f
    by (simp add: bam_on_disk_def bam_place_def vd_valid_def store_formats_def placed_def)
      (simp add: blank_drive_def VDRIVE_BAM_MAX_STATES_def)
  have "disk_image_read_sector e blank_image 18 0 = Some (0, Some (replicate 256 0))"
    unfolding read_image [OF blank_image_ok v, of e]
    by (simp add: read_result_def block_error_def block_of_def blank_check) (simp add: blank_image_def file_block_def)
  then show "\<forall>i<blocks blank_drive. on_disk e blank_drive i"
    using vd_read_image [OF ok] f by (simp add: on_disk_def bam_place_def file_block_def)
qed

theorem bam_persists_witness:
  "\<exists>rs vd1 vd2 vd3. bam_run plain_env [Release 17 3, Release 1 0, Allocate 17 3] blank_drive = Some (rs, vd1)
    \<and> vdrive_bam_write_bam plain_env vd1 = Some (0, vd2)
    \<and> vdrive_bam_read_bam plain_env (vdrive_bam_setup_bam (replicate 256 7) vd2) = Some (0, vd3) \<and> free_sectors vd3 = {(1, 0)}"
proof -
  have f: "image_format blank_drive = FORMAT_1541" "free_sectors blank_drive = {}" "bam_size blank_drive = 256"
    using full_bam_free by (simp_all add: blank_drive_def full_bam_def free_sectors_def)
  have "op_sector ` set [Release 17 3, Release 1 0, Allocate 17 3] \<subseteq> layout_valid (image_format blank_drive)"
    by (simp add: f valid_iff spt_defs)
  moreover have "{(1 :: nat, 0 :: nat), (17, 3)} - {(17, 3)} = {(1, 0)}" by auto
  ultimately show ?thesis using bam_persists [OF blank_on_disk, of "[Release 17 3, Release 1 0, Allocate 17 3]" "replicate 256 7" plain_env]
    by (auto simp: f simp del: bam_run.simps)
qed

end
