(* ===== verification/M93c86.thy ===== *)
theory M93c86
  imports Snapshot_Codec
begin

text \<open>
  The serial EEPROM of \<^verbatim>\<open>src/src/core/m93c86.c\<close>: 1024 words of 16 bits behind a chip select, a
  clock, a data input and a data output. The file's static variables are the record
  \<open>m93c86\<close>; C's \<^verbatim>\<open>int\<close> and \<^verbatim>\<open>unsigned int\<close> variables are 32-bit words (none of them is ever
  negative). \<open>None\<close> is an access outside \<^verbatim>\<open>m93c86_data\<close>.
\<close>

section \<open>State\<close>

definition M93C86_SIZE :: nat where "M93C86_SIZE = 2048"

definition CMD00 :: u32 where "CMD00 = 1"
definition CMDWRITE :: u32 where "CMDWRITE = 2"
definition CMDREAD :: u32 where "CMDREAD = 3"
definition CMDERASE :: u32 where "CMDERASE = 4"
definition CMDWEN :: u32 where "CMDWEN = 5"
definition CMDWDS :: u32 where "CMDWDS = 6"
definition CMDERAL :: u32 where "CMDERAL = 7"
definition CMDWRAL :: u32 where "CMDWRAL = 8"
definition CMDREADDUMMY :: u32 where "CMDREADDUMMY = 9"
definition CMDREADDATA :: u32 where "CMDREADDATA = 10"
definition CMDISBUSY :: u32 where "CMDISBUSY = 11"
definition CMDISREADY :: u32 where "CMDISREADY = 12"

definition STATUSREADY :: u32 where "STATUSREADY = 1"
definition STATUSBUSY :: u32 where "STATUSBUSY = 0"

lemmas cmd_defs = CMD00_def CMDWRITE_def CMDREAD_def CMDERASE_def CMDWEN_def CMDWDS_def CMDERAL_def
  CMDWRAL_def CMDREADDUMMY_def CMDREADDATA_def CMDISBUSY_def CMDISREADY_def

lemmas status_defs = STATUSREADY_def STATUSBUSY_def

record m93c86 =
  m93c86_data :: "u8 list"
  eeprom_cs :: u32
  eeprom_clock :: u32
  eeprom_data_in :: u32
  eeprom_data_out :: u32
  input_shiftreg :: u32
  input_count :: u32
  output_shiftreg :: u32
  output_count :: u32
  ee_command :: u32
  ee_addr :: u32
  ee_data0 :: u32
  ee_data1 :: u32
  write_enable_status :: u32
  ready_busy_status :: u32

text \<open>Reading and storing a byte of the array.\<close>

definition ee_get :: "m93c86 \<Rightarrow> u32 \<Rightarrow> u32 option" where
  "ee_get st i = (if unat i < length (m93c86_data st) then Some (ucast (m93c86_data st ! unat i)) else None)"

definition ee_put :: "u32 \<Rightarrow> u32 \<Rightarrow> m93c86 \<Rightarrow> m93c86 option" where
  "ee_put i x st = (if unat i < length (m93c86_data st)
     then Some (st\<lparr>m93c86_data := (m93c86_data st)[unat i := ucast x]\<rparr>) else None)"

section \<open>The pins\<close>

definition reset_input_shiftreg :: "m93c86 \<Rightarrow> m93c86" where
  "reset_input_shiftreg st = st\<lparr>input_shiftreg := 0, input_count := 0\<rparr>"

definition m93c86_read_data :: "m93c86 \<Rightarrow> u8 \<times> m93c86" where
  "m93c86_read_data st =
     (if eeprom_cs st = 1 then
        if ee_command st = CMDISBUSY then (ucast STATUSBUSY, st\<lparr>ee_command := CMDISREADY\<rparr>)
        else if ee_command st = CMDISREADY then
          (ucast STATUSREADY, st\<lparr>ready_busy_status := STATUSREADY, ee_command := 0\<rparr>)
        else (ucast (eeprom_data_out st), st)
      else (0, st))"

definition m93c86_write_data :: "u8 \<Rightarrow> m93c86 \<Rightarrow> m93c86" where
  "m93c86_write_data value st = (if eeprom_cs st = 1 then st\<lparr>eeprom_data_in := ucast value\<rparr> else st)"

definition m93c86_write_select :: "u8 \<Rightarrow> m93c86 \<Rightarrow> m93c86" where
  "m93c86_write_select value st =
     (let st = (if eeprom_cs st = 0 \<and> value = 1 \<and> eeprom_clock st = 0 then reset_input_shiftreg st
                else if eeprom_cs st = 1 \<and> value = 0 then
                  (if ee_command st \<in> {CMDWRITE, CMDWRAL, CMDERAL} then st\<lparr>ee_command := CMDISBUSY\<rparr> else st)
                else st);
          st = st\<lparr>eeprom_cs := ucast value\<rparr>
      in if eeprom_cs st = 0 \<and> ee_command st \<in> {CMDREAD, CMDREADDUMMY, CMDREADDATA}
         then st\<lparr>ee_command := 0\<rparr> else st)"

text \<open>A clock while reading: the first one loads the output register, the others shift it.\<close>

definition clock_read_dummy :: "m93c86 \<Rightarrow> m93c86 option" where
  "clock_read_dummy st = Option.bind (ee_get st (push_bit 1 (ee_addr st))) (\<lambda>out.
     Some (st\<lparr>eeprom_data_out := drop_bit 7 out AND 1, output_shiftreg := push_bit 1 out,
              output_count := 1, ee_command := CMDREADDATA\<rparr>))"

definition clock_read_data :: "m93c86 \<Rightarrow> m93c86 option" where
  "clock_read_data st =
     (let st = st\<lparr>eeprom_data_out := drop_bit 7 (output_shiftreg st) AND 1,
                  output_shiftreg := push_bit 1 (output_shiftreg st),
                  output_count := output_count st + 1\<rparr>
      in if output_count st = 8 then
           Option.bind (ee_get st (push_bit 1 (ee_addr st) + 1)) (\<lambda>out. Some (st\<lparr>output_shiftreg := out\<rparr>))
         else if output_count st = 16 then
           (let st = st\<lparr>ee_addr := (ee_addr st + 1) AND of_nat (M93C86_SIZE div 2 - 1)\<rparr>
            in Option.bind (ee_get st (push_bit 1 (ee_addr st)))
                 (\<lambda>out. Some (st\<lparr>output_shiftreg := out, output_count := 0\<rparr>)))
         else Some st)"

text \<open>The events after 3, 5, 13 and 29 bits.\<close>

definition command_bits3 :: "m93c86 \<Rightarrow> m93c86" where
  "command_bits3 st =
     (if input_shiftreg st = 0x04 then st\<lparr>ee_command := CMD00\<rparr>
      else if input_shiftreg st = 0x05 then st\<lparr>ee_command := CMDWRITE\<rparr>
      else if input_shiftreg st = 0x06 then st\<lparr>ee_command := CMDREAD\<rparr>
      else if input_shiftreg st = 0x07 then st\<lparr>ee_command := CMDERASE\<rparr>
      else st)"

definition command_bits5 :: "m93c86 \<Rightarrow> m93c86" where
  "command_bits5 st =
     (if ee_command st = CMD00 then
        if input_shiftreg st = 0x10 then st\<lparr>ee_command := CMDWDS\<rparr>
        else if input_shiftreg st = 0x11 then st\<lparr>ee_command := CMDWRAL\<rparr>
        else if input_shiftreg st = 0x12 then st\<lparr>ee_command := CMDERAL\<rparr>
        else if input_shiftreg st = 0x13 then st\<lparr>ee_command := CMDWEN, write_enable_status := 1\<rparr>
        else st
      else st)"

definition command_bits13 :: "m93c86 \<Rightarrow> m93c86 option" where
  "command_bits13 st =
     (if ee_command st = CMDREAD then
        Some (reset_input_shiftreg (st\<lparr>ee_command := CMDREADDUMMY, ee_addr := input_shiftreg st AND 0x3ff\<rparr>))
      else if ee_command st = CMDWDS then
        Some ((reset_input_shiftreg (st\<lparr>write_enable_status := 0\<rparr>))\<lparr>ee_command := 0\<rparr>)
      else if ee_command st = CMDWEN then
        Some ((reset_input_shiftreg (st\<lparr>write_enable_status := 1\<rparr>))\<lparr>ee_command := 0\<rparr>)
      else if ee_command st = CMDERASE then
        if write_enable_status st = 0 then Some ((reset_input_shiftreg st)\<lparr>ee_command := 0\<rparr>)
        else
          (let st = reset_input_shiftreg (st\<lparr>ee_addr := input_shiftreg st AND 0x3ff,
                      ready_busy_status := STATUSBUSY\<rparr>)
           in Option.bind (ee_put (push_bit 1 (ee_addr st)) 0xff st)
                (ee_put (push_bit 1 (ee_addr st) + 1) 0xff))
      else if ee_command st = CMDERAL then
        if write_enable_status st = 0 then Some ((reset_input_shiftreg st)\<lparr>ee_command := 0\<rparr>)
        else Some ((reset_input_shiftreg (st\<lparr>ready_busy_status := STATUSBUSY\<rparr>))
                     \<lparr>m93c86_data := replicate M93C86_SIZE 0xff\<rparr>)
      else Some st)"

text \<open>The loop of the write-all command over the addresses from \<open>addr\<close> on.\<close>

fun wral_loop :: "nat \<Rightarrow> m93c86 \<Rightarrow> m93c86 option" where
  "wral_loop 0 st = Some st"
| "wral_loop (Suc n) st =
     Option.bind (ee_put (push_bit 1 (ee_addr st)) (ee_data0 st) st) (\<lambda>st.
     Option.bind (ee_put (push_bit 1 (ee_addr st) + 1) (ee_data1 st) st) (\<lambda>st.
       wral_loop n (st\<lparr>ee_addr := ee_addr st + 1\<rparr>)))"

definition command_bits29 :: "m93c86 \<Rightarrow> m93c86 option" where
  "command_bits29 st =
     (if ee_command st = CMDWRITE then
        if write_enable_status st = 0 then Some ((reset_input_shiftreg st)\<lparr>ee_command := 0\<rparr>)
        else
          (let st = reset_input_shiftreg (st\<lparr>ee_addr := drop_bit 16 (input_shiftreg st) AND 0x3ff,
                      ee_data0 := drop_bit 8 (input_shiftreg st) AND 0xff,
                      ee_data1 := input_shiftreg st AND 0xff, ready_busy_status := STATUSBUSY\<rparr>)
           in Option.bind (ee_put (push_bit 1 (ee_addr st)) (ee_data0 st) st)
                (ee_put (push_bit 1 (ee_addr st) + 1) (ee_data1 st)))
      else if ee_command st = CMDWRAL then
        if write_enable_status st = 0 then Some ((reset_input_shiftreg st)\<lparr>ee_command := 0\<rparr>)
        else
          (let st = reset_input_shiftreg (st\<lparr>ee_data0 := drop_bit 8 (input_shiftreg st) AND 0xff,
                      ee_data1 := input_shiftreg st AND 0xff, ready_busy_status := STATUSBUSY\<rparr>)
           in wral_loop (M93C86_SIZE div 2) (st\<lparr>ee_addr := 0\<rparr>))
      else Some st)"

text \<open>A clock that shifts the data input in, and the event of the new number of bits.\<close>

definition input_event :: "m93c86 \<Rightarrow> m93c86 option" where
  "input_event st =
     (if input_count st = 1 then Some (if eeprom_data_in st = 0 then reset_input_shiftreg st else st)
      else if input_count st = 3 then Some (command_bits3 st)
      else if input_count st = 5 then Some (command_bits5 st)
      else if input_count st = 13 then command_bits13 st
      else if input_count st = 29 then command_bits29 st
      else Some st)"

definition clock_shift_in :: "m93c86 \<Rightarrow> m93c86 option" where
  "clock_shift_in st =
     input_event (st\<lparr>input_shiftreg := push_bit 1 (input_shiftreg st) OR eeprom_data_in st,
                     input_count := input_count st + 1\<rparr>)"

definition m93c86_write_clock :: "u8 \<Rightarrow> m93c86 \<Rightarrow> m93c86 option" where
  "m93c86_write_clock value st =
     map_option (\<lambda>st. st\<lparr>eeprom_clock := ucast value\<rparr>)
       (if eeprom_cs st = 1 \<and> value = 1 \<and> eeprom_clock st = 0 then
          if ee_command st = CMDREADDUMMY then clock_read_dummy st
          else if ee_command st = CMDREADDATA then clock_read_data st
          else clock_shift_in st
        else Some st)"

section \<open>The image file\<close>

text \<open>
  A host file system: the bytes of each file and whether it may be written. The open image
  is its name and the mode it was opened with; \<open>eeprom_file_rw\<close> is the flag of the source.
\<close>

type_synonym host_fs = "string \<Rightarrow> (u8 list \<times> bool) option"

record m93c86_image =
  m93c86_image_file :: "(string \<times> bool) option"
  eeprom_file_rw :: bool

text \<open>\<^verbatim>\<open>fread\<close> of the array from the start of a file, and \<^verbatim>\<open>fwrite\<close> of it there.\<close>

definition fread_data :: "u8 list \<Rightarrow> u8 list \<Rightarrow> u8 list" where
  "fread_data bytes mem = take M93C86_SIZE bytes @ drop (length (take M93C86_SIZE bytes)) mem"

definition fwrite_data :: "string \<times> bool \<Rightarrow> u8 list \<Rightarrow> host_fs \<Rightarrow> bool \<times> host_fs" where
  "fwrite_data h mem fs =
     (case (snd h, fs (fst h)) of
        (True, Some (old, w)) \<Rightarrow> (True, fs(fst h \<mapsto> (mem @ drop (length mem) old, w)))
      | _ \<Rightarrow> (False, fs))"

definition m93c86_set_image_rw :: "bool \<Rightarrow> m93c86_image \<Rightarrow> m93c86_image" where
  "m93c86_set_image_rw rw im = im\<lparr>eeprom_file_rw := rw\<rparr>"

definition m93c86_close_image :: "bool \<Rightarrow> m93c86 \<Rightarrow> m93c86_image \<times> host_fs \<Rightarrow> m93c86_image \<times> host_fs" where
  "m93c86_close_image rw st imfs = (case imfs of (im, fs) \<Rightarrow>
     (case m93c86_image_file im of
        None \<Rightarrow> (im, fs)
      | Some h \<Rightarrow> (im\<lparr>m93c86_image_file := None\<rparr>, if rw then snd (fwrite_data h (m93c86_data st) fs) else fs)))"

text \<open>The two attempts at opening, \<^verbatim>\<open>"rb+"\<close> and \<^verbatim>\<open>"rb"\<close>.\<close>

definition m93c86_open_image :: "string option \<Rightarrow> bool \<Rightarrow> m93c86 \<times> m93c86_image \<times> host_fs
    \<Rightarrow> int \<times> m93c86 \<times> m93c86_image \<times> host_fs" where
  "m93c86_open_image name rw s = (case s of (st, im, fs) \<Rightarrow>
     (let im = im\<lparr>eeprom_file_rw := rw\<rparr>
      in case name of
           None \<Rightarrow> (0, st, im, fs)
         | Some filename \<Rightarrow>
             (let (im, fs) = (if m93c86_image_file im \<noteq> None then m93c86_close_image rw st (im, fs) else (im, fs))
              in case fs filename of
                   None \<Rightarrow> (-1, st, im, fs)
                 | Some (bytes, w) \<Rightarrow>
                     (0, st\<lparr>m93c86_data := fread_data bytes (m93c86_data st)\<rparr>,
                      im\<lparr>m93c86_image_file := Some (filename, rw \<and> w)\<rparr>, fs))))"

definition m93c86_save_image :: "string option \<Rightarrow> m93c86 \<Rightarrow> host_fs \<Rightarrow> int \<times> host_fs" where
  "m93c86_save_image name st fs =
     (case name of
        None \<Rightarrow> (-1, fs)
      | Some filename \<Rightarrow>
          if filename = [] then (-1, fs)
          else (case fs filename of
              Some (_, False) \<Rightarrow> (-1, fs)
            | _ \<Rightarrow> (0, fs(filename \<mapsto> (m93c86_data st, True)))))"

definition m93c86_flush_image :: "m93c86 \<Rightarrow> m93c86_image \<Rightarrow> host_fs \<Rightarrow> int \<times> host_fs" where
  "m93c86_flush_image st im fs =
     (case m93c86_image_file im of
        None \<Rightarrow> (-1, fs)
      | Some h \<Rightarrow>
          if \<not> eeprom_file_rw im then (-1, fs)
          else (case fwrite_data h (m93c86_data st) fs of
              (True, fs) \<Rightarrow> (0, fs)
            | (False, fs) \<Rightarrow> (-1, fs)))"

section \<open>Snapshots\<close>

definition CART_DUMP_VER_MAJOR :: u8 where "CART_DUMP_VER_MAJOR = 0"
definition CART_DUMP_VER_MINOR :: u8 where "CART_DUMP_VER_MINOR = 1"

text \<open>\<^verbatim>\<open>"M93C86"\<close>\<close>

definition m93c86_snap_module_name :: "u8 list" where
  "m93c86_snap_module_name = [0x4d, 0x39, 0x33, 0x43, 0x38, 0x36]"

text \<open>\<^verbatim>\<open>SMW_B\<close> takes a \<^verbatim>\<open>uint8_t\<close>: every variable is cut to its low byte.\<close>

definition m93c86_write_fields :: "m93c86 \<Rightarrow> mstate \<Rightarrow> bool \<times> mstate" where
  "m93c86_write_fields st =
     wseq (snapshot_module_write_byte (ucast (eeprom_cs st)))
    (wseq (snapshot_module_write_byte (ucast (eeprom_clock st)))
    (wseq (snapshot_module_write_byte (ucast (eeprom_data_in st)))
    (wseq (snapshot_module_write_byte (ucast (eeprom_data_out st)))
    (wseq (snapshot_module_write_byte (ucast (input_shiftreg st)))
    (wseq (snapshot_module_write_byte (ucast (input_count st)))
    (wseq (snapshot_module_write_byte (ucast (output_shiftreg st)))
    (wseq (snapshot_module_write_byte (ucast (output_count st)))
    (wseq (snapshot_module_write_byte (ucast (ee_command st)))
    (wseq (snapshot_module_write_byte (ucast (ee_addr st)))
    (wseq (snapshot_module_write_byte (ucast (ee_data0 st)))
    (wseq (snapshot_module_write_byte (ucast (ee_data1 st)))
    (wseq (snapshot_module_write_byte (ucast (write_enable_status st)))
    (wseq (snapshot_module_write_byte (ucast (ready_busy_status st)))
          (snapshot_module_write_byte_array (m93c86_data st)))))))))))))))"

definition m93c86_snapshot_write_module :: "m93c86 \<Rightarrow> sfile \<Rightarrow> bool \<times> sfile" where
  "m93c86_snapshot_write_module st f =
     (case snapshot_module_create m93c86_snap_module_name CART_DUMP_VER_MAJOR CART_DUMP_VER_MINOR f of
        (None, f) \<Rightarrow> (False, f)
      | (Some m, f) \<Rightarrow> (case m93c86_write_fields st (m, f) of
          (ok, s) \<Rightarrow> (ok, snd (snapshot_module_close s))))"

definition m93c86_read_fields :: "m93c86 \<times> mstate \<Rightarrow> bool \<times> m93c86 \<times> mstate" where
  "m93c86_read_fields =
     wseq (smr snapshot_module_read_byte_into_int (\<lambda>x st. st\<lparr>eeprom_cs := x\<rparr>))
    (wseq (smr snapshot_module_read_byte_into_int (\<lambda>x st. st\<lparr>eeprom_clock := x\<rparr>))
    (wseq (smr snapshot_module_read_byte_into_int (\<lambda>x st. st\<lparr>eeprom_data_in := x\<rparr>))
    (wseq (smr snapshot_module_read_byte_into_int (\<lambda>x st. st\<lparr>eeprom_data_out := x\<rparr>))
    (wseq (smr snapshot_module_read_byte_into_int (\<lambda>x st. st\<lparr>input_shiftreg := x\<rparr>))
    (wseq (smr snapshot_module_read_byte_into_int (\<lambda>x st. st\<lparr>input_count := x\<rparr>))
    (wseq (smr snapshot_module_read_byte_into_int (\<lambda>x st. st\<lparr>output_shiftreg := x\<rparr>))
    (wseq (smr snapshot_module_read_byte_into_int (\<lambda>x st. st\<lparr>output_count := x\<rparr>))
    (wseq (smr snapshot_module_read_byte_into_int (\<lambda>x st. st\<lparr>ee_command := x\<rparr>))
    (wseq (smr snapshot_module_read_byte_into_int (\<lambda>x st. st\<lparr>ee_addr := x\<rparr>))
    (wseq (smr snapshot_module_read_byte_into_int (\<lambda>x st. st\<lparr>ee_data0 := x\<rparr>))
    (wseq (smr snapshot_module_read_byte_into_int (\<lambda>x st. st\<lparr>ee_data1 := x\<rparr>))
    (wseq (smr snapshot_module_read_byte_into_int (\<lambda>x st. st\<lparr>write_enable_status := x\<rparr>))
    (wseq (smr snapshot_module_read_byte_into_int (\<lambda>x st. st\<lparr>ready_busy_status := x\<rparr>))
          (smr (snapshot_module_read_byte_array M93C86_SIZE) (\<lambda>x st. st\<lparr>m93c86_data := x\<rparr>)))))))))))))))"

text \<open>\<open>rw\<close> is the value of the resource \<^verbatim>\<open>GMod2EEPROMRW\<close>.\<close>

definition m93c86_snapshot_read_module :: "nat \<Rightarrow> nat \<Rightarrow> bool \<Rightarrow> m93c86 \<Rightarrow> m93c86_image \<times> host_fs \<Rightarrow> sfile
    \<Rightarrow> (bool \<times> m93c86 \<times> (m93c86_image \<times> host_fs) \<times> sfile) option" where
  "m93c86_snapshot_read_module fuel first_module_offset rw st imfs f =
     (case snapshot_module_open fuel first_module_offset m93c86_snap_module_name f of
        None \<Rightarrow> None
      | Some (None, f) \<Rightarrow> Some (False, st, imfs, f)
      | Some (Some (m, vmajor, vminor), f) \<Rightarrow>
          if snapshot_version_is_bigger vmajor vminor CART_DUMP_VER_MAJOR CART_DUMP_VER_MINOR
          then Some (False, st, imfs, snd (snapshot_module_close (m, f)))
          else
            (let imfs = m93c86_close_image rw st imfs;
                 (ok, st, s) = m93c86_read_fields (st, m, f)
             in Some (ok, st, imfs, snd (snapshot_module_close s))))"

end
