(* ===== verification/M93c86_Protocol.thy ===== *)
theory M93c86_Protocol
  imports M93c86
begin

text \<open>
  The serial protocol of the EEPROM: the instructions a program clocks in bit by bit, and the
  memory of 1024 words they act on.
\<close>

section \<open>Drivers\<close>

text \<open>One clock with a bit on the data input, and one that looks at the data output.\<close>

definition send_bit :: "bool \<Rightarrow> m93c86 \<Rightarrow> m93c86 option" where
  "send_bit b st = Option.bind (m93c86_write_clock 1 (m93c86_write_data (of_bool b) st)) (m93c86_write_clock 0)"

fun send_bits :: "bool list \<Rightarrow> m93c86 \<Rightarrow> m93c86 option" where
  "send_bits [] st = Some st"
| "send_bits (b # bs) st = Option.bind (send_bit b st) (send_bits bs)"

definition recv_bit :: "m93c86 \<Rightarrow> (bool \<times> m93c86) option" where
  "recv_bit st = Option.bind (m93c86_write_clock 1 st) (\<lambda>st.
     case m93c86_read_data st of (x, st) \<Rightarrow> map_option (Pair (bit x 0)) (m93c86_write_clock 0 st))"

fun recv_bits :: "nat \<Rightarrow> m93c86 \<Rightarrow> (bool list \<times> m93c86) option" where
  "recv_bits 0 st = Some ([], st)"
| "recv_bits (Suc n) st = Option.bind (recv_bit st) (\<lambda>(b, st).
     map_option (\<lambda>(bs, st). (b # bs, st)) (recv_bits n st))"

lemma send_bits_append: "send_bits (xs @ ys) st = Option.bind (send_bits xs st) (send_bits ys)"
  by (induction xs arbitrary: st) (auto simp: bind_eq_None_conv split: Option.bind_split)

lemma send_bits_single: "send_bits [b] st = send_bit b st"
  by (cases "send_bit b st") simp_all

section \<open>Shifting in\<close>

abbreviation selected :: "m93c86 \<Rightarrow> bool" where
  "selected st \<equiv> eeprom_cs st = 1 \<and> eeprom_clock st = 0 \<and> ee_command st \<notin> {CMDREADDUMMY, CMDREADDATA}"

lemma send_bit_event:
  assumes "selected st"
  shows "send_bit b st = map_option (\<lambda>s. s\<lparr>eeprom_clock := 0\<rparr>)
    (input_event (st\<lparr>eeprom_data_in := of_bool b, input_shiftreg := push_bit 1 (input_shiftreg st) OR of_bool b,
       input_count := input_count st + 1\<rparr>))"
  using assms
  by (cases "input_event (st\<lparr>eeprom_data_in := of_bool b,
        input_shiftreg := push_bit 1 (input_shiftreg st) OR of_bool b, input_count := input_count st + 1\<rparr>)")
    (auto simp: send_bit_def m93c86_write_data_def m93c86_write_clock_def clock_shift_in_def)

text \<open>The numbers of bits at which a command does nothing.\<close>

definition quiet :: "u32 \<Rightarrow> nat \<Rightarrow> bool" where
  "quiet cmd k \<longleftrightarrow> k \<notin> {1, 3} \<and> (k = 5 \<longrightarrow> cmd \<noteq> CMD00)
     \<and> (k = 13 \<longrightarrow> cmd \<notin> {CMDREAD, CMDWDS, CMDWEN, CMDERASE, CMDERAL})
     \<and> (k = 29 \<longrightarrow> cmd \<notin> {CMDWRITE, CMDWRAL})"

lemma quiet_event:
  assumes "quiet (ee_command st) k" "unat (input_count st) = k"
  shows "input_event st = Some st"
proof -
  have "input_count st = c \<longleftrightarrow> k = unat c" for c
    using assms(2) by (auto simp: word_unat_eq_iff)
  then show ?thesis
    using assms(1) by (simp add: input_event_def quiet_def command_bits5_def command_bits13_def command_bits29_def)
qed

lemma quiet_bit:
  assumes "selected st" "quiet (ee_command st) (Suc c)" "input_count st = of_nat c" "c < 99"
  shows "send_bit b st = Some (st\<lparr>eeprom_data_in := of_bool b,
    input_shiftreg := push_bit 1 (input_shiftreg st) OR of_bool b, input_count := of_nat (Suc c), eeprom_clock := 0\<rparr>)"
proof -
  have "unat (of_nat (Suc c) :: u32) = Suc c"
    using assms(4) by (simp only: unat_of_nat) (simp add: take_bit_nat_eq_self)
  then show ?thesis
    using assms by (subst send_bit_event, simp, subst quiet_event [where k = "Suc c"]) (simp_all add: add.commute)
qed

lemma quiet_bits:
  assumes "selected st" "\<And>k. c < k \<Longrightarrow> k \<le> c + n \<Longrightarrow> quiet (ee_command st) k"
    and "input_count st = of_nat c" "c + n < 99"
  shows "\<exists>d. send_bits (msb_first n w) st = Some (st\<lparr>eeprom_data_in := d,
    input_shiftreg := push_bit n (input_shiftreg st) OR take_bit n w, input_count := of_nat (c + n), eeprom_clock := 0\<rparr>)"
  using assms
proof (induction n arbitrary: st c)
  case 0
  have "st = st\<lparr>eeprom_data_in := eeprom_data_in st, input_shiftreg := push_bit 0 (input_shiftreg st) OR take_bit 0 w,
      input_count := of_nat (c + 0), eeprom_clock := 0\<rparr>" using 0(1,3) by simp
  then show ?case by (intro exI [of _ "eeprom_data_in st"]) (simp add: msb_first_def)
next
  case (Suc n)
  let ?st = "st\<lparr>eeprom_data_in := of_bool (bit w n), input_shiftreg := push_bit 1 (input_shiftreg st) OR of_bool (bit w n),
      input_count := of_nat (Suc c), eeprom_clock := 0\<rparr>"
  have "send_bit (bit w n) st = Some ?st"
    using Suc.prems by (intro quiet_bit) auto
  moreover obtain d where "send_bits (msb_first n w) ?st = Some (?st\<lparr>eeprom_data_in := d,
      input_shiftreg := push_bit n (input_shiftreg ?st) OR take_bit n w, input_count := of_nat (Suc c + n), eeprom_clock := 0\<rparr>)"
    using Suc.IH [of ?st "Suc c"] Suc.prems by auto
  moreover have sr: "input_shiftreg ?st = push_bit 1 (input_shiftreg st) OR of_bool (bit w n)" by simp
  have "push_bit n (input_shiftreg ?st) OR take_bit n w
      = push_bit (Suc n) (input_shiftreg st) OR take_bit (Suc n) w"
    unfolding sr by (rule shift_value)
  ultimately have "send_bits (msb_first (Suc n) w) st = Some (?st\<lparr>eeprom_data_in := d,
      input_shiftreg := push_bit (Suc n) (input_shiftreg st) OR take_bit (Suc n) w,
      input_count := of_nat (c + Suc n), eeprom_clock := 0\<rparr>)"
    by (simp only: msb_first_Suc send_bits.simps Option.bind.simps add_Suc add_Suc_right)
  then show ?case by (intro exI [of _ d]) simp
qed

text \<open>Quiet bits up to the one with an event.\<close>

lemma value_then_event:
  assumes "selected st" "\<And>k. c < k \<Longrightarrow> k \<le> c + n \<Longrightarrow> quiet (ee_command st) k"
    and "input_count st = of_nat c" "c + n < 99"
  shows "\<exists>d. send_bits (msb_first (Suc n) w) st = map_option (\<lambda>s. s\<lparr>eeprom_clock := 0\<rparr>)
    (input_event (st\<lparr>eeprom_data_in := d, input_shiftreg := push_bit (Suc n) (input_shiftreg st) OR take_bit (Suc n) w,
       input_count := of_nat (c + Suc n)\<rparr>))"
proof -
  obtain d where d: "send_bits (msb_first n (drop_bit 1 w)) st = Some (st\<lparr>eeprom_data_in := d,
      input_shiftreg := push_bit n (input_shiftreg st) OR take_bit n (drop_bit 1 w),
      input_count := of_nat (c + n), eeprom_clock := 0\<rparr>)"
    using quiet_bits [OF assms] by blast
  note v = shift_last [of n _ w]
  let ?s = "st\<lparr>eeprom_data_in := d, input_shiftreg := push_bit n (input_shiftreg st) OR take_bit n (drop_bit 1 w),
      input_count := of_nat (c + n), eeprom_clock := 0\<rparr>"
  have sr: "input_shiftreg ?s = push_bit n (input_shiftreg st) OR take_bit n (drop_bit 1 w)" by simp
  have "send_bits (msb_first (Suc n) w) st = send_bit (bit w 0) ?s"
    by (simp only: msb_first_split send_bits_append d Option.bind.simps send_bits_single)
  also have "\<dots> = map_option (\<lambda>s. s\<lparr>eeprom_clock := 0\<rparr>) (input_event (?s\<lparr>eeprom_data_in := of_bool (bit w 0),
      input_shiftreg := push_bit (Suc n) (input_shiftreg st) OR take_bit (Suc n) w, input_count := input_count ?s + 1\<rparr>))"
    using assms(1) by (subst send_bit_event) (simp, simp only: sr v)
  also have "?s\<lparr>eeprom_data_in := of_bool (bit w 0),
      input_shiftreg := push_bit (Suc n) (input_shiftreg st) OR take_bit (Suc n) w, input_count := input_count ?s + 1\<rparr>
    = st\<lparr>eeprom_data_in := of_bool (bit w 0),
      input_shiftreg := push_bit (Suc n) (input_shiftreg st) OR take_bit (Suc n) w, input_count := of_nat (c + Suc n)\<rparr>"
    using assms(1) by (cases st) (simp add: add.commute)
  finally show ?thesis by blast
qed

section \<open>Words\<close>

type_synonym u10 = "10 word"

definition data_word :: "u8 list \<Rightarrow> u10 \<Rightarrow> u16" where
  "data_word mem a = push_bit 8 (ucast (mem ! (2 * unat a))) OR ucast (mem ! (2 * unat a + 1))"

abbreviation ee_word :: "m93c86 \<Rightarrow> u10 \<Rightarrow> u16" where
  "ee_word st \<equiv> data_word (m93c86_data st)"

lemma unat_u10: "unat (a :: u10) < 1024"
  using unsigned_less [of a] by simp

lemma unat_ucast_u10: "unat (ucast (a :: u10) :: u32) = unat a"
  using unat_u10 [of a] by (simp add: unsigned_ucast_eq take_bit_nat_eq_self)

lemma byte_index: "unat (ucast (a :: u10) * 2 :: u32) = 2 * unat a"
  "unat (ucast (a :: u10) * 2 + 1 :: u32) = 2 * unat a + 1"
  using unat_u10 [of a] by (simp_all add: unat_word_ariths unat_ucast_u10)

lemma put_word:
  assumes "length (m93c86_data st) = M93C86_SIZE"
  shows "Option.bind (ee_put (push_bit 1 (ucast (a :: u10))) hi st) (ee_put (push_bit 1 (ucast a) + 1) lo)
    = Some (st\<lparr>m93c86_data := (m93c86_data st)[2 * unat a := ucast hi, 2 * unat a + 1 := ucast lo]\<rparr>)"
  using assms unat_u10 [of a] by (simp add: ee_put_def byte_index M93C86_SIZE_def)

lemma word_of_bytes: "push_bit 8 (ucast (ucast (drop_bit 8 w :: u16) :: u8)) OR ucast (ucast w :: u8) = (w :: u16)"
  by (rule bit_word_eqI) (auto simp: bit_simps)

lemma data_word_put:
  assumes "length mem = M93C86_SIZE"
  shows "data_word (mem[2 * unat a := hi, Suc (2 * unat a) := lo])
    = (data_word mem)(a := push_bit 8 (ucast hi) OR ucast lo)"
proof
  fix b :: u10
  have "2 * unat b \<noteq> Suc (2 * unat a)" "Suc (2 * unat b) \<noteq> 2 * unat a" by presburger+
  then show "data_word (mem[2 * unat a := hi, Suc (2 * unat a) := lo]) b
      = ((data_word mem)(a := push_bit 8 (ucast hi) OR ucast lo)) b"
    using assms unat_u10 [of a] unat_u10 [of b]
    by (cases "a = b") (simp_all add: data_word_def M93C86_SIZE_def nth_list_update word_unat_eq_iff)
qed

section \<open>Reading\<close>

text \<open>The chip is about to put out bit \<open>15 - j\<close> of word \<open>a\<close>.\<close>

definition reading :: "m93c86 \<Rightarrow> u10 \<Rightarrow> nat \<Rightarrow> bool" where
  "reading st a j \<longleftrightarrow> eeprom_cs st = 1 \<and> eeprom_clock st = 0 \<and> length (m93c86_data st) = M93C86_SIZE
     \<and> ee_addr st = ucast a \<and> j < 16
     \<and> (if ee_command st = CMDREADDUMMY then j = 0
        else ee_command st = CMDREADDATA \<and> output_count st = of_nat j
          \<and> (\<forall>i < 8 - j mod 8. bit (output_shiftreg st) (7 - i) = bit (ee_word st a) (15 - j - i)))"

lemma ee_word_bit:
  "i < 8 \<Longrightarrow> bit (ee_word st a) i = bit (m93c86_data st ! (2 * unat a + 1)) i"
  "i < 8 \<Longrightarrow> bit (ee_word st a) (8 + i) = bit (m93c86_data st ! (2 * unat a)) i"
  using bit_imp_le_length [of "m93c86_data st ! Suc (2 * unat a)" "8 + i"] by (auto simp: data_word_def bit_simps)

lemma ee_get_word:
  assumes "length (m93c86_data st) = M93C86_SIZE"
  shows "ee_get st (ucast (a :: u10) * 2) = Some (ucast (m93c86_data st ! (2 * unat a)))"
    "ee_get st (ucast (a :: u10) * 2 + 1) = Some (ucast (m93c86_data st ! (2 * unat a + 1)))"
  using assms unat_u10 [of a] by (simp_all add: ee_get_def byte_index M93C86_SIZE_def)

text \<open>What a read leaves alone.\<close>

definition same_memory :: "m93c86 \<Rightarrow> m93c86 \<Rightarrow> bool" where
  "same_memory st st' \<longleftrightarrow> m93c86_data st' = m93c86_data st \<and> write_enable_status st' = write_enable_status st"

lemma same_memory_trans: "same_memory a b \<Longrightarrow> same_memory b c \<Longrightarrow> same_memory a c"
  by (simp add: same_memory_def)

lemma same_memory_word: "same_memory st st' \<Longrightarrow> ee_word st' = ee_word st"
  by (auto simp: same_memory_def data_word_def)

lemma next_addr: "((ucast (a :: u10) + 1) AND of_nat (M93C86_SIZE div 2 - 1) :: u32) = ucast (a + 1)"
proof -
  have "unat ((ucast a + 1) AND mask 10 :: u32) = unat (ucast (a + 1) :: u32)"
    using unat_u10 [of a]
    by (simp only: unat_ucast_u10 flip: take_bit_eq_mask)
      (simp add: unsigned_take_bit_eq unat_word_ariths unat_ucast_u10 take_bit_eq_mod)
  then show ?thesis by (simp add: M93C86_SIZE_def mask_eq_exp_minus_1 word_unat_eq_iff)
qed

lemma recv_bit_clock:
  assumes "eeprom_cs st = 1" "eeprom_clock st = 0"
    and "(if ee_command st = CMDREADDUMMY then clock_read_dummy st else clock_read_data st) = Some s"
    and "ee_command st \<in> {CMDREADDUMMY, CMDREADDATA}" "eeprom_cs s = 1" "ee_command s = CMDREADDATA"
  shows "recv_bit st = Some (bit (eeprom_data_out s) 0, s\<lparr>eeprom_clock := 0\<rparr>)"
proof -
  have "m93c86_write_clock 1 st = Some (s\<lparr>eeprom_clock := 1\<rparr>)"
    using assms(1-4) by (auto simp: m93c86_write_clock_def split: if_splits)
  moreover have "m93c86_read_data (s\<lparr>eeprom_clock := 1\<rparr>) = (ucast (eeprom_data_out s), s\<lparr>eeprom_clock := 1\<rparr>)"
    using assms(5,6) by (simp add: m93c86_read_data_def cmd_defs)
  moreover have "m93c86_write_clock 0 x = Some (x\<lparr>eeprom_clock := 0\<rparr>)" for x
    by (simp add: m93c86_write_clock_def)
  ultimately show ?thesis by (simp add: recv_bit_def bit_simps)
qed

lemma recv_bit_dummy:
  assumes "reading st a j" "ee_command st = CMDREADDUMMY"
  shows "\<exists>st'. recv_bit st = Some (bit (ee_word st a) 15, st') \<and> same_memory st st' \<and> reading st' a 1"
proof -
  let ?hi = "ucast (m93c86_data st ! (2 * unat a)) :: u32"
  let ?s = "st\<lparr>eeprom_data_out := drop_bit 7 ?hi AND 1, output_shiftreg := push_bit 1 ?hi,
      output_count := 1, ee_command := CMDREADDATA\<rparr>"
  have b: "bit (m93c86_data st ! (2 * unat a)) i = bit (ee_word st a) (8 + i)" if "i < 8" for i
    using that ee_word_bit(2) by simp
  have "clock_read_dummy st = Some ?s"
    using assms by (simp add: reading_def clock_read_dummy_def ee_get_word)
  then have "recv_bit st = Some (bit (eeprom_data_out ?s) 0, ?s\<lparr>eeprom_clock := 0\<rparr>)"
    using assms by (intro recv_bit_clock) (simp_all add: reading_def)
  moreover have "bit (eeprom_data_out ?s) 0 = bit (ee_word st a) 15"
    using b [of 7] by (simp add: bit_simps)
  moreover have "bit (push_bit 1 ?hi) (7 - i) = bit (ee_word st a) (14 - i)" if "i < 7" for i
    using that b [of "6 - i"] by (auto simp: bit_simps simp del: push_bit_Suc)
  then have "reading (?s\<lparr>eeprom_clock := 0\<rparr>) a 1"
    using assms by (simp add: reading_def cmd_defs)
  ultimately show ?thesis by (auto simp: same_memory_def)
qed

lemma recv_bit_data:
  assumes r: "reading st a j" and cmd: "ee_command st = CMDREADDATA"
  shows "\<exists>st'. recv_bit st = Some (bit (ee_word st a) (15 - j), st') \<and> same_memory st st'
    \<and> reading st' (if j = 15 then a + 1 else a) (if j = 15 then 0 else Suc j)"
proof -
  let ?mem = "m93c86_data st"
  let ?s = "st\<lparr>eeprom_data_out := drop_bit 7 (output_shiftreg st) AND 1,
      output_shiftreg := push_bit 1 (output_shiftreg st), output_count := of_nat (Suc j)\<rparr>"
  have bits: "bit (output_shiftreg st) (7 - i) = bit (ee_word st a) (15 - j - i)" if "i < 8 - j mod 8" for i
    using r cmd that by (simp add: reading_def cmd_defs)
  have out: "bit (eeprom_data_out ?s) 0 = bit (ee_word st a) (15 - j)"
    using bits [of 0] by (simp add: bit_simps)
  have j: "j < 16" and len: "length ?mem = M93C86_SIZE" and ad: "ee_addr st = ucast a"
    and st: "eeprom_cs st = 1" "eeprom_clock st = 0" "output_count st = of_nat j"
    using r cmd by (simp_all add: reading_def cmd_defs)
  have cnt: "(of_nat (Suc j) = (8 :: u32)) = (j = 7)" "(of_nat (Suc j) = (16 :: u32)) = (j = 15)"
    using j by (simp_all add: word_unat_eq_iff unat_of_nat take_bit_nat_eq_self del: of_nat_Suc)
  have fin: ?thesis if s: "clock_read_data st = Some s" and f: "eeprom_data_out s = eeprom_data_out ?s"
    "same_memory st s" "reading (s\<lparr>eeprom_clock := 0\<rparr>) (if j = 15 then a + 1 else a) (if j = 15 then 0 else Suc j)"
    "ee_command s = CMDREADDATA" for s
  proof -
    have "recv_bit st = Some (bit (eeprom_data_out s) 0, s\<lparr>eeprom_clock := 0\<rparr>)"
      using s st f(3,4) cmd by (intro recv_bit_clock) (simp_all add: reading_def cmd_defs)
    then show ?thesis using f out by (auto simp: same_memory_def)
  qed
  have c: "clock_read_data st =
     (if j = 7 then Option.bind (ee_get ?s (push_bit 1 (ee_addr st) + 1)) (\<lambda>out. Some (?s\<lparr>output_shiftreg := out\<rparr>))
      else if j = 15 then Option.bind (ee_get (?s\<lparr>ee_addr := ucast (a + 1)\<rparr>) (push_bit 1 (ucast (a + 1))))
          (\<lambda>out. Some (?s\<lparr>ee_addr := ucast (a + 1), output_shiftreg := out, output_count := 0\<rparr>))
      else Some ?s)"
    using cnt st(3) next_addr [of a] ad by (simp add: clock_read_data_def Let_def add.commute)
  consider "j = 7" | "j = 15" | "j \<noteq> 7" "j \<noteq> 15" by blast
  then show ?thesis
  proof cases
    case 1
    have "bit (?mem ! (2 * unat a + 1)) i = bit (ee_word st a) i" if "i < 8" for i
      using that ee_word_bit(1) by simp
    with 1 show ?thesis
      using c ee_get_word(2) [of ?s a] len ad st cmd
      by (intro fin [of "?s\<lparr>output_shiftreg := ucast (?mem ! (2 * unat a + 1))\<rparr>"])
        (auto simp: same_memory_def reading_def cmd_defs bit_simps)
  next
    case 2
    have "bit (?mem ! (2 * unat (a + 1))) i = bit (ee_word st (a + 1)) (8 + i)" if "i < 8" for i
      using that ee_word_bit(2) by simp
    from this [of "7 - i" for i] 2 show ?thesis
      using c ee_get_word(1) [of "?s\<lparr>ee_addr := ucast (a + 1)\<rparr>" "a + 1"] len ad st cmd
      by (intro fin [of "?s\<lparr>ee_addr := ucast (a + 1), output_shiftreg := ucast (?mem ! (2 * unat (a + 1))),
            output_count := 0\<rparr>"])
        (auto simp: same_memory_def reading_def cmd_defs bit_simps)
  next
    case 3
    have m: "Suc j mod 8 = Suc (j mod 8)" using 3 j by (simp add: mod_Suc) presburger
    have "bit (push_bit 1 (output_shiftreg st)) (7 - i) = bit (ee_word st a) (15 - Suc j - i)"
      if "i < 8 - Suc j mod 8" for i
      using bits [of "Suc i"] that m by (auto simp: bit_simps Suc_diff_Suc simp del: push_bit_Suc)
    with 3 show ?thesis
      using c len ad st cmd j m by (intro fin [of ?s]) (simp_all add: same_memory_def reading_def cmd_defs)
  qed
qed

lemma recv_bit_reading:
  assumes "reading st a j"
  shows "\<exists>st'. recv_bit st = Some (bit (ee_word st a) (15 - j), st') \<and> same_memory st st'
    \<and> reading st' (if j = 15 then a + 1 else a) (if j = 15 then 0 else Suc j)"
proof (cases "ee_command st = CMDREADDUMMY")
  case True
  then have "j = 0" using assms by (simp add: reading_def)
  then show ?thesis using recv_bit_dummy [OF assms True] by simp
next
  case False
  then show ?thesis using recv_bit_data [OF assms] assms by (simp add: reading_def)
qed

lemma recv_bits_append:
  "recv_bits (m + n) st = Option.bind (recv_bits m st) (\<lambda>(xs, st). map_option (\<lambda>(ys, st). (xs @ ys, st)) (recv_bits n st))"
  by (induction m arbitrary: st)
    (auto simp: option.map_comp option.map_id split: Option.bind_split prod.splits intro!: option.map_cong)

lemma recv_rest_of_word:
  assumes "reading st a j" "j + n = 15"
  shows "\<exists>st'. recv_bits (Suc n) st = Some (map (\<lambda>i. bit (ee_word st a) (15 - i)) [j..<16], st')
    \<and> same_memory st st' \<and> reading st' (a + 1) 0"
  using assms
proof (induction n arbitrary: st j)
  case 0
  then show ?case using recv_bit_reading [OF 0(1)] by auto
next
  case (Suc n)
  obtain st1 where 1: "recv_bit st = Some (bit (ee_word st a) (15 - j), st1)" "same_memory st st1" "reading st1 a (Suc j)"
    using recv_bit_reading [OF Suc.prems(1)] Suc.prems(2) by auto
  obtain st2 where 2: "recv_bits (Suc n) st1 = Some (map (\<lambda>i. bit (ee_word st1 a) (15 - i)) [Suc j..<16], st2)"
    "same_memory st1 st2" "reading st2 (a + 1) 0"
    using Suc.IH [OF 1(3)] Suc.prems(2) by auto
  have "j < 16" using Suc.prems(2) by simp
  then have "[j..<16] = j # [Suc j..<16]" by (rule upt_conv_Cons)
  then have "recv_bits (Suc (Suc n)) st = Some (map (\<lambda>i. bit (ee_word st a) (15 - i)) [j..<16], st2)"
    by (subst recv_bits.simps) (simp only: 1(1) 2(1) same_memory_word [OF 1(2)] Option.bind.simps prod.case option.map list.map)
  then show ?case using 2(3) same_memory_trans [OF 1(2) 2(2)] by blast
qed

definition word_bits :: "u16 \<Rightarrow> bool list" where
  "word_bits w = msb_first 16 (ucast w)"

lemma word_bits_eq: "word_bits w = map (\<lambda>i. bit w (15 - i)) [0..<16]"
  by (rule nth_equalityI) (auto simp: word_bits_def msb_first_def rev_nth bit_simps simp del: upt_rec_numeral)

lemma recv_words:
  assumes "reading st a 0"
  shows "\<exists>st'. recv_bits (16 * n) st = Some (concat (map (\<lambda>i. word_bits (ee_word st (a + of_nat i))) [0..<n]), st')
    \<and> same_memory st st' \<and> reading st' (a + of_nat n) 0"
  using assms
proof (induction n)
  case 0
  then show ?case by (auto simp: same_memory_def)
next
  case (Suc n)
  then obtain st1 where 1: "recv_bits (16 * n) st = Some (concat (map (\<lambda>i. word_bits (ee_word st (a + of_nat i))) [0..<n]), st1)"
    "same_memory st st1" "reading st1 (a + of_nat n) 0" by blast
  obtain st2 where 2: "recv_bits 16 st1 = Some (word_bits (ee_word st1 (a + of_nat n)), st2)"
    "same_memory st1 st2" "reading st2 (a + of_nat n + 1) 0"
    using recv_rest_of_word [OF 1(3), of 15] by (auto simp: word_bits_eq numeral_eq_Suc simp del: upt_rec_numeral)
  have "16 * Suc n = 16 * n + 16" by simp
  then show ?case
    using 1 2 same_memory_trans [OF 1(2) 2(2)] same_memory_word [OF 1(2)]
    by (simp only: recv_bits_append) (auto simp: algebra_simps)
qed

end
