(* ===== verification/M93c86_Memory.thy ===== *)
theory M93c86_Memory
  imports M93c86_Protocol
begin

text \<open>
  The instructions of the EEPROM as operations on a memory of 1024 words: a sequence of
  instructions, clocked in bit by bit, has the effect and the output of the same sequence
  on the abstract memory.
\<close>

section \<open>Instructions\<close>

datatype ee_op =
    Op_read u10 nat
  | Op_write u10 u16
  | Op_erase u10
  | Op_eral
  | Op_wral u16
  | Op_wen
  | Op_wds

text \<open>The start bit, the command, the address and the data; bits that do not matter are 0.\<close>

fun op_bits :: "ee_op \<Rightarrow> bool list" where
  "op_bits (Op_read a n) = [True, True, False] @ msb_first 10 (ucast a)"
| "op_bits (Op_write a w) = [True, False, True] @ msb_first 10 (ucast a) @ word_bits w"
| "op_bits (Op_erase a) = [True, True, True] @ msb_first 10 (ucast a)"
| "op_bits Op_eral = [True, False, False] @ [True, False] @ msb_first 8 0"
| "op_bits (Op_wral w) = [True, False, False] @ [False, True] @ msb_first 8 0 @ word_bits w"
| "op_bits Op_wen = [True, False, False] @ [True, True] @ msb_first 8 0"
| "op_bits Op_wds = [True, False, False] @ [False, False] @ msb_first 8 0"

fun op_words :: "ee_op \<Rightarrow> nat" where
  "op_words (Op_read a n) = n"
| "op_words _ = 0"

text \<open>Select, clock the instruction in, clock the answer out, deselect.\<close>

definition run_op :: "ee_op \<Rightarrow> m93c86 \<Rightarrow> (bool list \<times> m93c86) option" where
  "run_op i st =
     Option.bind (send_bits (op_bits i) (m93c86_write_select 1 st)) (\<lambda>st.
     map_option (\<lambda>(out, st). (out, m93c86_write_select 0 st)) (recv_bits (16 * op_words i) st))"

fun run_ops :: "ee_op list \<Rightarrow> m93c86 \<Rightarrow> (bool list list \<times> m93c86) option" where
  "run_ops [] st = Some ([], st)"
| "run_ops (i # is) st = Option.bind (run_op i st) (\<lambda>(out, st).
     map_option (\<lambda>(outs, st). (out # outs, st)) (run_ops is st))"

text \<open>The abstract memory: its words, and whether writing is enabled.\<close>

type_synonym ee_mem = "(u10 \<Rightarrow> u16) \<times> bool"

fun spec_op :: "ee_op \<Rightarrow> ee_mem \<Rightarrow> bool list \<times> ee_mem" where
  "spec_op (Op_read a n) (m, we) = (concat (map (\<lambda>i. word_bits (m (a + of_nat i))) [0..<n]), m, we)"
| "spec_op (Op_write a w) (m, we) = ([], if we then m(a := w) else m, we)"
| "spec_op (Op_erase a) (m, we) = ([], if we then m(a := 0xffff) else m, we)"
| "spec_op Op_eral (m, we) = ([], if we then \<lambda>_. 0xffff else m, we)"
| "spec_op (Op_wral w) (m, we) = ([], if we then \<lambda>_. w else m, we)"
| "spec_op Op_wen (m, we) = ([], m, True)"
| "spec_op Op_wds (m, we) = ([], m, False)"

fun spec_ops :: "ee_op list \<Rightarrow> ee_mem \<Rightarrow> bool list list \<times> ee_mem" where
  "spec_ops [] mem = ([], mem)"
| "spec_ops (i # is) mem =
     (let (out, mem) = spec_op i mem; (outs, mem) = spec_ops is mem in (out # outs, mem))"

definition ee_mem_of :: "m93c86 \<Rightarrow> ee_mem" where
  "ee_mem_of st = (ee_word st, write_enable_status st \<noteq> 0)"

text \<open>The chip between two instructions.\<close>

definition idle :: "m93c86 \<Rightarrow> bool" where
  "idle st \<longleftrightarrow> eeprom_cs st = 0 \<and> eeprom_clock st = 0 \<and> length (m93c86_data st) = M93C86_SIZE
     \<and> ee_command st \<notin> {CMDREADDUMMY, CMDREADDATA}"

section \<open>Commands\<close>

definition opcode :: "bool \<Rightarrow> bool \<Rightarrow> u32" where
  "opcode b1 b0 = (if b1 then if b0 then CMDERASE else CMDREAD else if b0 then CMDWRITE else CMD00)"

definition opcode00 :: "bool \<Rightarrow> bool \<Rightarrow> u32" where
  "opcode00 c1 c0 = (if c1 then if c0 then CMDWEN else CMDERAL else if c0 then CMDWRAL else CMDWDS)"

abbreviation receiving :: "m93c86 \<Rightarrow> u32 \<Rightarrow> u32 \<Rightarrow> nat \<Rightarrow> m93c86 \<Rightarrow> bool" where
  "receiving st cmd reg n s \<equiv> selected s \<and> ee_command s = cmd \<and> input_shiftreg s = reg
     \<and> input_count s = of_nat n \<and> m93c86_data s = m93c86_data st"

lemma three_bits:
  assumes "idle st"
  shows "\<exists>s. send_bits [True, b1, b0] (m93c86_write_select 1 st) = Some s
    \<and> receiving st (opcode b1 b0) (4 + 2 * of_bool b1 + of_bool b0) 3 s
    \<and> write_enable_status s = write_enable_status st"
  using assms
  by (cases b1; cases b0)
    (simp_all add: idle_def m93c86_write_select_def reset_input_shiftreg_def send_bit_event input_event_def
      command_bits3_def opcode_def, simp_all add: cmd_defs)

lemma two_bits:
  assumes "receiving st CMD00 4 3 s"
  shows "\<exists>s'. send_bits [c1, c0] s = Some s'
    \<and> receiving st (opcode00 c1 c0) (16 + 2 * of_bool c1 + of_bool c0) 5 s'
    \<and> write_enable_status s' = (if c1 \<and> c0 then 1 else write_enable_status s)"
  using assms
  by (cases c1; cases c0)
    (simp_all add: send_bit_event input_event_def command_bits5_def opcode00_def, simp_all add: cmd_defs)

text \<open>The fields of a full shift register.\<close>

lemma reg_address: "((push_bit 10 r OR take_bit 10 (ucast (a :: u10))) AND 0x3ff :: u32) = ucast a"
proof -
  have m: "(0x3ff :: u32) = mask 10" by (simp add: mask_eq_exp_minus_1)
  show ?thesis unfolding m by (rule bit_word_eqI) (auto simp: bit_simps dest: bit_imp_le_length)
qed

lemma reg_data:
  "(ucast (drop_bit 8 (push_bit 16 r OR take_bit 16 (ucast (w :: u16)) :: u32) AND 0xff) :: u8) = ucast (drop_bit 8 w)"
  "(ucast ((push_bit 16 r OR take_bit 16 (ucast (w :: u16)) :: u32) AND 0xff) :: u8) = ucast w"
  "drop_bit 16 (push_bit 16 r OR take_bit 16 (ucast (w :: u16)) :: u32) AND 0x3ff = r AND (0x3ff :: u32)"
proof -
  have m: "(0xff :: u32) = mask 8" "(0x3ff :: u32) = mask 10" by (simp_all add: mask_eq_exp_minus_1)
  show "(ucast (drop_bit 8 (push_bit 16 r OR take_bit 16 (ucast (w :: u16)) :: u32) AND 0xff) :: u8) = ucast (drop_bit 8 w)"
    "(ucast ((push_bit 16 r OR take_bit 16 (ucast (w :: u16)) :: u32) AND 0xff) :: u8) = ucast w"
    unfolding m by (rule bit_word_eqI, auto simp: bit_simps)+
  show "drop_bit 16 (push_bit 16 r OR take_bit 16 (ucast (w :: u16)) :: u32) AND 0x3ff = r AND (0x3ff :: u32)"
    unfolding m by (rule bit_word_eqI) (auto simp: bit_simps)
qed

text \<open>The chip has executed an instruction and is still selected.\<close>

fun after_command :: "ee_op \<Rightarrow> bool \<Rightarrow> u32" where
  "after_command (Op_read a n) we = CMDREADDUMMY"
| "after_command (Op_write a w) we = (if we then CMDWRITE else 0)"
| "after_command (Op_erase a) we = (if we then CMDERASE else 0)"
| "after_command Op_eral we = (if we then CMDERAL else 0)"
| "after_command (Op_wral w) we = (if we then CMDWRAL else 0)"
| "after_command Op_wen we = 0"
| "after_command Op_wds we = 0"

definition executed :: "ee_op \<Rightarrow> m93c86 \<Rightarrow> m93c86 \<Rightarrow> bool" where
  "executed i st s \<longleftrightarrow> eeprom_cs s = 1 \<and> eeprom_clock s = 0 \<and> length (m93c86_data s) = M93C86_SIZE
     \<and> ee_mem_of s = snd (spec_op i (ee_mem_of st)) \<and> ee_command s = after_command i (write_enable_status st \<noteq> 0)"

lemma count_numerals: "(of_nat (3 + Suc 9) :: u32) = 13" "(of_nat (5 + Suc 7) :: u32) = 13" "(of_nat (13 + Suc 15) :: u32) = 29"
  "3 + 10 = (13 :: nat)" "5 + 8 = (13 :: nat)" "Suc 9 = 10" "Suc 7 = 8" "Suc 15 = 16"
  by simp_all

lemma bits10:
  assumes "receiving st cmd reg 3 s" "cmd \<noteq> CMD00"
  shows "\<exists>d. send_bits (msb_first 10 w) s = map_option (\<lambda>s. s\<lparr>eeprom_clock := 0\<rparr>)
    (input_event (s\<lparr>eeprom_data_in := d, input_shiftreg := push_bit 10 reg OR take_bit 10 w, input_count := 13\<rparr>))"
proof -
  have "selected s" "input_count s = of_nat 3" using assms by auto
  from value_then_event [OF this(1) _ this(2), of 9 w] show ?thesis
    using assms unfolding count_numerals by (fastforce simp: quiet_def)
qed

lemma executed_read:
  assumes "idle st"
  shows "\<exists>s. send_bits (op_bits (Op_read a n)) (m93c86_write_select 1 st) = Some s \<and> executed (Op_read a n) st s \<and> reading s a 0"
proof -
  obtain s where s: "send_bits [True, True, False] (m93c86_write_select 1 st) = Some s"
    "receiving st CMDREAD 6 3 s" "write_enable_status s = write_enable_status st"
    using three_bits [OF assms, of True False] by (auto simp: opcode_def)
  obtain d where "send_bits (msb_first 10 (ucast a)) s = map_option (\<lambda>s. s\<lparr>eeprom_clock := 0\<rparr>)
    (input_event (s\<lparr>eeprom_data_in := d, input_shiftreg := push_bit 10 6 OR take_bit 10 (ucast a), input_count := 13\<rparr>))"
    using bits10 [OF s(2)] by (auto simp: cmd_defs)
  then show ?thesis
    using s reg_address [of 6 a] assms
    by (simp only: op_bits.simps send_bits_append Option.bind.simps)
      (simp add: input_event_def command_bits13_def reset_input_shiftreg_def executed_def reading_def ee_mem_of_def idle_def)
qed

lemma executed_erase:
  assumes "idle st"
  shows "\<exists>s. send_bits (op_bits (Op_erase a)) (m93c86_write_select 1 st) = Some s \<and> executed (Op_erase a) st s"
proof -
  obtain s where s: "send_bits [True, True, True] (m93c86_write_select 1 st) = Some s"
    "receiving st CMDERASE 7 3 s" "write_enable_status s = write_enable_status st"
    using three_bits [OF assms, of True True] by (auto simp: opcode_def)
  obtain d where e: "send_bits (msb_first 10 (ucast a)) s = map_option (\<lambda>s. s\<lparr>eeprom_clock := 0\<rparr>)
    (input_event (s\<lparr>eeprom_data_in := d, input_shiftreg := push_bit 10 7 OR take_bit 10 (ucast a), input_count := 13\<rparr>))"
    using bits10 [OF s(2)] by (auto simp: cmd_defs)
  let ?t = "s\<lparr>eeprom_data_in := d, ee_addr := ucast a, ready_busy_status := STATUSBUSY, input_shiftreg := 0, input_count := 0\<rparr>"
  have len: "length (m93c86_data ?t) = M93C86_SIZE" using s(2) assms by (simp add: idle_def)
  have "data_word ((m93c86_data st)[2 * unat a := 255, Suc (2 * unat a) := 255]) = (ee_word st)(a := 0xffff)"
    using data_word_put [of "m93c86_data st" a 255 255] len s(2) by simp
  then show ?thesis
    using s e reg_address [of 7 a] put_word [OF len, of a 255 255] len assms
    by (simp only: op_bits.simps send_bits_append Option.bind.simps)
      (simp add: input_event_def command_bits13_def reset_input_shiftreg_def executed_def ee_mem_of_def cmd_defs)
qed

lemma executed_write:
  assumes "idle st"
  shows "\<exists>s. send_bits (op_bits (Op_write a w)) (m93c86_write_select 1 st) = Some s \<and> executed (Op_write a w) st s"
proof -
  obtain s where s: "send_bits [True, False, True] (m93c86_write_select 1 st) = Some s"
    "receiving st CMDWRITE 5 3 s" "write_enable_status s = write_enable_status st"
    using three_bits [OF assms, of False True] by (auto simp: opcode_def)
  have sel: "selected s" "input_count s = of_nat 3" using s(2) by auto
  let ?r = "push_bit 10 5 OR take_bit 10 (ucast a) :: u32"
  obtain s1 where s1: "send_bits (msb_first 10 (ucast a)) s = Some s1" "receiving st CMDWRITE ?r 13 s1"
    "write_enable_status s1 = write_enable_status st"
    using quiet_bits [OF sel(1) _ sel(2), of 10 "ucast a"] s(2,3) by (auto simp: quiet_def cmd_defs)
  have sel1: "selected s1" "input_count s1 = of_nat 13" using s1(2) by auto
  obtain d where e: "send_bits (word_bits w) s1 = map_option (\<lambda>s. s\<lparr>eeprom_clock := 0\<rparr>)
      (input_event (s1\<lparr>eeprom_data_in := d, input_shiftreg := push_bit 16 ?r OR take_bit 16 (ucast w), input_count := 29\<rparr>))"
    using value_then_event [OF sel1(1) _ sel1(2), of 15 "ucast w"] s1(2) unfolding count_numerals word_bits_def
    by (fastforce simp: quiet_def)
  let ?X = "push_bit 16 ?r OR take_bit 16 (ucast w) :: u32"
  let ?t = "s1\<lparr>eeprom_data_in := d, ee_addr := ucast a, ee_data0 := drop_bit 8 ?X AND 0xff,
      ee_data1 := ?X AND 0xff, ready_busy_status := STATUSBUSY, input_shiftreg := 0, input_count := 0\<rparr>"
  have len: "length (m93c86_data ?t) = M93C86_SIZE" using s1(2) assms by (simp add: idle_def)
  have w: "data_word ((m93c86_data st)[2 * unat a := ucast (drop_bit 8 w), Suc (2 * unat a) := ucast w]) = (ee_word st)(a := w)"
    using data_word_put [of "m93c86_data st" a "ucast (drop_bit 8 w)" "ucast w"] len s1(2)
    by (simp add: word_of_bytes)
  have ad: "drop_bit 16 ?X AND 0x3ff = ucast a"
    using reg_data(3) [of ?r w] reg_address [of 5 a] by simp
  show ?thesis
    using s s1 e w ad put_word [OF len, of a "ee_data0 ?t" "ee_data1 ?t"] len assms reg_data(1,2) [of ?r w]
    by (simp only: op_bits.simps send_bits_append Option.bind.simps)
      (simp add: input_event_def command_bits29_def reset_input_shiftreg_def executed_def ee_mem_of_def)
qed

text \<open>The instructions with five command bits.\<close>

lemma five_bits:
  assumes "idle st"
  shows "\<exists>s. send_bits ([True, False, False] @ [c1, c0]) (m93c86_write_select 1 st) = Some s
    \<and> receiving st (opcode00 c1 c0) (16 + 2 * of_bool c1 + of_bool c0) 5 s
    \<and> write_enable_status s = (if c1 \<and> c0 then 1 else write_enable_status st)"
proof -
  obtain s where s: "send_bits [True, False, False] (m93c86_write_select 1 st) = Some s"
    "receiving st CMD00 4 3 s" "write_enable_status s = write_enable_status st"
    using three_bits [OF assms, of False False] by (auto simp: opcode_def)
  show ?thesis using two_bits [OF s(2), of c1 c0] s(3) by (simp only: send_bits_append s(1) Option.bind.simps)
qed

lemma bits8:
  assumes "receiving st cmd reg 5 s"
  shows "\<exists>d r. send_bits (msb_first 8 w) s = map_option (\<lambda>s. s\<lparr>eeprom_clock := 0\<rparr>)
    (input_event (s\<lparr>eeprom_data_in := d, input_shiftreg := r, input_count := 13\<rparr>))"
proof -
  have "selected s" "input_count s = of_nat 5" using assms by auto
  from value_then_event [OF this(1) _ this(2), of 7 w] show ?thesis
    unfolding count_numerals by (fastforce simp: quiet_def)
qed

lemma data_word_replicate: "data_word (replicate M93C86_SIZE 0xff) = (\<lambda>_. 0xffff)"
proof
  fix a :: u10
  show "data_word (replicate M93C86_SIZE 0xff) a = 0xffff"
    using unat_u10 [of a] by (simp add: data_word_def M93C86_SIZE_def)
qed

lemma executed_eral:
  assumes "idle st"
  shows "\<exists>s. send_bits (op_bits Op_eral) (m93c86_write_select 1 st) = Some s \<and> executed Op_eral st s"
proof -
  obtain s where s: "send_bits ([True, False, False] @ [True, False]) (m93c86_write_select 1 st) = Some s"
    "receiving st CMDERAL 18 5 s" "write_enable_status s = write_enable_status st"
    using five_bits [OF assms, of True False] by (auto simp: opcode00_def)
  show ?thesis using bits8 [OF s(2), of 0] s(2,3) assms
    by (simp only: op_bits.simps append_assoc [symmetric] send_bits_append [of _ "msb_first 8 0"] s(1) Option.bind.simps)
      (auto simp: input_event_def command_bits13_def reset_input_shiftreg_def executed_def ee_mem_of_def cmd_defs
        data_word_replicate idle_def)
qed

lemma executed_wen_wds:
  assumes "idle st" "i = Op_wen \<and> c = True \<or> i = Op_wds \<and> c = False"
  shows "\<exists>s. send_bits (op_bits i) (m93c86_write_select 1 st) = Some s \<and> executed i st s"
proof -
  obtain s where s: "send_bits ([True, False, False] @ [c, c]) (m93c86_write_select 1 st) = Some s"
    "receiving st (opcode00 c c) (16 + 2 * of_bool c + of_bool c) 5 s"
    using five_bits [OF assms(1), of c c] by auto
  have op: "op_bits i = ([True, False, False] @ [c, c]) @ msb_first 8 0" using assms(2) by auto
  show ?thesis using bits8 [OF s(2), of 0] s(2) assms
    by (simp only: op send_bits_append [of _ "msb_first 8 0"] s(1) Option.bind.simps)
      (auto simp: input_event_def command_bits13_def reset_input_shiftreg_def executed_def ee_mem_of_def cmd_defs
        opcode00_def idle_def)
qed

lemma wral_loop_words:
  assumes "length (m93c86_data st) = M93C86_SIZE" "n \<le> 1024" "ee_addr st = of_nat (1024 - n)"
  shows "\<exists>mem x. wral_loop n st = Some (st\<lparr>m93c86_data := mem, ee_addr := x\<rparr>) \<and> length mem = M93C86_SIZE
    \<and> data_word mem = (\<lambda>a. if 1024 - n \<le> unat a
        then push_bit 8 (ucast (ucast (ee_data0 st) :: u8)) OR ucast (ucast (ee_data1 st) :: u8) else ee_word st a)"
  using assms
proof (induction n arbitrary: st)
  case 0
  then have "\<not> 1024 \<le> unat a" for a :: u10 using unat_u10 [of a] by simp
  then show ?case using 0 by (intro exI [of _ "m93c86_data st"] exI [of _ "ee_addr st"]) simp
next
  case (Suc n)
  define a where "a = (of_nat (1024 - Suc n) :: u10)"
  define W :: u16 where "W = push_bit 8 (ucast (ucast (ee_data0 st) :: u8)) OR ucast (ucast (ee_data1 st) :: u8)"
  have ua: "unat a = 1024 - Suc n" unfolding a_def by (simp only: unat_of_nat) (simp add: take_bit_nat_eq_self)
  have ad: "ee_addr st = ucast a" using Suc.prems(3) ua unat_ucast_u10 [of a]
    by (simp only: word_unat_eq_iff) (simp only: unat_of_nat, simp add: take_bit_nat_eq_self)
  let ?mem = "(m93c86_data st)[2 * unat a := ucast (ee_data0 st), Suc (2 * unat a) := ucast (ee_data1 st)]"
  let ?s = "st\<lparr>m93c86_data := ?mem, ee_addr := ee_addr st + 1\<rparr>"
  have nxt: "ee_addr ?s = of_nat (1024 - n)" using Suc.prems(2,3)
    by (simp add: Suc_diff_Suc flip: of_nat_Suc)
  obtain mem x where loop: "wral_loop n ?s = Some (?s\<lparr>m93c86_data := mem, ee_addr := x\<rparr>)" "length mem = M93C86_SIZE"
    and w: "data_word mem = (\<lambda>a. if 1024 - n \<le> unat a then W else ee_word ?s a)"
    using Suc.IH [OF _ _ nxt] Suc.prems(1,2) by (fastforce simp: W_def)
  have "wral_loop (Suc n) st = wral_loop n ?s"
    using put_word [OF Suc.prems(1), of a "ee_data0 st" "ee_data1 st"] ad
    by (auto simp: ee_put_def bind_eq_Some_conv split: if_splits)
  moreover have "data_word mem = (\<lambda>a. if 1024 - Suc n \<le> unat a then W else ee_word st a)"
  proof
    fix b :: u10
    have "b = a \<longleftrightarrow> unat b = 1024 - Suc n" using ua by (simp only: word_unat_eq_iff)
    then show "data_word mem b = (if 1024 - Suc n \<le> unat b then W else ee_word st b)"
      using data_word_put [OF Suc.prems(1), of a] Suc.prems(2) by (auto simp: w W_def)
  qed
  ultimately show ?case using loop unfolding W_def [symmetric] by (intro exI [of _ mem] exI [of _ x]) simp
qed

lemma executed_wral:
  assumes "idle st"
  shows "\<exists>s. send_bits (op_bits (Op_wral w)) (m93c86_write_select 1 st) = Some s \<and> executed (Op_wral w) st s"
proof -
  obtain s where s: "send_bits ([True, False, False] @ [False, True]) (m93c86_write_select 1 st) = Some s"
    "receiving st CMDWRAL 17 5 s" "write_enable_status s = write_enable_status st"
    using five_bits [OF assms, of False True] by (auto simp: opcode00_def)
  have sel: "selected s" "input_count s = of_nat 5" using s(2) by auto
  obtain s1 r where s1: "send_bits (msb_first 8 0) s = Some s1" "receiving st CMDWRAL r 13 s1"
    "write_enable_status s1 = write_enable_status st"
    using quiet_bits [OF sel(1) _ sel(2), of 8 0] s(2,3) by (auto simp: quiet_def cmd_defs)
  have sel1: "selected s1" "input_count s1 = of_nat 13" using s1(2) by auto
  let ?X = "push_bit 16 r OR take_bit 16 (ucast w) :: u32"
  obtain d where e: "send_bits (word_bits w) s1 = map_option (\<lambda>s. s\<lparr>eeprom_clock := 0\<rparr>)
      (input_event (s1\<lparr>eeprom_data_in := d, input_shiftreg := ?X, input_count := 29\<rparr>))"
    using value_then_event [OF sel1(1) _ sel1(2), of 15 "ucast w"] s1(2) unfolding count_numerals word_bits_def
    by (fastforce simp: quiet_def)
  let ?t = "s1\<lparr>eeprom_data_in := d, ee_data0 := drop_bit 8 ?X AND 0xff, ee_data1 := ?X AND 0xff,
      ready_busy_status := STATUSBUSY, input_shiftreg := 0, input_count := 0, ee_addr := 0\<rparr>"
  obtain mem x where loop: "wral_loop 1024 ?t = Some (?t\<lparr>m93c86_data := mem, ee_addr := x\<rparr>)"
    "length mem = M93C86_SIZE" "data_word mem = (\<lambda>_. w)"
    using wral_loop_words [of ?t 1024] s1(2) assms reg_data(1,2) [of r w] word_of_bytes [of w]
    by (auto simp: idle_def)
  have op: "op_bits (Op_wral w) = ([True, False, False] @ [False, True]) @ msb_first 8 0 @ word_bits w" by simp
  have "length (m93c86_data st) = M93C86_SIZE" using assms by (simp add: idle_def)
  then show ?thesis
    using s1 e loop
    by (simp only: op send_bits_append [of _ "msb_first 8 0 @ word_bits w"] send_bits_append [of "msb_first 8 0"] s(1)
        Option.bind.simps)
      (auto simp: input_event_def command_bits29_def reset_input_shiftreg_def executed_def ee_mem_of_def cmd_defs
        M93C86_SIZE_def)
qed

lemma executed_op:
  assumes "idle st"
  shows "\<exists>s. send_bits (op_bits i) (m93c86_write_select 1 st) = Some s \<and> executed i st s
    \<and> (\<forall>a n. i = Op_read a n \<longrightarrow> reading s a 0)"
  using executed_read [OF assms] executed_write [OF assms] executed_erase [OF assms] executed_eral [OF assms]
    executed_wral [OF assms] executed_wen_wds [OF assms]
  by (cases i) fastforce+

text \<open>Deselecting ends a read, and starts the busy phase of the commands the code lists.\<close>

lemma deselect:
  assumes "eeprom_cs s = 1" "eeprom_clock s = 0" "length (m93c86_data s) = M93C86_SIZE"
  shows "idle (m93c86_write_select 0 s)" "ee_mem_of (m93c86_write_select 0 s) = ee_mem_of s"
    "ee_command (m93c86_write_select 0 s) =
      (if ee_command s \<in> {CMDWRITE, CMDWRAL, CMDERAL} then CMDISBUSY
       else if ee_command s \<in> {CMDREAD, CMDREADDUMMY, CMDREADDATA} then 0 else ee_command s)"
  using assms by (auto simp: idle_def ee_mem_of_def m93c86_write_select_def cmd_defs Let_def split: if_splits)

lemma run_op_spec:
  assumes "idle st"
  shows "\<exists>st'. run_op i st = Some (fst (spec_op i (ee_mem_of st)), st') \<and> idle st'
    \<and> ee_mem_of st' = snd (spec_op i (ee_mem_of st))
    \<and> (op_words i = 0 \<longrightarrow> ee_command st' =
        (let cmd = after_command i (write_enable_status st \<noteq> 0)
         in if cmd \<in> {CMDWRITE, CMDWRAL, CMDERAL} then CMDISBUSY
            else if cmd \<in> {CMDREAD, CMDREADDUMMY, CMDREADDATA} then 0 else cmd))"
proof -
  obtain s where s: "send_bits (op_bits i) (m93c86_write_select 1 st) = Some s" "executed i st s"
    "\<And>a n. i = Op_read a n \<Longrightarrow> reading s a 0"
    using executed_op [OF assms, of i] by blast
  show ?thesis
  proof (cases "op_words i = 0")
    case True
    then have "fst (spec_op i (ee_mem_of st)) = []" by (cases i) (simp_all add: ee_mem_of_def)
    then show ?thesis using s True deselect [of s] by (simp add: run_op_def executed_def Let_def)
  next
    case False
    then obtain a n where i: "i = Op_read a n" by (cases i) simp_all
    obtain s' where s': "recv_bits (16 * n) s = Some (concat (map (\<lambda>k. word_bits (ee_word s (a + of_nat k))) [0..<n]), s')"
      "same_memory s s'" "reading s' (a + of_nat n) 0"
      using recv_words [OF s(3) [OF i], of n] by blast
    have "ee_mem_of s = ee_mem_of st" using s(2) i by (simp add: executed_def ee_mem_of_def)
    then show ?thesis
      using s(1) s' False i deselect [of s'] by (simp add: run_op_def reading_def same_memory_def ee_mem_of_def)
  qed
qed

text \<open>
  C9. The chip is a memory of 1024 words: for every sequence of read, write, erase, erase-all,
  write-all and write-enable instructions, clocked in bit by bit from an idle chip, the pins
  never access memory outside the array, the bits the program clocks out are those of the
  words of the abstract memory (sequential reads wrap at the end), and writes and erasures
  change exactly the addressed words, and only while writing is enabled.
\<close>

theorem eeprom_refines_memory:
  assumes "idle st"
  shows "\<exists>outs st'. run_ops is st = Some (outs, st') \<and> idle st'
    \<and> spec_ops is (ee_mem_of st) = (outs, ee_mem_of st')"
  using assms
proof (induction "is" arbitrary: st)
  case (Cons i "is")
  obtain st1 where 1: "run_op i st = Some (fst (spec_op i (ee_mem_of st)), st1)" "idle st1"
    "ee_mem_of st1 = snd (spec_op i (ee_mem_of st))"
    using run_op_spec [OF Cons.prems, of i] by blast
  show ?case using Cons.IH [OF 1(2)] 1 by (auto simp: split_beta)
qed simp

definition demo_eeprom :: m93c86 where
  "demo_eeprom = \<lparr>m93c86_data = replicate M93C86_SIZE 0xff, eeprom_cs = 0, eeprom_clock = 0,
     eeprom_data_in = 0, eeprom_data_out = 0, input_shiftreg = 0, input_count = 0, output_shiftreg = 0,
     output_count = 0, ee_command = 0, ee_addr = 0, ee_data0 = 0, ee_data1 = 0, write_enable_status = 0,
     ready_busy_status = 1\<rparr>"

lemma demo_eeprom_idle: "idle demo_eeprom"
  by (simp add: idle_def demo_eeprom_def cmd_defs)

theorem eeprom_refines_memory_witness:
  "\<exists>st'. run_ops [Op_wen, Op_write 5 0x1234, Op_read 5 1] demo_eeprom = Some ([[], [], word_bits 0x1234], st')"
  using eeprom_refines_memory [OF demo_eeprom_idle, of "[Op_wen, Op_write 5 0x1234, Op_read 5 1]"]
  by (auto simp: ee_mem_of_def split_beta)

section \<open>Busy and ready\<close>

text \<open>
  A write, a write-all or an erase-all shows itself as busy once and then as ready: after
  the instruction the first look at the data output is 0, the second is 1, and the chip is
  ready.
\<close>

theorem eeprom_busy_then_ready:
  assumes "idle st" "write_enable_status st \<noteq> 0"
    and "i = Op_write a w \<or> i = Op_wral w \<or> i = Op_eral"
  shows "\<exists>st' s1 s2. run_op i st = Some ([], st') \<and> m93c86_read_data (m93c86_write_select 1 st') = (0, s1)
    \<and> m93c86_read_data s1 = (1, s2) \<and> ready_busy_status s2 = STATUSREADY"
proof -
  have "op_words i = 0" "after_command i True \<in> {CMDWRITE, CMDWRAL, CMDERAL}" "fst (spec_op i (ee_mem_of st)) = []"
    using assms(3) by (auto simp: ee_mem_of_def)
  then obtain st' where "run_op i st = Some ([], st')" "idle st'" "ee_command st' = CMDISBUSY"
    using run_op_spec [OF assms(1), of i] assms(2) by (auto simp: Let_def)
  then show ?thesis
    by (simp add: idle_def m93c86_write_select_def reset_input_shiftreg_def m93c86_read_data_def cmd_defs status_defs)
qed

theorem eeprom_busy_then_ready_witness:
  "\<exists>st' s1 s2. run_op (Op_write 3 7) (demo_eeprom\<lparr>write_enable_status := 1\<rparr>) = Some ([], st')
    \<and> m93c86_read_data (m93c86_write_select 1 st') = (0, s1)
    \<and> m93c86_read_data s1 = (1, s2) \<and> ready_busy_status s2 = STATUSREADY"
  using demo_eeprom_idle by (intro eeprom_busy_then_ready) (auto simp: idle_def)

text \<open>
  Erasing one word never shows the busy phase: \<^verbatim>\<open>m93c86_write_select\<close> does not list
  CMDERASE among the commands that become busy, so after the instruction every look at the
  data output gives the last bit that was read before, however often the program looks. A
  program that waits for a 1 after a 0 waits for ever.
\<close>

fun poll :: "nat \<Rightarrow> m93c86 \<Rightarrow> u8 list" where
  "poll 0 st = []"
| "poll (Suc n) st = (case m93c86_read_data st of (x, st) \<Rightarrow> x # poll n st)"

lemma poll_constant:
  "eeprom_cs st = 1 \<Longrightarrow> ee_command st \<notin> {CMDISBUSY, CMDISREADY} \<Longrightarrow>
     poll n st = replicate n (ucast (eeprom_data_out st))"
  by (induction n) (simp_all add: m93c86_read_data_def)

theorem eeprom_erase_never_busy:
  assumes "idle st" "write_enable_status st \<noteq> 0"
  shows "\<exists>st'. run_op (Op_erase a) st = Some ([], st') \<and> ee_word st' a = 0xffff
    \<and> poll n (m93c86_write_select 1 st') = replicate n (ucast (eeprom_data_out st'))"
proof -
  obtain st' where s: "run_op (Op_erase a) st = Some ([], st')" "idle st'" "ee_command st' = CMDERASE"
    "ee_mem_of st' = snd (spec_op (Op_erase a) (ee_mem_of st))"
    using run_op_spec [OF assms(1), of "Op_erase a"] assms(2) by (auto simp: ee_mem_of_def cmd_defs)
  then have "poll n (m93c86_write_select 1 st') = replicate n (ucast (eeprom_data_out (m93c86_write_select 1 st')))"
    by (intro poll_constant)
      (simp_all add: idle_def m93c86_write_select_def reset_input_shiftreg_def cmd_defs)
  then show ?thesis using s assms(2)
    by (simp add: ee_mem_of_def idle_def m93c86_write_select_def reset_input_shiftreg_def cmd_defs)
qed

theorem eeprom_erase_never_busy_witness:
  "\<exists>st'. run_op (Op_erase 3) (demo_eeprom\<lparr>write_enable_status := 1\<rparr>) = Some ([], st') \<and> ee_word st' 3 = 0xffff
    \<and> poll 9 (m93c86_write_select 1 st') = replicate 9 (ucast (eeprom_data_out st'))"
  using demo_eeprom_idle by (intro eeprom_erase_never_busy) (auto simp: idle_def)

end
