(* ===== verification/M93c86_Pins.thy ===== *)
theory M93c86_Pins
  imports M93c86_Memory
begin

text \<open>
  The EEPROM under arbitrary pin operations, also those that follow no instruction: memory
  safety and write protection; its image file and its snapshots.
\<close>

section \<open>Any sequence of pin operations\<close>

datatype pin_op = Pin_select u8 | Pin_clock u8 | Pin_data u8 | Pin_read

fun pin_step :: "pin_op \<Rightarrow> m93c86 \<Rightarrow> m93c86 option" where
  "pin_step (Pin_select v) st = Some (m93c86_write_select v st)"
| "pin_step (Pin_clock v) st = m93c86_write_clock v st"
| "pin_step (Pin_data v) st = Some (m93c86_write_data v st)"
| "pin_step Pin_read st = Some (snd (m93c86_read_data st))"

fun pin_steps :: "pin_op list \<Rightarrow> m93c86 \<Rightarrow> m93c86 option" where
  "pin_steps [] st = Some st"
| "pin_steps (p # ps) st = Option.bind (pin_step p st) (pin_steps ps)"

text \<open>The array has its size, and a chip that reads has an address inside it.\<close>

definition ee_inv :: "m93c86 \<Rightarrow> bool" where
  "ee_inv st \<longleftrightarrow> length (m93c86_data st) = M93C86_SIZE
     \<and> (ee_command st \<in> {CMDREADDUMMY, CMDREADDATA} \<longrightarrow> ee_addr st AND 0x3ff = ee_addr st)"


lemma ee_index:
  assumes "x AND 0x3ff = (x :: u32)"
  shows "unat (push_bit 1 x) < M93C86_SIZE" "unat (push_bit 1 x + 1) < M93C86_SIZE"
proof -
  have "x = ucast (ucast x :: u10)"
  proof (rule bit_word_eqI)
    have "(0x3ff :: u32) = mask 10" by (simp add: mask_eq_exp_minus_1)
    then have "bit x n \<longleftrightarrow> bit x n \<and> n < 10" for n
      using assms by (metis and.commute bit_mask_iff bit_and_iff bit_imp_le_length)
    then show "bit x n \<longleftrightarrow> bit (ucast (ucast x :: u10) :: u32) n" if "n < LENGTH(32)" for n
      using that by (auto simp: bit_simps)
  qed
  then obtain a :: u10 where "x = ucast a" by blast
  then show "unat (push_bit 1 x) < M93C86_SIZE" "unat (push_bit 1 x + 1) < M93C86_SIZE"
    using unat_u10 [of a] by (simp_all add: byte_index M93C86_SIZE_def)
qed

lemma mask_twice: "(x AND 0x3ff) AND 0x3ff = (x AND 0x3ff :: u32)"
  by (simp add: and.assoc)

lemma ee_get_some: "length (m93c86_data st) = M93C86_SIZE \<Longrightarrow> x AND 0x3ff = x \<Longrightarrow>
    \<exists>b. ee_get st (push_bit 1 x) = Some b"
  "length (m93c86_data st) = M93C86_SIZE \<Longrightarrow> x AND 0x3ff = x \<Longrightarrow>
    \<exists>b. ee_get st (push_bit 1 x + 1) = Some b"
  using ee_index [of x] by (simp_all add: ee_get_def)

lemma put_two_some:
  assumes "length (m93c86_data st) = M93C86_SIZE" "x AND 0x3ff = x"
  shows "\<exists>mem. Option.bind (ee_put (push_bit 1 x) d0 st) (ee_put (push_bit 1 x + 1) d1) = Some (st\<lparr>m93c86_data := mem\<rparr>)
    \<and> length mem = M93C86_SIZE"
  using assms ee_index [OF assms(2)] by (auto simp: ee_put_def)

text \<open>A step that stays inside the array, and changes it only while writing is enabled.\<close>

definition safe_step :: "m93c86 \<Rightarrow> m93c86 option \<Rightarrow> bool" where
  "safe_step st r \<longleftrightarrow> (\<exists>s. r = Some s \<and> ee_inv s \<and> (write_enable_status st = 0 \<longrightarrow> m93c86_data s = m93c86_data st))"

lemma safe_read_dummy: "ee_inv st \<Longrightarrow> ee_command st = CMDREADDUMMY \<Longrightarrow> safe_step st (clock_read_dummy st)"
  using ee_get_some(1) [of st "ee_addr st"] by (auto simp: safe_step_def ee_inv_def clock_read_dummy_def)

lemma safe_read_data:
  assumes "ee_inv st" "ee_command st = CMDREADDATA"
  shows "safe_step st (clock_read_data st)"
proof -
  let ?s = "st\<lparr>eeprom_data_out := drop_bit 7 (output_shiftreg st) AND 1,
      output_shiftreg := push_bit 1 (output_shiftreg st), output_count := output_count st + 1\<rparr>"
  let ?a = "(ee_addr st + 1) AND 0x3ff"
  have inv: "length (m93c86_data st) = M93C86_SIZE" "ee_addr st AND 0x3ff = ee_addr st"
    using assms by (simp_all add: ee_inv_def)
  define a where "a = (ee_addr st + 1) AND 0x3ff"
  have a: "a AND 0x3ff = a" unfolding a_def by (rule mask_twice)
  show ?thesis
    using inv a ee_index [OF inv(2)] ee_index [OF a]
    by (simp add: safe_step_def ee_inv_def clock_read_data_def Let_def ee_get_def M93C86_SIZE_def flip: a_def)
qed

lemma safe_bits13:
  assumes "ee_inv st"
  shows "safe_step st (command_bits13 st)"
proof -
  define a where "a = input_shiftreg st AND 0x3ff"
  have a: "a AND 0x3ff = a" unfolding a_def by (rule mask_twice)
  let ?t = "st\<lparr>ee_addr := a, ready_busy_status := STATUSBUSY, input_shiftreg := 0, input_count := 0\<rparr>"
  obtain mem where "Option.bind (ee_put (push_bit 1 a) 0xff ?t) (ee_put (push_bit 1 a + 1) 0xff)
      = Some (?t\<lparr>m93c86_data := mem\<rparr>)" "length mem = M93C86_SIZE"
    using put_two_some [of ?t a "0xff" "0xff"] assms a by (auto simp: ee_inv_def)
  then show ?thesis
    using assms a
    by (simp add: safe_step_def ee_inv_def command_bits13_def reset_input_shiftreg_def Let_def cmd_defs flip: a_def)
qed

lemma safe_bits29:
  assumes "ee_inv st"
  shows "safe_step st (command_bits29 st)"
proof -
  let ?X = "input_shiftreg st"
  define a where "a = drop_bit 16 ?X AND 0x3ff"
  have a: "a AND 0x3ff = a" unfolding a_def by (rule mask_twice)
  let ?t = "st\<lparr>ee_addr := a, ee_data0 := drop_bit 8 ?X AND 0xff, ee_data1 := ?X AND 0xff,
      ready_busy_status := STATUSBUSY, input_shiftreg := 0, input_count := 0\<rparr>"
  obtain mem where 1: "Option.bind (ee_put (push_bit 1 a) (drop_bit 8 ?X AND 0xff) ?t)
      (ee_put (push_bit 1 a + 1) (?X AND 0xff)) = Some (?t\<lparr>m93c86_data := mem\<rparr>)"
    "length mem = M93C86_SIZE"
    using put_two_some [of ?t a] assms a by (auto simp: ee_inv_def)
  let ?u = "st\<lparr>ee_data0 := drop_bit 8 ?X AND 0xff, ee_data1 := ?X AND 0xff,
      ready_busy_status := STATUSBUSY, input_shiftreg := 0, input_count := 0, ee_addr := 0\<rparr>"
  obtain mem' x where 2: "wral_loop 1024 ?u = Some (?u\<lparr>m93c86_data := mem', ee_addr := x\<rparr>)" "length mem' = M93C86_SIZE"
    using wral_loop_words [of ?u 1024] assms by (auto simp: ee_inv_def)
  show ?thesis
    using assms 1 2
    by (simp add: safe_step_def ee_inv_def command_bits29_def reset_input_shiftreg_def Let_def cmd_defs flip: a_def)
       (simp add: M93C86_SIZE_def)
qed

lemma safe_event:
  assumes "ee_inv st"
  shows "safe_step st (input_event st)"
proof -
  have "ee_inv (command_bits3 st)" "ee_inv (command_bits5 st)" "ee_inv (reset_input_shiftreg st)"
    using assms by (simp_all add: ee_inv_def command_bits3_def command_bits5_def reset_input_shiftreg_def cmd_defs)
  moreover have "m93c86_data (command_bits3 st) = m93c86_data st" "m93c86_data (command_bits5 st) = m93c86_data st"
    "m93c86_data (reset_input_shiftreg st) = m93c86_data st"
    by (simp_all add: command_bits3_def command_bits5_def reset_input_shiftreg_def)
  ultimately show ?thesis
    using safe_bits13 [OF assms] safe_bits29 [OF assms] assms by (simp add: input_event_def safe_step_def)
qed

lemma safe_clock:
  assumes "ee_inv st"
  shows "safe_step st (m93c86_write_clock v st)"
proof -
  have up: "safe_step st (map_option (\<lambda>s. s\<lparr>eeprom_clock := ucast v\<rparr>) r)" if "safe_step st r" for r
    using that by (auto simp: safe_step_def ee_inv_def)
  have "ee_inv (st\<lparr>input_shiftreg := push_bit 1 (input_shiftreg st) OR eeprom_data_in st, input_count := input_count st + 1\<rparr>)"
    using assms by (simp add: ee_inv_def)
  from safe_event [OF this] have "safe_step st (clock_shift_in st)"
    by (simp add: safe_step_def clock_shift_in_def)
  moreover have "safe_step st (Some st)" using assms by (simp add: safe_step_def)
  ultimately show ?thesis
    unfolding m93c86_write_clock_def
    by (intro up) (simp add: safe_read_dummy [OF assms] safe_read_data [OF assms])
qed

lemma safe_pin_step:
  assumes "ee_inv st"
  shows "safe_step st (pin_step p st)"
proof (cases p)
  case (Pin_select v)
  have "ee_inv (m93c86_write_select v st)" "m93c86_data (m93c86_write_select v st) = m93c86_data st"
    using assms by (simp_all add: ee_inv_def m93c86_write_select_def reset_input_shiftreg_def cmd_defs Let_def)
  then show ?thesis using Pin_select by (simp add: safe_step_def)
next
  case (Pin_clock v)
  then show ?thesis using safe_clock [OF assms] by simp
next
  case (Pin_data v)
  then show ?thesis using assms by (simp add: safe_step_def ee_inv_def m93c86_write_data_def)
next
  case Pin_read
  then show ?thesis using assms by (simp add: safe_step_def ee_inv_def m93c86_read_data_def cmd_defs)
qed

text \<open>
  No sequence of pin operations, whether it follows the protocol or not, makes the chip
  access memory outside its array.
\<close>

theorem eeprom_pins_safe:
  assumes "ee_inv st"
  shows "\<exists>st'. pin_steps ps st = Some st' \<and> ee_inv st'"
  using assms
proof (induction ps arbitrary: st)
  case (Cons p ps)
  obtain st1 where "pin_step p st = Some st1" "ee_inv st1"
    using safe_pin_step [OF Cons.prems, of p] by (auto simp: safe_step_def)
  then show ?case using Cons.IH by simp
qed simp

theorem eeprom_pins_safe_witness:
  "\<exists>st'. pin_steps [Pin_select 1, Pin_clock 1, Pin_data 7, Pin_clock 0, Pin_clock 1, Pin_read] demo_eeprom = Some st' \<and> ee_inv st'"
  by (rule eeprom_pins_safe) (simp add: ee_inv_def demo_eeprom_def cmd_defs)

text \<open>
  The write protection holds on the level of the pins: while writing is disabled no pin
  operation changes a byte of the array, whatever the chip has shifted in before.
\<close>

theorem eeprom_write_protected:
  assumes "ee_inv st" "write_enable_status st = 0" "pin_step p st = Some st'"
  shows "m93c86_data st' = m93c86_data st"
  using safe_pin_step [OF assms(1), of p] assms(2,3) by (simp add: safe_step_def)

theorem eeprom_write_protected_witness:
  "\<exists>st'. pin_step (Pin_clock 1) (demo_eeprom\<lparr>eeprom_cs := 1, input_count := 28, input_shiftreg := 5, ee_command := CMDWRITE\<rparr>) = Some st'
    \<and> m93c86_data st' = m93c86_data demo_eeprom"
proof -
  let ?st = "demo_eeprom\<lparr>eeprom_cs := 1, input_count := 28, input_shiftreg := 5, ee_command := CMDWRITE\<rparr>"
  have st: "ee_inv ?st" "write_enable_status ?st = 0" by (simp_all add: ee_inv_def demo_eeprom_def cmd_defs)
  then obtain st' where s: "pin_step (Pin_clock 1) ?st = Some st'"
    using safe_pin_step [of ?st "Pin_clock 1"] by (auto simp: safe_step_def)
  show ?thesis using eeprom_write_protected [OF st s] s by simp
qed

section \<open>Snapshots\<close>

text \<open>What is left of a chip in a snapshot: the low byte of every variable.\<close>

definition low_byte :: "u32 \<Rightarrow> u32" where
  "low_byte x = ucast (ucast x :: u8)"

definition low_bytes :: "m93c86 \<Rightarrow> m93c86" where
  "low_bytes st = st\<lparr>eeprom_cs := low_byte (eeprom_cs st), eeprom_clock := low_byte (eeprom_clock st),
     eeprom_data_in := low_byte (eeprom_data_in st), eeprom_data_out := low_byte (eeprom_data_out st),
     input_shiftreg := low_byte (input_shiftreg st), input_count := low_byte (input_count st),
     output_shiftreg := low_byte (output_shiftreg st), output_count := low_byte (output_count st),
     ee_command := low_byte (ee_command st), ee_addr := low_byte (ee_addr st),
     ee_data0 := low_byte (ee_data0 st), ee_data1 := low_byte (ee_data1 st),
     write_enable_status := low_byte (write_enable_status st), ready_busy_status := low_byte (ready_busy_status st)\<rparr>"

definition enc_m93c86 :: "m93c86 \<Rightarrow> u8 list" where
  "enc_m93c86 st = [ucast (eeprom_cs st)] @ [ucast (eeprom_clock st)] @ [ucast (eeprom_data_in st)]
     @ [ucast (eeprom_data_out st)] @ [ucast (input_shiftreg st)] @ [ucast (input_count st)]
     @ [ucast (output_shiftreg st)] @ [ucast (output_count st)] @ [ucast (ee_command st)] @ [ucast (ee_addr st)]
     @ [ucast (ee_data0 st)] @ [ucast (ee_data1 st)] @ [ucast (write_enable_status st)]
     @ [ucast (ready_busy_status st)] @ m93c86_data st"

lemma m93c86_fields_append: "mappends (m93c86_write_fields st) (enc_m93c86 st)"
  unfolding m93c86_write_fields_def enc_m93c86_def by (intro mappends_wseq put_fields TrueI)

lemma m93c86_fields_load:
  assumes "length (m93c86_data old) = M93C86_SIZE"
  shows "loads m93c86_read_fields (enc_m93c86 old) st (low_bytes old)"
  unfolding m93c86_read_fields_def enc_m93c86_def
  by (rule loads_eq, (rule loads_wseq smr_fields assms)+) (cases st, cases old, simp add: low_bytes_def low_byte_def)

text \<open>
  The EEPROM's snapshot module gives back the array and the low byte of every variable:
  written behind any other modules it is found again, and reading it ends in \<open>low_bytes\<close> of
  the chip that was saved, after the image file has been closed.
\<close>

theorem eeprom_snapshot_low_bytes:
  assumes "length (m93c86_data old) = M93C86_SIZE" "\<forall>i \<in> set mods. image_ok i \<and> fst i \<noteq> m93c86_snap_module_name"
    and "sf_bytes f = pre @ concat (map module_bytes mods)" "sf_pos f = length (sf_bytes f)"
    and "sf_pos f + 2084 \<le> sf_limit f"
  shows "\<exists>f' g. m93c86_snapshot_write_module old f = (True, f')
    \<and> m93c86_snapshot_read_module (Suc (length mods)) (length pre) rw st imfs f'
      = Some (True, low_bytes old, m93c86_close_image rw st imfs, g)"
proof -
  have len: "length (enc_m93c86 old) = 2062" using assms(1) by (simp add: enc_m93c86_def M93C86_SIZE_def)
  have ok: "image_ok (m93c86_snap_module_name, CART_DUMP_VER_MAJOR, CART_DUMP_VER_MINOR, enc_m93c86 old)"
    by (simp add: len m93c86_snap_module_name_def name_field_len_def)
  obtain f' m g g' where
    w: "write_module m93c86_snap_module_name CART_DUMP_VER_MAJOR CART_DUMP_VER_MINOR (m93c86_write_fields old) f = (True, f')"
    and o: "snapshot_module_open (Suc (length mods)) (length pre) m93c86_snap_module_name f'
      = Some (Some (m, CART_DUMP_VER_MAJOR, CART_DUMP_VER_MINOR), g)"
    and r: "m93c86_read_fields (st, m, g) = (True, low_bytes old, m, g')"
    using device_module_roundtrip [OF m93c86_fields_append m93c86_fields_load [OF assms(1), of st] ok assms(2-4)]
      assms(5) len by auto
  have "m93c86_snapshot_write_module old f = (True, f')"
    using write_moduleD [OF w] by (auto simp: m93c86_snapshot_write_module_def)
  moreover have "\<not> snapshot_version_is_bigger CART_DUMP_VER_MAJOR CART_DUMP_VER_MINOR CART_DUMP_VER_MAJOR CART_DUMP_VER_MINOR"
    by (simp add: snapshot_version_is_bigger_def)
  ultimately show ?thesis
    using r by (simp add: m93c86_snapshot_read_module_def o)
qed

theorem eeprom_snapshot_low_bytes_witness:
  "\<exists>f' g. m93c86_snapshot_write_module demo_eeprom \<lparr>sf_bytes = [], sf_pos = 0, sf_limit = 3000, sf_error = 0\<rparr> = (True, f')
    \<and> m93c86_snapshot_read_module 1 0 False demo_eeprom (\<lparr>m93c86_image_file = None, eeprom_file_rw = False\<rparr>, Map.empty) f'
      = Some (True, low_bytes demo_eeprom, m93c86_close_image False demo_eeprom
          (\<lparr>m93c86_image_file = None, eeprom_file_rw = False\<rparr>, Map.empty), g)"
  using eeprom_snapshot_low_bytes [of demo_eeprom "[]" "\<lparr>sf_bytes = [], sf_pos = 0, sf_limit = 3000, sf_error = 0\<rparr>" "[]"]
  by (simp add: demo_eeprom_def M93C86_SIZE_def One_nat_def)

lemma low_byte_address: "low_byte (ucast (a :: u10)) = ucast (take_bit 8 a)"
  by (rule bit_word_eqI) (auto simp: low_byte_def bit_simps)

lemma low_byte_small: "x < 256 \<Longrightarrow> low_byte x = x"
  by (simp add: low_byte_def unsigned_ucast_eq word_unat_eq_iff take_bit_eq_mod word_less_nat_alt unat_mod)

text \<open>
  The snapshot loses the upper two bits of a ten-bit address: a chip that is about to put
  out word \<open>a\<close> puts out word \<open>a mod 256\<close> when it was saved and restored in between.
\<close>

theorem eeprom_snapshot_loses_address:
  assumes "reading st a 0" "ee_command st = CMDREADDUMMY"
  shows "\<exists>s t. recv_bits 16 st = Some (word_bits (ee_word st a), s)
    \<and> recv_bits 16 (low_bytes st) = Some (word_bits (ee_word st (take_bit 8 a)), t)"
proof -
  have "reading (low_bytes st) (take_bit 8 a) 0"
    using assms by (simp add: reading_def low_bytes_def low_byte_address low_byte_small cmd_defs)
  moreover have "ee_word (low_bytes st) = ee_word st" by (simp add: low_bytes_def)
  ultimately show ?thesis
    using recv_words [OF assms(1), of 1] recv_words [of "low_bytes st" "take_bit 8 a" 1] by auto
qed

theorem eeprom_snapshot_loses_address_witness:
  "\<exists>s t. recv_bits 16 (demo_eeprom\<lparr>eeprom_cs := 1, ee_command := CMDREADDUMMY, ee_addr := 0x100,
        m93c86_data := (m93c86_data demo_eeprom)[513 := 0x11]\<rparr>) = Some (word_bits 0xff11, s)
    \<and> recv_bits 16 (low_bytes (demo_eeprom\<lparr>eeprom_cs := 1, ee_command := CMDREADDUMMY, ee_addr := 0x100,
        m93c86_data := (m93c86_data demo_eeprom)[513 := 0x11]\<rparr>)) = Some (word_bits 0xffff, t)"
proof -
  let ?st = "demo_eeprom\<lparr>eeprom_cs := 1, ee_command := CMDREADDUMMY, ee_addr := 0x100,
        m93c86_data := (m93c86_data demo_eeprom)[513 := 0x11]\<rparr>"
  have "reading ?st 0x100 0" by (simp add: reading_def demo_eeprom_def M93C86_SIZE_def)
  from eeprom_snapshot_loses_address [OF this] show ?thesis
    by (simp add: demo_eeprom_def M93C86_SIZE_def data_word_def take_bit_eq_mod)
qed

section \<open>The image file\<close>

definition reopened :: "string \<Rightarrow> bool \<Rightarrow> m93c86 \<Rightarrow> m93c86_image \<times> host_fs \<Rightarrow> u8 list" where
  "reopened name rw st imfs = m93c86_data (fst (snd (m93c86_open_image (Some name) rw (st, imfs))))"

lemma fread_whole:
  "length mem = M93C86_SIZE \<Longrightarrow> length mem2 = M93C86_SIZE \<Longrightarrow> fread_data (mem @ xs) mem2 = mem"
  by (simp add: fread_data_def)

text \<open>
  The image file keeps the array: after a flush of a writable image, and after closing one
  for writing or saving a copy, opening the file again loads the very bytes, whatever the
  file held behind them and whatever the array held before.
\<close>

theorem eeprom_image_persists:
  assumes "length (m93c86_data st) = M93C86_SIZE" "length (m93c86_data st2) = M93C86_SIZE"
    and "m93c86_image_file im = Some (name, True)" "eeprom_file_rw im" "fs name = Some (old, True)"
    and "m93c86_image_file im2 = None" "name2 \<noteq> []" "fs name2 = None"
  shows "fst (m93c86_flush_image st im fs) = 0
    \<and> reopened name rw st2 (im2, snd (m93c86_flush_image st im fs)) = m93c86_data st
    \<and> reopened name rw st2 (m93c86_close_image True st (im, fs)) = m93c86_data st
    \<and> fst (m93c86_save_image (Some name2) st fs) = 0
    \<and> reopened name2 rw st2 (im2, snd (m93c86_save_image (Some name2) st fs)) = m93c86_data st"
  using assms(3-8) fread_whole [OF assms(1,2)] fread_whole [OF assms(1,2), of "[]"]
  by (simp add: reopened_def m93c86_flush_image_def m93c86_close_image_def m93c86_save_image_def fwrite_data_def
      m93c86_open_image_def Let_def)

theorem eeprom_image_persists_witness:
  "reopened ''e'' True demo_eeprom (\<lparr>m93c86_image_file = None, eeprom_file_rw = False\<rparr>,
     snd (m93c86_flush_image demo_eeprom \<lparr>m93c86_image_file = Some (''e'', True), eeprom_file_rw = True\<rparr>
       [''e'' \<mapsto> ([1, 2], True)])) = replicate 2048 0xff"
proof -
  have "length (m93c86_data demo_eeprom) = M93C86_SIZE" by (simp add: demo_eeprom_def)
  then show ?thesis
    using eeprom_image_persists [of demo_eeprom demo_eeprom
        "\<lparr>m93c86_image_file = Some (''e'', True), eeprom_file_rw = True\<rparr>" "''e''" "[''e'' \<mapsto> ([1, 2], True)]" "[1, 2]"
        "\<lparr>m93c86_image_file = None, eeprom_file_rw = False\<rparr>" "''f''" True]
    by (simp add: demo_eeprom_def M93C86_SIZE_def)
qed

end
