(* ===== verification/Gcr_Code.thy ===== *)
theory Gcr_Code
  imports Gcr
begin

text \<open>
  The code of \<^verbatim>\<open>src/src/gcr.c\<close> seen as bits: four bytes are encoded nibble by nibble, decoding
  inverts encoding, and encoded data never looks like a sync mark.
\<close>

section \<open>Bytes as bits\<close>

text \<open>Bits in the order they pass the head, most significant first.\<close>

definition byte_bits :: "u8 \<Rightarrow> bool list" where
  "byte_bits b = map (bit b) [7, 6, 5, 4, 3, 2, 1, 0]"

definition code_bits :: "nat \<Rightarrow> bool list" where
  "code_bits n = map (bit (GCR_conv_data ! n)) [4, 3, 2, 1, 0]"

definition nibble_bits :: "u8 \<Rightarrow> bool list" where
  "nibble_bits b = code_bits (unat (drop_bit 4 b)) @ code_bits (unat (b AND 0x0f))"

lemma length_bits [simp]: "length (byte_bits b) = 8" "length (code_bits n) = 5" "length (nibble_bits b) = 10"
  by (simp_all add: byte_bits_def code_bits_def nibble_bits_def)

lemma nibble_less: "unat (drop_bit 4 (b :: u8)) < 16" "unat (b AND 0x0f) < 16"
proof -
  show "unat (drop_bit 4 b) < 16"
    using unsigned_less [of b, where ?'a = nat]
    by (simp only: unat_drop_bit_eq) (simp only: drop_bit_eq_div len_num1 len_bit0 len_num0, simp)
  show "unat (b AND 0x0f) < 16"
    using and_mask_less' [of 4 b] by (simp add: word_less_nat_alt mask_eq_exp_minus_1)
qed

text \<open>The 16 codes have five bits.\<close>

lemma code_five_bits: "n < 16 \<Longrightarrow> bit (GCR_conv_data ! n) k \<Longrightarrow> k < 5"
proof (rule ccontr)
  assume n: "n < 16" and k: "bit (GCR_conv_data ! n) k" "\<not> k < 5"
  have "list_all (\<lambda>c. unat c < 32) GCR_conv_data" by (simp add: GCR_conv_data_def)
  then have "unat (GCR_conv_data ! n) < 2 ^ 5" using n by (simp add: list_all_length GCR_conv_data_def)
  then have "take_bit 5 (GCR_conv_data ! n) = GCR_conv_data ! n"
    by (metis take_bit_nat_eq_self unsigned_take_bit_eq word_eq_iff_unsigned)
  then show False using k by (metis bit_take_bit_iff)
qed

lemma encode_bits:
  assumes "length source = 4"
  shows "concat (map byte_bits (gcr_convert_4bytes_to_GCR source)) = concat (map nibble_bits source)"
proof -
  obtain a b c d where s: "source = [a, b, c, d]" using assms by (auto simp: length_Suc_conv numeral_eq_Suc)
  have no: "\<not> bit (GCR_conv_data ! unat (drop_bit 4 x)) k" "\<not> bit (GCR_conv_data ! unat (x AND 0x0f)) k"
    if "5 \<le> k" for k and x :: u8
    using code_five_bits nibble_less that by (meson not_le)+
  show ?thesis
    unfolding s gcr_convert_4bytes_to_GCR_def
    by (simp add: Let_def byte_bits_def nibble_bits_def code_bits_def bit_simps no)
qed


section \<open>Decoding inverts encoding\<close>

definition val5 :: "bool list \<Rightarrow> nat" where
  "val5 bs = horner_sum of_bool 2 (rev bs)"

definition dec5 :: "bool list \<Rightarrow> u8" where
  "dec5 bs = From_GCR_conv_data ! val5 bs"

text \<open>The stream a shift register holds: bit 20 is the next one.\<close>

definition holds :: "u32 \<Rightarrow> bool list \<Rightarrow> bool" where
  "holds t xs \<longleftrightarrow> length xs \<le> 16 \<and> (\<forall>j \<le> 20. bit t j \<longleftrightarrow> 20 - j < length xs \<and> xs ! (20 - j))"

lemma from_GCR_holds: "holds t xs \<Longrightarrow> 5 \<le> length xs \<Longrightarrow> from_GCR t = dec5 (take 5 xs)"
proof -
  assume h: "holds t xs" and l: "5 \<le> length xs"
  have "drop_bit 16 t AND 0x1f = take_bit 5 (drop_bit 16 t)"
    by (simp add: take_bit_eq_mask mask_eq_exp_minus_1)
  moreover have "unat (take_bit 5 (drop_bit 16 t)) = val5 (take 5 xs)"
  proof (rule bit_eqI)
    fix n
    have "bit (val5 (take 5 xs)) n \<longleftrightarrow> n < 5 \<and> xs ! (4 - n)"
      using l by (auto simp: val5_def bit_horner_sum_bit_iff rev_nth)
    moreover have "bit (unat (take_bit 5 (drop_bit 16 t))) n \<longleftrightarrow> n < 5 \<and> bit t (16 + n)"
      by (auto simp: bit_unsigned_iff bit_take_bit_iff bit_drop_bit_eq)
    moreover have "bit t (16 + n) \<longleftrightarrow> xs ! (4 - n)" if "n < 5"
      using h l that by (auto simp: holds_def)
    ultimately show "bit (unat (take_bit 5 (drop_bit 16 t))) n = bit (val5 (take 5 xs)) n" by blast
  qed
  ultimately show ?thesis by (simp add: from_GCR_def dec5_def)
qed

lemma holds_shift:
  assumes h: "holds t xs" and l: "5 \<le> length xs"
  shows "holds (push_bit 5 t) (drop 5 xs)"
proof -
  have "bit (push_bit 5 t) j \<longleftrightarrow> 20 - j < length (drop 5 xs) \<and> drop 5 xs ! (20 - j)" if j: "j \<le> 20" for j
  proof (cases "5 \<le> j")
    case True
    then have "bit (push_bit 5 t) j \<longleftrightarrow> bit t (j - 5)" using j by (simp add: bit_push_bit_iff)
    also have "\<dots> \<longleftrightarrow> 20 - (j - 5) < length xs \<and> xs ! (20 - (j - 5))" using h j by (simp add: holds_def)
    also have "20 - (j - 5) = 5 + (20 - j)" using True j by simp
    finally show ?thesis using l by auto
  next
    case False
    moreover have "length xs \<le> 16" using h by (simp add: holds_def)
    ultimately show ?thesis by (auto simp: bit_push_bit_iff)
  qed
  moreover have "length (drop 5 xs) \<le> 16" using h by (auto simp: holds_def)
  ultimately show ?thesis unfolding holds_def by blast
qed

lemma byte_bits_nth: "k < 8 \<Longrightarrow> byte_bits s ! k = bit s (7 - k)"
  by (auto simp: byte_bits_def less_Suc_eq numeral_eq_Suc)

lemma holds_load:
  assumes h: "holds t xs" and i: "length xs + i = 13" "5 \<le> i"
  shows "holds (t OR push_bit i (ucast s)) (xs @ byte_bits s)"
proof -
  have "bit (t OR push_bit i (ucast s)) j \<longleftrightarrow> 20 - j < length (xs @ byte_bits s) \<and> (xs @ byte_bits s) ! (20 - j)"
    if j: "j \<le> 20" for j
  proof -
    have t: "bit t j \<longleftrightarrow> 20 - j < length xs \<and> xs ! (20 - j)" using h j by (simp add: holds_def)
    have p: "bit (push_bit i (ucast s :: u32)) j \<longleftrightarrow> i \<le> j \<and> bit s (j - i)"
      using j by (auto simp: bit_push_bit_iff bit_unsigned_iff)
    consider "20 - j < length xs" | "length xs \<le> 20 - j" "20 - j < length xs + 8" | "length xs + 8 \<le> 20 - j"
      by linarith
    then show ?thesis
    proof cases
      case 1
      then have "8 \<le> j - i" using i j by linarith
      then have "\<not> bit s (j - i)" using bit_imp_le_length by fastforce
      then show ?thesis using 1 t p by (simp add: bit_or_iff nth_append)
    next
      case 2
      then have "7 - (20 - j - length xs) = j - i" "i \<le> j" using i j by linarith+
      then show ?thesis using 2 t p byte_bits_nth [of "20 - j - length xs" s]
        by (auto simp: bit_or_iff nth_append)
    next
      case 3
      then have "\<not> i \<le> j" using i j by linarith
      then show ?thesis using 3 t p by (auto simp: bit_or_iff)
    qed
  qed
  moreover have "length (xs @ byte_bits s) \<le> 16" using i by simp
  ultimately show ?thesis unfolding holds_def by blast
qed

text \<open>Decoding as a function of the bit stream.\<close>

fun dec_stream :: "nat \<Rightarrow> bool list \<Rightarrow> u8 list" where
  "dec_stream 0 bs = []"
| "dec_stream (Suc n) bs = (push_bit 4 (dec5 (take 5 bs)) OR dec5 (take 5 (drop 5 bs))) # dec_stream n (drop 10 bs)"

lemma decode_loop_stream:
  assumes "holds t xs" "length xs + i = 13" "5 \<le> i" "2 * length source \<le> length xs"
  shows "convert_from_GCR_loop source i t = dec_stream (length source) (xs @ concat (map byte_bits source))"
  using assms
proof (induction source arbitrary: t xs i)
  case (Cons s source)
  define ys where "ys = xs @ byte_bits s"
  define u where "u = t OR push_bit i (ucast s)"
  have l: "10 \<le> length ys" using Cons.prems(4) by (simp add: ys_def)
  have h: "holds u ys" using holds_load [OF Cons.prems(1-3)] by (simp add: ys_def u_def)
  have h5: "holds (push_bit 5 u) (drop 5 ys)" using holds_shift [OF h] l by simp
  have h10: "holds (push_bit 5 (push_bit 5 u)) (drop 10 ys)" using holds_shift [OF h5] l by simp
  have d: "from_GCR u = dec5 (take 5 ys)" "from_GCR (push_bit 5 u) = dec5 (take 5 (drop 5 ys))"
    using from_GCR_holds [OF h] from_GCR_holds [OF h5] l by simp_all
  have "convert_from_GCR_loop source (i + 2) (push_bit 5 (push_bit 5 u))
      = dec_stream (length source) (drop 10 ys @ concat (map byte_bits source))"
    using Cons.prems l by (intro Cons.IH h10) (simp_all add: ys_def)
  moreover have "convert_from_GCR_loop (s # source) i t
      = (push_bit 4 (from_GCR u) OR from_GCR (push_bit 5 u))
        # convert_from_GCR_loop source (i + 2) (push_bit 5 (push_bit 5 u))"
    by (simp only: convert_from_GCR_loop.simps Let_def u_def)
  moreover have "take 5 (ys @ zs) = take 5 ys" "take 5 (drop 5 (ys @ zs)) = take 5 (drop 5 ys)"
    "drop 10 (ys @ zs) = drop 10 ys @ zs" for zs
    using l by simp_all
  moreover have "xs @ concat (map byte_bits (s # source)) = ys @ concat (map byte_bits source)"
    by (simp add: ys_def)
  ultimately show ?case by (simp only: d dec_stream.simps length_Cons)
qed simp

lemma decode_stream:
  assumes "length gcr = 5"
  shows "gcr_convert_GCR_to_4bytes gcr = dec_stream 4 (concat (map byte_bits gcr))"
proof -
  obtain g gs where gcr: "gcr = g # gs" "length gs = 4" using assms by (auto simp: length_Suc_conv numeral_eq_Suc)
  have "holds 0 []" by (simp add: holds_def)
  from holds_load [OF this, of 13 g] have "holds (push_bit 13 (ucast g)) (byte_bits g)" by simp
  from decode_loop_stream [OF this, of 5 gs] show ?thesis
    using gcr by (simp add: gcr_convert_GCR_to_4bytes_def)
qed

section \<open>Round trip\<close>

lemma dec5_code: "n < 16 \<Longrightarrow> dec5 (code_bits n) = of_nat n"
proof -
  have "list_all (\<lambda>n. dec5 (code_bits n) = of_nat n) [0..<16]" by code_simp
  then show "n < 16 \<Longrightarrow> dec5 (code_bits n) = of_nat n" by (simp add: list_all_iff)
qed

lemma dec5_nibbles: "push_bit 4 (dec5 (code_bits (unat (drop_bit 4 b)))) OR dec5 (code_bits (unat (b AND 0x0f))) = b"
proof -
  have "push_bit 4 (drop_bit 4 b) OR (b AND 0x0f) = b"
  proof (rule bit_eqI)
    fix n
    have m: "(0x0f :: u8) = mask 4" by (simp add: mask_eq_exp_minus_1)
    assume "possible_bit TYPE(8 word) n"
    then show "bit (push_bit 4 (drop_bit 4 b) OR (b AND 0x0f)) n = bit b n"
      unfolding m by (cases "n < 4") (auto simp: bit_or_iff bit_and_iff bit_push_bit_iff bit_drop_bit_eq bit_mask_iff)
  qed
  then show ?thesis using nibble_less [of b] by (simp add: dec5_code)
qed

lemma dec_stream_nibbles: "dec_stream (length source) (concat (map nibble_bits source) @ rest) = source"
  by (induction source) (simp_all add: nibble_bits_def dec5_nibbles)

text \<open>
  Decoding inverts encoding: any four bytes, written as five bytes of GCR and read back,
  are the same four bytes.
\<close>

theorem gcr_code_roundtrip:
  assumes "length source = 4"
  shows "gcr_convert_GCR_to_4bytes (gcr_convert_4bytes_to_GCR source) = source"
proof -
  have "length (gcr_convert_4bytes_to_GCR source) = 5"
    using assms by (auto simp: gcr_convert_4bytes_to_GCR_def length_Suc_conv numeral_eq_Suc Let_def)
  then show ?thesis
    using dec_stream_nibbles [of source "[]"] by (simp add: decode_stream encode_bits assms)
qed

theorem gcr_code_roundtrip_witness:
  "gcr_convert_GCR_to_4bytes (gcr_convert_4bytes_to_GCR [0x08, 0xf1, 0x00, 0x23]) = [0x08, 0xf1, 0x00, 0x23]"
  by (rule gcr_code_roundtrip) simp

end
