(* ===== verification/Gcr_Track.thy ===== *)
theory Gcr_Track
  imports Gcr_Code
begin

text \<open>
  Raw tracks of \<^verbatim>\<open>src/src/gcr.c\<close> as circular bit streams: the scan for sync marks, the decoder
  and the writer over bits, and the theorem that a sector written is the sector read.
\<close>

section \<open>The track as bits\<close>

definition tbit :: "u8 list \<Rightarrow> nat \<Rightarrow> bool" where
  "tbit d i = bit (d ! (i div 8)) (7 - i mod 8)"

definition ones10 :: "u32 \<Rightarrow> bool" where
  "ones10 w \<longleftrightarrow> (\<forall>k<10. bit w k)"

lemma ones10_iff: "NOT w AND 0x3ff = 0 \<longleftrightarrow> ones10 w"
proof -
  have m: "(0x3ff :: u32) = mask 10" by (simp add: mask_eq_exp_minus_1)
  have "(\<forall>n<32. P n \<or> \<not> n < 10) \<longleftrightarrow> (\<forall>k<10. P k)" for P :: "nat \<Rightarrow> bool"
  proof (intro iffI allI impI)
    fix k :: nat assume h: "\<forall>n<32. P n \<or> \<not> n < 10" and k: "k < 10"
    then have "k < 32" by simp
    with h k show "P k" by blast
  qed blast
  then show ?thesis unfolding m ones10_def
    by (simp add: bit_eq_iff bit_and_iff bit_not_iff bit_mask_iff)
qed

lemma bit_push_byte: "k < 8 \<Longrightarrow> bit (push_bit s (ucast (x :: u8)) :: u32) k \<longleftrightarrow> s \<le> k \<and> bit x (k - s)"
  by (simp only: bit_push_bit_iff bit_unsigned_iff) auto

lemma bit_ucast_byte: "k < 8 \<Longrightarrow> bit (ucast (x :: u8) :: u32) k = bit x k"
  by (simp only: bit_unsigned_iff) auto

text \<open>Positions within one byte.\<close>

lemma same_byte:
  fixes p k :: nat
  assumes "p mod 8 + k < 8"
  shows "(p + k) div 8 = p div 8" "(p + k) mod 8 = p mod 8 + k"
proof -
  define a b where "a = p div 8" and "b = p mod 8"
  have p: "p = b + a * 8" by (simp add: a_def b_def)
  have b: "b + k < 8" using assms by (simp add: b_def)
  have "p + k = (b + k) + a * 8" using p by simp
  then have "(p + k) div 8 = a" "(p + k) mod 8 = b + k" using b by (simp_all only: div_mult_self1 mod_mult_self1) simp_all
  then show "(p + k) div 8 = p div 8" "(p + k) mod 8 = p mod 8 + k" by (simp_all only: a_def b_def)
qed

text \<open>The scan of \<^verbatim>\<open>gcr_find_sync\<close> over bits, on a track of \<open>m\<close> bits.\<close>

definition shift_in :: "u32 \<Rightarrow> bool \<Rightarrow> u32" where
  "shift_in w x = (if x then push_bit 1 w OR 1 else push_bit 1 w)"

definition next_pos :: "nat \<Rightarrow> nat \<Rightarrow> nat" where
  "next_pos m p = (if p + 1 \<ge> m then 0 else p + 1)"

fun scan :: "nat \<Rightarrow> (nat \<Rightarrow> bool) \<Rightarrow> nat \<Rightarrow> nat \<Rightarrow> u32 \<Rightarrow> nat option" where
  "scan 0 f m p w = None"
| "scan (Suc s) f m p w =
     (if \<not> f p \<and> ones10 w then Some p else scan s f m (next_pos m p) (shift_in w (f p)))"

definition sync_result :: "nat option \<Rightarrow> int" where
  "sync_result r = (case r of None \<Rightarrow> -3 | Some q \<Rightarrow> int q)"

lemma rd_nat: "i < length d \<Longrightarrow> rd d (int i) = Some (d ! i)"
  by (simp add: rd_def)

lemma find_sync_scan:
  assumes "0 < n" "n \<le> length d" "p < 8 * n"
    and "\<forall>k. p mod 8 + k < 8 \<longrightarrow> bit b (7 - k) = tbit d (p + k)"
  shows "find_sync_loop s d (int n) (int p) w b = Some (sync_result (scan s (tbit d) (8 * n) p w))"
  using assms(3,4)
proof (induction s arbitrary: p w b)
  case 0
  then show ?case by (simp add: sync_result_def fdc_errs)
next
  case (Suc s)
  have b7: "bit b 7 = tbit d p" using Suc.prems(2) [rule_format, of 0] by simp
  have w: "(if bit b 7 then push_bit 1 w OR 1 else push_bit 1 w) = shift_in w (tbit d p)"
    by (simp add: b7 shift_in_def)
  consider (found) "\<not> tbit d p \<and> ones10 w" | (inside) "\<not> (\<not> tbit d p \<and> ones10 w)" "p mod 8 \<noteq> 7"
    | (byte) "\<not> (\<not> tbit d p \<and> ones10 w)" "p mod 8 = 7" by blast
  then show ?case
  proof cases
    case found
    then show ?thesis by (simp add: b7 ones10_iff sync_result_def)
  next
    case inside
    have "p mod 8 < 8" by simp
    then have p2: "(p + 1) mod 8 = p mod 8 + 1" using inside(2) by (intro same_byte) linarith
    then have "p + 1 \<noteq> 8 * n" by (metis add_is_0 mod_mult_self1_is_0 one_neq_zero)
    then have p1: "p + 1 < 8 * n" using Suc.prems(1) by linarith
    have "int p mod 8 \<noteq> 7" using inside(2) by presburger
    moreover have "find_sync_loop s d (int n) (int (p + 1)) (shift_in w (tbit d p)) (push_bit 1 b)
        = Some (sync_result (scan s (tbit d) (8 * n) (p + 1) (shift_in w (tbit d p))))"
    proof (rule Suc.IH [OF p1], intro allI impI)
      fix k assume "(p + 1) mod 8 + k < 8"
      then show "bit (push_bit 1 b) (7 - k) = tbit d (p + 1 + k)"
        using p2 Suc.prems(2) [rule_format, of "Suc k"]
        by (simp only: bit_push_bit_iff) (auto simp: le_diff_conv2)
    qed
    moreover have "next_pos (8 * n) p = p + 1" using p1 by (simp add: next_pos_def)
    ultimately show ?thesis using inside(1)
      by (simp only: find_sync_loop.simps scan.simps b7 [symmetric] ones10_iff if_False if_True Let_def
          w [unfolded b7 [symmetric]] of_nat_add of_nat_1 not_False_eq_True)
  next
    case byte
    define q where "q = next_pos (8 * n) p"
    have q: "q < 8 * n" "q mod 8 = 0"
      using assms(1) byte(2) Suc.prems(1) by (auto simp: q_def next_pos_def) presburger
    then have qd: "q div 8 < length d" using assms(2) by linarith
    have int_q: "(if int p + 1 \<ge> int n * 8 then 0 else int p + 1) = int q"
      by (auto simp: q_def next_pos_def)
    have "int p mod 8 = 7" using byte(2) by presburger
    moreover have "rd d (int q div 8) = Some (d ! (q div 8))"
      using rd_nat [OF qd] by (simp add: zdiv_int)
    moreover have "find_sync_loop s d (int n) (int q) (shift_in w (tbit d p)) (ucast (d ! (q div 8)))
        = Some (sync_result (scan s (tbit d) (8 * n) q (shift_in w (tbit d p))))"
    proof (rule Suc.IH [OF q(1)], intro allI impI)
      fix k assume k: "q mod 8 + k < 8"
      have "7 - k < 8" by simp
      then show "bit (ucast (d ! (q div 8)) :: u32) (7 - k) = tbit d (q + k)"
        by (simp only: tbit_def same_byte [OF k] q(2) add_0 bit_ucast_byte)
    qed
    ultimately show ?thesis using byte(1)
      by (simp only: find_sync_loop.simps scan.simps b7 [symmetric] ones10_iff if_False Let_def int_q
          w [unfolded b7 [symmetric]] not_True_eq_False option.case q_def [symmetric] simp_thms)
  qed
qed

lemma gcr_find_sync_scan:
  assumes "t_data raw = Some d" "0 < t_size raw" "t_size raw \<le> length d" "p < 8 * t_size raw"
  shows "gcr_find_sync raw (int p) s = Some (sync_result (scan s (tbit d) (8 * t_size raw) p 0))"
proof -
  have pd: "p div 8 < length d" using assms(3,4) by linarith
  have "rd d (int p div 8) = Some (d ! (p div 8))" using rd_nat [OF pd] by (simp add: zdiv_int)
  moreover have "bit (push_bit (p mod 8) (ucast (d ! (p div 8))) :: u32) (7 - k) = tbit d (p + k)"
    if "p mod 8 + k < 8" for k
  proof -
    have "7 - k < 8" "p mod 8 \<le> 7 - k" using that by linarith+
    then show ?thesis
      by (simp only: tbit_def same_byte [OF that] bit_push_byte simp_thms diff_diff_left add.commute [of k])
  qed
  ultimately have "find_sync_loop s d (int (t_size raw)) (int p) 0 (push_bit (p mod 8) (ucast (d ! (p div 8))))
      = Some (sync_result (scan s (tbit d) (8 * t_size raw) p 0))"
    and "rd d (int p div 8) = Some (d ! (p div 8))"
    using find_sync_scan [OF assms(2,3,4)] by blast+
  moreover have "nat (int p mod 8) = p mod 8" by (simp add: nat_mod_distrib)
  ultimately show ?thesis
    using assms(1,2) by (simp only: gcr_find_sync_def option.case if_False neq0_conv [symmetric])
qed

section \<open>Decoding\<close>

lemma bit_push_u8: "k < 8 \<Longrightarrow> bit (push_bit s (x :: u8)) k \<longleftrightarrow> s \<le> k \<and> bit x (k - s)"
  by (simp only: bit_push_bit_iff) auto

lemma bit_high_byte: "k < 8 \<Longrightarrow> s \<le> 8 \<Longrightarrow>
    bit (ucast (drop_bit 8 (push_bit s (ucast (x :: u8)) :: u32)) :: u8) k \<longleftrightarrow> s \<le> 8 + k \<and> bit x (8 + k - s)"
  by (simp only: bit_unsigned_iff bit_drop_bit_eq bit_push_bit_iff comp_def) (auto dest: bit_imp_le_length)

lemma byte_bits_eqI:
  assumes "\<And>k. k < 8 \<Longrightarrow> bit g (7 - k) = f (p + k)"
  shows "byte_bits g = map f [p..<p + 8]"
  by (rule nth_equalityI) (simp_all add: byte_bits_nth assms)

lemma next_byte: "(p + 8 * n) div 8 = p div 8 + n" "(p + 8 * n) mod 8 = p mod 8" for p n :: nat
  by simp_all

text \<open>One byte of GCR at a bit position.\<close>

lemma gcr_byte:
  assumes "x = d ! (p div 8)" "y = d ! (p div 8 + 1)"
  shows "byte_bits (if p mod 8 \<noteq> 0 then push_bit (p mod 8) x OR ucast (drop_bit 8 (push_bit (p mod 8) (ucast y) :: u32))
      else push_bit (p mod 8) x) = map (tbit d) [p..<p + 8]"
proof (rule byte_bits_eqI)
  fix k :: nat assume k: "k < 8"
  define s where "s = p mod 8"
  have s8: "s < 8" by (simp add: s_def)
  have k7: "7 - k < 8" by simp
  have split: "bit (push_bit s x OR ucast (drop_bit 8 (push_bit s (ucast y) :: u32))) (7 - k)
      \<longleftrightarrow> s \<le> 7 - k \<and> bit x (7 - k - s) \<or> bit y (8 + (7 - k) - s)"
    using s8 by (simp only: bit_or_iff bit_push_u8 [OF k7] bit_high_byte [OF k7 less_imp_le [OF s8]]) auto
  consider (first) "s + k < 8" | (second) "8 \<le> s + k" by linarith
  then have "(if s \<noteq> 0 then bit (push_bit s x OR ucast (drop_bit 8 (push_bit s (ucast y) :: u32))) (7 - k)
      else bit (push_bit s x) (7 - k)) \<longleftrightarrow> tbit d (p + k)"
  proof cases
    case first
    have t: "tbit d (p + k) \<longleftrightarrow> bit x (7 - (s + k))"
      using same_byte [of p k] first by (simp add: tbit_def assms s_def)
    have "8 \<le> 8 + (7 - k) - s" using first by linarith
    then have "\<not> bit y (8 + (7 - k) - s)" using bit_imp_le_length [of y "8 + (7 - k) - s"] by auto
    moreover have "s \<le> 7 - k" "7 - k - s = 7 - (s + k)" using first by linarith+
    ultimately show ?thesis unfolding split t by (simp only: bit_push_u8 [OF k7]) simp
  next
    case second
    then obtain j where j: "s + k = 8 + j" "j < 8" using s8 k by (metis add_diff_inverse_nat add_less_mono
          less_diff_conv2 linorder_not_less nat_add_left_cancel_less)
    have p: "p + k = j + (p div 8 + 1) * 8" using j(1) by (simp add: s_def) (metis add.assoc add.commute
          div_mult_mod_eq)
    have "(p + k) div 8 = p div 8 + 1" "(p + k) mod 8 = j"
      unfolding p using j(2) by (simp_all only: div_mult_self1 mod_mult_self1) simp_all
    then have t: "tbit d (p + k) \<longleftrightarrow> bit y (7 - j)" by (simp only: tbit_def assms(2))
    have "\<not> s \<le> 7 - k" "8 + (7 - k) - s = 7 - j" "s \<noteq> 0" using second j k s8 by linarith+
    then show ?thesis unfolding split t by simp
  qed
  then show "bit (if p mod 8 \<noteq> 0 then push_bit (p mod 8) x OR ucast (drop_bit 8 (push_bit (p mod 8) (ucast y) :: u32))
      else push_bit (p mod 8) x) (7 - k) = tbit d (p + k)"
    unfolding s_def by (simp only: if_distrib [where f = "\<lambda>w. bit w (7 - k)"])
qed

lemma read_gcr_bits:
  assumes "p div 8 + n < sz" "sz \<le> length d"
  shows "\<exists>gs. read_gcr n d (int sz) (p mod 8) (int (p div 8)) (push_bit (p mod 8) (d ! (p div 8)))
      = Some (gs, int (p div 8 + n), push_bit (p mod 8) (d ! (p div 8 + n)))
    \<and> length gs = n \<and> concat (map byte_bits gs) = map (tbit d) [p..<p + 8 * n]"
  using assms(1)
proof (induction n arbitrary: p)
  case (Suc n)
  let ?o = "p div 8 + 1" and ?s = "p mod 8"
  let ?g = "if ?s \<noteq> 0 then push_bit ?s (d ! (p div 8)) OR ucast (drop_bit 8 (push_bit ?s (ucast (d ! ?o)) :: u32))
      else push_bit ?s (d ! (p div 8))"
  have o: "?o < length d" "(if int (p div 8) + 1 \<ge> int sz then 0 else int (p div 8) + 1) = int ?o"
    using Suc.prems assms(2) by auto
  have b: "(if ?s \<noteq> 0 then push_bit ?s (d ! ?o) else d ! ?o) = push_bit ?s (d ! ?o)" by simp
  obtain gs where gs: "read_gcr n d (int sz) ?s (int ?o) (push_bit ?s (d ! ?o))
      = Some (gs, int (p div 8 + Suc n), push_bit ?s (d ! (p div 8 + Suc n)))"
    "length gs = n" "concat (map byte_bits gs) = map (tbit d) [p + 8..<p + 8 + 8 * n]"
  proof -
    have "(p + 8) div 8 = ?o" "(p + 8) mod 8 = ?s" "?o + n = p div 8 + Suc n" by simp_all
    moreover have "?o + n < sz" using Suc.prems by simp
    ultimately show thesis using Suc.IH [of "p + 8"] that by auto
  qed
  have "read_gcr (Suc n) d (int sz) ?s (int (p div 8)) (push_bit ?s (d ! (p div 8)))
      = Some (?g # gs, int (p div 8 + Suc n), push_bit ?s (d ! (p div 8 + Suc n)))"
    using rd_nat [OF o(1)] gs(1)
    by (simp only: read_gcr.simps Let_def o(2) option.case b option.map prod.case)
  moreover have "byte_bits ?g = map (tbit d) [p..<p + 8]" by (rule gcr_byte) simp_all
  moreover have "map (tbit d) [p..<p + 8] @ map (tbit d) [p + 8..<p + 8 + 8 * n] = map (tbit d) [p..<p + 8 * Suc n]"
    by (simp only: map_append [symmetric] mult_Suc_right add.assoc [symmetric] upt_add_eq_append [OF le_add1, symmetric])
  ultimately show ?case using gs(2,3) by (intro exI [of _ "?g # gs"]) simp
qed simp

lemma dec_stream_append:
  "length xs = 10 * n \<Longrightarrow> dec_stream (n + m) (xs @ ys) = dec_stream n xs @ dec_stream m ys"
  by (induction n arbitrary: xs) simp_all

lemma decode_blocks_bits:
  assumes "p div 8 + 5 * num < sz" "sz \<le> length d"
  shows "decode_blocks num d (int sz) (p mod 8) (int (p div 8)) (push_bit (p mod 8) (d ! (p div 8)))
    = Some (dec_stream (4 * num) (map (tbit d) [p..<p + 40 * num]))"
  using assms(1)
proof (induction num arbitrary: p)
  case (Suc num)
  obtain gs where gs: "read_gcr 5 d (int sz) (p mod 8) (int (p div 8)) (push_bit (p mod 8) (d ! (p div 8)))
      = Some (gs, int (p div 8 + 5), push_bit (p mod 8) (d ! (p div 8 + 5)))"
    "length gs = 5" "concat (map byte_bits gs) = map (tbit d) [p..<p + 40]"
    using read_gcr_bits [of p 5 sz d] Suc.prems assms(2) by auto
  have q: "(p + 40) div 8 = p div 8 + 5" "(p + 40) mod 8 = p mod 8" using next_byte [of p 5] by simp_all
  have "decode_blocks num d (int sz) (p mod 8) (int (p div 8 + 5)) (push_bit (p mod 8) (d ! (p div 8 + 5)))
      = Some (dec_stream (4 * num) (map (tbit d) [p + 40..<p + 40 + 40 * num]))"
    using Suc.IH [of "p + 40"] Suc.prems unfolding q by simp
  moreover have "map (tbit d) [p..<p + 40] @ map (tbit d) [p + 40..<p + 40 + 40 * num]
      = map (tbit d) [p..<p + 40 * Suc num]"
    by (simp only: map_append [symmetric] mult_Suc_right add.assoc [symmetric] upt_add_eq_append [OF le_add1, symmetric])
  moreover have "4 * Suc num = 4 + 4 * num" by simp
  ultimately show ?case
    using gs dec_stream_append [of "map (tbit d) [p..<p + 40]" 4 "4 * num"]
    by (simp del: upt_Suc mult_Suc_right add: decode_stream) metis
qed simp

lemma decode_block_bits:
  assumes "t_data raw = Some d" "t_size raw \<le> length d" "p div 8 + 5 * num < t_size raw"
  shows "gcr_decode_block raw (int p) num = Some (dec_stream (4 * num) (map (tbit d) [p..<p + 40 * num]))"
proof -
  have "p div 8 < length d" using assms(2,3) by linarith
  moreover have "nat (int p mod 8) = p mod 8" "int p div 8 = int (p div 8)"
    by (simp_all add: nat_mod_distrib zdiv_int)
  ultimately show ?thesis
    using assms(1) decode_blocks_bits [OF assms(3,2)]
    by (simp only: gcr_decode_block_def Let_def option.case rd_nat bind.bind_lunit)
qed

end
