(* ===== verification/Gcr_Sectors.thy ===== *)
theory Gcr_Sectors
  imports Gcr_Track
begin

text \<open>
  Reading and writing sectors of a raw track, \<^verbatim>\<open>gcr_read_sector\<close> and \<^verbatim>\<open>gcr_write_sector\<close> of
  \<^verbatim>\<open>src/src/gcr.c\<close>.
\<close>

section \<open>Writing bits\<close>

text \<open>
  The writer half way: up to the byte of position \<open>p\<close> the track \<open>d\<close> has the bits \<open>f\<close>, from
  there on it is the old track \<open>d0\<close>, and the carry holds the first bits of that byte.
\<close>

definition written :: "(nat \<Rightarrow> bool) \<Rightarrow> u8 list \<Rightarrow> nat \<Rightarrow> u8 list \<Rightarrow> u8 \<Rightarrow> bool" where
  "written f d0 p d b \<longleftrightarrow> length d = length d0
     \<and> (\<forall>x. p div 8 \<le> x \<longrightarrow> d ! x = d0 ! x)
     \<and> (\<forall>i < 8 * (p div 8). tbit d i = f i)
     \<and> (\<forall>k < 8. bit b (7 - k) \<longleftrightarrow> k < p mod 8 \<and> f (8 * (p div 8) + k))"

lemma tbit_byte: "k < 8 \<Longrightarrow> tbit d (8 * x + k) = bit (d ! x) (7 - k)"
  by (simp add: tbit_def)

lemma tbit_update_other: "i div 8 \<noteq> x \<Longrightarrow> tbit (d[x := v]) i = tbit d i"
  by (simp add: tbit_def)

lemma bits_below_byte:
  assumes "\<forall>i < 8 * x. tbit d i = f i" "x < length d" "\<forall>k<8. bit v (7 - k) = f (8 * x + k)"
  shows "\<forall>i < 8 * (x + 1). tbit (d[x := v]) i = f i"
proof (intro allI impI)
  fix i assume i: "i < 8 * (x + 1)"
  show "tbit (d[x := v]) i = f i"
  proof (cases "i div 8 = x")
    case True
    then have "i = 8 * x + i mod 8" "i mod 8 < 8" using mult_div_mod_eq [of 8 i] by simp_all
    then obtain k where k: "i = 8 * x + k" "k < 8" by blast
    then show ?thesis using assms(2,3) by (simp only: k(1) tbit_byte [OF k(2)] nth_list_update_eq)
  next
    case False
    moreover have "i div 8 < x + 1" using i by (simp add: div_less_iff_less_mult)
    ultimately have "i div 8 < x" by simp
    then have "i < 8 * x" by (simp add: div_less_iff_less_mult mult.commute)
    then show ?thesis using assms(1) tbit_update_other [OF False] by simp
  qed
qed

lemma write_step:
  assumes w: "written f d0 p d b" and o: "p div 8 < length d0" "p div 8 + 1 < sz"
    and g: "\<forall>k<8. bit g (7 - k) = f (p + k)"
  shows "\<exists>d' b'. write_gcr (g # gs) (int sz) (p mod 8) (d, int (p div 8), b)
      = write_gcr gs (int sz) ((p + 8) mod 8) (d', int ((p + 8) div 8), b')
    \<and> written f d0 (p + 8) d' b'"
proof -
  define s x where "s = p mod 8" and "x = p div 8"
  have p: "p = 8 * x + s" and s8: "s < 8" by (simp_all add: s_def x_def)
  let ?v = "if s \<noteq> 0 then b OR drop_bit s g else g"
  let ?b = "if s \<noteq> 0 then ucast (drop_bit s (push_bit 8 (ucast g) :: u32)) else b"
  have wr: "length d = length d0" "\<forall>y. x \<le> y \<longrightarrow> d ! y = d0 ! y" "\<forall>i < 8 * x. tbit d i = f i"
    "\<forall>k < 8. bit b (7 - k) \<longleftrightarrow> k < s \<and> f (8 * x + k)"
    using w by (simp_all add: written_def s_def x_def)
  have v: "\<forall>k<8. bit ?v (7 - k) = f (8 * x + k)"
  proof (intro allI impI)
    fix k :: nat assume k: "k < 8"
    show "bit ?v (7 - k) = f (8 * x + k)"
    proof (cases "k < s")
      case True
      then have "8 \<le> s + (7 - k)" by linarith
      then have "\<not> bit g (s + (7 - k))" using bit_imp_le_length [of g "s + (7 - k)"] by auto
      then show ?thesis using True k wr(4) by (simp add: bit_or_iff bit_drop_bit_eq)
    next
      case False
      then have e: "s + (7 - k) = 7 - (k - s)" "p + (k - s) = 8 * x + k" using k p by linarith+
      have "bit g (7 - (k - s)) = f (p + (k - s))" using g k by simp
      then have g': "bit g (s + (7 - k)) = f (8 * x + k)" by (simp only: e)
      show ?thesis using False k wr(4) g' by (cases "s = 0") (simp_all add: bit_or_iff bit_drop_bit_eq)
    qed
  qed
  have b: "\<forall>k<8. bit ?b (7 - k) \<longleftrightarrow> k < s \<and> f (8 * (x + 1) + k)"
  proof (intro allI impI)
    fix k :: nat assume k: "k < 8"
    show "bit ?b (7 - k) \<longleftrightarrow> k < s \<and> f (8 * (x + 1) + k)"
    proof (cases "s = 0")
      case True
      then show ?thesis using wr(4) k by simp
    next
      case False
      have "bit (ucast (drop_bit s (push_bit 8 (ucast g) :: u32)) :: u8) (7 - k)
          \<longleftrightarrow> 8 \<le> s + (7 - k) \<and> bit g (s + (7 - k) - 8)"
        using s8 by (simp only: bit_unsigned_iff bit_drop_bit_eq bit_push_bit_iff comp_def)
          (auto dest: bit_imp_le_length)
      moreover have "bit g (s + (7 - k) - 8) = f (8 * (x + 1) + k)" if "k < s"
      proof -
        have e: "s + (7 - k) - 8 = 7 - (8 - s + k)" "p + (8 - s + k) = 8 * (x + 1) + k" "8 - s + k < 8"
          using that s8 k p by arith+
        have "bit g (7 - (8 - s + k)) = f (p + (8 - s + k))" using g e(3) by simp
        then show ?thesis by (simp only: e)
      qed
      moreover have "8 \<le> s + (7 - k) \<longleftrightarrow> k < s" using k by linarith
      ultimately show ?thesis using False by auto
    qed
  qed
  have x: "x < length d" "\<not> int x + 1 \<ge> int sz" using o wr(1) by (simp_all add: x_def)
  have q: "(p + 8) div 8 = x + 1" "(p + 8) mod 8 = s" by (simp_all add: s_def x_def)
  have "written f d0 (p + 8) (d[x := ?v]) ?b"
    unfolding written_def q using wr(1,2) x(1) b bits_below_byte [OF wr(3) x(1) v] by simp
  moreover have "write_gcr (g # gs) (int sz) (p mod 8) (d, int (p div 8), b)
      = write_gcr gs (int sz) ((p + 8) mod 8) (d[x := ?v], int ((p + 8) div 8), ?b)"
    using x unfolding q s_def [symmetric] x_def [symmetric] by (simp add: Let_def add.commute)
  ultimately show ?thesis by blast
qed

lemma write_gcr_bits:
  assumes "written f d0 p d b" "p div 8 + length gs < sz" "sz \<le> length d0"
    and "concat (map byte_bits gs) = map f [p..<p + 8 * length gs]"
  shows "\<exists>d' b'. write_gcr gs (int sz) (p mod 8) (d, int (p div 8), b)
      = Some (d', int (p div 8 + length gs), b') \<and> written f d0 (p + 8 * length gs) d' b'"
  using assms(1,2,4)
proof (induction gs arbitrary: p d b)
  case Nil
  then show ?case by simp
next
  case (Cons g gs)
  let ?n = "length gs"
  have "[p..<p + 8 * length (g # gs)] = [p..<p + 8] @ [p + 8..<p + 8 + 8 * ?n]"
    by (simp only: length_Cons mult_Suc_right add.assoc [symmetric] upt_add_eq_append [OF le_add1, symmetric])
  then have "byte_bits g @ concat (map byte_bits gs) = map f [p..<p + 8] @ map f [p + 8..<p + 8 + 8 * ?n]"
    using Cons.prems(3) by (simp del: upt_Suc)
  then have g: "byte_bits g = map f [p..<p + 8]" and gs: "concat (map byte_bits gs) = map f [p + 8..<p + 8 + 8 * ?n]"
    by (simp_all add: append_eq_append_conv)
  have "bit g (7 - k) = f (p + k)" if "k < 8" for k
    using arg_cong [OF g, of "\<lambda>xs. xs ! k"] that by (simp add: byte_bits_nth)
  then obtain d' b' where step: "write_gcr (g # gs) (int sz) (p mod 8) (d, int (p div 8), b)
      = write_gcr gs (int sz) ((p + 8) mod 8) (d', int ((p + 8) div 8), b')" "written f d0 (p + 8) d' b'"
    using write_step [OF Cons.prems(1), of sz g gs] Cons.prems(2) assms(3) by auto
  have e: "(p + 8) div 8 + ?n = p div 8 + length (g # gs)" "p + 8 + 8 * ?n = p + 8 * length (g # gs)" by simp_all
  have "(p + 8) div 8 + ?n < sz" using Cons.prems(2) by simp
  from Cons.IH [OF step(2) this gs] show ?case unfolding e step(1) .
qed

lemma blocks_write_gcr:
  "4 * n \<le> length buf \<Longrightarrow> write_blocks n buf sz s st
     = write_gcr (concat (map (\<lambda>i. gcr_convert_4bytes_to_GCR (drop (4 * i) buf)) [0..<n])) sz s st"
proof (induction n arbitrary: buf st)
  case (Suc n)
  have app: "write_gcr (xs @ ys) sz s st = Option.bind (write_gcr xs sz s st) (write_gcr ys sz s)" for xs ys st
    by (induction xs sz s st rule: write_gcr.induct) (simp_all add: Let_def)
  have "concat (map (\<lambda>i. gcr_convert_4bytes_to_GCR (drop (4 * i) buf)) [0..<Suc n])
      = gcr_convert_4bytes_to_GCR buf
        @ concat (map (\<lambda>i. gcr_convert_4bytes_to_GCR (drop (4 * i) (drop 4 buf))) [0..<n])"
    by (simp only: upt_conv_Cons [of 0 "Suc n"] map_Suc_upt [symmetric] map_map zero_less_Suc)
      (simp add: comp_def add.commute)
  then show ?case using Suc by (simp only: write_blocks.simps app) (cases "write_gcr (gcr_convert_4bytes_to_GCR buf) sz s st"; simp)
qed simp

lemma blocks_bits:
  "4 * n \<le> length buf \<Longrightarrow> concat (map byte_bits
      (concat (map (\<lambda>i. gcr_convert_4bytes_to_GCR (drop (4 * i) buf)) [0..<n]))) = concat (map nibble_bits (take (4 * n) buf))"
proof (induction n)
  case (Suc n)
  have take4: "gcr_convert_4bytes_to_GCR xs = gcr_convert_4bytes_to_GCR (take 4 xs)" for xs
    by (simp add: gcr_convert_4bytes_to_GCR_def)
  have "concat (map byte_bits (gcr_convert_4bytes_to_GCR (drop (4 * n) buf)))
      = concat (map nibble_bits (take 4 (drop (4 * n) buf)))"
    unfolding take4 [of "drop (4 * n) buf"] using Suc.prems by (intro encode_bits) simp
  moreover have "take (4 * Suc n) buf = take (4 * n) buf @ take 4 (drop (4 * n) buf)"
    using take_add [of "4 * n" 4 buf] by (simp only: mult_Suc_right add.commute [of 4])
  ultimately show ?case using Suc by simp
qed simp

section \<open>What a write does to the track\<close>

definition data_block :: "u8 list \<Rightarrow> u8 list" where
  "data_block data = 0x07 # data @ [xor_all (hd data) (tl data), 0, 0]"

definition overlay :: "nat \<Rightarrow> bool list \<Rightarrow> (nat \<Rightarrow> bool) \<Rightarrow> nat \<Rightarrow> bool" where
  "overlay p xs f i = (if p \<le> i \<and> i < p + length xs then xs ! (i - p) else f i)"

lemma overlay_here: "map (overlay p xs f) [p..<p + length xs] = xs"
  by (rule nth_equalityI) (simp_all add: overlay_def)

lemma length_nibbles: "length (concat (map nibble_bits bs)) = 10 * length bs"
  by (induction bs) simp_all

lemma write_sector_track:
  assumes raw: "t_data raw = Some d" "t_size raw \<le> length d" and len: "length data = 256"
    and blk: "find_data_block fuel raw sector = Some (int p)" and fit: "p div 8 + 325 < t_size raw"
  shows "\<exists>d'. gcr_write_sector fuel raw data sector = Some (CBMDOS_FDC_ERR_OK, raw\<lparr>t_data := Some d'\<rparr>)
    \<and> length d' = length d
    \<and> (\<forall>i < 8 * length d. tbit d' i = overlay p (concat (map nibble_bits (data_block data))) (tbit d) i)"
proof -
  define f where "f = overlay p (concat (map nibble_bits (data_block data))) (tbit d)"
  define s o1 where "s = p mod 8" and "o1 = p div 8 + 325"
  have s8: "s < 8" by (simp add: s_def)
  let ?b = "d ! (p div 8) AND ucast (drop_bit s (0xff00 :: u32))"
  let ?gs = "concat (map (\<lambda>i. gcr_convert_4bytes_to_GCR (drop (4 * i) (data_block data))) [0..<65])"
  have lb: "length (data_block data) = 260" using len by (simp add: data_block_def)
  have gs: "concat (map byte_bits ?gs) = concat (map nibble_bits (data_block data))"
    using blocks_bits [of 65 "data_block data"] lb by (simp del: upt_Suc upt_rec_numeral)
  then have lg: "length ?gs = 325"
  proof -
    have "length (concat (map byte_bits bs)) = 8 * length bs" for bs by (induction bs) simp_all
    from this [of ?gs] show ?thesis unfolding gs length_nibbles lb by simp
  qed
  have f0: "f i = tbit d i" if "i < p" for i using that by (simp add: f_def overlay_def)
  have w0: "written f d p d ?b"
    unfolding written_def s_def [symmetric]
  proof (intro conjI allI impI refl)
    fix i assume "i < 8 * (p div 8)"
    then have "i < p" using mult_div_mod_eq [of 8 p] by linarith
    then show "tbit d i = f i" by (simp add: f0)
  next
    fix k :: nat assume k: "k < 8"
    have "bit (ucast (drop_bit s (0xff00 :: u32)) :: u8) (7 - k) \<longleftrightarrow> bit (0xff00 :: u32) (s + (7 - k))"
      by (simp only: bit_unsigned_iff bit_drop_bit_eq comp_def) auto
    also have "\<dots> \<longleftrightarrow> k < s"
    proof -
      have "(0xff00 :: u32) = push_bit 8 (mask 8)" by (simp add: mask_eq_exp_minus_1 push_bit_eq_mult)
      then have "bit (0xff00 :: u32) (s + (7 - k)) \<longleftrightarrow> 8 \<le> s + (7 - k) \<and> s + (7 - k) - 8 < 8"
        using s8 by (simp only: bit_push_bit_iff bit_mask_iff) auto
      then show ?thesis using s8 k by auto
    qed
    finally have m: "bit ?b (7 - k) \<longleftrightarrow> k < s \<and> bit (d ! (p div 8)) (7 - k)" by (auto simp: bit_and_iff)
    have "f (8 * (p div 8) + k) = bit (d ! (p div 8)) (7 - k)" if "k < s"
    proof -
      have "8 * (p div 8) + k < p" using that mult_div_mod_eq [of 8 p] unfolding s_def by linarith
      then show ?thesis using k by (simp only: f0 tbit_byte)
    qed
    then show "bit ?b (7 - k) \<longleftrightarrow> k < s \<and> f (8 * (p div 8) + k)" using m by blast
  qed
  have fs: "map f [p..<p + 8 * length ?gs] = concat (map byte_bits ?gs)"
    unfolding gs f_def lg using overlay_here [of p "concat (map nibble_bits (data_block data))" "tbit d"]
    by (simp only: length_nibbles lb) simp
  obtain d' b' where wr: "write_blocks 65 (data_block data) (int (t_size raw)) s (d, int (p div 8), ?b)
      = Some (d', int o1, b')" "written f d (p + 2600) d' b'"
    using write_gcr_bits [OF w0 _ raw(2), of ?gs] fit fs lg lb
      blocks_write_gcr [of 65 "data_block data" "int (t_size raw)" s]
    by (auto simp: o1_def s_def simp del: upt_Suc upt_rec_numeral)
  have q: "(p + 2600) div 8 = o1" "(p + 2600) mod 8 = s" using next_byte [of p 325] by (simp_all add: o1_def s_def)
  have o1: "o1 < length d" using fit raw(2) by (simp add: o1_def)
  let ?x = "b' OR (d' ! o1 AND ucast (drop_bit s (0xff :: u32)))"
  have ws: "length d' = length d" "\<forall>x. o1 \<le> x \<longrightarrow> d' ! x = d ! x" "\<forall>i < 8 * o1. tbit d' i = f i"
    "\<forall>k < 8. bit b' (7 - k) \<longleftrightarrow> k < s \<and> f (8 * o1 + k)"
    using wr(2) by (simp_all add: written_def q)
  have after: "f i = tbit d i" if "p + 2600 \<le> i" for i
    using that length_nibbles [of "data_block data"] lb by (simp add: f_def overlay_def)
  have "\<forall>k<8. bit ?x (7 - k) = f (8 * o1 + k)"
  proof (intro allI impI)
    fix k :: nat assume k: "k < 8"
    have "bit (ucast (drop_bit s (0xff :: u32)) :: u8) (7 - k) \<longleftrightarrow> bit (0xff :: u32) (s + (7 - k))"
      by (simp only: bit_unsigned_iff bit_drop_bit_eq comp_def) auto
    also have "\<dots> \<longleftrightarrow> s \<le> k"
    proof -
      have "(0xff :: u32) = mask 8" by (simp add: mask_eq_exp_minus_1)
      then show ?thesis using k by (simp only: bit_mask_iff) auto
    qed
    finally have m: "bit ?x (7 - k) \<longleftrightarrow> bit b' (7 - k) \<or> bit (d ! o1) (7 - k) \<and> s \<le> k"
      using ws(2) by (auto simp: bit_or_iff bit_and_iff)
    have "p + 2600 \<le> 8 * o1 + k" if "s \<le> k" using that mult_div_mod_eq [of 8 "p + 2600"] unfolding q by linarith
    then have "bit (d ! o1) (7 - k) = f (8 * o1 + k)" if "s \<le> k" using after that k by (simp add: tbit_byte)
    then show "bit ?x (7 - k) = f (8 * o1 + k)" using m ws(4) k by auto
  qed
  with ws(1,3) o1 have bits1: "\<forall>i < 8 * (o1 + 1). tbit (d'[o1 := ?x]) i = f i"
    by (intro bits_below_byte) simp_all
  have bits: "tbit (d'[o1 := ?x]) i = f i" if "i < 8 * length d" for i
  proof (cases "i < 8 * (o1 + 1)")
    case False
    then have "o1 + 1 \<le> i div 8" by (simp add: less_eq_div_iff_mult_less_eq mult.commute)
    then have "tbit (d'[o1 := ?x]) i = tbit d i" using ws(2) by (simp add: tbit_def)
    moreover have "p + 2600 \<le> i" using False mult_div_mod_eq [of 8 "p + 2600"] s8 unfolding q by simp
    ultimately show ?thesis by (simp add: after)
  qed (use bits1 in blast)
  have pd: "p div 8 < length d" using fit raw(2) by linarith
  have "nat (int p mod 8) = s" "int p div 8 = int (p div 8)" by (simp_all add: s_def nat_mod_distrib zdiv_int)
  then have "gcr_write_sector fuel raw data sector
      = Some (CBMDOS_FDC_ERR_OK, raw\<lparr>t_data := Some (d'[o1 := ?x])\<rparr>)"
    using blk raw(1) rd_nat [OF pd] wr(1) rd_nat [of o1 d'] o1 ws(1)
    by (simp add: gcr_write_sector_def Let_def data_block_def [symmetric])
  then show ?thesis using bits ws(1) by (intro exI [of _ "d'[o1 := ?x]"]) (simp add: f_def)
qed

section \<open>The searches on two tracks\<close>

lemma next_pos_mod: "p < m \<Longrightarrow> next_pos m p = (p + 1) mod m"
proof -
  assume p: "p < m"
  show "next_pos m p = (p + 1) mod m"
  proof (cases "p + 1 = m")
    case False
    then show ?thesis using p by (simp add: next_pos_def)
  qed (simp add: next_pos_def)
qed

lemma scan_Suc:
  "\<not> (\<not> f p \<and> ones10 w) \<Longrightarrow> scan (Suc s) f m p w = scan s f m (next_pos m p) (shift_in w (f p))"
  by (simp only: scan.simps if_False)

lemma scan_pos: "scan s f m p w = Some q \<Longrightarrow> p < m \<Longrightarrow> \<exists>j. j < s \<and> q = (p + j) mod m"
proof (induction s arbitrary: p w)
  case (Suc s)
  show ?case
  proof (cases "\<not> f p \<and> ones10 w")
    case True
    then show ?thesis using Suc.prems by (intro exI [of _ 0]) simp
  next
    case False
    have n: "next_pos m p < m" "next_pos m p = (p + 1) mod m" using Suc.prems(2) by (simp_all only: next_pos_mod mod_less_divisor)
    obtain j where "j < s" "q = (next_pos m p + j) mod m"
      using Suc.IH [OF _ n(1)] Suc.prems(1) scan_Suc [of f p w s m, OF False] by metis
    then show ?thesis unfolding n(2) by (intro exI [of _ "Suc j"]) (simp add: mod_add_left_eq)
  qed
qed simp

lemma scan_ahead:
  assumes "scan s f m (next_pos m p) w = Some q" "s < m" "p < m" "p \<le> q"
  shows "next_pos m p = p + 1 \<and> p + 1 \<le> q"
proof -
  have n: "next_pos m p < m" using assms(3) by (auto simp: next_pos_def)
  obtain j where j: "j < s" "q = (next_pos m p + j) mod m" using scan_pos [OF assms(1) n] by blast
  show ?thesis
  proof (cases "p + 1 < m")
    case True
    then have np: "next_pos m p = p + 1" by (simp add: next_pos_def)
    have "q \<noteq> p"
    proof
      assume "q = p"
      then have e: "(p + (1 + j)) mod m = p mod m" using j np assms(3) by simp
      have "(1 + j) mod m = 0"
        using e by (metis add.right_neutral mod_add_cong mod_0 nat_add_left_cancel_less mod_eq_0_iff_dvd
            mod_eq_dvd_iff_nat add_diff_cancel_left' le_add1)
      then show False using j(1) assms(2) by simp
    qed
    then show ?thesis using np assms(4) by simp
  next
    case False
    then have "next_pos m p = 0" by (simp add: next_pos_def)
    then have "q = j" using j assms(2) by simp
    then show ?thesis using False j(1) assms(2,3,4) by simp
  qed
qed

text \<open>A scan that does not wrap looks only at the bits up to its result.\<close>

lemma scan_cong:
  assumes "scan s f m p w = Some q" "s \<le> m" "p < m" "p \<le> q" "\<And>i. p \<le> i \<Longrightarrow> i \<le> q \<Longrightarrow> f i = g i"
  shows "scan s g m p w = Some q"
  using assms
proof (induction s arbitrary: p w)
  case (Suc s)
  have fp: "f p = g p" using Suc.prems(4,5) by simp
  show ?case
  proof (cases "\<not> f p \<and> ones10 w")
    case True
    then show ?thesis using Suc.prems(1) fp by simp
  next
    case False
    then have sc: "scan s f m (next_pos m p) (shift_in w (f p)) = Some q"
      using Suc.prems(1) scan_Suc [of f p w s m, OF False] by metis
    have a: "next_pos m p = p + 1" "p + 1 \<le> q"
      using scan_ahead [OF sc] Suc.prems(2-4) by auto
    have "q < m"
    proof -
      have "next_pos m p < m" using Suc.prems(3) by (auto simp: next_pos_def)
      then show ?thesis using scan_pos [OF sc] Suc.prems(3) by (auto intro: mod_less_divisor)
    qed
    then have "scan s g m (next_pos m p) (shift_in w (f p)) = Some q"
      using Suc.prems(2,5) sc a by (intro Suc.IH) auto
    moreover have "scan (Suc s) g m p w = scan s g m (next_pos m p) (shift_in w (g p))"
      using False fp by (intro scan_Suc) simp
    ultimately show ?thesis by (simp only: fp)
  qed
qed simp

lemma scan_zero: "scan s f m p w = Some q \<Longrightarrow> \<not> f q"
  by (induction s arbitrary: p w) (auto split: if_splits)

lemma scan_more: "scan s f m p w = Some q \<Longrightarrow> s \<le> s' \<Longrightarrow> scan s' f m p w = Some q"
proof (induction s arbitrary: s' p w)
  case (Suc s)
  then obtain t where "s' = Suc t" "s \<le> t" by (cases s') auto
  then show ?case using Suc by (auto split: if_splits)
qed simp

text \<open>A register whose recent bits end in a zero is as good as an empty one.\<close>

definition alike :: "u32 \<Rightarrow> u32 \<Rightarrow> bool" where
  "alike w v \<longleftrightarrow> (\<exists>j. (\<forall>k<j. bit w k = bit v k) \<and> (j < 10 \<longrightarrow> \<not> bit w j \<and> \<not> bit v j))"

lemma bit_shift_in: "bit (shift_in w x) k \<longleftrightarrow> (if k = 0 then x else k < 32 \<and> bit w (k - 1))"
proof -
  have "bit (push_bit 1 w) k \<longleftrightarrow> k \<noteq> 0 \<and> k < 32 \<and> bit w (k - 1)"
    by (simp only: bit_push_bit_iff) auto
  then have "bit (push_bit 1 w OR 1) k \<longleftrightarrow> k = 0 \<or> k < 32 \<and> bit w (k - 1)"
    and "bit (push_bit 1 w) k \<longleftrightarrow> k \<noteq> 0 \<and> k < 32 \<and> bit w (k - 1)"
    unfolding bit_or_iff bit_1_iff by auto
  then show ?thesis unfolding shift_in_def by (cases x) (simp_all only: if_True if_False, auto)
qed

lemma alike_ones10: "alike w v \<Longrightarrow> ones10 w = ones10 v"
proof -
  assume "alike w v"
  then obtain j where j: "\<forall>k<j. bit w k = bit v k" "j < 10 \<longrightarrow> \<not> bit w j \<and> \<not> bit v j" by (auto simp: alike_def)
  show "ones10 w = ones10 v"
  proof (cases "j < 10")
    case True
    then show ?thesis using j by (auto simp: ones10_def)
  next
    case False
    then have "\<forall>k<10. bit w k = bit v k" using j(1) by simp
    then show ?thesis by (auto simp: ones10_def)
  qed
qed

lemma alike_shift_in: "alike w v \<Longrightarrow> alike (shift_in w x) (shift_in v x)"
proof -
  assume "alike w v"
  then obtain j where j: "\<forall>k<j. bit w k = bit v k" "j < 10 \<longrightarrow> \<not> bit w j \<and> \<not> bit v j" by (auto simp: alike_def)
  have "bit (shift_in w x) k = bit (shift_in v x) k" if "k < Suc j" for k
    using that j(1) by (cases k) (simp_all add: bit_shift_in)
  moreover have "Suc j < 10 \<longrightarrow> \<not> bit (shift_in w x) (Suc j) \<and> \<not> bit (shift_in v x) (Suc j)"
    using j(2) by (simp add: bit_shift_in)
  ultimately show ?thesis unfolding alike_def by blast
qed

lemma scan_alike: "alike w v \<Longrightarrow> scan s f m p w = scan s f m p v"
  by (induction s arbitrary: p w v) (simp_all add: alike_ones10 alike_shift_in)

text \<open>On a track that ends in a zero bit, a scan that wraps finds the first mark of the track.\<close>

lemma scan_wraps:
  assumes "scan s f m p w = Some q" "s \<le> m" "p < m" "q < p" "\<not> f (m - 1)"
  shows "scan m f m 0 0 = Some q"
  using assms
proof (induction s arbitrary: p w)
  case (Suc s)
  then have nf: "\<not> (\<not> f p \<and> ones10 w)" by (auto split: if_splits)
  then have sc: "scan s f m (next_pos m p) (shift_in w (f p)) = Some q"
    using Suc.prems(1) scan_Suc [of f p w s m, OF nf] by metis
  show ?case
  proof (cases "p + 1 < m")
    case True
    then have n: "next_pos m p = p + 1" by (simp add: next_pos_def)
    show ?thesis
    proof (rule Suc.IH [OF sc _ _ _ Suc.prems(5)])
      show "s \<le> m" "next_pos m p < m" "q < next_pos m p"
        using Suc.prems(2,4) True unfolding n by linarith+
    qed
  next
    case False
    then have m: "m = p + 1" using Suc.prems(3) by simp
    have n: "next_pos m p = 0" "f p = False" using Suc.prems(5) by (simp_all add: m next_pos_def)
    have a: "alike (shift_in w False) 0"
      unfolding alike_def by (intro exI [of _ 0]) (simp add: bit_shift_in)
    have "scan s f m 0 0 = Some q" using sc unfolding n scan_alike [OF a] .
    then show ?thesis by (rule scan_more) (use Suc.prems(2) in simp)
  qed
qed simp

section \<open>Reading back\<close>

text \<open>
  Two tracks that agree up to the data block: the search for a header before it, which does
  not run past the end of the track when the track ends in a zero bit, has the same result.
\<close>

lemma header_step:
  assumes "gcr_find_sync raw p0 (t_size raw * 8) = Some p"
  shows "find_header_loop (Suc fuel) raw sector p0 p2 =
    (if p2 = p then Some (if p2 < 0 then p2 else - int CBMDOS_FDC_ERR_HEADER)
     else case gcr_decode_block raw p 1 of None \<Rightarrow> None
       | Some header \<Rightarrow> if header ! 0 = 0x08 \<and> header ! 2 = sector then Some p
           else find_header_loop fuel raw sector p (if p2 < 0 then p else p2))"
  by (simp only: find_header_loop.simps assms option.case Let_def)

lemma header_search_cong:
  assumes raw: "t_data raw = Some d" "0 < n" "t_size raw = n" "n \<le> length d"
    and raw': "t_data raw' = Some d'" "t_size raw' = n" "n \<le> length d'"
    and same: "\<And>i. i < b \<Longrightarrow> tbit d i = tbit d' i" and b: "ph + 40 \<le> b" "b + 8 < 8 * n"
    and zero: "\<not> tbit d (8 * n - 1)"
    and p0: "p0 < 8 * n" "p2 = -3 \<and> p0 = 0 \<or> (\<exists>q. p2 = int q \<and> scan (8 * n) (tbit d) (8 * n) 0 0 = Some q)"
    and found: "find_header_loop fuel raw sector (int p0) p2 = Some (int ph)"
  shows "p0 \<le> ph \<and> find_header_loop fuel raw' sector (int p0) p2 = Some (int ph)"
  using p0 found
proof (induction fuel arbitrary: p0 p2)
  case 0
  then show ?case by simp
next
  case (Suc fuel)
  let ?m = "8 * n"
  define r r' where "r = sync_result (scan ?m (tbit d) ?m p0 0)" and "r' = sync_result (scan ?m (tbit d') ?m p0 0)"
  have m: "t_size raw * 8 = ?m" "t_size raw' * 8 = ?m" using raw(3) raw'(2) by simp_all
  have fs: "gcr_find_sync raw (int p0) (t_size raw * 8) = Some r"
    "gcr_find_sync raw' (int p0) (t_size raw' * 8) = Some r'"
    using gcr_find_sync_scan [of raw d p0 ?m] gcr_find_sync_scan [of raw' d' p0 ?m] raw raw' Suc.prems(1)
    unfolding m r_def r'_def by simp_all
  note loop = header_step [OF fs(1), of fuel sector p2] and loop' = header_step [OF fs(2), of fuel sector p2]
  show ?case
  proof (cases "scan ?m (tbit d) ?m p0 0")
    case None
    have "gcr_decode_block raw (- 3) 1 = None" using raw(1) by (simp add: gcr_decode_block_def rd_def)
    moreover have "r = - 3" using None by (simp add: r_def sync_result_def)
    ultimately have "p2 = - 3" "find_header_loop (Suc fuel) raw sector (int p0) p2 = Some p2"
      using Suc.prems(3) unfolding loop by (auto split: if_splits)
    then show ?thesis using Suc.prems(3) by simp
  next
    case (Some q)
    have q: "q < ?m" using scan_pos [OF Some Suc.prems(1)] raw(2) by auto
    have r: "r = int q" using Some by (simp add: r_def sync_result_def)
    have ne: "p2 \<noteq> int q"
    proof
      assume "p2 = int q"
      then have "find_header_loop (Suc fuel) raw sector (int p0) p2 = Some (- 2)"
        unfolding loop r by (simp add: fdc_errs)
      then show False using Suc.prems(3) by simp
    qed
    have "p0 \<le> q"
    proof (rule ccontr)
      assume "\<not> p0 \<le> q"
      then have "scan ?m (tbit d) ?m 0 0 = Some q"
        using scan_wraps [OF Some _ Suc.prems(1) _ zero] by simp
      then show False using Suc.prems(2) ne \<open>\<not> p0 \<le> q\<close> by auto
    qed
    define p2' where "p2' = (if p2 < 0 then int q else p2)"
    have p2': "\<exists>q. p2' = int q \<and> scan ?m (tbit d) ?m 0 0 = Some q"
      using Suc.prems(2) Some by (auto simp: p2'_def)
    obtain header where h: "gcr_decode_block raw (int q) 1 = Some header"
      using Suc.prems(3) ne unfolding loop r by (auto split: option.splits)
    have cont: "header ! 0 = 0x08 \<and> header ! 2 = sector \<and> q = ph
        \<or> \<not> (header ! 0 = 0x08 \<and> header ! 2 = sector) \<and> find_header_loop fuel raw sector (int q) p2' = Some (int ph)"
      using Suc.prems(3) ne h unfolding loop r p2'_def by (auto split: if_splits)
    then have IH: "q \<le> ph \<and> (\<not> (header ! 0 = 0x08 \<and> header ! 2 = sector)
        \<longrightarrow> find_header_loop fuel raw' sector (int q) p2' = Some (int ph))"
      using Suc.IH [OF q] p2' by blast
    have sc: "scan ?m (tbit d') ?m p0 0 = Some q"
      using IH b same by (intro scan_cong [OF Some _ Suc.prems(1) \<open>p0 \<le> q\<close>]) auto
    have "q div 8 + 5 * 1 < n" using IH b by linarith
    then have "gcr_decode_block raw (int q) 1 = Some (dec_stream (4 * 1) (map (tbit d) [q..<q + 40 * 1]))"
      and "gcr_decode_block raw' (int q) 1 = Some (dec_stream (4 * 1) (map (tbit d') [q..<q + 40 * 1]))"
      using raw raw' by (intro decode_block_bits; simp)+
    moreover have "map (tbit d) [q..<q + 40 * 1] = map (tbit d') [q..<q + 40 * 1]"
      using IH b same by (intro map_cong) auto
    ultimately have h': "gcr_decode_block raw' (int q) 1 = Some header" using h by (simp only:)
    have "r' = int q" using sc by (simp add: r'_def sync_result_def)
    then have "find_header_loop (Suc fuel) raw' sector (int p0) p2 = Some (int ph)"
      using IH cont ne h' unfolding loop' p2'_def by auto
    then show ?thesis using IH \<open>p0 \<le> q\<close> by simp
  qed
qed

lemma xor_all_start: "xor_all c xs = c XOR xor_all 0 xs"
proof (induction xs arbitrary: c)
  case (Cons x xs)
  have step: "xor_all a (x # xs) = xor_all (a XOR x) xs" for a by (simp add: xor_all_def)
  show ?case unfolding step using Cons [of "c XOR x"] Cons [of "0 XOR x"] by (simp add: xor.assoc)
qed (simp add: xor_all_def)

lemma checksum_ok: "xs \<noteq> [] \<Longrightarrow> xor_all (xor_all (hd xs) (tl xs)) xs = 0"
proof -
  assume "xs \<noteq> []"
  then have "xor_all (hd xs) (tl xs) = xor_all 0 xs" by (cases xs) (simp_all add: xor_all_def)
  then show ?thesis by (simp add: xor_all_start [of "xor_all 0 xs" xs])
qed

end
