(* ===== verification/Gcr_Format.thy ===== *)
theory Gcr_Format
  imports Gcr_Sectors
begin

text \<open>
  Formatting: encoded data holds no sync mark, and a sector laid down by
  \<^verbatim>\<open>gcr_convert_sector_to_GCR\<close> of \<^verbatim>\<open>src/src/gcr.c\<close> is found and read by \<^verbatim>\<open>gcr_read_sector\<close>.
\<close>

section \<open>No marks in data\<close>

lemma code_has_zero: "n < 16 \<Longrightarrow> \<exists>k<5. \<not> code_bits n ! k"
proof -
  have "list_all (\<lambda>n. list_ex (\<lambda>k. \<not> code_bits n ! k) [0..<5]) [0..<16]" by code_simp
  then show "n < 16 \<Longrightarrow> \<exists>k<5. \<not> code_bits n ! k" by (force simp: list_all_iff list_ex_iff)
qed

definition nibbles :: "u8 list \<Rightarrow> nat list" where
  "nibbles bs = concat (map (\<lambda>b. [unat (drop_bit 4 b), unat (b AND 0x0f)]) bs)"

lemma nibble_codes: "concat (map nibble_bits bs) = concat (map code_bits (nibbles bs))"
  by (induction bs) (simp_all add: nibbles_def nibble_bits_def)

lemma nibbles_less: "n \<in> set (nibbles bs) \<Longrightarrow> n < 16"
  using nibble_less by (auto simp: nibbles_def)

lemma codes_nth:
  "m < length ns \<Longrightarrow> k < 5 \<Longrightarrow> concat (map code_bits ns) ! (5 * m + k) = code_bits (ns ! m) ! k"
proof (induction ns arbitrary: m)
  case (Cons n ns)
  then show ?case by (cases m) (auto simp: nth_append)
qed simp

lemma nine_bits_have_zero:
  assumes "k + 9 \<le> 10 * length bs"
  shows "\<exists>j<9. \<not> concat (map nibble_bits bs) ! (k + j)"
proof -
  define m where "m = (k + 4) div 5"
  have m: "k \<le> 5 * m" "5 * m \<le> k + 4"
    using mult_div_mod_eq [of 5 "k + 4"] mod_less_divisor [of 5 "k + 4"] unfolding m_def by linarith+
  have len: "length (nibbles bs) = 2 * length bs" by (induction bs) (simp_all add: nibbles_def)
  have "5 * m + 5 \<le> 10 * length bs" using m assms by linarith
  then have ml: "m < length (nibbles bs)" unfolding len by linarith
  obtain i where i: "i < 5" "\<not> code_bits (nibbles bs ! m) ! i"
    using code_has_zero [OF nibbles_less [OF nth_mem [OF ml]]] by blast
  have "\<not> concat (map nibble_bits bs) ! (5 * m + i)"
    unfolding nibble_codes using codes_nth [OF ml i(1)] i(2) by simp
  moreover have "5 * m + i = k + (5 * m + i - k)" "5 * m + i - k < 9" using m i(1) by linarith+
  ultimately show ?thesis by (metis (no_types))
qed

text \<open>
  Encoded data cannot be taken for a sync mark: in the bit stream of any groups of four
  bytes there are never nine ones in a row, while a mark has at least ten.
\<close>

theorem gcr_data_has_no_sync:
  assumes "\<forall>g \<in> set groups. length g = 4" "k + 9 \<le> 40 * length groups"
  shows "\<exists>j<9. \<not> concat (map byte_bits (concat (map gcr_convert_4bytes_to_GCR groups))) ! (k + j)"
proof -
  have "concat (map byte_bits (concat (map gcr_convert_4bytes_to_GCR groups))) = concat (map nibble_bits (concat groups))"
    using assms(1) by (induction groups) (simp_all add: encode_bits)
  moreover have "length (concat groups) = 4 * length groups"
    using assms(1) by (induction groups) simp_all
  ultimately show ?thesis using nine_bits_have_zero [of k "concat groups"] assms(2) by simp
qed

theorem gcr_data_has_no_sync_witness:
  "\<exists>j<9. \<not> concat (map byte_bits (concat (map gcr_convert_4bytes_to_GCR [[0xff, 0x77, 0x77, 0xee]]))) ! (3 + j)"
  by (rule gcr_data_has_no_sync) simp_all

section \<open>Finding the next mark\<close>

lemma scan_next:
  assumes q: "p + 10 \<le> q" "q < m" "q - p < s" "\<not> f q" "\<And>i. q - 10 \<le> i \<Longrightarrow> i < q \<Longrightarrow> f i"
    and none: "\<And>i. p + 10 \<le> i \<Longrightarrow> i < q \<Longrightarrow> \<not> f i \<Longrightarrow> \<exists>k<10. \<not> f (i - 1 - k)"
  shows "scan s f m p 0 = Some q"
proof -
  have "scan s f m (p + j) w = Some q"
    if "\<forall>k<10. bit w k \<longleftrightarrow> k < j \<and> f (p + j - 1 - k)" "p + j \<le> q" "q - (p + j) < s" for s j w
    using that
  proof (induction s arbitrary: j w)
    case (Suc s)
    show ?case
    proof (cases "\<not> f (p + j) \<and> ones10 w")
      case True
      then have all: "\<forall>k<10. k < j \<and> f (p + j - 1 - k)" using Suc.prems(1) by (simp add: ones10_def)
      then have "10 \<le> j" by (metis not_le_imp_less less_irrefl)
      then have "p + j = q" using none [of "p + j"] all True Suc.prems(2) by fastforce
      then show ?thesis using True by simp
    next
      case False
      have "p + j \<noteq> q"
      proof
        assume e: "p + j = q"
        then have "10 \<le> j" using q(1) by simp
        then have "ones10 w" using Suc.prems(1) q(5) e by (auto simp: ones10_def)
        then show False using False e q(4) by simp
      qed
      then have lt: "p + j < q" using Suc.prems(2) by simp
      then have n: "next_pos m (p + j) = p + Suc j" using q(2) by (simp add: next_pos_def)
      have "scan s f m (p + Suc j) (shift_in w (f (p + j))) = Some q"
      proof (rule Suc.IH)
        show "\<forall>k<10. bit (shift_in w (f (p + j))) k \<longleftrightarrow> k < Suc j \<and> f (p + Suc j - 1 - k)"
        proof (intro allI impI)
          fix k :: nat assume "k < 10"
          then show "bit (shift_in w (f (p + j))) k \<longleftrightarrow> k < Suc j \<and> f (p + Suc j - 1 - k)"
            using Suc.prems(1) by (cases k) (auto simp: bit_shift_in)
        qed
      qed (use lt Suc.prems(3) in simp_all)
      then show ?thesis using scan_Suc [of f "p + j" w s m, OF False] n by simp
    qed
  qed simp
  from this [of 0 0 s] show ?thesis using q by simp
qed

section \<open>A formatted sector\<close>

lemma xor_all_append: "xor_all c (xs @ ys) = xor_all (xor_all c xs) ys"
  by (simp add: xor_all_def)

lemma conv_length: "length g = 4 \<Longrightarrow> length (gcr_convert_4bytes_to_GCR g) = 5"
proof -
  assume "length g = 4"
  then obtain a b c d where "g = [a, b, c, d]" by (auto simp: length_Suc_conv numeral_eq_Suc)
  then show ?thesis by (simp add: gcr_convert_4bytes_to_GCR_def Let_def)
qed

lemma sector_groups_bits:
  "4 * n \<le> length buf \<Longrightarrow> snd (sector_groups n buf c) = xor_all c (take (4 * n) buf)
    \<and> concat (map byte_bits (fst (sector_groups n buf c))) = concat (map nibble_bits (take (4 * n) buf))
    \<and> length (fst (sector_groups n buf c)) = 5 * n"
proof (induction n arbitrary: buf c)
  case (Suc n)
  have conv: "gcr_convert_4bytes_to_GCR buf = gcr_convert_4bytes_to_GCR (take 4 buf)"
    by (simp add: gcr_convert_4bytes_to_GCR_def)
  have l4: "length (take 4 buf) = 4" using Suc.prems by simp
  have "take (4 * Suc n) buf = take 4 buf @ take (4 * n) (drop 4 buf)"
    using take_add [of 4 "4 * n" buf] by simp
  moreover have "4 * n \<le> length (drop 4 buf)" using Suc.prems by simp
  note Suc.IH [OF this, of "xor_all c (take 4 buf)"]
  moreover have "length (gcr_convert_4bytes_to_GCR (take 4 buf)) = 5" by (rule conv_length [OF l4])
  ultimately show ?case
    using encode_bits [OF l4] by (simp add: Let_def conv xor_all_append split_beta)
qed (simp add: xor_all_def)

definition ones :: "nat \<Rightarrow> bool list" where
  "ones n = replicate n True"

lemma ones_bits: "concat (replicate n (byte_bits 0xff)) = ones (8 * n)"
proof (induction n)
  case (Suc n)
  have "byte_bits 0xff = replicate 8 True" by (simp add: byte_bits_def numeral_eq_Suc)
  then show ?case using Suc by (simp add: ones_def replicate_add [symmetric])
qed (simp add: ones_def)

definition header_block :: "gcr_header \<Rightarrow> u8 list" where
  "header_block h = [0x08, h_sector h XOR h_track h XOR h_id2 h XOR h_id1 h, h_sector h, h_track h,
     h_id2 h, h_id1 h, 0x0f, 0x0f]"

lemma header_bits:
  "concat (map byte_bits (sector_header_GCR h CBMDOS_FDC_ERR_OK))
     = ones 40 @ concat (map nibble_bits (header_block h)) \<and> length (sector_header_GCR h CBMDOS_FDC_ERR_OK) = 15"
  using ones_bits [of 5]
  by (simp add: sector_header_GCR_def fdc_errs header_block_def encode_bits conv_length del: replicate.simps)

lemma data_bits:
  assumes "length buffer = 256"
  shows "concat (map byte_bits (sector_data_GCR buffer sync CBMDOS_FDC_ERR_OK))
     = ones (8 * sync) @ concat (map nibble_bits (data_block buffer))
    \<and> length (sector_data_GCR buffer sync CBMDOS_FDC_ERR_OK) = sync + 325"
proof -
  let ?gc = "sector_groups 63 (drop 3 buffer) (xor_all 0 (take 3 buffer))" and ?last = "buffer ! 255"
  have g: "snd ?gc = xor_all (xor_all 0 (take 3 buffer)) (take 252 (drop 3 buffer))"
    "concat (map byte_bits (fst ?gc)) = concat (map nibble_bits (take 252 (drop 3 buffer)))"
    "length (fst ?gc) = 315"
    using sector_groups_bits [of 63 "drop 3 buffer" "xor_all 0 (take 3 buffer)"] assms by simp_all
  have t: "take 255 buffer = take 3 buffer @ take 252 (drop 3 buffer)" using take_add [of 3 252 buffer] by simp
  have b: "buffer = take 255 buffer @ [?last]"
    using assms take_Suc_conv_app_nth [of 255 buffer] by simp
  have "snd ?gc XOR ?last = xor_all 0 buffer"
    using g(1) xor_all_append [of 0 "take 3 buffer" "take 252 (drop 3 buffer)"]
      xor_all_append [of 0 "take 255 buffer" "[?last]"] by (simp add: t [symmetric] b [symmetric]) (simp add: xor_all_def)
  moreover have "xor_all 0 buffer = xor_all (hd buffer) (tl buffer)"
    using assms by (cases buffer) (simp_all add: xor_all_def)
  ultimately have c: "snd ?gc XOR ?last = xor_all (hd buffer) (tl buffer)" by simp
  have blk: "data_block buffer = (0x07 # take 3 buffer) @ take 252 (drop 3 buffer)
      @ [?last, xor_all (hd buffer) (tl buffer), 0, 0]"
    unfolding data_block_def using b t by (metis append.assoc append_Cons append_Nil)
  have sd: "sector_data_GCR buffer sync CBMDOS_FDC_ERR_OK = replicate sync 0xff
      @ gcr_convert_4bytes_to_GCR (0x07 # take 3 buffer) @ fst ?gc
      @ gcr_convert_4bytes_to_GCR [?last, xor_all (hd buffer) (tl buffer), 0, 0]"
    by (simp add: sector_data_GCR_def fdc_errs Let_def c split_beta)
  show ?thesis
    unfolding sd blk using g(2,3) assms
    by (simp add: ones_bits encode_bits conv_length del: replicate.simps)
qed

text \<open>The track of a formatted sector, as bits.\<close>

definition gap_bits :: "nat \<Rightarrow> bool list" where
  "gap_bits gap = concat (replicate gap (byte_bits 0x55))"

lemma length_gap_bits [simp]: "length (gap_bits gap) = 8 * gap" "length (ones n) = n"
  by (induction gap) (simp_all add: gap_bits_def ones_def)

lemma gap_bits_even: "2 * i < 8 * gap \<Longrightarrow> \<not> gap_bits gap ! (2 * i)"
proof (induction gap arbitrary: i)
  case (Suc gap)
  have b: "byte_bits 0x55 = [False, True, False, True, False, True, False, True]"
    by (simp add: byte_bits_def)
  show ?case
  proof (cases "i < 4")
    case True
    then have "i \<in> {0, 1, 2, 3}" by auto
    then show ?thesis using b by (auto simp: gap_bits_def nth_append)
  next
    case False
    then obtain j where "i = 4 + j" by (metis le_add_diff_inverse not_le_imp_less)
    then show ?thesis using Suc.IH [of j] Suc.prems by (simp add: gap_bits_def nth_append)
  qed
qed simp

lemma tbit_bits: "i < 8 * length d \<Longrightarrow> tbit d i = concat (map byte_bits d) ! i"
proof (induction d arbitrary: i)
  case (Cons b d)
  show ?case
  proof (cases "i < 8")
    case True
    then show ?thesis by (simp add: tbit_def nth_append byte_bits_nth)
  next
    case False
    then obtain j where j: "i = 8 + j" by (metis le_add_diff_inverse not_le_imp_less)
    moreover have "(8 + j) div 8 = Suc (j div 8)" by simp
    ultimately show ?thesis using Cons by (simp only: tbit_def) (simp add: nth_append)
  qed
qed simp

lemma length_byte_bits: "length (concat (map byte_bits d)) = 8 * length d"
  by (induction d) simp_all

lemma sector_mem:
  assumes "length buffer = 256" "15 + gap + sync + 325 \<le> length mem" "\<forall>x < gap. mem ! (15 + x) = 0x55"
  shows "\<exists>mem' rest. gcr_convert_sector_to_GCR buffer mem 0 h gap sync CBMDOS_FDC_ERR_OK = Some mem'
    \<and> length mem' = length mem \<and> drop (15 + gap + (sync + 325)) mem' = drop (15 + gap + (sync + 325)) mem
    \<and> concat (map byte_bits mem') = (ones 40 @ concat (map nibble_bits (header_block h)) @ gap_bits gap
        @ ones (8 * sync) @ concat (map nibble_bits (data_block buffer))) @ rest"
proof -
  let ?h = "sector_header_GCR h CBMDOS_FDC_ERR_OK" and ?s = "sector_data_GCR buffer sync CBMDOS_FDC_ERR_OK"
  have l: "length ?h = 15" "length ?s = sync + 325" using header_bits data_bits [OF assms(1)] by blast+
  let ?m1 = "?h @ drop 15 mem"
  have m1: "store_bytes 0 ?h mem = Some ?m1" using l(1) assms(2) by (simp add: store_bytes_def)
  have g: "take (15 + gap) ?m1 = ?h @ replicate gap 0x55"
  proof -
    have "take gap (drop 15 mem) = replicate gap 0x55"
      using assms(2,3) by (intro nth_equalityI) simp_all
    then show ?thesis using l(1) by simp
  qed
  let ?m2 = "?h @ replicate gap 0x55 @ ?s @ drop (15 + gap + length ?s) ?m1"
  have m2: "store_bytes (0 + 15 + gap) ?s ?m1 = Some ?m2"
    using l assms(2) g by (simp add: store_bytes_def)
  have "concat (map byte_bits ?m2) = (ones 40 @ concat (map nibble_bits (header_block h)) @ gap_bits gap
        @ ones (8 * sync) @ concat (map nibble_bits (data_block buffer)))
      @ concat (map byte_bits (drop (15 + gap + length ?s) ?m1))"
    using header_bits [of h] data_bits [OF assms(1), of sync] by (simp add: gap_bits_def)
  moreover have "length ?m2 = length mem" using l assms(2) by simp
  moreover have "drop (15 + gap + (sync + 325)) ?m2 = drop (15 + gap + (sync + 325)) mem"
    using l by simp
  moreover have "gcr_convert_sector_to_GCR buffer mem 0 h gap sync CBMDOS_FDC_ERR_OK = Some ?m2"
    using m1 m2 by (simp only: gcr_convert_sector_to_GCR_def bind.bind_lunit)
  ultimately show ?thesis by blast
qed

lemma dec_stream_nibbles_only: "length bs = n \<Longrightarrow> dec_stream n (concat (map nibble_bits bs)) = bs"
  using dec_stream_nibbles [of bs "[]"] by simp

text \<open>A track that begins with a formatted sector.\<close>

definition formatted :: "disk_track \<Rightarrow> u8 list \<Rightarrow> gcr_header \<Rightarrow> nat \<Rightarrow> nat \<Rightarrow> u8 list \<Rightarrow> bool" where
  "formatted raw d h gap sync buffer \<longleftrightarrow> t_data raw = Some d \<and> t_size raw \<le> length d
     \<and> 15 + gap + sync + 325 < t_size raw \<and> length buffer = 256 \<and> 2 \<le> sync \<and> gap + sync < 490
     \<and> (\<exists>rest. concat (map byte_bits d) = (ones 40 @ concat (map nibble_bits (header_block h)) @ gap_bits gap
          @ ones (8 * sync) @ concat (map nibble_bits (data_block buffer))) @ rest)"

lemma formatted_bits:
  assumes "formatted raw d h gap sync buffer"
  shows "i < 40 \<Longrightarrow> tbit d i"
    and "i < 80 \<Longrightarrow> tbit d (40 + i) = concat (map nibble_bits (header_block h)) ! i"
    and "i < 8 * gap \<Longrightarrow> tbit d (120 + i) = gap_bits gap ! i"
    and "i < 8 * sync \<Longrightarrow> tbit d (120 + 8 * gap + i)"
    and "i < 2600 \<Longrightarrow> tbit d (120 + 8 * gap + 8 * sync + i) = concat (map nibble_bits (data_block buffer)) ! i"
proof -
  let ?H = "concat (map nibble_bits (header_block h))" and ?D = "concat (map nibble_bits (data_block buffer))"
  obtain rest where bits: "concat (map byte_bits d) = (ones 40 @ ?H @ gap_bits gap @ ones (8 * sync) @ ?D) @ rest"
    and n: "15 + gap + sync + 325 < length d" and b: "length buffer = 256"
    using assms by (auto simp: formatted_def)
  have l: "length ?H = 80" "length ?D = 2600" using b by (simp_all add: length_nibbles header_block_def data_block_def)
  have fb: "tbit d i = ((ones 40 @ ?H @ gap_bits gap @ ones (8 * sync) @ ?D) @ rest) ! i" if "i < 8 * length d" for i
    using that bits tbit_bits [of i d] by simp
  show "tbit d i" if "i < 40" using fb [of i] that n by (simp add: nth_append ones_def)
  show "tbit d (40 + i) = ?H ! i" if "i < 80" using fb [of "40 + i"] that n l by (simp add: nth_append)
  show "tbit d (120 + i) = gap_bits gap ! i" if "i < 8 * gap"
    using fb [of "120 + i"] that n l by (simp add: nth_append)
  show "tbit d (120 + 8 * gap + i)" if "i < 8 * sync"
    using fb [of "120 + 8 * gap + i"] that n l by (simp add: nth_append ones_def)
  show "tbit d (120 + 8 * gap + 8 * sync + i) = ?D ! i" if "i < 2600"
    using fb [of "120 + 8 * gap + 8 * sync + i"] that n l by (simp add: nth_append)
qed

lemma first_bits: "\<not> concat (map nibble_bits (header_block h)) ! 0" "\<not> concat (map nibble_bits (data_block buffer)) ! 0"
  by (simp_all add: header_block_def data_block_def nibble_bits_def code_bits_def GCR_conv_data_def)

lemma formatted_header:
  assumes "formatted raw d h gap sync buffer"
  shows "gcr_find_sector_header (Suc fuel) raw (h_sector h) = Some 40"
proof -
  let ?n = "t_size raw" and ?four = "[0x08, h_sector h XOR h_track h XOR h_id2 h XOR h_id1 h, h_sector h, h_track h]"
  note bits = formatted_bits [OF assms]
  have raw: "t_data raw = Some d" "?n \<le> length d" "342 < ?n" using assms by (simp_all add: formatted_def)
  have "scan (8 * ?n) (tbit d) (8 * ?n) 0 0 = Some 40"
    using raw(3) bits(1) bits(2) [of 0] first_bits by (intro scan_next) auto
  then have s1: "gcr_find_sync raw (int 0) (8 * ?n) = Some 40"
    using gcr_find_sync_scan [of raw d 0 "8 * ?n"] raw by (simp add: sync_result_def)
  have "gcr_decode_block raw (int 40) 1 = Some (dec_stream (4 * 1) (map (tbit d) [40..<40 + 40 * 1]))"
    using raw by (intro decode_block_bits) simp_all
  moreover have "map (tbit d) [40..<40 + 40 * 1] = concat (map nibble_bits ?four)"
  proof (rule nth_equalityI)
    fix i assume "i < length (map (tbit d) [40..<40 + 40 * 1])"
    then have i: "i < 40" by simp
    have "concat (map nibble_bits (header_block h))
        = concat (map nibble_bits ?four) @ concat (map nibble_bits [h_id2 h, h_id1 h, 0x0f, 0x0f])"
      by (simp add: header_block_def)
    then have "concat (map nibble_bits (header_block h)) ! i = concat (map nibble_bits ?four) ! i"
      using i by (simp only: nth_append length_nibbles) simp
    then show "map (tbit d) [40..<40 + 40 * 1] ! i = concat (map nibble_bits ?four) ! i"
      using bits(2) [of i] i by (simp del: upt_rec_numeral)
  qed (simp add: length_nibbles del: upt_rec_numeral)
  moreover have "dec_stream (4 * 1) (concat (map nibble_bits ?four)) = ?four"
    by (rule dec_stream_nibbles_only) simp
  ultimately have "gcr_decode_block raw (int 40) 1 = Some ?four" by (simp only:)
  then show ?thesis using s1 by (simp add: gcr_find_sector_header_def fdc_errs mult.commute)
qed

text \<open>Between the header and the second mark there is a zero in every ten bits.\<close>

lemma formatted_quiet:
  assumes "formatted raw d h gap sync buffer" and i: "50 \<le> i" "i < 120 + 8 * gap + 8 * sync" "\<not> tbit d i"
  shows "\<exists>k<10. \<not> tbit d (i - 1 - k)"
proof (cases "i \<le> 120")
  case True
  have "i - 50 + 9 \<le> 10 * length (header_block h)" using True i(1) by (simp add: header_block_def)
  then obtain j where j: "j < 9" "\<not> concat (map nibble_bits (header_block h)) ! (i - 50 + j)"
    using nine_bits_have_zero by blast
  have "40 + (i - 50 + j) = i - 1 - (9 - j)" "i - 50 + j < 80" using i(1) j(1) True by linarith+
  then have "\<not> tbit d (i - 1 - (9 - j))" using formatted_bits(2) [OF assms(1), of "i - 50 + j"] j(2) by simp
  then show ?thesis by (intro exI [of _ "9 - j"]) simp
next
  case False
  have ig: "i < 120 + 8 * gap"
  proof (rule ccontr)
    assume "\<not> ?thesis"
    then obtain j where "i = 120 + 8 * gap + j" by (metis le_add_diff_inverse not_le_imp_less)
    then show False using i(2,3) formatted_bits(4) [OF assms(1), of j] by simp
  qed
  obtain e k where e: "i - 1 - k = 120 + 2 * e" "k < 2"
  proof (cases "even (i - 121)")
    case True
    then obtain e where "i - 121 = 2 * e" by blast
    then show thesis using that [of 0 e] False by simp
  next
    case odd: False
    then obtain e where "i - 121 = 2 * e + 1" by (elim oddE)
    then show thesis using that [of 1 e] False by simp
  qed
  have "2 * e < 8 * gap" using e(1) ig False by linarith
  then have "\<not> tbit d (i - 1 - k)" using e(1) formatted_bits(3) [OF assms(1)] gap_bits_even by simp
  then show ?thesis using e(2) by (intro exI [of _ k]) simp
qed

lemma formatted_block:
  assumes "formatted raw d h gap sync buffer"
  shows "find_data_block (Suc fuel) raw (h_sector h) = Some (int (120 + 8 * gap + 8 * sync))"
proof -
  let ?n = "t_size raw" and ?q = "120 + 8 * gap + 8 * sync"
  note bits = formatted_bits [OF assms]
  have raw: "t_data raw = Some d" "?n \<le> length d" "15 + gap + sync + 325 < ?n" "2 \<le> sync" "gap + sync < 490"
    using assms by (simp_all add: formatted_def)
  have "scan (500 * 8) (tbit d) (8 * ?n) 40 0 = Some ?q"
  proof (rule scan_next)
    show "\<not> tbit d ?q" using bits(5) [of 0] first_bits by simp
    show "tbit d i" if "?q - 10 \<le> i" "i < ?q" for i
      using bits(4) [of "i - (120 + 8 * gap)"] that raw(4) by simp
    show "\<exists>k<10. \<not> tbit d (i - 1 - k)" if "40 + 10 \<le> i" "i < ?q" "\<not> tbit d i" for i
      using formatted_quiet [OF assms] that by simp
  qed (use raw in simp_all)
  then show ?thesis
    using formatted_header [OF assms, of fuel] gcr_find_sync_scan [of raw d 40 "500 * 8"] raw
    by (simp add: find_data_block_def sync_result_def)
qed

lemma formatted_data:
  assumes "formatted raw d h gap sync buffer"
  shows "gcr_decode_block raw (int (120 + 8 * gap + 8 * sync)) 65 = Some (data_block buffer)"
proof -
  let ?q = "120 + 8 * gap + 8 * sync" and ?D = "concat (map nibble_bits (data_block buffer))"
  have raw: "t_data raw = Some d" "t_size raw \<le> length d" "15 + gap + sync + 325 < t_size raw" "length buffer = 256"
    using assms by (simp_all add: formatted_def)
  have "gcr_decode_block raw (int ?q) 65 = Some (dec_stream (4 * 65) (map (tbit d) [?q..<?q + 40 * 65]))"
    using raw by (intro decode_block_bits) simp_all
  moreover have "map (tbit d) [?q..<?q + 40 * 65] = ?D"
    by (rule nth_equalityI) (use raw(4) formatted_bits(5) [OF assms] in
      \<open>simp_all add: length_nibbles data_block_def [of buffer, THEN arg_cong, of length]\<close>)
  moreover have "dec_stream (4 * 65) ?D = data_block buffer"
    using raw(4) by (intro dec_stream_nibbles_only) (simp add: data_block_def)
  ultimately show ?thesis by (simp only:)
qed

section \<open>Writing a sector\<close>

text \<open>The track \<open>d'\<close> is \<open>d\<close> with the data block at \<open>p\<close> replaced, as far as a reader looks.\<close>

definition replaced :: "u8 list \<Rightarrow> u8 list \<Rightarrow> nat \<Rightarrow> u8 list \<Rightarrow> bool" where
  "replaced d d' p data \<longleftrightarrow> length d' = length d \<and> (\<forall>i<p. tbit d i = tbit d' i)
     \<and> map (tbit d') [p..<p + 2600] = concat (map nibble_bits (data_block data))"

lemma write_replaces:
  assumes "t_data raw = Some d" "t_size raw \<le> length d" "length data = 256"
    and "find_data_block fuel raw sector = Some (int p)" "p + 2608 < 8 * t_size raw"
  shows "\<exists>d'. gcr_write_sector fuel raw data sector = Some (CBMDOS_FDC_ERR_OK, raw\<lparr>t_data := Some d'\<rparr>)
    \<and> replaced d d' p data"
proof -
  let ?D = "concat (map nibble_bits (data_block data))"
  have lD: "length ?D = 2600" using assms(3) by (simp add: length_nibbles data_block_def)
  have "p div 8 + 325 < t_size raw" using assms(5) by linarith
  from write_sector_track [OF assms(1-4) this] obtain d' where
    w: "gcr_write_sector fuel raw data sector = Some (CBMDOS_FDC_ERR_OK, raw\<lparr>t_data := Some d'\<rparr>)"
    and d': "length d' = length d" "\<forall>i < 8 * length d. tbit d' i = overlay p ?D (tbit d) i" by blast
  have "map (tbit d') [p..<p + 2600] = map (overlay p ?D (tbit d)) [p..<p + 2600]"
    using d'(2) assms(2,5) by (intro map_cong) auto
  also have "\<dots> = ?D" using overlay_here [of p ?D "tbit d"] unfolding lD .
  finally show ?thesis using w d' assms(2,5) unfolding replaced_def
    by (intro exI [of _ d']) (auto simp: overlay_def)
qed

lemma replaced_search:
  assumes r: "replaced d d' p data" and raw: "t_data raw = Some d" "500 \<le> t_size raw" "t_size raw \<le> length d"
    and zero: "\<not> tbit d (8 * t_size raw - 1)"
    and hdr: "gcr_find_sector_header fuel raw sector = Some (int ph)"
    and blk: "find_data_block fuel raw sector = Some (int p)"
    and pos: "ph + 40 \<le> p" "p + 2608 < 8 * t_size raw"
  shows "find_data_block fuel (raw\<lparr>t_data := Some d'\<rparr>) sector = Some (int p)"
proof -
  let ?raw' = "raw\<lparr>t_data := Some d'\<rparr>" and ?n = "t_size raw"
  have raw': "t_data ?raw' = Some d'" "t_size ?raw' = ?n" "?n \<le> length d'" "0 < ?n"
    using r raw by (simp_all add: replaced_def)
  have below: "tbit d i = tbit d' i" if "i < p" for i using r that by (simp add: replaced_def)
  have h': "gcr_find_sector_header fuel ?raw' sector = Some (int ph)"
    using header_search_cong [OF raw(1) raw'(4) refl raw(3) raw'(1-3) below pos(1) _ zero, of 0 "-3" fuel sector]
      hdr pos(2) raw'(4) by (simp add: gcr_find_sector_header_def fdc_errs)
  have pn: "ph < 8 * ?n" using pos by linarith
  have "gcr_find_sync raw (int ph) (500 * 8) = Some (sync_result (scan (500 * 8) (tbit d) (8 * ?n) ph 0))"
    using gcr_find_sync_scan [OF raw(1) raw'(4) raw(3) pn] .
  then have sc: "scan (500 * 8) (tbit d) (8 * ?n) ph 0 = Some p"
    using hdr blk by (auto simp: find_data_block_def sync_result_def split: option.splits)
  have e: "concat (map nibble_bits (data_block data)) = map (tbit d') [p..<p + 2600]"
    using r by (simp only: replaced_def)
  have "\<not> tbit d' p" using first_bits(2) [of data] unfolding e by (simp del: upt_rec_numeral)
  then have upto: "tbit d i = tbit d' i" if "i \<le> p" for i
    using that below scan_zero [OF sc] by (cases "i = p") simp_all
  have "scan (500 * 8) (tbit d') (8 * ?n) ph 0 = Some p"
    using raw(2) pn pos(1) upto by (intro scan_cong [OF sc]) auto
  then have "gcr_find_sync ?raw' (int ph) (500 * 8) = Some (int p)"
    using gcr_find_sync_scan [of ?raw' d' ph "500 * 8"] raw' pn by (simp add: sync_result_def)
  then show ?thesis using h' by (simp add: find_data_block_def)
qed

lemma read_block:
  assumes "find_data_block fuel raw sector = Some (int p)" "length data = 256"
    and "gcr_decode_block raw (int p) 65 = Some (data_block data)"
  shows "gcr_read_sector fuel raw sector = Some (CBMDOS_FDC_ERR_OK, data)"
proof -
  have "data_block data ! 0 = 0x07" "take 256 (tl (data_block data)) = data"
    "data_block data ! 257 = xor_all (hd data) (tl data)"
    using assms(2) by (simp_all add: data_block_def nth_append nth_Cons')
  moreover have "xor_all (xor_all (hd data) (tl data)) data = 0"
    using assms(2) by (intro checksum_ok) auto
  ultimately show ?thesis using assms(1,3) by (simp add: gcr_read_sector_def Let_def)
qed


text \<open>A track of 500 bytes with one sector, number 1 of track 18.\<close>

definition demo_mem :: "u8 list" where
  "demo_mem = replicate 499 0x55 @ [0x54]"

definition demo_header :: gcr_header where
  "demo_header = \<lparr>h_sector = 1, h_track = 18, h_id2 = 0x41, h_id1 = 0x42\<rparr>"




section \<open>A track with one mark\<close>

text \<open>
  A search for a sector that is not there reads outside the track when the track has a
  single sync mark: the second \<^verbatim>\<open>gcr_find_sync\<close> goes once round the track, does not see the
  mark again and returns the error code -3, and \<^verbatim>\<open>gcr_find_sector_header\<close> decodes a block at
  that "position", which begins at the byte before the track's memory.
\<close>

theorem gcr_single_sync_out_of_bounds:
  assumes "gcr_find_sync raw 0 (t_size raw * 8) = Some p" "0 \<le> p"
    and "gcr_find_sync raw p (t_size raw * 8) = Some (- int CBMDOS_FDC_ERR_SYNC)"
    and "gcr_decode_block raw p 1 = Some header" "\<not> (header ! 0 = 0x08 \<and> header ! 2 = sector)"
  shows "gcr_find_sector_header (Suc (Suc fuel)) raw sector = None"
proof -
  have "(- 3 :: int) div 8 = - 1" by simp
  then have "gcr_decode_block raw (- 3) 1 = None"
    by (simp add: gcr_decode_block_def rd_def split: option.split)
  then show ?thesis
    using assms by (simp add: gcr_find_sector_header_def fdc_errs)
qed

theorem gcr_single_sync_out_of_bounds_witness:
  "gcr_find_sector_header 2 \<lparr>t_data = Some [0xff, 0xff, 0x55, 0x55, 0x55, 0x55], t_size = 6\<rparr> 1 = None"
proof -
  let ?raw = "\<lparr>t_data = Some [0xff, 0xff, 0x55, 0x55, 0x55, 0x55], t_size = 6\<rparr>"
  have 1: "gcr_find_sync ?raw 0 (t_size ?raw * 8) = Some 16" by code_simp
  have 2: "gcr_find_sync ?raw 16 (t_size ?raw * 8) = Some (- int CBMDOS_FDC_ERR_SYNC)" by code_simp
  have 3: "gcr_decode_block ?raw 16 1 = Some [0x0f, 0x0f, 0x0f, 0x50]" by code_simp
  have 4: "\<not> ([0x0f, 0x0f, 0x0f, 0x50] ! 0 = (0x08 :: u8) \<and> [0x0f, 0x0f, 0x0f, 0x50] ! 2 = (1 :: u8))" by simp
  show ?thesis using gcr_single_sync_out_of_bounds [OF 1 _ 2 3 4, of 0] by (simp only: numeral_2_eq_2)
qed

end
