(* ===== verification/Snapshot_Files.thy ===== *)
theory Snapshot_Files
  imports Snapshot_Codec
begin

text \<open>
  Properties of whole snapshot files, \<^verbatim>\<open>src/src/snapshot.c\<close>: modules of arbitrary fields are
  written one after the other, found again by name and read back; what happens to a name
  that is not there, to a module of size zero, and to reads at the end of a module; the
  file header and its machine check.
\<close>

section \<open>Modules of fields\<close>

datatype field =
    Byte_field u8
  | Word_field u16
  | Dword_field u32
  | Qword_field u64
  | Bytes_field "u8 list"
  | Words_field "u16 list"
  | Dwords_field "u32 list"
  | String_field "u8 list option"

fun put_field :: "field \<Rightarrow> mstate \<Rightarrow> bool \<times> mstate" where
  "put_field (Byte_field b) = snapshot_module_write_byte b"
| "put_field (Word_field w) = snapshot_module_write_word w"
| "put_field (Dword_field d) = snapshot_module_write_dword d"
| "put_field (Qword_field q) = snapshot_module_write_qword q"
| "put_field (Bytes_field bs) = snapshot_module_write_byte_array bs"
| "put_field (Words_field ws) = snapshot_module_write_word_array ws"
| "put_field (Dwords_field ds) = snapshot_module_write_dword_array ds"
| "put_field (String_field s) = snapshot_module_write_string s"

text \<open>A reader for fields of the same kinds and array lengths as a template.\<close>

fun get_field :: "field \<Rightarrow> mstate \<Rightarrow> field option \<times> mstate" where
  "get_field (Byte_field _) = rbind snapshot_module_read_byte (\<lambda>v. rret (Byte_field v))"
| "get_field (Word_field _) = rbind snapshot_module_read_word (\<lambda>v. rret (Word_field v))"
| "get_field (Dword_field _) = rbind snapshot_module_read_dword (\<lambda>v. rret (Dword_field v))"
| "get_field (Qword_field _) = rbind snapshot_module_read_qword (\<lambda>v. rret (Qword_field v))"
| "get_field (Bytes_field bs) =
     rbind (snapshot_module_read_byte_array (length bs)) (\<lambda>v. rret (Bytes_field v))"
| "get_field (Words_field ws) =
     rbind (snapshot_module_read_word_array (length ws)) (\<lambda>v. rret (Words_field v))"
| "get_field (Dwords_field ds) =
     rbind (snapshot_module_read_dword_array (length ds)) (\<lambda>v. rret (Dwords_field v))"
| "get_field (String_field _) = rbind snapshot_module_read_string (\<lambda>v. rret (String_field v))"

fun enc_field :: "field \<Rightarrow> u8 list" where
  "enc_field (Byte_field b) = [b]"
| "enc_field (Word_field w) = enc_word w"
| "enc_field (Dword_field d) = enc_dword d"
| "enc_field (Qword_field q) = enc_qword q"
| "enc_field (Bytes_field bs) = bs"
| "enc_field (Words_field ws) = concat (map enc_word ws)"
| "enc_field (Dwords_field ds) = concat (map enc_dword ds)"
| "enc_field (String_field s) = enc_string s"

fun field_ok :: "field \<Rightarrow> bool" where
  "field_ok (String_field s) \<longleftrightarrow> string_ok s"
| "field_ok _ \<longleftrightarrow> True"

fun put_fields :: "field list \<Rightarrow> mstate \<Rightarrow> bool \<times> mstate" where
  "put_fields [] = (\<lambda>st. (True, st))"
| "put_fields (x # xs) = wseq (put_field x) (put_fields xs)"

fun get_fields :: "field list \<Rightarrow> mstate \<Rightarrow> field list option \<times> mstate" where
  "get_fields [] = rret []"
| "get_fields (x # xs) = rbind (get_field x) (\<lambda>v. rbind (get_fields xs) (\<lambda>vs. rret (v # vs)))"

abbreviation enc_fields :: "field list \<Rightarrow> u8 list" where
  "enc_fields xs \<equiv> concat (map enc_field xs)"

interpretation any_field: snapshot_codec put_field "get_field t" enc_field
    "\<lambda>x. field_ok x \<and> t = x" for t
proof unfold_locales
  fix x assume x: "field_ok x \<and> t = x"
  then show "mappends (put_field x) (enc_field x)"
    by (cases x) (simp_all add: put_fields string_field.put_ok)
  show "mparses (get_field t) (enc_field x) x"
    using x by (cases x) (simp_all add: byte_field.get_map word_field.get_map
        dword_field.get_map qword_field.get_map byte_array_field.get_map word_array_field.get_map
        dword_array_field.get_map string_field.get_map)
qed

lemma put_fields_append: "\<forall>x \<in> set xs. field_ok x \<Longrightarrow> mappends (put_fields xs) (enc_fields xs)"
  by (induction xs) (simp_all add: mappends_nil any_field.put_then)

lemma get_fields_parse: "\<forall>x \<in> set xs. field_ok x \<Longrightarrow> mparses (get_fields xs) (enc_fields xs) xs"
proof (induction xs)
  case Nil
  then show ?case by (simp add: mparses_rret)
next
  case (Cons x xs)
  have "mparses (get_fields (x # xs)) (enc_field x @ enc_fields xs @ []) (x # xs)"
    using Cons by (auto intro!: any_field.get_then mparses_rbind [OF Cons.IH] mparses_rret
        simp del: append_Nil2)
  then show ?case by simp
qed

text \<open>A list of modules, each with its name, its versions and its fields.\<close>

type_synonym module_spec = "u8 list \<times> u8 \<times> u8 \<times> field list"

fun spec_image :: "module_spec \<Rightarrow> module_image" where
  "spec_image (name, major, minor, xs) = (name, major, minor, enc_fields xs)"

fun module_spec_ok :: "module_spec \<Rightarrow> bool" where
  "module_spec_ok (name, major, minor, xs) \<longleftrightarrow>
     0 \<notin> set name \<and> length name \<le> name_field_len \<and> (\<forall>x \<in> set xs. field_ok x)
     \<and> 22 + length (enc_fields xs) < 2 ^ 32"

fun write_modules :: "module_spec list \<Rightarrow> sfile \<Rightarrow> bool \<times> sfile" where
  "write_modules [] = (\<lambda>f. (True, f))"
| "write_modules ((name, major, minor, xs) # ms) =
     wseq (write_module name major minor (put_fields xs)) (write_modules ms)"

abbreviation modules_bytes :: "module_spec list \<Rightarrow> u8 list" where
  "modules_bytes ms \<equiv> concat (map (\<lambda>m. module_bytes (spec_image m)) ms)"

lemma write_modules_append:
  "\<forall>m \<in> set ms. module_spec_ok m \<Longrightarrow> appends (write_modules ms) (modules_bytes ms)"
proof (induction ms)
  case Nil
  then show ?case by (simp add: appends_nil)
next
  case (Cons m ms)
  obtain n ma mi xs where m: "m = (n, ma, mi, xs)" by (cases m)
  have "appends (write_module n ma mi (put_fields xs)) (module_bytes (n, ma, mi, enc_fields xs))"
    using Cons.prems m by (intro write_module_appends put_fields_append) auto
  from appends_wseq [OF this Cons.IH] show ?case using Cons.prems by (simp add: m)
qed

lemma image_ok_spec: "module_spec_ok m \<Longrightarrow> image_ok (spec_image m) \<and> fst (spec_image m) = fst m"
  by (cases m) simp

lemma open_skips:
  assumes "\<forall>m \<in> set as. module_spec_ok m \<and> fst m \<noteq> name" "0 \<notin> set name"
    and "sf_bytes f = pre @ modules_bytes as @ post"
  shows "snapshot_module_open (length as + fuel) (length pre) name f
    = module_search fuel (length pre) name (length (pre @ modules_bytes as))
        (f\<lparr>sf_pos := length (pre @ modules_bytes as)\<rparr>)"
proof -
  have "\<forall>i \<in> set (map spec_image as). image_ok i \<and> fst i \<noteq> name"
    using assms(1) image_ok_spec by auto
  then have "module_search (length (map spec_image as) + fuel) (length pre) name (length pre)
        (fseek_set (length pre) f)
      = module_search fuel (length pre) name (length (pre @ concat (map module_bytes (map spec_image as))))
          (fseek_set (length pre) f\<lparr>sf_pos := length (pre @ concat (map module_bytes (map spec_image as)))\<rparr>)"
    using assms(2,3) by (intro search_skips [where post = post]) (simp_all add: fseek_set_def comp_def)
  then show ?thesis by (simp add: snapshot_module_open_def fseek_set_def comp_def)
qed

text \<open>
  C5. What is written is found again: after any list of modules with different names is
  written at the end of a file, opening one of them by name returns its versions, and
  reading its fields in order returns the values written.
\<close>

theorem snapshot_modules_roundtrip:
  assumes "\<forall>m \<in> set ms. module_spec_ok m" "distinct (map fst ms)"
    and "sf_pos f = length (sf_bytes f)"
    and "sf_pos f + length (modules_bytes ms) \<le> sf_limit f"
    and "(name, major, minor, xs) \<in> set ms"
  shows "\<exists>f' m g h. write_modules ms f = (True, f')
    \<and> snapshot_module_open (length ms) (sf_pos f) name f' = Some (Some (m, major, minor), g)
    \<and> get_fields xs (m, g) = (Some xs, h)"
proof -
  obtain as bs where ms: "ms = as @ (name, major, minor, xs) # bs"
    using assms(5) by (meson split_list)
  let ?p = "length (sf_bytes f)" and ?e = "enc_fields xs"
  let ?pre = "sf_bytes f @ modules_bytes as"
  let ?f' = "f\<lparr>sf_bytes := sf_bytes f @ modules_bytes ms, sf_pos := ?p + length (modules_bytes ms)\<rparr>"
  let ?m = "\<lparr>m_write_mode = False, m_size = of_nat (22 + length ?e), m_offset = length ?pre,
      m_size_offset = length ?pre + 18\<rparr>"
  let ?g = "?f'\<lparr>sf_pos := length ?pre + 22\<rparr>"
  have w: "write_modules ms f = (True, ?f')"
    using assms(3,4) by (subst appendsD [OF write_modules_append [OF assms(1)]]) auto
  have ok: "module_spec_ok (name, major, minor, xs)" using assms(1,5) by blast
  have fuel: "length ms = length as + Suc (length bs)" by (simp add: ms)
  have "snapshot_module_open (length ms) (sf_pos f) name ?f'
    = module_search (Suc (length bs)) ?p name (length ?pre) (?f'\<lparr>sf_pos := length ?pre\<rparr>)"
    unfolding fuel assms(3)
    by (intro open_skips [where post = "modules_bytes ((name, major, minor, xs) # bs)"])
      (use assms(1,2) ok in \<open>auto simp: ms\<close>)
  also have "\<dots> = Some (Some (?m, major, minor), ?g)"
    using ok by (subst search_hits [of name major minor ?e _ _ "modules_bytes bs"]) (auto simp: ms)
  finally have o: "snapshot_module_open (length ms) (sf_pos f) name ?f'
    = Some (Some (?m, major, minor), ?g)" .
  have "get_fields xs (?m, ?g) = (Some xs, ?m, ?g\<lparr>sf_pos := length ?pre + 22 + length ?e\<rparr>)"
    using ok unat_image_size [of ?e]
    by (subst mparsesD [OF get_fields_parse, of _ _
          "?pre @ module_header name major minor (of_nat (22 + length ?e))" "modules_bytes bs"])
      (auto simp: ms simp del: of_nat_add)
  with w o show ?thesis by blast
qed

definition demo_modules :: "module_spec list" where
  "demo_modules =
     [([77, 65], 1, 0, [Byte_field 7, Dword_field 0x12345678]),
      ([67, 73, 65], 2, 3, [Word_field 0xbeef, String_field (Some [104, 105]), Qword_field 5])]"

definition empty_file :: "nat \<Rightarrow> sfile" where
  "empty_file limit = \<lparr>sf_bytes = [], sf_pos = 0, sf_limit = limit, sf_error = 0\<rparr>"

lemma demo_modules_ok: "\<forall>m \<in> set demo_modules. module_spec_ok m"
  by (simp add: demo_modules_def name_field_len_def string_ok_def enc_string_def)

lemma demo_modules_length: "length (modules_bytes demo_modules) = 64"
  by (simp add: demo_modules_def enc_string_def)

lemma demo_modules_names:
  "distinct (map fst demo_modules)" "length demo_modules = 2" "\<forall>m \<in> set demo_modules. fst m \<noteq> [83]"
  "([67, 73, 65], 2, 3, [Word_field 0xbeef, String_field (Some [104, 105]), Qword_field 5])
     \<in> set demo_modules"
  by (simp_all add: demo_modules_def)

theorem snapshot_modules_roundtrip_witness:
  "\<exists>f' m g h. write_modules demo_modules (empty_file 100) = (True, f')
    \<and> snapshot_module_open 2 0 [67, 73, 65] f' = Some (Some (m, 2, 3), g)
    \<and> get_fields [Word_field 0xbeef, String_field (Some [104, 105]), Qword_field 5] (m, g)
      = (Some [Word_field 0xbeef, String_field (Some [104, 105]), Qword_field 5], h)"
  using snapshot_modules_roundtrip [OF demo_modules_ok demo_modules_names(1) _ _ demo_modules_names(4),
      of "empty_file 100"] demo_modules_length
  by (simp add: demo_modules_names(2) empty_file_def del: get_fields.simps)

text \<open>
  A name no module of the file has is an error, not a wrong module: the search ends at
  the end of the file with \<^verbatim>\<open>SNAPSHOT_MODULE_HEADER_READ_ERROR\<close>, the position goes back to the
  first module, and the bytes are untouched.
\<close>

theorem snapshot_missing_module:
  assumes "\<forall>m \<in> set ms. module_spec_ok m \<and> fst m \<noteq> name" "0 \<notin> set name"
    and "sf_pos f = length (sf_bytes f)"
    and "sf_pos f + length (modules_bytes ms) \<le> sf_limit f"
  shows "\<exists>f'. write_modules ms f = (True, f')
    \<and> snapshot_module_open (Suc (length ms)) (sf_pos f) name f'
      = Some (None, f'\<lparr>sf_pos := sf_pos f, sf_error := SNAPSHOT_MODULE_HEADER_READ_ERROR\<rparr>)"
proof -
  let ?f' = "f\<lparr>sf_bytes := sf_bytes f @ modules_bytes ms,
      sf_pos := length (sf_bytes f) + length (modules_bytes ms)\<rparr>"
  have "\<forall>m \<in> set ms. module_spec_ok m" using assms(1) by blast
  then have w: "write_modules ms f = (True, ?f')"
    using assms(3,4) by (subst appendsD [OF write_modules_append]) auto
  have "snapshot_module_open (length ms + Suc 0) (length (sf_bytes f)) name ?f'
    = module_search (Suc 0) (length (sf_bytes f)) name (length (sf_bytes f @ modules_bytes ms))
        (?f'\<lparr>sf_pos := length (sf_bytes f @ modules_bytes ms)\<rparr>)"
    using assms by (intro open_skips [where post = "[]"]) auto
  then show ?thesis using w assms(3) by (simp add: search_end del: module_search.simps)
qed

theorem snapshot_missing_module_witness:
  "\<exists>f'. write_modules demo_modules (empty_file 100) = (True, f')
    \<and> snapshot_module_open 3 0 [83] f'
      = Some (None, f'\<lparr>sf_pos := 0, sf_error := SNAPSHOT_MODULE_HEADER_READ_ERROR\<rparr>)"
proof -
  have "\<forall>m \<in> set demo_modules. module_spec_ok m \<and> fst m \<noteq> [83]"
    using demo_modules_ok demo_modules_names(3) by auto
  from snapshot_missing_module [OF this, of "empty_file 100"] show ?thesis
    using demo_modules_length
    by (simp add: demo_modules_names(2) empty_file_def)
qed

section \<open>Damaged files\<close>

text \<open>
  A module whose size field is zero stops the search for any later module from ending:
  the loop adds the size to the offset and reads the same header for ever, whatever the
  number of rounds.
\<close>

theorem zero_size_module_never_found:
  assumes "sf_bytes f = pre @ module_header n major minor 0 @ post"
    and "0 \<notin> set n" "length n \<le> name_field_len" "0 \<notin> set name" "n \<noteq> name"
  shows "snapshot_module_open fuel (length pre) name f = None"
proof -
  have "module_search fuel (length pre) name (length pre) g = None"
    if "sf_bytes g = sf_bytes f" "sf_pos g = length pre" for g
    using that
  proof (induction fuel arbitrary: g)
    case 0
    then show ?case by simp
  next
    case (Suc fuel)
    have r: "read_module_header g
        = (Some (pad_name 0 name_field_len n, major, minor, 0), g\<lparr>sf_pos := length pre + 22\<rparr>)"
      using Suc.prems assms(1)
      by (subst parsesD [OF parses_module_header, of _ pre n major minor 0 post]) auto
    have "\<not> module_name_matches (pad_name 0 name_field_len n) name"
      using module_name_matches_pad [OF assms(2,3,4)] assms(5) by simp
    then show ?case using Suc by (simp add: r fseek_set_def)
  qed
  then show ?thesis by (simp add: snapshot_module_open_def fseek_set_def)
qed

theorem zero_size_module_never_found_witness:
  "snapshot_module_open 1000000 0 [66]
     \<lparr>sf_bytes = module_header [65] 1 0 0, sf_pos = 0, sf_limit = 0, sf_error = 0\<rparr> = None"
  using zero_size_module_never_found [of _ "[]" "[65]" 1 0 "[]" "[66]" 1000000]
  by (simp add: name_field_len_def)

definition demo_module :: snapshot_module where
  "demo_module = \<lparr>m_write_mode = False, m_size = 2, m_offset = 0, m_size_offset = 0\<rparr>"

text \<open>
  A reader of \<open>n\<close> bytes: where the file has them, it returns the value they encode and moves
  behind them; where it has not, it fails and moves at most to the end of the file.
\<close>

definition fixed_reader :: "(sfile \<Rightarrow> 'a option \<times> sfile) \<Rightarrow> nat \<Rightarrow> ('a \<Rightarrow> u8 list) \<Rightarrow> bool" where
  "fixed_reader r n enc \<longleftrightarrow> (\<forall>f. if n = 0 \<or> sf_pos f + n \<le> length (sf_bytes f)
     then \<exists>x. r f = (Some x, f\<lparr>sf_pos := sf_pos f + n\<rparr>) \<and> enc x = take n (drop (sf_pos f) (sf_bytes f))
     else \<exists>f'. r f = (None, f') \<and> sf_bytes f' = sf_bytes f \<and> sf_pos f \<le> sf_pos f'
       \<and> sf_pos f' \<le> max (sf_pos f) (length (sf_bytes f)))"

lemma fixed_reader_cases:
  assumes "fixed_reader r n enc"
  obtains (some) x where "n = 0 \<or> sf_pos f + n \<le> length (sf_bytes f)"
      "r f = (Some x, f\<lparr>sf_pos := sf_pos f + n\<rparr>)" "enc x = take n (drop (sf_pos f) (sf_bytes f))"
    | (none) f' where "0 < n" "length (sf_bytes f) < sf_pos f + n" "r f = (None, f')" "sf_bytes f' = sf_bytes f"
      "sf_pos f \<le> sf_pos f'" "sf_pos f' \<le> max (sf_pos f) (length (sf_bytes f))"
  using assms [unfolded fixed_reader_def, rule_format, of f] by (auto split: if_splits)

lemma fixed_reader_pair:
  assumes a: "fixed_reader r n enc" and b: "fixed_reader q k dec" and n: "0 < n" and j: "\<And>x y. out (join x y) = enc x @ dec y"
  shows "fixed_reader (rbind r (\<lambda>x. rbind q (\<lambda>y. rret (join x y)))) (n + k) out"
  unfolding fixed_reader_def
proof
  fix f :: sfile
  let ?r = "rbind r (\<lambda>x. rbind q (\<lambda>y. rret (join x y)))" and ?L = "length (sf_bytes f)"
  show "if n + k = 0 \<or> sf_pos f + (n + k) \<le> ?L
     then \<exists>x. ?r f = (Some x, f\<lparr>sf_pos := sf_pos f + (n + k)\<rparr>) \<and> out x = take (n + k) (drop (sf_pos f) (sf_bytes f))
     else \<exists>f'. ?r f = (None, f') \<and> sf_bytes f' = sf_bytes f \<and> sf_pos f \<le> sf_pos f' \<and> sf_pos f' \<le> max (sf_pos f) ?L"
  proof (cases rule: fixed_reader_cases [OF a, of f, case_names some none])
    case (some x)
    let ?f = "f\<lparr>sf_pos := sf_pos f + n\<rparr>"
    show ?thesis
    proof (cases rule: fixed_reader_cases [OF b, of ?f, case_names some none])
      case (some y)
      have "?r f = (Some (join x y), f\<lparr>sf_pos := sf_pos f + (n + k)\<rparr>)"
        using \<open>r f = _\<close> some(2) by (simp add: rbind_def rret_def add.assoc)
      moreover have "out (join x y) = take (n + k) (drop (sf_pos f) (sf_bytes f))"
        using \<open>enc x = _\<close> some(3) by (simp add: j take_add add.commute [of "sf_pos f"])
      moreover have "sf_pos f + (n + k) \<le> ?L" using \<open>n = 0 \<or> _\<close> some(1) n by auto
      ultimately show ?thesis by simp
    next
      case (none f')
      then show ?thesis using \<open>r f = _\<close> \<open>n = 0 \<or> _\<close> n by (simp add: rbind_def)
    qed
  next
    case (none f')
    then show ?thesis by (simp add: rbind_def)
  qed
qed

lemma bytes_at: "p + n \<le> length bs \<Longrightarrow> 0 < n \<Longrightarrow> take n (drop p bs) = bs ! p # take (n - 1) (drop (Suc p) bs)"
  by (cases n) (simp_all add: take_Suc_conv_app_nth flip: Cons_nth_drop_Suc)

lemma fixed_byte: "fixed_reader snapshot_read_byte 1 (\<lambda>b. [b])"
  by (auto simp: fixed_reader_def snapshot_read_byte_def fgetc_def set_error_def bytes_at)

lemma fixed_byte_array: "fixed_reader (snapshot_read_byte_array n) n (\<lambda>bs. bs)"
  by (auto simp: fixed_reader_def snapshot_read_byte_array_def set_error_def)

lemma split_word: "enc_word (ucast a OR push_bit 8 (ucast b)) = [a] @ [b]"
proof -
  have "ucast ((ucast a OR push_bit 8 (ucast b)) AND 0xff :: u16) = a"
    by (rule bit_word_eqI) (auto simp: bit_simps masks)
  moreover have "ucast (drop_bit 8 (ucast a OR push_bit 8 (ucast b) :: u16)) = b"
    by (rule bit_word_eqI) (auto simp: bit_simps masks dest: bit_imp_le_length)
  ultimately show ?thesis by (simp add: enc_word_def)
qed

lemma split_dword: "enc_dword (ucast a OR push_bit 16 (ucast b)) = enc_word a @ enc_word b"
proof -
  have "ucast ((ucast a OR push_bit 16 (ucast b)) AND 0xffff :: u32) = a"
    by (rule bit_word_eqI) (auto simp: bit_simps masks)
  moreover have "ucast (drop_bit 16 (ucast a OR push_bit 16 (ucast b) :: u32)) = b"
    by (rule bit_word_eqI) (auto simp: bit_simps masks dest: bit_imp_le_length)
  ultimately show ?thesis by (simp add: enc_dword_def)
qed

lemma split_qword: "enc_qword (ucast a OR push_bit 32 (ucast b)) = enc_dword a @ enc_dword b"
proof -
  have "ucast ((ucast a OR push_bit 32 (ucast b)) AND 0xffffffff :: u64) = a"
    by (rule bit_word_eqI) (auto simp: bit_simps masks)
  moreover have "ucast (drop_bit 32 (ucast a OR push_bit 32 (ucast b) :: u64)) = b"
    by (rule bit_word_eqI) (auto simp: bit_simps masks dest: bit_imp_le_length)
  ultimately show ?thesis by (simp add: enc_qword_def)
qed

lemma fixed_word: "fixed_reader snapshot_read_word 2 enc_word"
  using fixed_reader_pair [OF fixed_byte fixed_byte, where out = enc_word, OF _ split_word]
  by (simp add: snapshot_read_word_def numeral_2_eq_2)

lemma fixed_dword: "fixed_reader snapshot_read_dword 4 enc_dword"
  using fixed_reader_pair [OF fixed_word fixed_word, where out = enc_dword, OF _ split_dword] by (simp add: snapshot_read_dword_def)

lemma fixed_qword: "fixed_reader snapshot_read_qword 8 enc_qword"
  using fixed_reader_pair [OF fixed_dword fixed_dword, where out = enc_qword, OF _ split_qword] by (simp add: snapshot_read_qword_def)

lemma fixed_word_array: "fixed_reader (snapshot_read_word_array n) (n * 2) (\<lambda>ws. concat (map enc_word ws))"
proof (induction n)
  case 0
  then show ?case by (simp add: fixed_reader_def)
next
  case (Suc n)
  have "snapshot_read_word_array (Suc n)
      = rbind snapshot_read_word (\<lambda>w. rbind (snapshot_read_word_array n) (\<lambda>ws. rret (w # ws)))"
    by (simp add: fun_eq_iff)
  then show ?case
    using fixed_reader_pair [OF fixed_word Suc.IH, of "\<lambda>ws. concat (map enc_word ws)" "\<lambda>w ws. w # ws"] by simp
qed

lemma fixed_dword_array: "fixed_reader (snapshot_read_dword_array n) (n * 4) (\<lambda>ws. concat (map enc_dword ws))"
proof (induction n)
  case 0
  then show ?case by (simp add: fixed_reader_def)
next
  case (Suc n)
  have "snapshot_read_dword_array (Suc n)
      = rbind snapshot_read_dword (\<lambda>w. rbind (snapshot_read_dword_array n) (\<lambda>ws. rret (w # ws)))"
    by (simp add: fun_eq_iff)
  then show ?case
    using fixed_reader_pair [OF fixed_dword Suc.IH, of "\<lambda>ws. concat (map enc_dword ws)" "\<lambda>w ws. w # ws"] by simp
qed

text \<open>
  What a read of \<open>n\<close> bytes of a module does, on every branch: with fewer than \<open>n\<close> bytes left
  in the module it returns -1, sets the error and moves nothing; otherwise, when the file has
  the bytes, it returns the value they encode and moves behind them; and when the file is too
  short it returns -1.
\<close>

definition module_end :: "snapshot_module \<Rightarrow> nat" where
  "module_end m = m_offset m + unat (m_size m)"

definition reads_inside :: "(mstate \<Rightarrow> 'a option \<times> mstate) \<Rightarrow> nat \<Rightarrow> ('a \<Rightarrow> u8 list) \<Rightarrow> mstate \<Rightarrow> bool" where
  "reads_inside r n enc st = (case st of (m, f) \<Rightarrow> (case r (m, f) of (v, m', f') \<Rightarrow> m' = m \<and>
     (if sf_pos f + n > module_end m then v = None \<and> f' = set_error SNAPSHOT_READ_OUT_OF_BOUNDS_ERROR f
      else if n = 0 \<or> sf_pos f + n \<le> length (sf_bytes f)
      then map_option enc v = Some (take n (drop (sf_pos f) (sf_bytes f))) \<and> f' = f\<lparr>sf_pos := sf_pos f + n\<rparr>
      else v = None \<and> sf_bytes f' = sf_bytes f \<and> sf_pos f \<le> sf_pos f' \<and> sf_pos f' \<le> module_end m)))"

lemma mread_reads_inside: "fixed_reader r n enc \<Longrightarrow> reads_inside (mread r n) n enc st"
  by (cases st; cases rule: fixed_reader_cases [of r n enc "snd st"]) (auto simp: reads_inside_def mread_def module_end_def)

text \<open>
  C38. The module readers of bytes, words, double words, quad words and of their arrays stay
  in the module and tell when they cannot: with fewer bytes left in the module than they need
  they return -1 with \<^verbatim>\<open>SNAPSHOT_READ_OUT_OF_BOUNDS_ERROR\<close> and neither the position nor the file
  changes; otherwise they return exactly the value whose little-endian bytes are at the position
  and move behind it, or return -1, still inside the module, when the file ends before the
  module does. (The string reader does not: \<open>module_string_read_leaves_module\<close>.)
\<close>

theorem module_reads_stay_inside:
  "reads_inside snapshot_module_read_byte 1 (\<lambda>b. [b]) st \<and> reads_inside snapshot_module_read_word 2 enc_word st
   \<and> reads_inside snapshot_module_read_dword 4 enc_dword st \<and> reads_inside snapshot_module_read_qword 8 enc_qword st
   \<and> reads_inside (snapshot_module_read_byte_array n) n (\<lambda>bs. bs) st
   \<and> reads_inside (snapshot_module_read_word_array n) (n * 2) (\<lambda>ws. concat (map enc_word ws)) st
   \<and> reads_inside (snapshot_module_read_dword_array n) (n * 4) (\<lambda>ws. concat (map enc_dword ws)) st"
  unfolding snapshot_module_read_byte_def snapshot_module_read_word_def snapshot_module_read_dword_def
    snapshot_module_read_qword_def snapshot_module_read_byte_array_def snapshot_module_read_word_array_def
    snapshot_module_read_dword_array_def
  by (intro conjI mread_reads_inside fixed_byte fixed_word fixed_dword fixed_qword fixed_byte_array
      fixed_word_array fixed_dword_array)

definition four_bytes :: sfile where
  "four_bytes = \<lparr>sf_bytes = [1, 2, 3, 4], sf_pos = 0, sf_limit = 0, sf_error = 0\<rparr>"

theorem module_reads_stay_inside_witness:
  "fst (snapshot_module_read_dword (demo_module, four_bytes)) = None
   \<and> map_option enc_word (fst (snapshot_module_read_word (demo_module, four_bytes))) = Some [1, 2]
   \<and> fst (snapshot_module_read_byte_array 3 (demo_module, four_bytes)) = None"
  using module_reads_stay_inside [of "(demo_module, four_bytes)" 3]
  by (auto simp: reads_inside_def module_end_def demo_module_def four_bytes_def split: prod.splits)

text \<open>
  The string reader checks only the two bytes of the length: with those at the end of
  the module it succeeds and consumes bytes that belong to what follows the module.
\<close>

theorem module_string_read_leaves_module:
  assumes "sf_bytes f = pre @ enc_word (of_nat (length s)) @ s @ post" "sf_pos f = length pre"
    and "s \<noteq> []" "length s < 2 ^ 16" "m_offset m + unat (m_size m) = length pre + 2"
  shows "\<exists>str f'. snapshot_module_read_string (m, f) = (Some str, m, f')
    \<and> sf_pos f' = m_offset m + unat (m_size m) + length s"
proof -
  let ?w = "of_nat (length s) :: u16"
  have n: "unat ?w = length s" using assms(4) by (simp add: unat_of_nat take_bit_nat_eq_self)
  then have n0: "?w \<noteq> 0" using assms(3) by (metis length_0_conv unat_0)
  have "parses snapshot_read_string (enc_word ?w @ s @ []) (Some (takeWhile (\<lambda>c. c \<noteq> 0) (butlast s)))"
    unfolding snapshot_read_string_def
    by (intro parses_rbind [OF parses_word])
      (simp add: n n0 del: append_Nil2, intro parses_rbind [OF parses_bytes_loop] parses_rret refl)
  from parsesD [OF this, of f pre post] show ?thesis
    using assms by (simp add: snapshot_module_read_string_def mread_def)
qed

theorem module_string_read_leaves_module_witness:
  "\<exists>str f'. snapshot_module_read_string (demo_module, (empty_file 0)\<lparr>sf_bytes := [1, 0, 0]\<rparr>)
     = (Some str, demo_module, f') \<and> sf_pos f' = 3"
  using module_string_read_leaves_module [of "(empty_file 0)\<lparr>sf_bytes := [1, 0, 0]\<rparr>" "[]" "[0]" "[]"
      demo_module]
  by (simp add: enc_word_def demo_module_def empty_file_def numeral_3_eq_3)

section \<open>The file header\<close>

definition header_bytes :: "u8 \<Rightarrow> u8 \<Rightarrow> u8 list \<Rightarrow> u8 \<times> u8 \<times> u8 \<times> u8 \<Rightarrow> u32 \<Rightarrow> u8 list" where
  "header_bytes major minor machine vv revision =
     pad_name 0 SNAPSHOT_MAGIC_LEN snapshot_magic_string @ ([major] @ [minor]) @
     pad_name 0 name_field_len machine @
     pad_name 0 SNAPSHOT_VERSION_MAGIC_LEN snapshot_version_magic_string @
     [fst vv] @ [fst (snd vv)] @ [fst (snd (snd vv))] @ [snd (snd (snd vv))] @ enc_dword revision"

lemma appends_on_fail: "appends w bs \<Longrightarrow> appends (on_fail e w) bs"
  by (simp add: appends_def on_fail_def)

lemma parses_on_none: "parses r bs x \<Longrightarrow> parses (on_none e r) bs x"
  by (intro parsesI) (simp add: on_none_def parsesD)

lemma parses_read_check: "parses r bs x \<Longrightarrow> ok x \<Longrightarrow> parses (read_check e ok r) bs x"
  by (intro parsesI) (simp add: read_check_def parsesD)

lemma magic_padded [simp]:
  "pad_name 0 SNAPSHOT_MAGIC_LEN snapshot_magic_string = snapshot_magic_string"
  "pad_name 0 SNAPSHOT_VERSION_MAGIC_LEN snapshot_version_magic_string = snapshot_version_magic_string"
  "length snapshot_magic_string = SNAPSHOT_MAGIC_LEN"
  "length snapshot_version_magic_string = SNAPSHOT_VERSION_MAGIC_LEN"
  by (simp_all add: pad_name_def SNAPSHOT_MAGIC_LEN_def SNAPSHOT_VERSION_MAGIC_LEN_def
      snapshot_magic_string_def snapshot_version_magic_string_def)

lemma length_header_bytes [simp]: "length (header_bytes major minor machine vv revision) = 58"
  by (simp add: header_bytes_def SNAPSHOT_MAGIC_LEN_def SNAPSHOT_VERSION_MAGIC_LEN_def name_field_len_def)

lemma create_appends:
  assumes "sf_pos f = length (sf_bytes f)" "sf_pos f + 58 \<le> sf_limit f"
  shows "snapshot_create major minor machine vv revision f = (Some (sf_pos f + 58),
    f\<lparr>sf_bytes := sf_bytes f @ header_bytes major minor machine vv revision, sf_pos := sf_pos f + 58\<rparr>)"
proof -
  have "appends (wseq (on_fail SNAPSHOT_CANNOT_WRITE_MAGIC_STRING_ERROR
                  (snapshot_write_padded_string snapshot_magic_string 0 SNAPSHOT_MAGIC_LEN))
          (wseq (on_fail SNAPSHOT_CANNOT_WRITE_VERSION_ERROR
                  (wseq (snapshot_write_byte major) (snapshot_write_byte minor)))
          (wseq (on_fail SNAPSHOT_CANNOT_WRITE_MACHINE_NAME_ERROR
                  (snapshot_write_padded_string machine 0 name_field_len))
          (wseq (on_fail SNAPSHOT_CANNOT_WRITE_MAGIC_STRING_ERROR
                  (snapshot_write_padded_string snapshot_version_magic_string 0
                    SNAPSHOT_VERSION_MAGIC_LEN))
          (on_fail SNAPSHOT_CANNOT_WRITE_VERSION_ERROR
             (wseq (snapshot_write_byte (fst vv))
             (wseq (snapshot_write_byte (fst (snd vv)))
             (wseq (snapshot_write_byte (fst (snd (snd vv))))
             (wseq (snapshot_write_byte (snd (snd (snd vv)))) (snapshot_write_dword revision))))))))))
     (header_bytes major minor machine vv revision)"
    unfolding header_bytes_def by (intro codec appends_on_fail)
  from appendsD [OF this, of f] show ?thesis using assms by (simp add: snapshot_create_def)
qed

lemma rbind_parses:
  "parses r bs x \<Longrightarrow> sf_bytes f = pre @ bs @ post \<Longrightarrow> sf_pos f = length pre \<Longrightarrow>
   rbind r k f = k x (f\<lparr>sf_pos := sf_pos f + length bs\<rparr>)"
  by (simp add: rbind_def parsesD)

lemma parses_vice_version:
  "parses read_vice_version (snapshot_version_magic_string @ [a] @ [b] @ [c] @ [d] @ enc_dword r) ()"
proof (rule parsesI)
  fix f :: sfile and pre post
  assume f: "sf_bytes f = pre @ (snapshot_version_magic_string @ [a] @ [b] @ [c] @ [d] @ enc_dword r) @ post"
    "sf_pos f = length pre"
  let ?f = "f\<lparr>sf_pos := sf_pos f + SNAPSHOT_VERSION_MAGIC_LEN\<rparr>"
  have m: "snapshot_read_byte_array SNAPSHOT_VERSION_MAGIC_LEN f = (Some snapshot_version_magic_string, ?f)"
    using f by (subst parsesD [OF parses_byte_array]) auto
  have "parses (on_none SNAPSHOT_CANNOT_READ_VERSION_ERROR
          (rbind snapshot_read_byte (\<lambda>_. rbind snapshot_read_byte (\<lambda>_.
           rbind snapshot_read_byte (\<lambda>_. rbind snapshot_read_byte (\<lambda>_.
           rbind snapshot_read_dword (\<lambda>_. rret ()))))))) ([a] @ [b] @ [c] @ [d] @ enc_dword r @ []) ()"
    by (intro parses_on_none parses_rbind [OF parses_byte] parses_rbind [OF parses_dword]
        parses_rret refl)
  from parsesD [OF this, of ?f "pre @ snapshot_version_magic_string" post] f
  show "read_vice_version f = (Some (), f\<lparr>sf_pos := sf_pos f
      + length (snapshot_version_magic_string @ [a] @ [b] @ [c] @ [d] @ enc_dword r)\<rparr>)"
    by (simp add: read_vice_version_def m)
qed

text \<open>
  C37. A header is read back only by the machine that wrote it: opening a file that
  \<^verbatim>\<open>snapshot_create\<close> wrote returns the versions and the offset of the first module, which is
  where writing stopped; any other machine name is refused with
  \<^verbatim>\<open>SNAPSHOT_MACHINE_MISMATCH_ERROR\<close>.
\<close>

theorem snapshot_header_roundtrip:
  assumes "0 \<notin> set machine" "length machine \<le> name_field_len" "0 \<notin> set other" "58 \<le> limit"
  shows "\<exists>f'. snapshot_create major minor machine vv revision (empty_file limit) = (Some 58, f')
    \<and> fst (snapshot_open other (fseek_set 0 f'))
        = (if other = machine then Some (58, major, minor) else None)
    \<and> sf_error (snd (snapshot_open other (fseek_set 0 f')))
        = (if other = machine then 0 else SNAPSHOT_MACHINE_MISMATCH_ERROR)"
proof -
  let ?bs = "header_bytes major minor machine vv revision"
  let ?name = "pad_name 0 name_field_len machine"
  let ?vv = "snapshot_version_magic_string @ [fst vv] @ [fst (snd vv)] @ [fst (snd (snd vv))]
     @ [snd (snd (snd vv))] @ enc_dword revision"
  let ?f = "(empty_file limit)\<lparr>sf_bytes := ?bs\<rparr>"
  let ?f' = "?f\<lparr>sf_pos := 58\<rparr>"
  have c: "snapshot_create major minor machine vv revision (empty_file limit) = (Some 58, ?f')"
    using assms(4) by (subst create_appends) (auto simp: empty_file_def)
  let ?tail = "\<lambda>maj min read_name. rbind (read_check SNAPSHOT_MACHINE_MISMATCH_ERROR
       (\<lambda>_. module_name_matches read_name other) (rret ()))
     (\<lambda>_. rbind read_vice_version (\<lambda>_ f. (Some (sf_pos f, maj :: u8, min :: u8), f)))"
  have bs: "?bs = snapshot_magic_string @ [major] @ [minor] @ ?name @ ?vv"
    by (simp add: header_bytes_def)
  have p0: "sf_pos (empty_file limit) = 0" by (simp add: empty_file_def)
  have n: "length snapshot_magic_string = 19" by (simp add: SNAPSHOT_MAGIC_LEN_def)
  have f: "sf_bytes ?f = snapshot_magic_string @ [major] @ [minor] @ ?name @ ?vv" "sf_pos ?f = 0"
    by (simp_all add: bs empty_file_def)
  have o: "snapshot_open other ?f = ?tail major minor ?name (?f\<lparr>sf_pos := 37\<rparr>)"
    unfolding snapshot_open_def
    apply (subst rbind_parses [where pre = "[]" and post = "[major] @ [minor] @ ?name @ ?vv"
          and bs = snapshot_magic_string and x = snapshot_magic_string],
        auto intro!: parses_read_check parses_byte_array simp: f n bs p0 SNAPSHOT_MAGIC_LEN_def)
    apply (subst rbind_parses [where pre = snapshot_magic_string and post = "[minor] @ ?name @ ?vv"
          and bs = "[major]" and x = major],
        auto intro!: parses_on_none parses_byte simp: f n bs p0 SNAPSHOT_MAGIC_LEN_def)
    apply (subst rbind_parses [where pre = "snapshot_magic_string @ [major]" and post = "?name @ ?vv"
          and bs = "[minor]" and x = minor],
        auto intro!: parses_on_none parses_byte simp: f n bs p0 SNAPSHOT_MAGIC_LEN_def)
    apply (subst rbind_parses [where pre = "snapshot_magic_string @ [major] @ [minor]" and post = ?vv
          and bs = ?name and x = ?name],
        auto intro!: parses_on_none parses_byte_array simp: f n bs p0 SNAPSHOT_MAGIC_LEN_def name_field_len_def)
    done
  have m: "module_name_matches ?name other \<longleftrightarrow> other = machine"
    using module_name_matches_pad assms by blast
  have v: "read_vice_version (?f\<lparr>sf_pos := 37\<rparr>) = (Some (), ?f')"
    by (subst parsesD [OF parses_vice_version, of _ "snapshot_magic_string @ [major] @ [minor] @ ?name"
          "fst vv" "fst (snd vv)" "fst (snd (snd vv))" "snd (snd (snd vv))" revision "[]"])
      (simp_all add: bs empty_file_def SNAPSHOT_MAGIC_LEN_def SNAPSHOT_VERSION_MAGIC_LEN_def name_field_len_def)
  have "fseek_set 0 ?f' = ?f" by (simp add: fseek_set_def empty_file_def)
  then show ?thesis
    using c m v by (simp add: o rbind_def read_check_def rret_def set_error_def)
      (simp add: empty_file_def)
qed

theorem snapshot_header_roundtrip_witness:
  "\<exists>f'. snapshot_create 2 0 [67, 54] (3, 10, 0, 0) 77 (empty_file 58) = (Some 58, f')
    \<and> fst (snapshot_open [67, 54] (fseek_set 0 f')) = Some (58, 2, 0)
    \<and> sf_error (snd (snapshot_open [67, 54] (fseek_set 0 f'))) = 0"
  using snapshot_header_roundtrip [of "[67, 54]" "[67, 54]" 58 2 0 "(3, 10, 0, 0)" 77]
  by (simp add: name_field_len_def)

lemma version_less:
  fixes a b c d :: nat
  assumes "b < 256" "d < 256"
  shows "256 * a + b < 256 * c + d \<longleftrightarrow> a < c \<or> a = c \<and> b < d"
    and "256 * a + b = 256 * c + d \<longleftrightarrow> a = c \<and> b = d"
  using assms by (cases a c rule: linorder_cases; linarith)+

text \<open>
  The three version checks agree with one order: exactly one of them holds, and they
  compare the numbers \<open>256 * major + minor\<close>.
\<close>

theorem snapshot_version_order:
  "(snapshot_version_is_bigger a b c d \<longleftrightarrow> 256 * unat c + unat d < 256 * unat a + unat b)
   \<and> (snapshot_version_is_smaller a b c d \<longleftrightarrow> 256 * unat a + unat b < 256 * unat c + unat d)
   \<and> (snapshot_version_is_equal a b c d \<longleftrightarrow> 256 * unat a + unat b = 256 * unat c + unat d)"
proof -
  have "unat x < 256" for x :: u8 using unsigned_less [of x] by simp
  then have less: "256 * unat u + unat v < 256 * unat x + unat y
      \<longleftrightarrow> unat u < unat x \<or> unat u = unat x \<and> unat v < unat y"
    and eq: "256 * unat u + unat v = 256 * unat x + unat y \<longleftrightarrow> unat u = unat x \<and> unat v = unat y"
    for u v x y :: u8
    using version_less [of "unat v" "unat y" "unat u" "unat x"] by blast+
  show ?thesis
    unfolding less eq snapshot_version_is_bigger_def snapshot_version_is_smaller_def
      snapshot_version_is_equal_def word_less_nat_alt word_unat_eq_iff
    by auto
qed

end
