(* ===== verification/Interrupt.thy ===== *)
theory Interrupt
  imports Snapshot_Codec
begin

text \<open>
  The interrupt lines of a CPU, \<^verbatim>\<open>src/src/interrupt.c\<close> and the inline functions of
  \<^verbatim>\<open>src/src/interrupt.h\<close>: IRQ and NMI sources, DMA-corrected request clocks, reset, the queue
  of traps, the monitor flag and the snapshot of the state. Function pointers are values of
  a type \<open>'f\<close>, their data pointers of a type \<open>'d\<close>; calling one is a parameter. Log calls and
  names of sources are left out.
\<close>

section \<open>State\<close>

definition IK_NONE :: u32 where "IK_NONE = 0"
definition IK_NMI :: u32 where "IK_NMI = 1"
definition IK_IRQ :: u32 where "IK_IRQ = 2"
definition IK_RESET :: u32 where "IK_RESET = 4"
definition IK_TRAP :: u32 where "IK_TRAP = 8"
definition IK_MONITOR :: u32 where "IK_MONITOR = 16"
definition IK_DMA :: u32 where "IK_DMA = 32"
definition IK_IRQPEND :: u32 where "IK_IRQPEND = 64"

lemmas IK_defs = IK_NONE_def IK_NMI_def IK_IRQ_def IK_RESET_def IK_TRAP_def IK_MONITOR_def
  IK_DMA_def IK_IRQPEND_def

text \<open>
  \<^verbatim>\<open>interrupt_cpu_status_t\<close>. The opcode information its pointer reaches is the field
  \<open>last_opcode_info\<close>. \<open>None\<close> in the trap arrays is memory \<^verbatim>\<open>lib_realloc\<close> has not initialised.
\<close>

record ('f, 'd) interrupt_cpu_status =
  num_ints :: nat
  pending_int :: "u32 list"
  nirq :: int
  irq_clk :: clock
  nnmi :: int
  nmi_clk :: clock
  num_dma_per_opcode :: nat
  num_cycles_left :: "nat \<Rightarrow> clock"
  dma_start_clk :: "nat \<Rightarrow> clock"
  irq_delay_cycles :: clock
  nmi_delay_cycles :: clock
  trap_func :: "'f option list"
  trap_data :: "'d option list"
  traps_size :: nat
  traps_next :: nat
  traps_count :: nat
  last_opcode_info :: u32
  num_last_stolen_cycles :: clock
  last_stolen_cycles_clk :: clock
  irq_pending_clk :: clock
  global_pending_int :: u32
  nmi_trap_func :: "'f option"
  reset_trap_func :: "'f option"

definition interrupt_cpu_status_reset ::
  "('f, 'd) interrupt_cpu_status \<Rightarrow> ('f, 'd) interrupt_cpu_status" where
  "interrupt_cpu_status_reset cs = \<lparr>
     num_ints = num_ints cs,
     pending_int = replicate (num_ints cs) 0,
     nirq = 0, irq_clk = 0, nnmi = 0, nmi_clk = 0,
     num_dma_per_opcode = 0, num_cycles_left = (\<lambda>_. 0), dma_start_clk = (\<lambda>_. 0),
     irq_delay_cycles = 0, nmi_delay_cycles = 0,
     trap_func = [], trap_data = [], traps_size = 0, traps_next = 0, traps_count = 0,
     last_opcode_info = last_opcode_info cs,
     num_last_stolen_cycles = 0, last_stolen_cycles_clk = 0,
     irq_pending_clk = CLOCK_MAX, global_pending_int = IK_NONE,
     nmi_trap_func = None, reset_trap_func = None\<rparr>"

definition interrupt_cpu_status_new :: "u32 \<Rightarrow> ('f, 'd) interrupt_cpu_status" where
  "interrupt_cpu_status_new info = \<lparr>
     num_ints = 0, pending_int = [],
     nirq = 0, irq_clk = 0, nnmi = 0, nmi_clk = 0,
     num_dma_per_opcode = 0, num_cycles_left = (\<lambda>_. 0), dma_start_clk = (\<lambda>_. 0),
     irq_delay_cycles = 0, nmi_delay_cycles = 0,
     trap_func = [], trap_data = [], traps_size = 0, traps_next = 0, traps_count = 0,
     last_opcode_info = info,
     num_last_stolen_cycles = 0, last_stolen_cycles_clk = 0,
     irq_pending_clk = 0, global_pending_int = 0,
     nmi_trap_func = None, reset_trap_func = None\<rparr>"

definition interrupt_cpu_status_int_new ::
  "('f, 'd) interrupt_cpu_status \<Rightarrow> nat \<times> ('f, 'd) interrupt_cpu_status" where
  "interrupt_cpu_status_int_new cs =
     (num_ints cs, cs\<lparr>num_ints := num_ints cs + 1, pending_int := pending_int cs @ [0]\<rparr>)"

definition interrupt_set_nmi_trap_func ::
  "('f, 'd) interrupt_cpu_status \<Rightarrow> 'f option \<Rightarrow> ('f, 'd) interrupt_cpu_status" where
  "interrupt_set_nmi_trap_func cs fn = cs\<lparr>nmi_trap_func := fn\<rparr>"

definition interrupt_set_reset_trap_func ::
  "('f, 'd) interrupt_cpu_status \<Rightarrow> 'f option \<Rightarrow> ('f, 'd) interrupt_cpu_status" where
  "interrupt_set_reset_trap_func cs fn = cs\<lparr>reset_trap_func := fn\<rparr>"

text \<open>Clocks moved back stop at zero.\<close>

definition clock_back :: "clock \<Rightarrow> clock \<Rightarrow> clock" where
  "clock_back c amount = (if c > amount then c - amount else 0)"

definition interrupt_cpu_status_time_warp ::
  "('f, 'd) interrupt_cpu_status \<Rightarrow> clock \<Rightarrow> int \<Rightarrow> ('f, 'd) interrupt_cpu_status" where
  "interrupt_cpu_status_time_warp cs warp_amount warp_direction =
     (if warp_direction = 0 then cs
      else if warp_direction > 0 then
        cs\<lparr>irq_clk := irq_clk cs + warp_amount,
           nmi_clk := nmi_clk cs + warp_amount,
           last_stolen_cycles_clk := last_stolen_cycles_clk cs + warp_amount,
           irq_pending_clk := (if irq_pending_clk cs < CLOCK_MAX
             then irq_pending_clk cs + warp_amount else irq_pending_clk cs)\<rparr>
      else
        cs\<lparr>irq_clk := clock_back (irq_clk cs) warp_amount,
           nmi_clk := clock_back (nmi_clk cs) warp_amount,
           last_stolen_cycles_clk := clock_back (last_stolen_cycles_clk cs) warp_amount,
           irq_pending_clk := (if irq_pending_clk cs < CLOCK_MAX
             then clock_back (irq_pending_clk cs) warp_amount else irq_pending_clk cs)\<rparr>)"

section \<open>Lines\<close>

text \<open>The two restore functions and the getters index without a check: \<open>None\<close> is an access
  out of bounds.\<close>

definition interrupt_restore_irq ::
  "('f, 'd) interrupt_cpu_status \<Rightarrow> nat \<Rightarrow> bool \<Rightarrow> ('f, 'd) interrupt_cpu_status option" where
  "interrupt_restore_irq cs int_num value =
     (if int_num < length (pending_int cs)
      then Some (cs\<lparr>pending_int := (pending_int cs)[int_num :=
             (if value then pending_int cs ! int_num OR IK_IRQ
              else pending_int cs ! int_num AND NOT IK_IRQ)]\<rparr>)
      else None)"

definition interrupt_restore_nmi ::
  "('f, 'd) interrupt_cpu_status \<Rightarrow> nat \<Rightarrow> bool \<Rightarrow> ('f, 'd) interrupt_cpu_status option" where
  "interrupt_restore_nmi cs int_num value =
     (if int_num < length (pending_int cs)
      then Some (cs\<lparr>pending_int := (pending_int cs)[int_num :=
             (if value then pending_int cs ! int_num OR IK_NMI
              else pending_int cs ! int_num AND NOT IK_NMI)]\<rparr>)
      else None)"

definition interrupt_get_irq :: "('f, 'd) interrupt_cpu_status \<Rightarrow> nat \<Rightarrow> u32 option" where
  "interrupt_get_irq cs int_num = (if int_num < length (pending_int cs)
     then Some (pending_int cs ! int_num AND IK_IRQ) else None)"

definition interrupt_get_nmi :: "('f, 'd) interrupt_cpu_status \<Rightarrow> nat \<Rightarrow> u32 option" where
  "interrupt_get_nmi cs int_num = (if int_num < length (pending_int cs)
     then Some (pending_int cs ! int_num AND IK_NMI) else None)"

definition OPINFO_DELAYS_INTERRUPT :: "u32 \<Rightarrow> bool" where
  "OPINFO_DELAYS_INTERRUPT opinfo \<longleftrightarrow> opinfo AND 0x100 \<noteq> 0"

text \<open>
  The search of \<^verbatim>\<open>interrupt_fixup_int_clk\<close> for the DMA the request falls into, from the
  newest of the recorded ones: the cycles left, the cycles left and the start of the DMA after it.
\<close>

fun fixup_search :: "('f, 'd) interrupt_cpu_status \<Rightarrow> clock \<Rightarrow> nat \<Rightarrow> clock \<Rightarrow> clock \<Rightarrow> clock
    \<Rightarrow> clock \<times> clock \<times> clock" where
  "fixup_search cs cpu_clk 0 left last_left last_start = (left, last_left, last_start)"
| "fixup_search cs cpu_clk (Suc n) left last_left last_start =
     (let left' = num_cycles_left cs n
      in if dma_start_clk cs n - 1 \<le> cpu_clk then (left', last_left, last_start)
         else fixup_search cs cpu_clk n left' left' (dma_start_clk cs n))"

definition interrupt_fixup_int_clk :: "('f, 'd) interrupt_cpu_status \<Rightarrow> clock \<Rightarrow> clock" where
  "interrupt_fixup_int_clk cs cpu_clk =
     (let cycles_left_to_trigger_irq = (if OPINFO_DELAYS_INTERRUPT (last_opcode_info cs) then 2 else 1);
          (left, last_left, last_start) = fixup_search cs cpu_clk (num_dma_per_opcode cs) 0 0 CLOCK_MAX;
          left = (if left - last_left > last_start - cpu_clk - 1
                  then last_left + last_start - cpu_clk - 1 else left);
          int_clk = last_stolen_cycles_clk cs;
          int_clk = (if num_dma_per_opcode cs > 0 \<and> dma_start_clk cs 0 > cpu_clk
                     then int_clk - (dma_start_clk cs 0 - cpu_clk) else int_clk)
      in if left \<ge> cycles_left_to_trigger_irq
         then int_clk - (cycles_left_to_trigger_irq + 1) else int_clk)"

text \<open>\<^verbatim>\<open>interrupt_set_irq\<close>; the NULL status does not occur in the model.\<close>

definition interrupt_set_irq :: "('f, 'd) interrupt_cpu_status \<Rightarrow> nat \<Rightarrow> bool \<Rightarrow> clock
    \<Rightarrow> ('f, 'd) interrupt_cpu_status" where
  "interrupt_set_irq cs int_num value cpu_clk =
     (if int_num \<ge> num_ints cs then cs
      else if value then
        (if pending_int cs ! int_num AND IK_IRQ = 0 then
           let cs = cs\<lparr>pending_int := (pending_int cs)[int_num := pending_int cs ! int_num OR IK_IRQ]\<rparr>;
               cs = (if nirq cs = 0 then
                  let cs = cs\<lparr>global_pending_int := global_pending_int cs OR (IK_IRQ OR IK_IRQPEND),
                              irq_pending_clk := CLOCK_MAX, irq_delay_cycles := 0\<rparr>
                  in if last_stolen_cycles_clk cs \<le> cpu_clk then cs\<lparr>irq_clk := cpu_clk\<rparr>
                     else cs\<lparr>irq_clk := interrupt_fixup_int_clk cs cpu_clk\<rparr>
                else cs)
           in cs\<lparr>nirq := nirq cs + 1\<rparr>
         else cs)
      else
        (if pending_int cs ! int_num AND IK_IRQ \<noteq> 0 \<and> nirq cs > 0 then
           let cs = cs\<lparr>pending_int := (pending_int cs)[int_num := pending_int cs ! int_num AND NOT IK_IRQ],
                       nirq := nirq cs - 1\<rparr>
           in if nirq cs = 0
              then cs\<lparr>global_pending_int := global_pending_int cs AND NOT IK_IRQ,
                      irq_pending_clk := cpu_clk + 3\<rparr>
              else cs
         else cs))"

definition interrupt_set_nmi :: "('f, 'd) interrupt_cpu_status \<Rightarrow> nat \<Rightarrow> bool \<Rightarrow> clock
    \<Rightarrow> ('f, 'd) interrupt_cpu_status" where
  "interrupt_set_nmi cs int_num value cpu_clk =
     (if int_num \<ge> num_ints cs then cs
      else if value then
        (if pending_int cs ! int_num AND IK_NMI = 0 then
           let cs = (if nnmi cs = 0 \<and> global_pending_int cs AND IK_NMI = 0 then
                  let cs = cs\<lparr>global_pending_int := global_pending_int cs OR IK_NMI,
                              nmi_delay_cycles := 0\<rparr>
                  in if last_stolen_cycles_clk cs \<le> cpu_clk then cs\<lparr>nmi_clk := cpu_clk\<rparr>
                     else cs\<lparr>nmi_clk := interrupt_fixup_int_clk cs cpu_clk\<rparr>
                else cs)
           in cs\<lparr>nnmi := nnmi cs + 1,
                 pending_int := (pending_int cs)[int_num := pending_int cs ! int_num OR IK_NMI]\<rparr>
         else cs)
      else
        (if pending_int cs ! int_num AND IK_NMI \<noteq> 0 \<and> nnmi cs > 0 then
           cs\<lparr>nnmi := nnmi cs - 1,
              pending_int := (pending_int cs)[int_num := pending_int cs ! int_num AND NOT IK_NMI]\<rparr>
         else cs))"

definition interrupt_set_int :: "('f, 'd) interrupt_cpu_status \<Rightarrow> nat \<Rightarrow> u32 \<Rightarrow> clock
    \<Rightarrow> ('f, 'd) interrupt_cpu_status" where
  "interrupt_set_int cs int_num value cpu_clk =
     interrupt_set_irq (interrupt_set_nmi cs int_num (value AND IK_NMI \<noteq> 0) cpu_clk) int_num
       (value AND IK_IRQ \<noteq> 0) cpu_clk"

text \<open>Acknowledgements; \<open>call\<close> runs a function pointer.\<close>

definition interrupt_ack_nmi :: "('f \<Rightarrow> ('f, 'd) interrupt_cpu_status \<Rightarrow> ('f, 'd) interrupt_cpu_status)
    \<Rightarrow> ('f, 'd) interrupt_cpu_status \<Rightarrow> ('f, 'd) interrupt_cpu_status" where
  "interrupt_ack_nmi call cs =
     (let cs = cs\<lparr>global_pending_int := global_pending_int cs AND NOT IK_NMI\<rparr>
      in case nmi_trap_func cs of None \<Rightarrow> cs | Some fn \<Rightarrow> call fn cs)"

definition interrupt_ack_irq :: "('f, 'd) interrupt_cpu_status \<Rightarrow> ('f, 'd) interrupt_cpu_status" where
  "interrupt_ack_irq cs = cs\<lparr>global_pending_int := global_pending_int cs AND NOT IK_IRQPEND,
     irq_pending_clk := CLOCK_MAX\<rparr>"

definition interrupt_trigger_dma ::
  "('f, 'd) interrupt_cpu_status \<Rightarrow> ('f, 'd) interrupt_cpu_status" where
  "interrupt_trigger_dma cs = cs\<lparr>global_pending_int := global_pending_int cs OR IK_DMA\<rparr>"

definition interrupt_ack_dma ::
  "('f, 'd) interrupt_cpu_status \<Rightarrow> ('f, 'd) interrupt_cpu_status" where
  "interrupt_ack_dma cs = cs\<lparr>global_pending_int := global_pending_int cs AND NOT IK_DMA\<rparr>"

definition interrupt_trigger_reset ::
  "('f, 'd) interrupt_cpu_status \<Rightarrow> ('f, 'd) interrupt_cpu_status" where
  "interrupt_trigger_reset cs = cs\<lparr>global_pending_int := global_pending_int cs OR IK_RESET\<rparr>"

definition interrupt_ack_reset :: "('f \<Rightarrow> ('f, 'd) interrupt_cpu_status \<Rightarrow> ('f, 'd) interrupt_cpu_status)
    \<Rightarrow> ('f, 'd) interrupt_cpu_status \<Rightarrow> ('f, 'd) interrupt_cpu_status" where
  "interrupt_ack_reset call cs =
     (let cs = cs\<lparr>global_pending_int := global_pending_int cs AND NOT IK_RESET\<rparr>
      in case reset_trap_func cs of None \<Rightarrow> cs | Some fn \<Rightarrow> call fn cs)"

definition interrupt_monitor_trap_on ::
  "('f, 'd) interrupt_cpu_status \<Rightarrow> ('f, 'd) interrupt_cpu_status" where
  "interrupt_monitor_trap_on cs = cs\<lparr>global_pending_int := global_pending_int cs OR IK_MONITOR\<rparr>"

definition interrupt_monitor_trap_off ::
  "('f, 'd) interrupt_cpu_status \<Rightarrow> ('f, 'd) interrupt_cpu_status" where
  "interrupt_monitor_trap_off cs = cs\<lparr>global_pending_int := global_pending_int cs AND NOT IK_MONITOR\<rparr>"

section \<open>Traps\<close>

text \<open>\<^verbatim>\<open>lib_realloc\<close> to a larger size keeps the old entries and leaves the rest uninitialised.\<close>

definition realloc :: "'a option list \<Rightarrow> nat \<Rightarrow> 'a option list" where
  "realloc xs n = take n xs @ replicate (n - length xs) None"

definition interrupt_maincpu_trigger_trap :: "'f \<Rightarrow> 'd \<Rightarrow> ('f, 'd) interrupt_cpu_status
    \<Rightarrow> ('f, 'd) interrupt_cpu_status" where
  "interrupt_maincpu_trigger_trap fn data cs =
     (let this_trap_index = traps_next cs + traps_count cs;
          cs = cs\<lparr>traps_count := traps_count cs + 1\<rparr>;
          trap_size_needed = traps_next cs + traps_count cs;
          cs = (if trap_size_needed > traps_size cs
                then cs\<lparr>trap_func := realloc (trap_func cs) trap_size_needed,
                        trap_data := realloc (trap_data cs) trap_size_needed,
                        traps_size := trap_size_needed\<rparr>
                else cs);
          cs = cs\<lparr>global_pending_int := global_pending_int cs OR IK_TRAP\<rparr>
      in cs\<lparr>trap_func := (trap_func cs)[this_trap_index := Some fn],
            trap_data := (trap_data cs)[this_trap_index := Some data]\<rparr>)"

text \<open>
  The loop of \<^verbatim>\<open>interrupt_do_trap\<close>, over the number of traps of the cycle. \<open>None\<close> is the
  call of an uninitialised or out-of-bounds entry.
\<close>

definition slot :: "'a option list \<Rightarrow> nat \<Rightarrow> 'a option" where
  "slot xs i = (if i < length xs then xs ! i else None)"

fun do_trap_loop :: "('f \<Rightarrow> u16 \<Rightarrow> 'd \<Rightarrow> ('f, 'd) interrupt_cpu_status \<Rightarrow> ('f, 'd) interrupt_cpu_status)
    \<Rightarrow> u16 \<Rightarrow> nat \<Rightarrow> ('f, 'd) interrupt_cpu_status \<Rightarrow> ('f, 'd) interrupt_cpu_status option" where
  "do_trap_loop call address 0 cs = Some cs"
| "do_trap_loop call address (Suc n) cs =
     (case (slot (trap_func cs) (traps_next cs), slot (trap_data cs) (traps_next cs)) of
        (Some fn, Some data) \<Rightarrow>
          (let cs = call fn address data cs
           in do_trap_loop call address n (cs\<lparr>traps_next := traps_next cs + 1\<rparr>))
      | _ \<Rightarrow> None)"

definition interrupt_do_trap :: "('f \<Rightarrow> u16 \<Rightarrow> 'd \<Rightarrow> ('f, 'd) interrupt_cpu_status \<Rightarrow> ('f, 'd) interrupt_cpu_status)
    \<Rightarrow> u16 \<Rightarrow> ('f, 'd) interrupt_cpu_status \<Rightarrow> ('f, 'd) interrupt_cpu_status option" where
  "interrupt_do_trap call address cs =
     (let traps_this_cycle = traps_count cs
      in case do_trap_loop call address traps_this_cycle cs of
           None \<Rightarrow> None
         | Some cs \<Rightarrow> Some (
             if traps_count cs > traps_this_cycle
             then cs\<lparr>traps_count := traps_count cs - traps_this_cycle\<rparr>
             else cs\<lparr>global_pending_int := global_pending_int cs AND NOT IK_TRAP,
                     traps_next := 0, traps_count := 0\<rparr>))"

section \<open>Snapshots\<close>

definition interrupt_write_snapshot :: "('f, 'd) interrupt_cpu_status \<Rightarrow> mstate \<Rightarrow> bool \<times> mstate" where
  "interrupt_write_snapshot cs =
     wseq (snapshot_module_write_qword (irq_clk cs))
    (wseq (snapshot_module_write_qword (nmi_clk cs))
    (wseq (snapshot_module_write_qword (irq_pending_clk cs))
    (wseq (snapshot_module_write_qword (num_last_stolen_cycles cs))
          (snapshot_module_write_qword (last_stolen_cycles_clk cs)))))"

definition interrupt_write_new_snapshot :: "('f, 'd) interrupt_cpu_status \<Rightarrow> mstate \<Rightarrow> bool \<times> mstate" where
  "interrupt_write_new_snapshot cs =
     wseq (snapshot_module_write_dword (of_int (nirq cs)))
    (wseq (snapshot_module_write_dword (of_int (nnmi cs)))
          (snapshot_module_write_dword (global_pending_int cs)))"

definition interrupt_write_sc_snapshot :: "('f, 'd) interrupt_cpu_status \<Rightarrow> mstate \<Rightarrow> bool \<times> mstate" where
  "interrupt_write_sc_snapshot cs =
     wseq (snapshot_module_write_qword (irq_delay_cycles cs))
          (snapshot_module_write_qword (nmi_delay_cycles cs))"

definition interrupt_read_snapshot ::
  "('f, 'd) interrupt_cpu_status \<times> mstate \<Rightarrow> bool \<times> ('f, 'd) interrupt_cpu_status \<times> mstate" where
  "interrupt_read_snapshot st =
     (let cs = (fst st)\<lparr>pending_int := replicate (num_ints (fst st)) IK_NONE,
                global_pending_int := IK_NONE, nirq := 0, nnmi := 0\<rparr>
      in wseq (smr snapshot_module_read_qword (\<lambda>x cs. cs\<lparr>irq_clk := x\<rparr>))
        (wseq (smr snapshot_module_read_qword (\<lambda>x cs. cs\<lparr>nmi_clk := x\<rparr>))
        (wseq (smr snapshot_module_read_qword (\<lambda>x cs. cs\<lparr>irq_pending_clk := x\<rparr>))
        (wseq (smr snapshot_module_read_qword (\<lambda>x cs. cs\<lparr>num_last_stolen_cycles := x\<rparr>))
              (smr snapshot_module_read_qword (\<lambda>x cs. cs\<lparr>last_stolen_cycles_clk := x\<rparr>)))))
        (cs, snd st))"

definition interrupt_read_new_snapshot ::
  "('f, 'd) interrupt_cpu_status \<times> mstate \<Rightarrow> bool \<times> ('f, 'd) interrupt_cpu_status \<times> mstate" where
  "interrupt_read_new_snapshot =
     wseq (smr snapshot_module_read_dword_into_int (\<lambda>x cs. cs\<lparr>nirq := sint x\<rparr>))
    (wseq (smr snapshot_module_read_dword_into_int (\<lambda>x cs. cs\<lparr>nnmi := sint x\<rparr>))
          (smr snapshot_module_read_dword_into_int (\<lambda>x cs. cs\<lparr>global_pending_int := x\<rparr>)))"

definition interrupt_read_sc_snapshot ::
  "('f, 'd) interrupt_cpu_status \<times> mstate \<Rightarrow> bool \<times> ('f, 'd) interrupt_cpu_status \<times> mstate" where
  "interrupt_read_sc_snapshot =
     wseq (smr snapshot_module_read_qword (\<lambda>x cs. cs\<lparr>irq_delay_cycles := x\<rparr>))
          (smr snapshot_module_read_qword (\<lambda>x cs. cs\<lparr>nmi_delay_cycles := x\<rparr>))"

end
