(* ===== verification/Interrupt_Lines.thy ===== *)
theory Interrupt_Lines
  imports Interrupt
begin

text \<open>
  Correctness of \<^verbatim>\<open>src/src/interrupt.c\<close> and \<^verbatim>\<open>interrupt.h\<close>: the counts of active lines and the
  flags the CPU polls agree with the lines; the line operations refine a pair of sets with
  an edge latch for the NMI; the queue of traps is first in, first out as long as only the
  first trap of a batch schedules others; the snapshot routines restore what they wrote.
\<close>

section \<open>Bits and lines\<close>

declare One_nat_def [simp del]

lemma bit_numeral_at_1 [simp]:
  "bit (numeral w :: u32) 1 \<longleftrightarrow> bit (numeral w :: u32) (Suc 0)"
  "bit (numeral w :: int) 1 \<longleftrightarrow> bit (numeral w :: int) (Suc 0)"
  "bit (numeral w :: nat) 1 \<longleftrightarrow> bit (numeral w :: nat) (Suc 0)"
  by (simp_all add: One_nat_def)

lemma IK_powers:
  "IK_NMI = 2 ^ 0" "IK_IRQ = 2 ^ 1" "IK_RESET = 2 ^ 2" "IK_TRAP = 2 ^ 3" "IK_MONITOR = 2 ^ 4"
  "IK_DMA = 2 ^ 5" "IK_IRQPEND = 2 ^ 6"
  by (simp_all add: IK_defs)

definition lines_of :: "nat \<Rightarrow> u32 list \<Rightarrow> nat set" where
  "lines_of b xs = {i. i < length xs \<and> bit (xs ! i) b}"

lemma finite_lines [simp]: "finite (lines_of b xs)"
  by (simp add: lines_of_def)

lemma mem_lines [simp]: "i \<in> lines_of b xs \<longleftrightarrow> i < length xs \<and> bit (xs ! i) b"
  by (simp add: lines_of_def)

lemma and_power_zero [simp]: "(w :: u32) AND 2 ^ b = 0 \<longleftrightarrow> \<not> bit w b"
  by (simp add: and_exp_eq_0_iff_not_bit)

lemma lines_raise:
  "i < length xs \<Longrightarrow> b < 32 \<Longrightarrow>
   lines_of c (xs[i := xs ! i OR 2 ^ b]) = (if b = c then insert i (lines_of c xs) else lines_of c xs)"
  by (auto simp: lines_of_def nth_list_update bit_simps)

lemma lines_lower:
  "i < length xs \<Longrightarrow>
   lines_of c (xs[i := xs ! i AND NOT (2 ^ b)]) = (if b = c then lines_of c xs - {i} else lines_of c xs)"
  by (auto simp: lines_of_def nth_list_update bit_simps dest: bit_imp_le_length)

lemma lines_new: "lines_of b (xs @ [0]) = lines_of b xs"
  by (auto simp: lines_of_def nth_append)

lemma lines_none [simp]: "lines_of b (replicate n 0) = {}"
  by (auto simp: lines_of_def)

text \<open>The counts and the IRQ flag agree with the lines.\<close>

lemma and_small_zero [simp]:
  "(w :: u32) AND 2 = 0 \<longleftrightarrow> \<not> bit w 1" "(w :: u32) AND 1 = 0 \<longleftrightarrow> \<not> bit w 0"
  using and_power_zero [of w 1] and_power_zero [of w 0] by simp_all

definition int_wf :: "('f, 'd) interrupt_cpu_status \<Rightarrow> bool" where
  "int_wf cs \<longleftrightarrow> length (pending_int cs) = num_ints cs
     \<and> nirq cs = int (card (lines_of 1 (pending_int cs)))
     \<and> nnmi cs = int (card (lines_of 0 (pending_int cs)))
     \<and> (bit (global_pending_int cs) 1 \<longleftrightarrow> nirq cs > 0)"

abbreviation irq_lines :: "('f, 'd) interrupt_cpu_status \<Rightarrow> nat set" where
  "irq_lines cs \<equiv> lines_of 1 (pending_int cs)"

abbreviation nmi_lines :: "('f, 'd) interrupt_cpu_status \<Rightarrow> nat set" where
  "nmi_lines cs \<equiv> lines_of 0 (pending_int cs)"

lemma int_wf_counts:
  assumes "int_wf cs"
  shows "nirq cs = 0 \<longleftrightarrow> irq_lines cs = {}" "nnmi cs = 0 \<longleftrightarrow> nmi_lines cs = {}"
    "nirq cs > 0 \<longleftrightarrow> irq_lines cs \<noteq> {}" "nnmi cs > 0 \<longleftrightarrow> nmi_lines cs \<noteq> {}"
    "bit (global_pending_int cs) 1 \<longleftrightarrow> irq_lines cs \<noteq> {}"
  using assms by (auto simp: int_wf_def card_gt_0_iff)

subsection \<open>What each operation does to the lines\<close>

lemma set_irq_frame [simp]:
  "num_ints (interrupt_set_irq cs i v c) = num_ints cs"
  "nnmi (interrupt_set_irq cs i v c) = nnmi cs"
  "length (pending_int (interrupt_set_irq cs i v c)) = length (pending_int cs)"
  by (simp_all add: interrupt_set_irq_def Let_def)

lemma set_nmi_frame [simp]:
  "num_ints (interrupt_set_nmi cs i v c) = num_ints cs"
  "nirq (interrupt_set_nmi cs i v c) = nirq cs"
  "length (pending_int (interrupt_set_nmi cs i v c)) = length (pending_int cs)"
  by (simp_all add: interrupt_set_nmi_def Let_def)

lemma set_irq_lines:
  assumes "int_wf cs"
  shows "irq_lines (interrupt_set_irq cs i v c) = (if i < num_ints cs
      then if v then insert i (irq_lines cs) else irq_lines cs - {i} else irq_lines cs)"
    and "nmi_lines (interrupt_set_irq cs i v c) = nmi_lines cs"
proof -
  have len: "length (pending_int cs) = num_ints cs" using assms by (simp add: int_wf_def)
  have pos: "bit (pending_int cs ! i) 1 \<Longrightarrow> i < num_ints cs \<Longrightarrow> nirq cs > 0"
    using len int_wf_counts(3) [OF assms] by (metis empty_iff mem_lines)
  show "irq_lines (interrupt_set_irq cs i v c) = (if i < num_ints cs
      then if v then insert i (irq_lines cs) else irq_lines cs - {i} else irq_lines cs)"
    using len pos unfolding interrupt_set_irq_def IK_powers
    by (auto simp: Let_def lines_raise lines_lower simp del: One_nat_def power_0 power_one_right)
  show "nmi_lines (interrupt_set_irq cs i v c) = nmi_lines cs"
    using len unfolding interrupt_set_irq_def IK_powers
    by (auto simp: Let_def lines_raise lines_lower simp del: One_nat_def power_0 power_one_right)
qed

lemma set_nmi_lines:
  assumes "int_wf cs"
  shows "nmi_lines (interrupt_set_nmi cs i v c) = (if i < num_ints cs
      then if v then insert i (nmi_lines cs) else nmi_lines cs - {i} else nmi_lines cs)"
    and "irq_lines (interrupt_set_nmi cs i v c) = irq_lines cs"
proof -
  have len: "length (pending_int cs) = num_ints cs" using assms by (simp add: int_wf_def)
  have pos: "bit (pending_int cs ! i) 0 \<Longrightarrow> i < num_ints cs \<Longrightarrow> nnmi cs > 0"
    using len int_wf_counts(4) [OF assms] by (metis empty_iff mem_lines)
  show "nmi_lines (interrupt_set_nmi cs i v c) = (if i < num_ints cs
      then if v then insert i (nmi_lines cs) else nmi_lines cs - {i} else nmi_lines cs)"
    using len pos unfolding interrupt_set_nmi_def IK_powers
    by (auto simp: Let_def lines_raise lines_lower simp del: One_nat_def power_0 power_one_right)
  show "irq_lines (interrupt_set_nmi cs i v c) = irq_lines cs"
    using len unfolding interrupt_set_nmi_def IK_powers
    by (auto simp: Let_def lines_raise lines_lower simp del: One_nat_def power_0 power_one_right)
qed

lemma card_lower: "i \<in> L \<Longrightarrow> finite L \<Longrightarrow> int (card L - 1) = int (card L) - 1"
proof -
  assume "i \<in> L" "finite L"
  then have "card L > 0" by (auto simp: card_gt_0_iff)
  then show ?thesis by (simp add: of_nat_diff)
qed

lemma set_irq_counts:
  assumes "int_wf cs"
  shows "nirq (interrupt_set_irq cs i v c) = int (card (irq_lines (interrupt_set_irq cs i v c)))"
proof -
  have len: "length (pending_int cs) = num_ints cs" and n: "nirq cs = int (card (irq_lines cs))"
    using assms by (simp_all add: int_wf_def)
  have pos: "bit (pending_int cs ! i) 1 \<Longrightarrow> i < num_ints cs \<Longrightarrow> nirq cs > 0"
    using len int_wf_counts(3) [OF assms] by (metis empty_iff mem_lines)
  have "nirq (interrupt_set_irq cs i v c) = (if i < num_ints cs
      then if v then (if i \<in> irq_lines cs then nirq cs else nirq cs + 1)
           else (if i \<in> irq_lines cs then nirq cs - 1 else nirq cs) else nirq cs)"
    using len pos unfolding interrupt_set_irq_def IK_powers
    by (auto simp: Let_def simp del: One_nat_def power_0 power_one_right)
  then show ?thesis
    unfolding set_irq_lines(1) [OF assms] n
    by (auto simp: card_lower insert_absorb simp del: mem_lines)
qed

lemma set_nmi_counts:
  assumes "int_wf cs"
  shows "nnmi (interrupt_set_nmi cs i v c) = int (card (nmi_lines (interrupt_set_nmi cs i v c)))"
proof -
  have len: "length (pending_int cs) = num_ints cs" and n: "nnmi cs = int (card (nmi_lines cs))"
    using assms by (simp_all add: int_wf_def)
  have pos: "bit (pending_int cs ! i) 0 \<Longrightarrow> i < num_ints cs \<Longrightarrow> nnmi cs > 0"
    using len int_wf_counts(4) [OF assms] by (metis empty_iff mem_lines)
  have "nnmi (interrupt_set_nmi cs i v c) = (if i < num_ints cs
      then if v then (if i \<in> nmi_lines cs then nnmi cs else nnmi cs + 1)
           else (if i \<in> nmi_lines cs then nnmi cs - 1 else nnmi cs) else nnmi cs)"
    using len pos unfolding interrupt_set_nmi_def IK_powers
    by (auto simp: Let_def simp del: One_nat_def power_0 power_one_right)
  then show ?thesis
    unfolding set_nmi_lines(1) [OF assms] n
    by (auto simp: card_lower insert_absorb simp del: mem_lines)
qed

subsection \<open>What each operation does to the flags\<close>

text \<open>Bit 0 is the NMI latch, bit 1 the IRQ line as the CPU sees it, bit 6 the pending IRQ.\<close>

lemma set_irq_flags:
  assumes "int_wf cs"
  shows "bit (global_pending_int (interrupt_set_irq cs i v c)) 0 \<longleftrightarrow> bit (global_pending_int cs) 0"
    and "bit (global_pending_int (interrupt_set_irq cs i v c)) 1
      \<longleftrightarrow> irq_lines (interrupt_set_irq cs i v c) \<noteq> {}"
    and "bit (global_pending_int (interrupt_set_irq cs i v c)) 6
      \<longleftrightarrow> bit (global_pending_int cs) 6 \<or> (irq_lines cs = {} \<and> i < num_ints cs \<and> v)"
proof -
  have len: "length (pending_int cs) = num_ints cs" using assms by (simp add: int_wf_def)
  note counts = int_wf_counts [OF assms]
  show "bit (global_pending_int (interrupt_set_irq cs i v c)) 0 \<longleftrightarrow> bit (global_pending_int cs) 0"
    by (auto simp: interrupt_set_irq_def Let_def IK_powers bit_simps)
  have n: "nirq (interrupt_set_irq cs i v c) > 0 \<longleftrightarrow> irq_lines (interrupt_set_irq cs i v c) \<noteq> {}"
    using set_irq_counts [OF assms] by (simp add: card_gt_0_iff)
  have "bit (global_pending_int (interrupt_set_irq cs i v c)) 1 \<longleftrightarrow> nirq (interrupt_set_irq cs i v c) > 0"
    using counts(5) counts(1,3) unfolding interrupt_set_irq_def IK_powers
    by (auto simp: Let_def bit_simps)
  with n show "bit (global_pending_int (interrupt_set_irq cs i v c)) 1
      \<longleftrightarrow> irq_lines (interrupt_set_irq cs i v c) \<noteq> {}" by simp
  have "bit (pending_int cs ! i) 1 \<Longrightarrow> i < num_ints cs \<Longrightarrow> irq_lines cs \<noteq> {}"
    using len by (metis empty_iff mem_lines)
  then show "bit (global_pending_int (interrupt_set_irq cs i v c)) 6
      \<longleftrightarrow> bit (global_pending_int cs) 6 \<or> (irq_lines cs = {} \<and> i < num_ints cs \<and> v)"
    using counts(1) unfolding interrupt_set_irq_def IK_powers
    by (auto simp: Let_def bit_simps)
qed

lemma set_nmi_flags:
  assumes "int_wf cs"
  shows "bit (global_pending_int (interrupt_set_nmi cs i v c)) 0
      \<longleftrightarrow> bit (global_pending_int cs) 0 \<or> (nmi_lines cs = {} \<and> i < num_ints cs \<and> v)"
    and "b \<noteq> 0 \<Longrightarrow> bit (global_pending_int (interrupt_set_nmi cs i v c)) b
      \<longleftrightarrow> bit (global_pending_int cs) b"
proof -
  have len: "length (pending_int cs) = num_ints cs" using assms by (simp add: int_wf_def)
  have "bit (pending_int cs ! i) 0 \<Longrightarrow> i < num_ints cs \<Longrightarrow> nmi_lines cs \<noteq> {}"
    using len by (metis empty_iff mem_lines)
  then show "bit (global_pending_int (interrupt_set_nmi cs i v c)) 0
      \<longleftrightarrow> bit (global_pending_int cs) 0 \<or> (nmi_lines cs = {} \<and> i < num_ints cs \<and> v)"
    using int_wf_counts(2) [OF assms] unfolding interrupt_set_nmi_def IK_powers
    by (auto simp: Let_def bit_simps)
  show "b \<noteq> 0 \<Longrightarrow> bit (global_pending_int (interrupt_set_nmi cs i v c)) b
      \<longleftrightarrow> bit (global_pending_int cs) b"
    by (auto simp: interrupt_set_nmi_def Let_def IK_powers bit_simps)
qed

lemma set_irq_wf [intro]: "int_wf cs \<Longrightarrow> int_wf (interrupt_set_irq cs i v c)"
  using set_irq_counts [of cs i v c] set_irq_flags(2) [of cs i v c] set_irq_lines [of cs i v c]
  by (simp add: int_wf_def card_gt_0_iff)

lemma set_nmi_wf [intro]: "int_wf cs \<Longrightarrow> int_wf (interrupt_set_nmi cs i v c)"
  using set_nmi_counts [of cs i v c] set_nmi_flags(2) [of cs 1 i v c] set_nmi_lines [of cs i v c]
  by (simp add: int_wf_def card_gt_0_iff)

section \<open>The contract of a line bank\<close>

text \<open>
  What a device relies on when it drives one line of a wired-or input: its own line takes
  the level it asks for, and the other lines keep theirs. Both inputs provide it.
\<close>

fun set_lines :: "('s \<Rightarrow> nat \<Rightarrow> bool \<Rightarrow> clock \<Rightarrow> 's) \<Rightarrow> (nat \<times> bool \<times> clock) list \<Rightarrow> 's \<Rightarrow> 's" where
  "set_lines set_line [] s = s"
| "set_lines set_line ((i, v, c) # rs) s = set_lines set_line rs (set_line s i v c)"

text \<open>The level a request list leaves on a line.\<close>

fun last_level :: "nat \<Rightarrow> (nat \<times> bool \<times> clock) list \<Rightarrow> bool \<Rightarrow> bool" where
  "last_level i [] l = l"
| "last_level i ((j, v, c) # rs) l = last_level i rs (if j = i then v else l)"

locale line_bank =
  fixes wf :: "'s \<Rightarrow> bool"
    and num :: "'s \<Rightarrow> nat"
    and lines :: "'s \<Rightarrow> nat set"
    and set_line :: "'s \<Rightarrow> nat \<Rightarrow> bool \<Rightarrow> clock \<Rightarrow> 's"
  assumes wf_set: "wf s \<Longrightarrow> wf (set_line s i v c)"
    and num_set: "num (set_line s i v c) = num s"
    and lines_set: "wf s \<Longrightarrow> lines (set_line s i v c) =
      (if i < num s then if v then insert i (lines s) else lines s - {i} else lines s)"
begin

lemma wf_set_lines: "wf s \<Longrightarrow> wf (set_lines set_line rs s)"
  by (induction rs arbitrary: s) (auto simp: wf_set)

lemma mem_set_lines:
  "wf s \<Longrightarrow> i < num s \<Longrightarrow> i \<in> lines (set_lines set_line rs s) \<longleftrightarrow> last_level i rs (i \<in> lines s)"
proof (induction rs arbitrary: s)
  case Nil
  then show ?case by simp
next
  case (Cons r rs)
  obtain j v c where r: "r = (j, v, c)" by (cases r)
  have "i \<in> lines (set_line s j v c) \<longleftrightarrow> (if j = i then v else i \<in> lines s)"
    using Cons.prems by (simp add: lines_set)
  then show ?case using Cons by (simp add: r wf_set num_set)
qed

lemma lines_independent:
  "wf s \<Longrightarrow> i \<noteq> j \<Longrightarrow> lines (set_line (set_line s i v c) j w d) = lines (set_line (set_line s j w d) i v c)"
  by (auto simp: lines_set wf_set num_set)

lemma lower_all:
  "wf s \<Longrightarrow> lines s \<subseteq> {..<num s} \<Longrightarrow>
   lines (set_lines set_line (map (\<lambda>i. (i, False, c)) [0..<num s]) s) = {}"
proof -
  assume wf: "wf s" and sub: "lines s \<subseteq> {..<num s}"
  have "lines (set_lines set_line (map (\<lambda>i. (i, False, c)) is) t)
      = lines t - (set is \<inter> {..<num t})" if "wf t" for "is" t
    using that
  proof (induction "is" arbitrary: t)
    case Nil
    then show ?case by simp
  next
    case (Cons i "is")
    then show ?case by (auto simp: wf_set num_set lines_set)
  qed
  from this [OF wf, of "[0..<num s]"] sub show ?thesis by auto
qed

end

interpretation irq_bank: line_bank int_wf num_ints irq_lines interrupt_set_irq
  by unfold_locales (auto simp: set_irq_lines simp del: mem_lines)

interpretation nmi_bank: line_bank int_wf num_ints nmi_lines interrupt_set_nmi
  by unfold_locales (auto simp: set_nmi_lines simp del: mem_lines)

section \<open>Operations and their abstract counterpart\<close>

text \<open>
  The operations the machine performs on the lines, and the abstract machine they refine:
  two sets of asserted lines, the latch of the edge-triggered NMI and the pending flag of
  the IRQ.
\<close>

datatype int_op =
    Set_irq nat bool clock
  | Set_nmi nat bool clock
  | Set_int nat u32 clock
  | Ack_irq
  | Ack_nmi
  | Trigger_dma
  | Ack_dma
  | Trigger_reset
  | Monitor bool
  | New_line

fun run_op :: "int_op \<Rightarrow> ('f, 'd) interrupt_cpu_status \<Rightarrow> ('f, 'd) interrupt_cpu_status" where
  "run_op (Set_irq i v c) cs = interrupt_set_irq cs i v c"
| "run_op (Set_nmi i v c) cs = interrupt_set_nmi cs i v c"
| "run_op (Set_int i w c) cs = interrupt_set_int cs i w c"
| "run_op Ack_irq cs = interrupt_ack_irq cs"
| "run_op Ack_nmi cs = interrupt_ack_nmi (\<lambda>fn cs. cs) cs"
| "run_op Trigger_dma cs = interrupt_trigger_dma cs"
| "run_op Ack_dma cs = interrupt_ack_dma cs"
| "run_op Trigger_reset cs = interrupt_trigger_reset cs"
| "run_op (Monitor v) cs = (if v then interrupt_monitor_trap_on cs else interrupt_monitor_trap_off cs)"
| "run_op New_line cs = snd (interrupt_cpu_status_int_new cs)"

record line_spec =
  sp_num :: nat
  sp_irq :: "nat set"
  sp_nmi :: "nat set"
  sp_latch :: bool
  sp_pend :: bool

definition spec_irq :: "nat \<Rightarrow> bool \<Rightarrow> line_spec \<Rightarrow> line_spec" where
  "spec_irq i v s = (if i < sp_num s
     then if v then s\<lparr>sp_irq := insert i (sp_irq s), sp_pend := sp_pend s \<or> sp_irq s = {}\<rparr>
          else s\<lparr>sp_irq := sp_irq s - {i}\<rparr>
     else s)"

definition spec_nmi :: "nat \<Rightarrow> bool \<Rightarrow> line_spec \<Rightarrow> line_spec" where
  "spec_nmi i v s = (if i < sp_num s
     then if v then s\<lparr>sp_nmi := insert i (sp_nmi s), sp_latch := sp_latch s \<or> sp_nmi s = {}\<rparr>
          else s\<lparr>sp_nmi := sp_nmi s - {i}\<rparr>
     else s)"

fun spec_op :: "int_op \<Rightarrow> line_spec \<Rightarrow> line_spec" where
  "spec_op (Set_irq i v c) s = spec_irq i v s"
| "spec_op (Set_nmi i v c) s = spec_nmi i v s"
| "spec_op (Set_int i w c) s = spec_irq i (bit w 1) (spec_nmi i (bit w 0) s)"
| "spec_op Ack_irq s = s\<lparr>sp_pend := False\<rparr>"
| "spec_op Ack_nmi s = s\<lparr>sp_latch := False\<rparr>"
| "spec_op New_line s = s\<lparr>sp_num := sp_num s + 1\<rparr>"
| "spec_op _ s = s"

definition line_abs :: "('f, 'd) interrupt_cpu_status \<Rightarrow> line_spec" where
  "line_abs cs = \<lparr>sp_num = num_ints cs, sp_irq = irq_lines cs, sp_nmi = nmi_lines cs,
     sp_latch = bit (global_pending_int cs) 0, sp_pend = bit (global_pending_int cs) 6\<rparr>"

lemma set_irq_abs: "int_wf cs \<Longrightarrow> line_abs (interrupt_set_irq cs i v c) = spec_irq i v (line_abs cs)"
  by (auto simp: line_abs_def spec_irq_def set_irq_lines set_irq_flags simp del: mem_lines)

lemma set_nmi_abs: "int_wf cs \<Longrightarrow> line_abs (interrupt_set_nmi cs i v c) = spec_nmi i v (line_abs cs)"
  by (auto simp: line_abs_def spec_nmi_def set_nmi_lines set_nmi_flags simp del: mem_lines)

lemma run_op_refines:
  assumes "int_wf cs"
  shows "int_wf (run_op op cs)" and "line_abs (run_op op cs) = spec_op op (line_abs cs)"
proof -
  have "int_wf (run_op op cs) \<and> line_abs (run_op op cs) = spec_op op (line_abs cs)"
  proof (cases op)
    case (Set_irq i v c)
    then show ?thesis using assms by (simp add: set_irq_abs set_irq_wf)
  next
    case (Set_nmi i v c)
    then show ?thesis using assms by (simp add: set_nmi_abs set_nmi_wf)
  next
    case (Set_int i w c)
    then show ?thesis
      using assms set_nmi_wf [OF assms]
      by (auto simp: interrupt_set_int_def set_irq_abs set_nmi_abs IK_powers)
  next
    case Ack_nmi
    then show ?thesis using assms
      by (auto simp: interrupt_ack_nmi_def Let_def int_wf_def line_abs_def IK_powers bit_simps
          split: option.splits)
  next
    case New_line
    then show ?thesis using assms
      by (simp add: interrupt_cpu_status_int_new_def int_wf_def line_abs_def lines_new)
  qed (use assms in \<open>auto simp: interrupt_ack_irq_def interrupt_trigger_dma_def
      interrupt_ack_dma_def interrupt_trigger_reset_def interrupt_monitor_trap_on_def
      interrupt_monitor_trap_off_def int_wf_def line_abs_def IK_powers bit_simps\<close>)
  then show "int_wf (run_op op cs)" "line_abs (run_op op cs) = spec_op op (line_abs cs)"
    by simp_all
qed

fun run_ops :: "int_op list \<Rightarrow> ('f, 'd) interrupt_cpu_status \<Rightarrow> ('f, 'd) interrupt_cpu_status" where
  "run_ops [] cs = cs"
| "run_ops (op # ops) cs = run_ops ops (run_op op cs)"

fun spec_ops :: "int_op list \<Rightarrow> line_spec \<Rightarrow> line_spec" where
  "spec_ops [] s = s"
| "spec_ops (op # ops) s = spec_ops ops (spec_op op s)"

lemma run_ops_refine:
  "int_wf cs \<Longrightarrow> int_wf (run_ops ops cs) \<and> line_abs (run_ops ops cs) = spec_ops ops (line_abs cs)"
  by (induction ops arbitrary: cs) (simp_all add: run_op_refines)

lemma reset_wf: "int_wf (interrupt_cpu_status_reset cs)"
  by (simp add: int_wf_def interrupt_cpu_status_reset_def IK_defs)

text \<open>
  C6. From a reset on, whatever sequence of requests, acknowledgements and new sources
  follows, the interrupt status behaves as the abstract machine: the asserted lines of both
  inputs, the NMI latch (set only when the first source becomes active, cleared only by the
  acknowledgement) and the pending flag are the abstract ones; the CPU sees the IRQ input
  active exactly when a source asserts it; and the two counters count the sources.
\<close>

theorem interrupt_lines_refine_spec:
  "line_abs (run_ops ops (interrupt_cpu_status_reset cs))
     = spec_ops ops \<lparr>sp_num = num_ints cs, sp_irq = {}, sp_nmi = {}, sp_latch = False, sp_pend = False\<rparr>
   \<and> (bit (global_pending_int (run_ops ops (interrupt_cpu_status_reset cs))) 1
      \<longleftrightarrow> sp_irq (spec_ops ops \<lparr>sp_num = num_ints cs, sp_irq = {}, sp_nmi = {}, sp_latch = False, sp_pend = False\<rparr>) \<noteq> {})
   \<and> nirq (run_ops ops (interrupt_cpu_status_reset cs))
      = int (card (irq_lines (run_ops ops (interrupt_cpu_status_reset cs))))
   \<and> nnmi (run_ops ops (interrupt_cpu_status_reset cs))
      = int (card (nmi_lines (run_ops ops (interrupt_cpu_status_reset cs))))"
proof -
  let ?s = "run_ops ops (interrupt_cpu_status_reset cs)"
  let ?z = "\<lparr>sp_num = num_ints cs, sp_irq = {}, sp_nmi = {}, sp_latch = False, sp_pend = False\<rparr>"
  have z: "line_abs (interrupt_cpu_status_reset cs) = ?z"
    by (simp add: line_abs_def interrupt_cpu_status_reset_def IK_defs)
  have wf: "int_wf ?s" and abs: "line_abs ?s = spec_ops ops ?z"
    using run_ops_refine [OF reset_wf, of ops cs] z by simp_all
  have "sp_irq (spec_ops ops ?z) = irq_lines ?s" by (simp flip: abs add: line_abs_def)
  then show ?thesis using abs wf int_wf_counts(5) [OF wf] by (simp add: int_wf_def)
qed

text \<open>
  The NMI input is edge triggered: after an acknowledgement, a source whose line is
  still asserted, or a second source raised while the first is active, does not request
  again; only when all sources have released the input does the next one set the latch.
\<close>

theorem nmi_edge_triggered:
  assumes "int_wf cs" "i < num_ints cs"
  shows "bit (global_pending_int (interrupt_set_nmi (run_op Ack_nmi cs) i True c)) 0
    \<longleftrightarrow> nmi_lines cs = {}"
proof -
  have wf: "int_wf (run_op Ack_nmi cs)" and abs: "line_abs (run_op Ack_nmi cs) = spec_op Ack_nmi (line_abs cs)"
    using run_op_refines [OF assms(1)] by blast+
  have "sp_latch (line_abs (interrupt_set_nmi (run_op Ack_nmi cs) i True c)) \<longleftrightarrow> nmi_lines cs = {}"
    using assms(2) unfolding set_nmi_abs [OF wf] abs by (simp add: spec_nmi_def line_abs_def)
  then show ?thesis by (simp add: line_abs_def)
qed

definition two_lines :: "(nat, nat) interrupt_cpu_status" where
  "two_lines = run_ops [New_line, New_line] (interrupt_cpu_status_new 0)"

lemma two_lines_wf: "int_wf two_lines" "num_ints two_lines = 2"
proof -
  have n: "int_wf (interrupt_cpu_status_new 0)"
    by (simp add: int_wf_def interrupt_cpu_status_new_def lines_of_def)
  show "int_wf two_lines" using run_ops_refine [OF n] unfolding two_lines_def by blast
  show "num_ints two_lines = 2"
    by (simp add: two_lines_def interrupt_cpu_status_int_new_def interrupt_cpu_status_new_def)
qed

theorem nmi_edge_triggered_witness:
  "bit (global_pending_int (interrupt_set_nmi (run_op Ack_nmi two_lines) 1 True 9)) 0
    \<longleftrightarrow> nmi_lines two_lines = {}"
  using nmi_edge_triggered [OF two_lines_wf(1), of 1 9] two_lines_wf(2) by simp

section \<open>The request clock\<close>

text \<open>
  The corrected request clock is never later than the clock of the last stolen cycle,
  and at most the length of the first recorded DMA plus three cycles earlier.
\<close>

theorem fixup_int_clk_bounds:
  assumes "num_dma_per_opcode cs > 0 \<and> dma_start_clk cs 0 > cpu_clk
      \<longrightarrow> unat (dma_start_clk cs 0) - unat cpu_clk + 3 \<le> unat (last_stolen_cycles_clk cs)"
    and "3 \<le> unat (last_stolen_cycles_clk cs)"
  shows "interrupt_fixup_int_clk cs cpu_clk \<le> last_stolen_cycles_clk cs
    \<and> unat (last_stolen_cycles_clk cs) \<le> unat (interrupt_fixup_int_clk cs cpu_clk)
        + (unat (dma_start_clk cs 0) - unat cpu_clk) + 3"
proof -
  let ?l = "last_stolen_cycles_clk cs" and ?s = "dma_start_clk cs 0"
  let ?i = "if num_dma_per_opcode cs > 0 \<and> ?s > cpu_clk then ?l - (?s - cpu_clk) else ?l"
  have i: "unat ?i + (if num_dma_per_opcode cs > 0 \<and> ?s > cpu_clk then unat ?s - unat cpu_clk else 0)
      = unat ?l \<and> 3 \<le> unat ?i"
    using assms by (auto simp: unat_sub word_less_nat_alt word_le_nat_alt)
  have "interrupt_fixup_int_clk cs cpu_clk \<in> {?i, ?i - 2, ?i - 3}"
    by (auto simp: interrupt_fixup_int_clk_def Let_def split: prod.split)
  moreover have "unat (?i - 2) = unat ?i - 2" "unat (?i - 3) = unat ?i - 3"
    using i by (subst unat_sub; simp add: word_le_nat_alt)+
  ultimately show ?thesis
    using i by (auto simp: word_le_nat_alt split: if_splits)
qed

definition stolen_status :: "(nat, nat) interrupt_cpu_status" where
  "stolen_status = (interrupt_cpu_status_new 0)\<lparr>num_dma_per_opcode := 1,
     num_cycles_left := (\<lambda>_. 4), dma_start_clk := (\<lambda>_. 100), last_stolen_cycles_clk := 140\<rparr>"

theorem fixup_int_clk_bounds_witness:
  "interrupt_fixup_int_clk stolen_status 98 \<le> 140
    \<and> 140 \<le> unat (interrupt_fixup_int_clk stolen_status 98) + 2 + 3"
  using fixup_int_clk_bounds [of stolen_status 98] by (simp add: stolen_status_def)

section \<open>The queue of traps\<close>

text \<open>All pending entries are initialised, and the flag is set exactly when there are some.\<close>

definition trap_wf :: "('f, 'd) interrupt_cpu_status \<Rightarrow> bool" where
  "trap_wf cs \<longleftrightarrow> length (trap_func cs) = traps_size cs \<and> length (trap_data cs) = traps_size cs
     \<and> traps_next cs + traps_count cs \<le> traps_size cs
     \<and> (\<forall>i. traps_next cs \<le> i \<and> i < traps_next cs + traps_count cs \<longrightarrow> trap_func cs ! i \<noteq> None \<and> trap_data cs ! i \<noteq> None)
     \<and> (bit (global_pending_int cs) 3 \<longleftrightarrow> traps_count cs > 0)"

definition trap_queue :: "('f, 'd) interrupt_cpu_status \<Rightarrow> ('f \<times> 'd) list" where
  "trap_queue cs = map (\<lambda>i. (the (trap_func cs ! i), the (trap_data cs ! i)))
     [traps_next cs..<traps_next cs + traps_count cs]"

lemma length_realloc [simp]: "length xs \<le> n \<Longrightarrow> length (realloc xs n) = n"
  by (simp add: realloc_def)

lemma nth_realloc [simp]: "i < length xs \<Longrightarrow> length xs \<le> n \<Longrightarrow> realloc xs n ! i = xs ! i"
  by (simp add: realloc_def nth_append)

lemma trigger_trap_wf:
  assumes "trap_wf cs"
  shows "trap_wf (interrupt_maincpu_trigger_trap fn data cs)"
    and "trap_queue (interrupt_maincpu_trigger_trap fn data cs) = trap_queue cs @ [(fn, data)]"
    and "traps_next (interrupt_maincpu_trigger_trap fn data cs) = traps_next cs"
proof -
  have wf: "length (trap_func cs) = traps_size cs" "length (trap_data cs) = traps_size cs"
    "traps_next cs + traps_count cs \<le> traps_size cs"
    "\<forall>i. traps_next cs \<le> i \<and> i < traps_next cs + traps_count cs \<longrightarrow> trap_func cs ! i \<noteq> None \<and> trap_data cs ! i \<noteq> None"
    using assms by (simp_all add: trap_wf_def)
  show "trap_wf (interrupt_maincpu_trigger_trap fn data cs)"
    using wf by (auto simp: interrupt_maincpu_trigger_trap_def trap_wf_def Let_def nth_list_update
        less_Suc_eq IK_powers bit_simps)
  show "trap_queue (interrupt_maincpu_trigger_trap fn data cs) = trap_queue cs @ [(fn, data)]"
    using wf by (auto simp: interrupt_maincpu_trigger_trap_def trap_queue_def Let_def One_nat_def)
  show "traps_next (interrupt_maincpu_trigger_trap fn data cs) = traps_next cs"
    by (simp add: interrupt_maincpu_trigger_trap_def Let_def)
qed

text \<open>A trap that leaves the queue alone, and one that schedules the traps \<open>news\<close>.\<close>

definition same_traps :: "('f, 'd) interrupt_cpu_status \<Rightarrow> ('f, 'd) interrupt_cpu_status \<Rightarrow> bool" where
  "same_traps cs cs' \<longleftrightarrow> trap_func cs' = trap_func cs \<and> trap_data cs' = trap_data cs \<and> traps_size cs' = traps_size cs
     \<and> traps_next cs' = traps_next cs \<and> traps_count cs' = traps_count cs
     \<and> bit (global_pending_int cs') 3 = bit (global_pending_int cs) 3"

definition keeps_traps :: "(('f, 'd) interrupt_cpu_status \<Rightarrow> ('f, 'd) interrupt_cpu_status) \<Rightarrow> bool" where
  "keeps_traps g \<longleftrightarrow> (\<forall>cs. same_traps cs (g cs))"

definition schedule :: "('f \<times> 'd) list \<Rightarrow> ('f, 'd) interrupt_cpu_status \<Rightarrow> ('f, 'd) interrupt_cpu_status" where
  "schedule news = fold (\<lambda>(fn, data). interrupt_maincpu_trigger_trap fn data) news"

lemma schedule_wf:
  "trap_wf cs \<Longrightarrow> trap_wf (schedule news cs) \<and> trap_queue (schedule news cs) = trap_queue cs @ news
    \<and> traps_next (schedule news cs) = traps_next cs"
proof (induction news arbitrary: cs)
  case (Cons t news)
  then show ?case using trigger_trap_wf [OF Cons.prems] by (cases t) (simp add: schedule_def)
qed (simp add: schedule_def)

lemma same_traps_wf: "same_traps cs cs' \<Longrightarrow> trap_wf cs' = trap_wf cs \<and> trap_queue cs' = trap_queue cs"
  by (simp add: same_traps_def trap_wf_def trap_queue_def)

text \<open>The calls of a list of traps, in order; \<open>traps_next\<close> moves after each.\<close>

fun run_traps :: "('f \<Rightarrow> u16 \<Rightarrow> 'd \<Rightarrow> ('f, 'd) interrupt_cpu_status \<Rightarrow> ('f, 'd) interrupt_cpu_status)
    \<Rightarrow> u16 \<Rightarrow> ('f \<times> 'd) list \<Rightarrow> ('f, 'd) interrupt_cpu_status \<Rightarrow> ('f, 'd) interrupt_cpu_status" where
  "run_traps call address [] cs = cs"
| "run_traps call address ((fn, data) # ts) cs =
     run_traps call address ts
       ((call fn address data cs)\<lparr>traps_next := traps_next (call fn address data cs) + 1\<rparr>)"

text \<open>The first \<open>n\<close> entries from the next one on.\<close>

definition trap_entries :: "nat \<Rightarrow> ('f, 'd) interrupt_cpu_status \<Rightarrow> ('f \<times> 'd) list" where
  "trap_entries n cs = map (\<lambda>i. (the (trap_func cs ! i), the (trap_data cs ! i))) [traps_next cs..<traps_next cs + n]"

definition entries_ok :: "nat \<Rightarrow> ('f, 'd) interrupt_cpu_status \<Rightarrow> bool" where
  "entries_ok n cs \<longleftrightarrow> traps_next cs + n \<le> length (trap_func cs) \<and> length (trap_data cs) = length (trap_func cs)
     \<and> (\<forall>i. traps_next cs \<le> i \<and> i < traps_next cs + n \<longrightarrow> trap_func cs ! i \<noteq> None \<and> trap_data cs ! i \<noteq> None)"

lemma trap_entries_Suc:
  "trap_entries (Suc n) cs = (the (trap_func cs ! traps_next cs), the (trap_data cs ! traps_next cs))
     # trap_entries n (cs\<lparr>traps_next := traps_next cs + 1\<rparr>)"
  using upt_conv_Cons [of "traps_next cs" "traps_next cs + Suc n"] by (simp add: trap_entries_def One_nat_def del: upt_Suc)

lemma do_trap_loop_step:
  assumes "entries_ok (Suc n) cs"
  shows "do_trap_loop call address (Suc n) cs = do_trap_loop call address n
      (let c = call (fst (hd (trap_entries (Suc n) cs))) address (snd (hd (trap_entries (Suc n) cs))) cs
       in c\<lparr>traps_next := traps_next c + 1\<rparr>)"
proof -
  obtain fn d where "trap_func cs ! traps_next cs = Some fn" "trap_data cs ! traps_next cs = Some d"
    using assms by (fastforce simp: entries_ok_def)
  then show ?thesis using assms by (simp add: entries_ok_def slot_def trap_entries_Suc Let_def)
qed

lemma entries_same:
  "same_traps cs c \<Longrightarrow> trap_entries n c = trap_entries n cs \<and> entries_ok n c = entries_ok n cs"
  by (simp add: same_traps_def trap_entries_def entries_ok_def)

lemma entries_next:
  "same_traps cs c \<Longrightarrow> entries_ok (Suc n) cs \<Longrightarrow> entries_ok n (c\<lparr>traps_next := traps_next c + 1\<rparr>)
    \<and> trap_entries n (c\<lparr>traps_next := traps_next c + 1\<rparr>) = tl (trap_entries (Suc n) cs)"
  by (auto simp: same_traps_def entries_ok_def trap_entries_Suc) (simp_all add: trap_entries_def)

lemma do_trap_loop_run:
  assumes "entries_ok n cs" "\<forall>(g, e) \<in> set (trap_entries n cs). keeps_traps (call g address e)"
  shows "do_trap_loop call address n cs = Some (run_traps call address (trap_entries n cs) cs)"
  using assms
proof (induction n arbitrary: cs)
  case 0
  then show ?case by (simp add: trap_entries_def)
next
  case (Suc n)
  obtain g e ts where t: "trap_entries (Suc n) cs = (g, e) # ts" by (simp add: trap_entries_Suc)
  have s: "same_traps cs (call g address e cs)" using Suc.prems(2) t by (simp add: keeps_traps_def)
  let ?c = "(call g address e cs)\<lparr>traps_next := traps_next (call g address e cs) + 1\<rparr>"
  have "entries_ok n ?c" "trap_entries n ?c = ts" using entries_next [OF s Suc.prems(1)] t by simp_all
  then show ?case
    using Suc.IH [of ?c] Suc.prems(2) do_trap_loop_step [OF Suc.prems(1), of call address] t by (simp add: Let_def)
qed

lemma run_traps_counts:
  assumes "\<forall>(g, e) \<in> set ts. keeps_traps (call g address e)"
  shows "same_traps (cs\<lparr>traps_next := traps_next cs + length ts\<rparr>) (run_traps call address ts cs)"
  using assms
proof (induction ts arbitrary: cs)
  case (Cons t ts)
  obtain g e where t: "t = (g, e)" by (cases t)
  let ?c = "call g address e cs"
  have "same_traps cs ?c" using Cons.prems t by (simp add: keeps_traps_def)
  then show ?case
    using Cons.IH [of "?c\<lparr>traps_next := traps_next ?c + 1\<rparr>"] Cons.prems t by (simp add: same_traps_def)
qed (simp add: same_traps_def)

text \<open>
  C24. Traps are first in, first out, also when the first trap of a batch schedules others: let
  a consistent queue (\<open>trap_wf\<close>) be \<open>(fn, d) # ts\<close>, let \<open>fn\<close> schedule the traps \<open>news\<close> (none, if \<open>news\<close> is empty),
  and let the traps \<open>ts\<close> behind it schedule none. Then \<open>interrupt_do_trap\<close> runs every queued trap
  exactly once, in the order of scheduling, with its own data; afterwards the queue is
  \<open>news\<close> in order, ready for the next dispatch, and the CPU sees a trap exactly if there is one.
  The condition on \<open>ts\<close> is needed: \<open>rescheduled_trap_skips_entry\<close> shows that a trap scheduled by
  a later trap of the batch is lost.
\<close>

theorem do_trap_fifo:
  assumes "trap_wf cs" "trap_queue cs = (fn, d) # ts"
    and "call fn address d cs = schedule news c" "same_traps cs c"
    and "\<forall>(g, e) \<in> set ts. keeps_traps (call g address e)"
  shows "\<exists>cs'. interrupt_do_trap call address cs = Some cs'
    \<and> cs' = (let r = run_traps call address ((fn, d) # ts) cs in
        r\<lparr>global_pending_int := (if news = [] then global_pending_int r AND NOT IK_TRAP else global_pending_int r),
          traps_next := (if news = [] then 0 else traps_next r), traps_count := length news\<rparr>)
    \<and> trap_queue cs' = news \<and> trap_wf cs'"
proof -
  let ?n = "length ts" and ?c = "schedule news c"
  have len: "length (trap_queue cs) = traps_count cs" for cs :: "('a, 'b) interrupt_cpu_status"
    by (simp add: trap_queue_def)
  have n: "traps_count cs = Suc ?n" using len [of cs] assms(2) by simp
  have c: "trap_wf ?c" "trap_queue ?c = (fn, d) # ts @ news" "traps_next ?c = traps_next cs"
    using schedule_wf [of c news] same_traps_wf [OF assms(4)] assms(1,2,4) by (simp_all add: same_traps_def)
  have cn: "traps_count ?c = Suc ?n + length news" using len [of ?c] c(2) by simp
  define c1 where "c1 = ?c\<lparr>traps_next := traps_next ?c + 1\<rparr>"
  have e: "entries_ok (?n + length news) c1" using c(1) cn by (auto simp: c1_def entries_ok_def trap_wf_def)
  have q: "trap_entries (?n + length news) c1 = ts @ news"
    using c(2) trap_entries_Suc [of "?n + length news" ?c] cn by (simp add: trap_queue_def trap_entries_def c1_def)
  have split: "trap_entries (?n + length news) c1 = trap_entries ?n c1 @ trap_entries (length news) (c1\<lparr>traps_next := traps_next c1 + ?n\<rparr>)"
    using upt_add_eq_append [of "traps_next c1" "traps_next c1 + ?n" "length news"] by (simp add: trap_entries_def add.assoc)
  have ts: "trap_entries ?n c1 = ts" "trap_entries (length news) (c1\<lparr>traps_next := traps_next c1 + ?n\<rparr>) = news"
    using q split by (simp_all add: append_eq_append_conv trap_entries_def)
  define r where "r = run_traps call address ts c1"
  have "entries_ok ?n c1" using e by (auto simp: entries_ok_def)
  then have lp: "do_trap_loop call address ?n c1 = Some r"
    using do_trap_loop_run [of ?n c1 call address] ts(1) assms(5) by (simp add: r_def)
  have s: "same_traps (c1\<lparr>traps_next := traps_next c1 + ?n\<rparr>) r" unfolding r_def by (rule run_traps_counts) (use assms(5) in simp)
  have hd: "entries_ok (Suc ?n) cs" "hd (trap_entries (Suc ?n) cs) = (fn, d)"
    using assms(1,2) n by (auto simp: entries_ok_def trap_wf_def trap_queue_def trap_entries_def)
  have "do_trap_loop call address (traps_count cs) cs = Some r"
    using do_trap_loop_step [OF hd(1), of call address] hd(2) lp n assms(3) by (simp add: Let_def c1_def)
  moreover have rr: "run_traps call address ((fn, d) # ts) cs = r" by (simp add: r_def c1_def assms(3))
  moreover have rc: "traps_count r = Suc ?n + length news" using s cn by (simp add: same_traps_def c1_def)
  moreover have "trap_queue (r\<lparr>traps_count := length news\<rparr>) = news"
    using ts(2) entries_same [OF s, of "length news"] by (simp add: trap_queue_def trap_entries_def)
  moreover have "trap_wf (r\<lparr>traps_count := length news\<rparr>)" if "news \<noteq> []"
    using s c(1) cn that by (auto simp: same_traps_def trap_wf_def c1_def)
  moreover have "length (trap_func r) = traps_size r" "length (trap_data r) = traps_size r"
    using s c(1) by (simp_all add: same_traps_def trap_wf_def c1_def)
  ultimately show ?thesis
    using n by (auto simp: interrupt_do_trap_def trap_queue_def trap_wf_def Let_def IK_powers bit_simps)
qed

definition two_traps :: "(nat, nat) interrupt_cpu_status" where
  "two_traps = interrupt_maincpu_trigger_trap 2 20 (interrupt_maincpu_trigger_trap 1 10
     (interrupt_cpu_status_new 0))"

lemma two_traps_wf: "trap_wf two_traps"
  unfolding two_traps_def
  by (intro trigger_trap_wf) (simp add: trap_wf_def interrupt_cpu_status_new_def)

lemma two_traps_queue: "trap_queue two_traps = [(1, 10), (2, 20)]"
proof -
  have "trap_wf (interrupt_cpu_status_new 0 :: (nat, nat) interrupt_cpu_status)"
    by (simp add: trap_wf_def interrupt_cpu_status_new_def)
  then show ?thesis
    unfolding two_traps_def by (simp add: trigger_trap_wf) (simp add: trap_queue_def interrupt_cpu_status_new_def)
qed

theorem do_trap_fifo_witness:
  "\<exists>cs'. interrupt_do_trap (\<lambda>fn a d cs. if fn = 1 then interrupt_maincpu_trigger_trap 3 30 cs else cs\<lparr>irq_clk := of_nat d\<rparr>)
      7 two_traps = Some cs'
    \<and> trap_queue cs' = [(3, 30)] \<and> trap_wf cs' \<and> irq_clk cs' = 20"
  using do_trap_fifo [OF two_traps_wf two_traps_queue,
      of "\<lambda>fn a d cs. if fn = 1 then interrupt_maincpu_trigger_trap 3 30 cs else cs\<lparr>irq_clk := of_nat d\<rparr>" 7
        "[(3, 30)]" two_traps]
  by (auto simp: keeps_traps_def same_traps_def schedule_def Let_def)

text \<open>
  A trap that schedules another one breaks the queue unless it is the first of its
  batch: with two traps pending, where the second schedules a third, the new trap lands one
  entry too far, because \<^verbatim>\<open>traps_next\<close> has moved while \<^verbatim>\<open>traps_count\<close> has not; the next
  dispatch then calls the uninitialised entry in between.
\<close>

theorem rescheduled_trap_skips_entry:
  assumes "traps_next cs = 0" "traps_count cs = 2" "traps_size cs = 2"
    and "trap_func cs = [Some f, Some g]" "trap_data cs = [Some d, Some e]"
    and "\<And>st. call f address d st = st" "\<And>st. call g address e st = interrupt_maincpu_trigger_trap h k st"
  shows "\<exists>cs'. interrupt_do_trap call address cs = Some cs'
    \<and> traps_next cs' = 2 \<and> traps_count cs' = 1
    \<and> trap_func cs' = [Some f, Some g, None, Some h]
    \<and> interrupt_do_trap call address cs' = None"
  using assms
  by (simp add: interrupt_do_trap_def numeral_2_eq_2 slot_def Let_def
      interrupt_maincpu_trigger_trap_def realloc_def One_nat_def)

theorem rescheduled_trap_skips_entry_witness:
  "\<exists>cs'. interrupt_do_trap (\<lambda>fn a d cs. if fn = 2 then interrupt_maincpu_trigger_trap 3 30 cs else cs) 7 two_traps
      = Some cs'
    \<and> interrupt_do_trap (\<lambda>fn a d cs. if fn = 2 then interrupt_maincpu_trigger_trap 3 30 cs else cs) 7 cs' = None"
  using rescheduled_trap_skips_entry [of two_traps 1 2 10 20
      "\<lambda>fn a d cs. if fn = 2 then interrupt_maincpu_trigger_trap 3 30 cs else cs" 7 3 30]
  by (auto simp: two_traps_def interrupt_maincpu_trigger_trap_def interrupt_cpu_status_new_def
      realloc_def Let_def numeral_2_eq_2 One_nat_def)

section \<open>Snapshots\<close>

text \<open>The three parts the CPU modules write, and their order in reading.\<close>

lemmas interrupt_snapshot_defs = interrupt_write_snapshot_def interrupt_write_new_snapshot_def
  interrupt_write_sc_snapshot_def interrupt_read_new_snapshot_def interrupt_read_sc_snapshot_def

definition enc_interrupt :: "('f, 'd) interrupt_cpu_status \<Rightarrow> u8 list" where
  "enc_interrupt cs = (enc_qword (irq_clk cs) @ enc_qword (nmi_clk cs) @ enc_qword (irq_pending_clk cs)
     @ enc_qword (num_last_stolen_cycles cs) @ enc_qword (last_stolen_cycles_clk cs))
   @ (enc_dword (of_int (nirq cs)) @ enc_dword (of_int (nnmi cs)) @ enc_dword (global_pending_int cs))
   @ enc_qword (irq_delay_cycles cs) @ enc_qword (nmi_delay_cycles cs)"

definition write_all :: "('f, 'd) interrupt_cpu_status \<Rightarrow> mstate \<Rightarrow> bool \<times> mstate" where
  "write_all cs = wseq (interrupt_write_snapshot cs)
     (wseq (interrupt_write_new_snapshot cs) (interrupt_write_sc_snapshot cs))"

definition read_all ::
  "('f, 'd) interrupt_cpu_status \<times> mstate \<Rightarrow> bool \<times> ('f, 'd) interrupt_cpu_status \<times> mstate" where
  "read_all = wseq interrupt_read_snapshot
     (wseq interrupt_read_new_snapshot interrupt_read_sc_snapshot)"

lemma write_all_appends: "mappends (write_all cs) (enc_interrupt cs)"
  unfolding write_all_def enc_interrupt_def interrupt_snapshot_defs
  by (intro mappends_wseq put_fields TrueI)

lemma loads_qword: "upd x c = c' \<Longrightarrow> loads (smr snapshot_module_read_qword upd) (enc_qword x) c c'"
  by (rule loads_smr [OF qword_field.get_ok]) simp_all

lemma loads_dword_int: "upd x c = c' \<Longrightarrow> loads (smr snapshot_module_read_dword_into_int upd) (enc_dword x) c c'"
  unfolding snapshot_module_read_dword_into_int_def
  by (rule loads_smr [OF dword_field.get_map]) simp_all

text \<open>The restored status: the timing of the old one, all lines released.\<close>

definition interrupt_restored ::
  "('f, 'd) interrupt_cpu_status \<Rightarrow> ('f, 'd) interrupt_cpu_status \<Rightarrow> ('f, 'd) interrupt_cpu_status" where
  "interrupt_restored old cs = cs\<lparr>pending_int := replicate (num_ints cs) IK_NONE,
     irq_clk := irq_clk old, nmi_clk := nmi_clk old, irq_pending_clk := irq_pending_clk old,
     num_last_stolen_cycles := num_last_stolen_cycles old,
     last_stolen_cycles_clk := last_stolen_cycles_clk old,
     nirq := nirq old, nnmi := nnmi old, global_pending_int := global_pending_int old,
     irq_delay_cycles := irq_delay_cycles old, nmi_delay_cycles := nmi_delay_cycles old\<rparr>"

lemma sint_of_int_id: "- (2 ^ 31) \<le> n \<Longrightarrow> n < 2 ^ 31 \<Longrightarrow> sint (of_int n :: u32) = n"
  by (simp add: signed_of_int signed_take_bit_int_eq_self)

lemma read_all_loads:
  assumes "- (2 ^ 31) \<le> nirq old" "nirq old < 2 ^ 31" "- (2 ^ 31) \<le> nnmi old" "nnmi old < 2 ^ 31"
  shows "loads read_all (enc_interrupt old) cs (interrupt_restored old cs)"
proof -
  let ?z = "cs\<lparr>pending_int := replicate (num_ints cs) IK_NONE, global_pending_int := IK_NONE,
      nirq := 0, nnmi := 0\<rparr>"
  let ?a = "?z\<lparr>irq_clk := irq_clk old, nmi_clk := nmi_clk old, irq_pending_clk := irq_pending_clk old,
     num_last_stolen_cycles := num_last_stolen_cycles old,
     last_stolen_cycles_clk := last_stolen_cycles_clk old\<rparr>"
  let ?b = "?a\<lparr>nirq := nirq old, nnmi := nnmi old, global_pending_int := global_pending_int old\<rparr>"
  let ?q = "enc_qword (irq_clk old) @ enc_qword (nmi_clk old) @ enc_qword (irq_pending_clk old)
     @ enc_qword (num_last_stolen_cycles old) @ enc_qword (last_stolen_cycles_clk old)"
  have "loads (wseq (smr snapshot_module_read_qword (\<lambda>x cs. cs\<lparr>irq_clk := x\<rparr>))
        (wseq (smr snapshot_module_read_qword (\<lambda>x cs. cs\<lparr>nmi_clk := x\<rparr>))
        (wseq (smr snapshot_module_read_qword (\<lambda>x cs. cs\<lparr>irq_pending_clk := x\<rparr>))
        (wseq (smr snapshot_module_read_qword (\<lambda>x cs. cs\<lparr>num_last_stolen_cycles := x\<rparr>))
              (smr snapshot_module_read_qword (\<lambda>x cs. cs\<lparr>last_stolen_cycles_clk := x\<rparr>)))))) ?q ?z ?a"
    by (intro loads_wseq loads_qword) (rule refl | simp)+
  then have a: "loads interrupt_read_snapshot ?q cs ?a"
    unfolding loads_def interrupt_read_snapshot_def Let_def by simp
  have sgn: "sint (of_int (nirq old) :: u32) = nirq old" "sint (of_int (nnmi old) :: u32) = nnmi old"
    by (rule sint_of_int_id; rule assms)+
  have b: "loads interrupt_read_new_snapshot (enc_dword (of_int (nirq old))
      @ enc_dword (of_int (nnmi old)) @ enc_dword (global_pending_int old)) ?a ?b"
    unfolding interrupt_read_new_snapshot_def
    by (intro loads_wseq loads_dword_int) (rule refl | simp add: sgn)+
  have c: "loads interrupt_read_sc_snapshot (enc_qword (irq_delay_cycles old)
      @ enc_qword (nmi_delay_cycles old)) ?b (interrupt_restored old cs)"
    unfolding interrupt_read_sc_snapshot_def
    by (intro loads_wseq loads_qword) (rule refl | simp add: interrupt_restored_def)+
  show ?thesis unfolding read_all_def enc_interrupt_def 
    by (rule loads_wseq [OF a loads_wseq [OF b c]])
qed

text \<open>
  C39. The snapshot routines restore what they wrote: after writing the three parts of a
  status into a module, reading them at the same place succeeds and gives its clocks,
  counters and flags back, with every line released (the devices restore their own lines).
\<close>

theorem interrupt_snapshot_roundtrip:
  assumes "- (2 ^ 31) \<le> nirq old" "nirq old < 2 ^ 31" "- (2 ^ 31) \<le> nnmi old" "nnmi old < 2 ^ 31"
    and "sf_pos f = length (sf_bytes f)" "sf_pos f + 68 \<le> sf_limit f"
    and "m_offset m + unat (m_size m) = sf_pos f" "unat (m_size m) + 68 < 2 ^ 32"
  shows "\<exists>m' f' f''. write_all old (m, f) = (True, m', f')
    \<and> read_all (cs, m', f'\<lparr>sf_pos := sf_pos f\<rparr>) = (True, interrupt_restored old cs, m', f'')"
  using assms(5-)
  by (intro store_load [OF write_all_appends read_all_loads [OF assms(1-4)]])
    (simp_all add: enc_interrupt_def)

theorem interrupt_snapshot_roundtrip_witness:
  "\<exists>m' f' f''. write_all two_traps (\<lparr>m_write_mode = True, m_size = 0, m_offset = 0, m_size_offset = 0\<rparr>,
       \<lparr>sf_bytes = [], sf_pos = 0, sf_limit = 68, sf_error = 0\<rparr>) = (True, m', f')
    \<and> read_all (two_lines, m', f'\<lparr>sf_pos := 0\<rparr>) = (True, interrupt_restored two_traps two_lines, m', f'')"
  using interrupt_snapshot_roundtrip [of two_traps "\<lparr>sf_bytes = [], sf_pos = 0, sf_limit = 68, sf_error = 0\<rparr>"
      "\<lparr>m_write_mode = True, m_size = 0, m_offset = 0, m_size_offset = 0\<rparr>" two_lines]
  by (simp add: two_traps_def interrupt_maincpu_trigger_trap_def interrupt_cpu_status_new_def Let_def)

end
