(* ===== verification/Cia_Timer.thy ===== *)
theory Cia_Timer
  imports Snapshot_Codec Alarm_Service
begin

text \<open>
  The interval timers of the CIA, \<^verbatim>\<open>src/src/core/ciatimer.c\<close> and the inline functions of
  \<^verbatim>\<open>src/src/core/ciatimer.h\<close>. A timer is a 16-bit counter with a latch and a pipeline of
  control bits that advances through a precomputed table once per cycle. The table has
  16384 entries but is indexed with a 16-bit state: \<open>None\<close> is an access beyond it. The loops
  take fuel; \<open>None\<close> is also a loop that has not ended within it.
\<close>

section \<open>Control bits\<close>

definition CIAT_TABLEN :: nat where "CIAT_TABLEN = 16384"

definition CIAT_CR_MASK :: u16 where "CIAT_CR_MASK = 0x039"
definition CIAT_CR_START :: u16 where "CIAT_CR_START = 0x001"
definition CIAT_COUNT2 :: u16 where "CIAT_COUNT2 = 0x002"
definition CIAT_STEP :: u16 where "CIAT_STEP = 0x004"
definition CIAT_CR_ONESHOT :: u16 where "CIAT_CR_ONESHOT = 0x008"
definition CIAT_CR_FLOAD :: u16 where "CIAT_CR_FLOAD = 0x010"
definition CIAT_PHI2IN :: u16 where "CIAT_PHI2IN = 0x020"
definition CIAT_COUNT3 :: u16 where "CIAT_COUNT3 = 0x040"
definition CIAT_LOAD1 :: u16 where "CIAT_LOAD1 = 0x080"
definition CIAT_ONESHOT0 :: u16 where "CIAT_ONESHOT0 = 0x100"
definition CIAT_LOAD :: u16 where "CIAT_LOAD = 0x200"
definition CIAT_OUT :: u16 where "CIAT_OUT = 0x400"
definition CIAT_COUNT :: u16 where "CIAT_COUNT = 0x800"
definition CIAT_ONESHOT :: u16 where "CIAT_ONESHOT = 0x1000"

text \<open>\<^verbatim>\<open>t & bits\<close> as a condition.\<close>

definition has :: "u16 \<Rightarrow> u16 \<Rightarrow> bool" where
  "has t b \<longleftrightarrow> t AND b \<noteq> 0"

text \<open>One entry of the table \<^verbatim>\<open>ciat_init_table\<close> computes.\<close>

definition ciat_entry :: "u16 \<Rightarrow> u16" where
  "ciat_entry i =
     (let tmp = i AND (CIAT_CR_START OR CIAT_CR_ONESHOT OR CIAT_PHI2IN);
          tmp = (if has i CIAT_CR_START \<and> has i CIAT_PHI2IN then tmp OR CIAT_COUNT2 else tmp);
          tmp = (if has i CIAT_COUNT2 \<or> (has i CIAT_STEP \<and> has i CIAT_CR_START)
                 then tmp OR CIAT_COUNT3 else tmp);
          tmp = (if has i CIAT_COUNT3 then tmp OR CIAT_COUNT else tmp);
          tmp = (if has i CIAT_CR_FLOAD then tmp OR CIAT_LOAD1 else tmp);
          tmp = (if has i CIAT_LOAD1 then tmp OR CIAT_LOAD else tmp);
          tmp = (if has i CIAT_CR_ONESHOT then tmp OR CIAT_ONESHOT0 else tmp);
          tmp = (if has i CIAT_ONESHOT0 then tmp OR CIAT_ONESHOT else tmp)
      in tmp)"

definition ciat_table :: "u16 \<Rightarrow> u16 option" where
  "ciat_table t = (if unat t < CIAT_TABLEN then Some (ciat_entry t) else None)"

section \<open>Timers\<close>

record ciat =
  ct_state :: u16
  ct_latch :: u16
  ct_cnt :: u16
  ct_alarmclk :: clock
  ct_clk :: clock
  ct_alarm :: nat

text \<open>The tests both loops share.\<close>

definition oneshot_stable :: "u16 \<Rightarrow> bool" where
  "oneshot_stable t \<longleftrightarrow>
     (has t CIAT_CR_ONESHOT \<and> has t CIAT_ONESHOT0 \<and> has t CIAT_ONESHOT)
     \<or> (\<not> has t CIAT_CR_ONESHOT \<and> \<not> has t CIAT_ONESHOT0 \<and> \<not> has t CIAT_ONESHOT)"

definition warp_counting :: "u16 \<Rightarrow> bool" where
  "warp_counting t \<longleftrightarrow>
     t AND (CIAT_CR_START OR CIAT_CR_FLOAD OR CIAT_LOAD1 OR CIAT_PHI2IN OR CIAT_COUNT2
            OR CIAT_COUNT3 OR CIAT_COUNT OR CIAT_LOAD)
       = CIAT_CR_START OR CIAT_PHI2IN OR CIAT_COUNT2 OR CIAT_COUNT3 OR CIAT_COUNT
     \<and> oneshot_stable t"

definition warp_stopped :: "u16 \<Rightarrow> bool" where
  "warp_stopped t \<longleftrightarrow>
     \<not> has t (CIAT_COUNT2 OR CIAT_COUNT3 OR CIAT_COUNT)
     \<and> (\<not> has t CIAT_CR_START \<or> \<not> has t (CIAT_PHI2IN OR CIAT_STEP))
     \<and> oneshot_stable t"

text \<open>The single increment of both loops.\<close>

definition ciat_inc :: "u16 \<times> u16 \<Rightarrow> (u16 \<times> u16) option" where
  "ciat_inc ct = (case ct of (cnt, t) \<Rightarrow>
     map_option (Pair (if cnt \<noteq> 0 \<and> has t CIAT_COUNT3 then cnt - 1 else cnt)) (ciat_table t))"

text \<open>
  The loop of \<^verbatim>\<open>ciat_set_alarm\<close>: the result is the clock of the next underflow, or
  \<open>CLOCK_MAX\<close>.
\<close>

fun set_alarm_loop :: "nat \<Rightarrow> u16 \<Rightarrow> clock \<Rightarrow> u16 \<Rightarrow> u16 \<Rightarrow> clock option" where
  "set_alarm_loop 0 latch aclk cnt t = None"
| "set_alarm_loop (Suc fuel) latch aclk cnt t =
     (if warp_counting t then Some (aclk + ucast cnt)
      else if warp_stopped t then Some CLOCK_MAX
      else (case ciat_inc (cnt, t) of
         None \<Rightarrow> None
       | Some (cnt, t) \<Rightarrow>
           if cnt = 0 \<and> has t CIAT_COUNT3 then Some (aclk + 1)
           else
             let (cnt, t) = (if has t CIAT_LOAD then (latch, t AND NOT CIAT_COUNT3) else (cnt, t));
                 t = (if has t CIAT_OUT \<and> has t (CIAT_ONESHOT OR CIAT_ONESHOT0)
                      then t AND NOT (CIAT_CR_START OR CIAT_COUNT2) else t)
             in set_alarm_loop fuel latch (aclk + 1) cnt t))"

definition ciat_set_alarm :: "nat \<Rightarrow> ciat \<times> alarm_context \<Rightarrow> (ciat \<times> alarm_context) option" where
  "ciat_set_alarm fuel sc = (case sc of (s, ctx) \<Rightarrow>
     case set_alarm_loop fuel (ct_latch s) (ct_clk s) (ct_cnt s) (ct_state s) of
       None \<Rightarrow> None
     | Some tmp \<Rightarrow> Some (s\<lparr>ct_alarmclk := tmp\<rparr>,
         if tmp \<noteq> CLOCK_MAX then alarm_set ctx (ct_alarm s) tmp else alarm_unset ctx (ct_alarm s)))"

definition ciat_alarm_clk :: "ciat \<Rightarrow> clock" where
  "ciat_alarm_clk s = ct_alarmclk s"

text \<open>
  The loop of \<^verbatim>\<open>ciat_update\<close>: its variables are the clock, the counter, the state and the
  number of underflows. \<open>update_advance\<close> is the first half of the body.
\<close>

type_synonym ciat_vars = "clock \<times> u16 \<times> u16 \<times> u32"

definition update_advance :: "clock \<Rightarrow> u16 \<Rightarrow> ciat_vars \<Rightarrow> ciat_vars option" where
  "update_advance cclk latch v = (case v of (clk, cnt, t, n) \<Rightarrow>
     if warp_counting t then
       (if clk + ucast cnt > cclk then Some (cclk, cnt - ucast (cclk - clk), t, n)
        else if has t (CIAT_CR_ONESHOT OR CIAT_ONESHOT0) then Some (clk + ucast cnt, 0, t, n)
        else
          let clk = clk + ucast cnt
          in if unat (ucast (cclk - clk) :: u16) \<ge> unat latch + 1
             then let m = (cclk - clk) div (ucast latch + 1)
                  in Some (clk + m * (ucast latch + 1), 0, t, n + ucast m)
             else Some (clk, 0, t, n))
     else if warp_stopped t \<and> \<not> has t (CIAT_CR_FLOAD OR CIAT_LOAD1 OR CIAT_LOAD)
       then Some (cclk, cnt, t, n)
     else
       let inc = map_option (\<lambda>(cnt, t). (clk + 1, cnt, t, n)) (ciat_inc (cnt, t))
       in if t = CIAT_COUNT OR CIAT_OUT OR CIAT_LOAD OR CIAT_PHI2IN OR CIAT_COUNT2 OR CIAT_CR_START
            \<and> cnt = 1 \<and> latch = 1
          then let m = scast (ucast ((cclk - clk) AND NOT 1) :: u32) :: clock
               in if m \<noteq> 0 then Some (clk + m, cnt, t, n + ucast (drop_bit 1 m))
                  else map_option (\<lambda>t. (clk + 1, cnt, t, n)) (ciat_table t)
          else inc)"

definition update_post :: "u16 \<Rightarrow> ciat_vars \<Rightarrow> ciat_vars" where
  "update_post latch v = (case v of (clk, cnt, t, n) \<Rightarrow>
     let (t, n) = (if cnt = 0 \<and> has t CIAT_COUNT3 then (t OR (CIAT_LOAD OR CIAT_OUT), n + 1) else (t, n));
         (cnt, t) = (if has t CIAT_LOAD then (latch, t AND NOT CIAT_COUNT3) else (cnt, t));
         t = (if has t CIAT_OUT \<and> has t (CIAT_ONESHOT OR CIAT_ONESHOT0)
              then t AND NOT (CIAT_CR_START OR CIAT_COUNT2) else t)
     in (clk, cnt, t, n))"

fun update_loop :: "nat \<Rightarrow> clock \<Rightarrow> u16 \<Rightarrow> ciat_vars \<Rightarrow> ciat_vars option" where
  "update_loop 0 cclk latch v = (if fst v < cclk then None else Some v)"
| "update_loop (Suc fuel) cclk latch v =
     (if fst v < cclk then
        (case update_advance cclk latch v of
           None \<Rightarrow> None
         | Some v' \<Rightarrow> update_loop fuel cclk latch (update_post latch v'))
      else Some v)"

definition ciat_update :: "nat \<Rightarrow> clock \<Rightarrow> ciat \<Rightarrow> (u32 \<times> ciat) option" where
  "ciat_update fuel cclk s =
     (case update_loop fuel cclk (ct_latch s) (ct_clk s, ct_cnt s, ct_state s, 0) of
        None \<Rightarrow> None
      | Some (clk, cnt, t, n) \<Rightarrow> Some (n, s\<lparr>ct_clk := clk, ct_cnt := cnt, ct_state := t\<rparr>))"

section \<open>Operations\<close>

definition ciat_read_latch :: "ciat \<Rightarrow> u16" where
  "ciat_read_latch s = ct_latch s"

definition ciat_read_timer :: "ciat \<Rightarrow> u16" where
  "ciat_read_timer s = ct_cnt s"

definition ciat_is_underflow_clk :: "ciat \<Rightarrow> bool" where
  "ciat_is_underflow_clk s = has (ct_state s) CIAT_OUT"

definition ciat_is_running :: "ciat \<Rightarrow> bool" where
  "ciat_is_running s = has (ct_state s) CIAT_CR_START"

definition ciat_single_step :: "nat \<Rightarrow> ciat \<times> alarm_context \<Rightarrow> (ciat \<times> alarm_context) option" where
  "ciat_single_step fuel sc = (case sc of (s, ctx) \<Rightarrow>
     if has (ct_state s) CIAT_CR_START
     then ciat_set_alarm fuel (s\<lparr>ct_state := ct_state s OR CIAT_STEP\<rparr>, ctx)
     else Some (s, ctx))"

definition ciat_set_latchhi :: "nat \<Rightarrow> u8 \<Rightarrow> ciat \<times> alarm_context \<Rightarrow> (ciat \<times> alarm_context) option" where
  "ciat_set_latchhi fuel byte sc = (case sc of (s, ctx) \<Rightarrow>
     let s = s\<lparr>ct_latch := (ct_latch s AND 0xff) OR push_bit 8 (ucast byte)\<rparr>;
         s = (if has (ct_state s) CIAT_LOAD \<or> \<not> has (ct_state s) CIAT_CR_START
              then s\<lparr>ct_cnt := ct_latch s\<rparr> else s)
     in ciat_set_alarm fuel (s, ctx))"

definition ciat_set_latchlo :: "nat \<Rightarrow> u8 \<Rightarrow> ciat \<times> alarm_context \<Rightarrow> (ciat \<times> alarm_context) option" where
  "ciat_set_latchlo fuel byte sc = (case sc of (s, ctx) \<Rightarrow>
     let s = s\<lparr>ct_latch := (ct_latch s AND 0xff00) OR ucast byte\<rparr>;
         s = (if has (ct_state s) CIAT_LOAD
              then s\<lparr>ct_cnt := (ct_cnt s AND 0xff00) OR ucast byte\<rparr> else s)
     in ciat_set_alarm fuel (s, ctx))"

definition ciat_set_ctrl :: "nat \<Rightarrow> u8 \<Rightarrow> ciat \<times> alarm_context \<Rightarrow> (ciat \<times> alarm_context) option" where
  "ciat_set_ctrl fuel byte sc = (case sc of (s, ctx) \<Rightarrow>
     ciat_set_alarm fuel (s\<lparr>ct_state := (ct_state s AND NOT CIAT_CR_MASK)
        OR ((ucast byte AND CIAT_CR_MASK) XOR CIAT_PHI2IN)\<rparr>, ctx))"

definition ciat_ack_alarm :: "ciat \<times> alarm_context \<Rightarrow> ciat \<times> alarm_context" where
  "ciat_ack_alarm sc = (case sc of (s, ctx) \<Rightarrow>
     (s\<lparr>ct_alarmclk := CLOCK_MAX\<rparr>, alarm_unset ctx (ct_alarm s)))"

definition ciat_init :: "ciat \<Rightarrow> clock \<Rightarrow> nat \<Rightarrow> ciat" where
  "ciat_init s cclk alarm = s\<lparr>ct_clk := cclk, ct_alarmclk := CLOCK_MAX, ct_cnt := 0xffff,
     ct_latch := 0xffff, ct_alarm := alarm\<rparr>"

definition ciat_reset :: "clock \<Rightarrow> ciat \<times> alarm_context \<Rightarrow> ciat \<times> alarm_context" where
  "ciat_reset cclk sc = (case sc of (s, ctx) \<Rightarrow>
     (s\<lparr>ct_clk := cclk, ct_alarmclk := CLOCK_MAX, ct_cnt := 0xffff, ct_latch := 0xffff, ct_state := 0\<rparr>,
      alarm_unset ctx (ct_alarm s)))"

definition ciat_prevent_clock_overflow :: "ciat \<Rightarrow> clock \<Rightarrow> ciat" where
  "ciat_prevent_clock_overflow s sub =
     (let s = s\<lparr>ct_clk := ct_clk s - sub\<rparr>
      in if ct_alarmclk s < CLOCK_MAX then s\<lparr>ct_alarmclk := ct_alarmclk s - sub\<rparr> else s)"

text \<open>Both snapshot routines ignore the results of the module operations.\<close>

definition ciat_save_snapshot :: "ciat \<Rightarrow> nat \<Rightarrow> mstate \<Rightarrow> mstate" where
  "ciat_save_snapshot s ver st =
     (if ver \<ge> 0x100 then snd (snapshot_module_write_word (ct_state s) st) else st)"

definition ciat_load_snapshot :: "nat \<Rightarrow> clock \<Rightarrow> u16 \<Rightarrow> u16 \<Rightarrow> u8 \<Rightarrow> nat
    \<Rightarrow> (ciat \<times> alarm_context) \<times> mstate \<Rightarrow> ((ciat \<times> alarm_context) \<times> mstate) option" where
  "ciat_load_snapshot fuel cclk cnt latch cr ver st = (case st of ((s, ctx), ms) \<Rightarrow>
     let s = s\<lparr>ct_clk := cclk, ct_cnt := cnt, ct_latch := latch\<rparr>;
         (s, ms) = (if ver \<ge> 0x101
            then snd (smr snapshot_module_read_word (\<lambda>x s. s\<lparr>ct_state := x\<rparr>) (s, ms))
            else (let t = ucast cr;
                      t = (if has (ucast cr) CIAT_CR_START
                           then t OR (CIAT_COUNT2 OR CIAT_COUNT3 OR CIAT_COUNT) else t);
                      t = (if has (ucast cr) CIAT_CR_ONESHOT
                           then t OR (CIAT_ONESHOT0 OR CIAT_ONESHOT) else t)
                  in (s\<lparr>ct_state := t\<rparr>, ms)))
     in map_option (\<lambda>sc. (sc, ms)) (ciat_set_alarm fuel (s, ctx)))"

end
