(* ===== verification/Cia_Timer_Steps.thy ===== *)
theory Cia_Timer_Steps
  imports Cia_Timer
begin

text \<open>
  Correctness of the CIA timers, \<^verbatim>\<open>src/src/core/ciatimer.h\<close>: the shortcuts of \<^verbatim>\<open>ciat_update\<close>
  (jumping over a whole count, over many periods, over a stopped stretch) give the counter,
  the state and the number of underflows that stepping every cycle gives, and
  \<^verbatim>\<open>ciat_set_alarm\<close> finds the next underflow.
\<close>

section \<open>States as bits\<close>

lemma bit_CIAT [simp]:
  "bit CIAT_CR_START k \<longleftrightarrow> k = 0" "bit CIAT_COUNT2 k \<longleftrightarrow> k = 1" "bit CIAT_STEP k \<longleftrightarrow> k = 2"
  "bit CIAT_CR_ONESHOT k \<longleftrightarrow> k = 3" "bit CIAT_CR_FLOAD k \<longleftrightarrow> k = 4" "bit CIAT_PHI2IN k \<longleftrightarrow> k = 5"
  "bit CIAT_COUNT3 k \<longleftrightarrow> k = 6" "bit CIAT_LOAD1 k \<longleftrightarrow> k = 7" "bit CIAT_ONESHOT0 k \<longleftrightarrow> k = 8"
  "bit CIAT_LOAD k \<longleftrightarrow> k = 9" "bit CIAT_OUT k \<longleftrightarrow> k = 10" "bit CIAT_COUNT k \<longleftrightarrow> k = 11"
  "bit CIAT_ONESHOT k \<longleftrightarrow> k = 12"
proof -
  have b: "bit (2 ^ m :: u16) k \<longleftrightarrow> k = m" if "m < 16" for m
    using that by (auto simp: bit_exp_iff)
  show "bit CIAT_CR_START k \<longleftrightarrow> k = 0" "bit CIAT_COUNT2 k \<longleftrightarrow> k = 1" "bit CIAT_STEP k \<longleftrightarrow> k = 2"
    "bit CIAT_CR_ONESHOT k \<longleftrightarrow> k = 3" "bit CIAT_CR_FLOAD k \<longleftrightarrow> k = 4" "bit CIAT_PHI2IN k \<longleftrightarrow> k = 5"
    "bit CIAT_COUNT3 k \<longleftrightarrow> k = 6" "bit CIAT_LOAD1 k \<longleftrightarrow> k = 7" "bit CIAT_ONESHOT0 k \<longleftrightarrow> k = 8"
    "bit CIAT_LOAD k \<longleftrightarrow> k = 9" "bit CIAT_OUT k \<longleftrightarrow> k = 10" "bit CIAT_COUNT k \<longleftrightarrow> k = 11"
    "bit CIAT_ONESHOT k \<longleftrightarrow> k = 12"
    using b [of 0] b [of 1] b [of 2] b [of 3] b [of 4] b [of 5] b [of 6] b [of 7] b [of 8] b [of 9]
      b [of 10] b [of 11] b [of 12]
    by (simp_all add: CIAT_CR_START_def CIAT_COUNT2_def CIAT_STEP_def CIAT_CR_ONESHOT_def
        CIAT_CR_FLOAD_def CIAT_PHI2IN_def CIAT_COUNT3_def CIAT_LOAD1_def CIAT_ONESHOT0_def
        CIAT_LOAD_def CIAT_OUT_def CIAT_COUNT_def CIAT_ONESHOT_def)
qed

lemma has_iff: "has t b \<longleftrightarrow> (\<exists>k. bit t k \<and> bit b k)"
proof -
  have "has t b \<longleftrightarrow> \<not> (\<forall>k. \<not> bit (t AND b) k)"
    unfolding has_def by (metis bit_0_eq bit_eqI bot_apply bot_bool_def)
  then show ?thesis by (auto simp: bit_simps)
qed

lemma has_or [simp]: "has t (a OR b) \<longleftrightarrow> has t a \<or> has t b"
  by (auto simp: has_iff bit_simps)

lemma has_bits [simp]:
  "has t CIAT_CR_START \<longleftrightarrow> bit t 0" "has t CIAT_COUNT2 \<longleftrightarrow> bit t 1" "has t CIAT_STEP \<longleftrightarrow> bit t 2"
  "has t CIAT_CR_ONESHOT \<longleftrightarrow> bit t 3" "has t CIAT_CR_FLOAD \<longleftrightarrow> bit t 4" "has t CIAT_PHI2IN \<longleftrightarrow> bit t 5"
  "has t CIAT_COUNT3 \<longleftrightarrow> bit t 6" "has t CIAT_LOAD1 \<longleftrightarrow> bit t 7" "has t CIAT_ONESHOT0 \<longleftrightarrow> bit t 8"
  "has t CIAT_LOAD \<longleftrightarrow> bit t 9" "has t CIAT_OUT \<longleftrightarrow> bit t 10" "has t CIAT_COUNT \<longleftrightarrow> bit t 11"
  "has t CIAT_ONESHOT \<longleftrightarrow> bit t 12"
  by (auto simp: has_iff)

lemma state_eqI:
  "(\<And>k. k < 16 \<Longrightarrow> bit t k = bit u k) \<Longrightarrow> t = (u :: u16)"
  by (rule bit_word_eqI) simp

lemma warp_counting_iff:
  "warp_counting t \<longleftrightarrow> bit t 0 \<and> bit t 1 \<and> bit t 5 \<and> bit t 6 \<and> bit t 11
     \<and> \<not> bit t 4 \<and> \<not> bit t 7 \<and> \<not> bit t 9 \<and> bit t 3 = bit t 8 \<and> bit t 3 = bit t 12"
proof -
  let ?l = "t AND (CIAT_CR_START OR CIAT_CR_FLOAD OR CIAT_LOAD1 OR CIAT_PHI2IN OR CIAT_COUNT2
            OR CIAT_COUNT3 OR CIAT_COUNT OR CIAT_LOAD)"
  let ?r = "CIAT_CR_START OR CIAT_PHI2IN OR CIAT_COUNT2 OR CIAT_COUNT3 OR CIAT_COUNT"
  have "?l = ?r
    \<longleftrightarrow> bit t 0 \<and> bit t 1 \<and> bit t 5 \<and> bit t 6 \<and> bit t 11 \<and> \<not> bit t 4 \<and> \<not> bit t 7 \<and> \<not> bit t 9"
    (is "_ \<longleftrightarrow> ?b")
  proof
    assume "?l = ?r"
    then have "bit ?l k = bit ?r k" for k by simp
    from this [of 0] this [of 1] this [of 4] this [of 5] this [of 6] this [of 7] this [of 9] this [of 11]
    show ?b by (simp add: bit_simps)
  next
    assume ?b
    then show "?l = ?r" by (intro state_eqI) (auto simp: bit_simps)
  qed
  then show ?thesis by (auto simp: warp_counting_def oneshot_stable_def)
qed

lemma warp_stopped_iff:
  "warp_stopped t \<longleftrightarrow> \<not> bit t 1 \<and> \<not> bit t 6 \<and> \<not> bit t 11
     \<and> (\<not> bit t 0 \<or> (\<not> bit t 5 \<and> \<not> bit t 2)) \<and> bit t 3 = bit t 8 \<and> bit t 3 = bit t 12"
  by (auto simp: warp_stopped_def oneshot_stable_def)

lemma bit_ciat_entry:
  "bit (ciat_entry t) k \<longleftrightarrow>
     (k \<in> {0, 3, 5} \<and> bit t k) \<or> (k = 1 \<and> bit t 0 \<and> bit t 5) \<or> (k = 6 \<and> (bit t 1 \<or> (bit t 2 \<and> bit t 0)))
     \<or> (k = 11 \<and> bit t 6) \<or> (k = 7 \<and> bit t 4) \<or> (k = 9 \<and> bit t 7) \<or> (k = 8 \<and> bit t 3) \<or> (k = 12 \<and> bit t 8)"
  unfolding ciat_entry_def Let_def has_bits by (auto simp: bit_simps)

lemma valid_state: "unat (t :: u16) < CIAT_TABLEN \<longleftrightarrow> \<not> bit t 14 \<and> \<not> bit t 15"
proof
  assume "unat t < CIAT_TABLEN"
  then have "take_bit 14 (unat t) = unat t"
    by (intro take_bit_nat_eq_self) (simp add: CIAT_TABLEN_def)
  then have "\<not> bit (unat t) k" if "14 \<le> k" for k
    using that by (metis bit_take_bit_iff not_le)
  then show "\<not> bit t 14 \<and> \<not> bit t 15" by (simp add: bit_unsigned_iff)
next
  assume a: "\<not> bit t 14 \<and> \<not> bit t 15"
  have "take_bit 14 t = t"
  proof (rule state_eqI)
    fix k :: nat assume "k < 16"
    then have "k < 14 \<or> k = 14 \<or> k = 15" by linarith
    then show "bit (take_bit 14 t) k = bit t k" using a by (auto simp: bit_take_bit_iff)
  qed
  then have "t = take_bit 14 t" by simp
  then have "unat t = take_bit 14 (unat t)" by (metis unsigned_take_bit_eq)
  also have "\<dots> < 2 ^ 14" by (rule take_bit_nat_less_exp)
  finally show "unat t < CIAT_TABLEN" by (simp add: CIAT_TABLEN_def)
qed

lemma ciat_table_Some [simp]: "\<not> bit t 14 \<Longrightarrow> \<not> bit t 15 \<Longrightarrow> ciat_table t = Some (ciat_entry t)"
  by (simp add: ciat_table_def valid_state)

section \<open>Stepping\<close>

text \<open>
  The reference: one cycle increments through the table and settles, which loads the latch
  after an underflow or a load; \<open>cycles\<close> iterates it and counts the underflows.
\<close>

definition step_inc :: "u16 \<times> u16 \<Rightarrow> u16 \<times> u16" where
  "step_inc s = (case s of (cnt, t) \<Rightarrow>
     (if cnt \<noteq> 0 \<and> has t CIAT_COUNT3 then cnt - 1 else cnt, ciat_entry t))"

definition underflow :: "u16 \<times> u16 \<Rightarrow> bool" where
  "underflow s \<longleftrightarrow> fst s = 0 \<and> has (snd s) CIAT_COUNT3"

definition settle :: "u16 \<Rightarrow> u16 \<times> u16 \<Rightarrow> u16 \<times> u16" where
  "settle latch s = (case s of (cnt, t) \<Rightarrow>
     let t = (if underflow (cnt, t) then t OR (CIAT_LOAD OR CIAT_OUT) else t);
         (cnt, t) = (if has t CIAT_LOAD then (latch, t AND NOT CIAT_COUNT3) else (cnt, t))
     in (cnt, if has t CIAT_OUT \<and> has t (CIAT_ONESHOT OR CIAT_ONESHOT0)
              then t AND NOT (CIAT_CR_START OR CIAT_COUNT2) else t))"

fun cycles :: "u16 \<Rightarrow> nat \<Rightarrow> u16 \<times> u16 \<Rightarrow> (u16 \<times> u16) \<times> nat" where
  "cycles latch 0 s = (s, 0)"
| "cycles latch (Suc k) s =
     (case cycles latch k (settle latch (step_inc s)) of
        (s', n) \<Rightarrow> (s', n + (if underflow (step_inc s) then 1 else 0)))"

lemma update_post_settle:
  "update_post latch (clk, cnt, t, n) = (clk, fst (settle latch (cnt, t)), snd (settle latch (cnt, t)),
     n + of_nat (if underflow (cnt, t) then 1 else 0))"
  by (auto simp: update_post_def settle_def underflow_def Let_def bit_simps)

lemma ciat_inc_step: "\<not> bit t 14 \<Longrightarrow> \<not> bit t 15 \<Longrightarrow> ciat_inc (cnt, t) = Some (step_inc (cnt, t))"
  by (simp add: ciat_inc_def step_inc_def)

lemma cycles_add:
  "cycles latch (j + k) s = (case cycles latch j s of (s1, n1) \<Rightarrow>
     (case cycles latch k s1 of (s2, n2) \<Rightarrow> (s2, n1 + n2)))"
  by (induction j arbitrary: s) (auto split: prod.split)

lemma cycles_1: "cycles latch 1 s = (settle latch (step_inc s), if underflow (step_inc s) then 1 else 0)"
  by simp

text \<open>The settled counter and state, bit by bit.\<close>

lemma fst_settle: "fst (settle latch (cnt, t)) = (if bit t 9 \<or> underflow (cnt, t) then latch else cnt)"
  by (auto simp: settle_def Let_def bit_simps)

lemma bit_settle:
  "bit (snd (settle latch (cnt, t))) k \<longleftrightarrow>
     (let u = underflow (cnt, t); s = (bit t 10 \<or> u) \<and> (bit t 8 \<or> bit t 12)
      in if k = 0 \<or> k = 1 then bit t k \<and> \<not> s
         else if k = 6 then bit t 6 \<and> \<not> (bit t 9 \<or> u)
         else if k = 9 \<or> k = 10 then bit t k \<or> u
         else bit t k)"
  by (auto simp: settle_def Let_def bit_simps dest: bit_imp_le_length)

lemma settle_quiet:
  "\<not> underflow (cnt, t) \<Longrightarrow> \<not> bit t 9 \<Longrightarrow> \<not> bit t 10 \<Longrightarrow> settle latch (cnt, t) = (cnt, t)"
  by (simp add: settle_def)

text \<open>States that occur between cycles.\<close>

definition timer_ok :: "u16 \<Rightarrow> u16 \<Rightarrow> bool" where
  "timer_ok cnt t \<longleftrightarrow> \<not> bit t 13 \<and> \<not> bit t 14 \<and> \<not> bit t 15
     \<and> (bit t 2 \<longrightarrow> bit t 0 \<and> \<not> bit t 5) \<and> (bit t 10 \<longrightarrow> bit t 9 \<and> \<not> bit t 6) \<and> (bit t 6 \<longrightarrow> cnt \<noteq> 0)"

lemma timer_ok_settle: "timer_ok (fst (settle latch (cnt, ciat_entry t))) (snd (settle latch (cnt, ciat_entry t)))"
  unfolding timer_ok_def fst_settle bit_settle Let_def
  by (auto simp: bit_ciat_entry underflow_def)

lemma timer_ok_step: "timer_ok (fst (settle latch (step_inc s))) (snd (settle latch (step_inc s)))"
  by (cases s) (simp add: step_inc_def timer_ok_settle)

text \<open>The count bit is never looked at in stepping.\<close>

definition same_but_count :: "u16 \<Rightarrow> u16 \<Rightarrow> bool" where
  "same_but_count t u \<longleftrightarrow> (\<forall>k<16. k \<noteq> 11 \<longrightarrow> bit t k = bit u k)"

lemma same_but_count_refl [simp]: "same_but_count t t"
  by (simp add: same_but_count_def)

lemma same_step_inc:
  assumes "same_but_count t u"
  shows "step_inc (cnt, t) = step_inc (cnt, u)"
proof -
  have b: "bit t 0 = bit u 0" "bit t 1 = bit u 1" "bit t 2 = bit u 2" "bit t 3 = bit u 3"
    "bit t 4 = bit u 4" "bit t 5 = bit u 5" "bit t 6 = bit u 6" "bit t 7 = bit u 7" "bit t 8 = bit u 8"
    using assms by (simp_all add: same_but_count_def)
  have "ciat_entry t = ciat_entry u"
  proof (rule state_eqI)
    fix k :: nat
    have "k \<in> {0, 3, 5} \<and> bit t k \<longleftrightarrow> k \<in> {0, 3, 5} \<and> bit u k" using b by auto
    then show "bit (ciat_entry t) k = bit (ciat_entry u) k" by (simp only: bit_ciat_entry b)
  qed
  then show ?thesis using b by (simp add: step_inc_def)
qed

lemma same_cycles:
  assumes "same_but_count t u"
  shows "\<exists>cnt' t' u' n. cycles latch k (cnt, t) = ((cnt', t'), n) \<and> cycles latch k (cnt, u) = ((cnt', u'), n)
    \<and> same_but_count t' u'"
proof (cases k)
  case 0
  then show ?thesis using assms by simp
next
  case (Suc j)
  then have "cycles latch k (cnt, t) = cycles latch k (cnt, u)"
    by (simp add: same_step_inc [OF assms])
  then show ?thesis by (metis same_but_count_refl prod.exhaust)
qed

section \<open>Counting down\<close>

text \<open>The counting states, with the count bit left open.\<close>

definition counting :: "u16 \<Rightarrow> bool" where
  "counting t \<longleftrightarrow> bit t 0 \<and> bit t 1 \<and> bit t 5 \<and> bit t 6 \<and> \<not> bit t 2 \<and> \<not> bit t 4 \<and> \<not> bit t 7
     \<and> \<not> bit t 9 \<and> \<not> bit t 10 \<and> \<not> bit t 13 \<and> \<not> bit t 14 \<and> \<not> bit t 15
     \<and> bit t 8 = bit t 3 \<and> bit t 12 = bit t 3"

lemma word16_cases:
  fixes k :: nat
  assumes "k < 16"
  obtains "k = 0" | "k = 1" | "k = 2" | "k = 3" | "k = 4" | "k = 5" | "k = 6" | "k = 7" | "k = 8"
    | "k = 9" | "k = 10" | "k = 11" | "k = 12" | "k = 13" | "k = 14" | "k = 15"
proof -
  have "k = 0 \<or> k = 1 \<or> k = 2 \<or> k = 3 \<or> k = 4 \<or> k = 5 \<or> k = 6 \<or> k = 7 \<or> k = 8 \<or> k = 9
      \<or> k = 10 \<or> k = 11 \<or> k = 12 \<or> k = 13 \<or> k = 14 \<or> k = 15" using assms by presburger
  then show thesis by (elim disjE) (erule that)+
qed

lemma counting_entry: "counting t \<Longrightarrow> ciat_entry t = t OR CIAT_COUNT"
proof (rule state_eqI)
  fix k :: nat assume "counting t" "k < 16"
  then show "bit (ciat_entry t) k = bit (t OR CIAT_COUNT) k"
    by (elim word16_cases) (auto simp: bit_ciat_entry counting_def bit_simps)
qed

lemma counting_or [simp]: "counting t \<Longrightarrow> counting (t OR CIAT_COUNT)"
  by (simp add: counting_def bit_simps)

lemma or_COUNT_idem [simp]: "(t OR CIAT_COUNT) OR CIAT_COUNT = t OR CIAT_COUNT"
  by (simp add: or.assoc)

lemma counting_step:
  assumes "counting t" "cnt \<noteq> 0"
  shows "step_inc (cnt, t) = (cnt - 1, t OR CIAT_COUNT)"
  using assms by (simp add: step_inc_def counting_entry) (simp add: counting_def)

lemma counting_bits:
  "counting t \<Longrightarrow> bit t 6" "counting t \<Longrightarrow> \<not> bit t 9" "counting t \<Longrightarrow> \<not> bit t 10"
  by (simp_all add: counting_def)

lemma counting_underflow: "counting t \<Longrightarrow> underflow (cnt, t) \<longleftrightarrow> cnt = 0"
  by (simp add: underflow_def counting_bits)

lemma unat_minus_1: "cnt \<noteq> 0 \<Longrightarrow> unat (cnt - 1 :: u16) = unat cnt - 1"
  by (simp add: unat_minus_one)

lemma count_down:
  "counting t \<Longrightarrow> k < unat cnt \<Longrightarrow>
   cycles latch k (cnt, t) = ((cnt - of_nat k, if k = 0 then t else t OR CIAT_COUNT), 0)"
proof (induction k arbitrary: cnt t)
  case 0
  then show ?case by simp
next
  case (Suc k)
  have c0: "cnt \<noteq> 0" "cnt - 1 \<noteq> 0"
  proof -
    show "cnt \<noteq> 0" using Suc.prems(2) by auto
    then have "unat (cnt - 1) \<noteq> 0" using Suc.prems(2) by (simp add: unat_minus_1)
    then show "cnt - 1 \<noteq> 0" by auto
  qed
  have "settle latch (cnt - 1, t OR CIAT_COUNT) = (cnt - 1, t OR CIAT_COUNT)"
    using Suc.prems c0 counting_or [OF Suc.prems(1)]
    by (intro settle_quiet) (simp_all add: counting_underflow counting_bits)
  moreover have "k < unat (cnt - 1)" using Suc.prems(2) c0(1) by (simp add: unat_minus_1)
  ultimately show ?case
    using Suc.IH [OF counting_or [OF Suc.prems(1)], of "cnt - 1"] Suc.prems(1) c0 counting_or [OF Suc.prems(1)]
    by (simp add: counting_step counting_underflow algebra_simps)
qed

lemma count_out:
  assumes "counting t" "cnt \<noteq> 0"
  shows "cycles latch (unat cnt) (cnt, t) = (settle latch (0, t OR CIAT_COUNT), 1)"
proof -
  let ?k = "unat cnt - 1"
  let ?t = "if ?k = 0 then t else t OR CIAT_COUNT"
  have k: "unat cnt = ?k + 1" "?k < unat cnt" using assms(2) by (simp_all add: unat_gt_0)
  have c: "cnt - of_nat ?k = 1"
  proof -
    have "of_nat (?k + 1) = cnt" unfolding k(1) [symmetric] by simp
    then show ?thesis by (simp add: algebra_simps)
  qed
  have t: "counting ?t" "?t OR CIAT_COUNT = t OR CIAT_COUNT" using assms(1) by simp_all
  have "cycles latch (unat cnt) (cnt, t) = (case cycles latch ?k (cnt, t) of (s1, n1) \<Rightarrow>
     (case cycles latch 1 s1 of (s2, n2) \<Rightarrow> (s2, n1 + n2)))"
    by (subst k(1)) (rule cycles_add)
  also have "cycles latch ?k (cnt, t) = ((1, ?t), 0)"
    using count_down [OF assms(1) k(2)] c by simp
  finally show ?thesis
    using t counting_step [OF t(1), of 1] counting_underflow [OF counting_or [OF assms(1)], of 0]
    by (simp add: cycles_1 del: cycles.simps One_nat_def)
qed

subsection \<open>Whole periods\<close>

text \<open>The state an underflow leaves in continuous mode, with the count bit left open.\<close>

definition reloading :: "u16 \<Rightarrow> bool" where
  "reloading u \<longleftrightarrow> bit u 0 \<and> bit u 1 \<and> bit u 5 \<and> bit u 9 \<and> bit u 10 \<and> \<not> bit u 2 \<and> \<not> bit u 3
     \<and> \<not> bit u 4 \<and> \<not> bit u 6 \<and> \<not> bit u 7 \<and> \<not> bit u 8 \<and> \<not> bit u 12 \<and> \<not> bit u 13
     \<and> \<not> bit u 14 \<and> \<not> bit u 15"

lemma reloading_same: "reloading u \<Longrightarrow> reloading v \<Longrightarrow> same_but_count u v"
  unfolding same_but_count_def
proof (intro allI impI)
  fix k :: nat assume "reloading u" "reloading v" "k < 16" "k \<noteq> 11"
  then show "bit u k = bit v k" by (elim word16_cases) (simp_all add: reloading_def)
qed

lemma counting_settle_0:
  "counting t \<Longrightarrow> \<not> bit t 3 \<Longrightarrow>
   fst (settle latch (0, t)) = latch \<and> reloading (snd (settle latch (0, t)))"
  unfolding reloading_def fst_settle bit_settle Let_def
  by (simp add: counting_underflow) (simp add: counting_def)

lemma reload_step:
  assumes "reloading u"
  shows "counting (ciat_entry u)" "\<not> bit (ciat_entry u) 3" "step_inc (latch, u) = (latch, ciat_entry u)"
  using assms by (simp_all add: reloading_def counting_def bit_ciat_entry step_inc_def)

lemma one_period:
  assumes "reloading u"
  shows "\<exists>u'. reloading u' \<and> cycles latch (unat latch + 1) (latch, u) = ((latch, u'), 1)"
proof -
  let ?t = "ciat_entry u"
  note t = reload_step [OF assms]
  show ?thesis
  proof (cases "latch = 0")
    case True
    then have "cycles latch (unat latch + 1) (latch, u) = (settle latch (0, ?t), 1)"
      using t counting_underflow [OF t(1), of 0] by simp
    then show ?thesis using counting_settle_0 [OF t(1,2), of latch]
      by (cases "settle latch (0, ?t)") auto
  next
    case False
    have "settle latch (latch, ?t) = (latch, ?t)" "\<not> underflow (latch, ?t)"
      using False t(1) by (simp_all add: counting_underflow settle_quiet counting_bits)
    then have "cycles latch (unat latch + 1) (latch, u) = cycles latch (unat latch) (latch, ?t)"
      using t(3) by (simp split: prod.split)
    also have "\<dots> = (settle latch (0, ?t OR CIAT_COUNT), 1)" by (rule count_out [OF t(1) False])
    finally have c: "cycles latch (unat latch + 1) (latch, u) = (settle latch (0, ?t OR CIAT_COUNT), 1)" .
    have "\<not> bit (?t OR CIAT_COUNT) 3" using t(2) by (simp add: bit_simps)
    from counting_settle_0 [OF counting_or [OF t(1)] this, of latch] c
    show ?thesis by (cases "settle latch (0, ?t OR CIAT_COUNT)") auto
  qed
qed

lemma periods:
  "reloading u \<Longrightarrow>
   \<exists>u'. reloading u' \<and> cycles latch (m * (unat latch + 1)) (latch, u) = ((latch, u'), m)"
proof (induction m arbitrary: u)
  case 0
  then show ?case by auto
next
  case (Suc m)
  obtain v where v: "reloading v" "cycles latch (unat latch + 1) (latch, u) = ((latch, v), 1)"
    using one_period [OF Suc.prems] by blast
  obtain w where w: "reloading w" "cycles latch (m * (unat latch + 1)) (latch, v) = ((latch, w), m)"
    using Suc.IH [OF v(1)] by blast
  have "cycles latch (Suc m * (unat latch + 1)) (latch, u) = ((latch, w), Suc m)"
    using cycles_add [of latch "unat latch + 1" "m * (unat latch + 1)" "(latch, u)"] v w
    by (simp only: mult_Suc split) simp
  then show ?case using w(1) by blast
qed

section \<open>One round of the update loop\<close>

text \<open>
  A round of the loop makes at least one cycle and at most those left, and has the effect of
  that many cycles.
\<close>

definition round_ok :: "clock \<Rightarrow> u16 \<Rightarrow> ciat_vars \<Rightarrow> bool" where
  "round_ok cclk latch v = (case v of (clk, cnt, t, n) \<Rightarrow>
     \<exists>k v' cnt' t' t'' u. 0 < k \<and> k \<le> unat cclk - unat clk
       \<and> update_advance cclk latch v = Some v'
       \<and> update_post latch v' = (clk + of_nat k, cnt', t', n + of_nat u)
       \<and> timer_ok cnt' t' \<and> cycles latch k (cnt, t) = ((cnt', t''), u) \<and> same_but_count t' t'')"

lemma timer_ok_valid: "timer_ok cnt t \<Longrightarrow> \<not> bit t 14 \<and> \<not> bit t 15"
  by (simp add: timer_ok_def)

lemma clock_diff: "clk < cclk \<Longrightarrow> unat (cclk - clk :: clock) = unat cclk - unat clk"
  by (simp add: unat_sub less_imp_le)

lemma round_okI:
  assumes "update_advance cclk latch (clk, cnt, t, n) = Some (clk + of_nat k, c, t1, n1)"
    and "0 < k" "k \<le> unat cclk - unat clk"
    and "settle latch (c, t1) = (cnt', t')" "timer_ok cnt' t'"
    and "n1 + of_nat (if underflow (c, t1) then 1 else 0) = n + of_nat u"
    and "cycles latch k (cnt, t) = ((cnt', t''), u)" "same_but_count t' t''"
  shows "round_ok cclk latch (clk, cnt, t, n)"
proof -
  have "update_post latch (clk + of_nat k, c, t1, n1) = (clk + of_nat k, cnt', t', n + of_nat u)"
    using assms(4,6) by (simp add: update_post_settle)
  then show ?thesis unfolding round_ok_def prod.case using assms by blast
qed

lemma round_inc:
  assumes "clk < cclk" "timer_ok cnt t"
    and "update_advance cclk latch (clk, cnt, t, n) = Some (clk + 1, fst (step_inc (cnt, t)), snd (step_inc (cnt, t)), n)"
  shows "round_ok cclk latch (clk, cnt, t, n)"
proof -
  let ?s = "step_inc (cnt, t)"
  obtain c' t' where s: "settle latch ?s = (c', t')" by (cases "settle latch ?s")
  have a: "update_advance cclk latch (clk, cnt, t, n) = Some (clk + of_nat 1, fst ?s, snd ?s, n)"
    using assms(3) by simp
  show ?thesis
    by (rule round_okI [OF a, where cnt' = c' and t' = t' and t'' = t' and u = "if underflow ?s then 1 else 0"])
      (use assms(1) s timer_ok_step [of latch "(cnt, t)"] in
        \<open>simp_all add: word_less_nat_alt cycles_1 del: cycles.simps One_nat_def\<close>)
qed

lemma stopped_cycle:
  assumes "timer_ok cnt t" "warp_stopped t" "\<not> bit t 4" "\<not> bit t 7" "\<not> bit t 9"
  shows "step_inc (cnt, t) = (cnt, t)" "\<not> underflow (cnt, t)" "settle latch (cnt, t) = (cnt, t)"
proof -
  have b: "\<not> bit t 1" "\<not> bit t 6" "\<not> bit t 11" "\<not> bit t 10" "\<not> bit t 2" "\<not> bit t 0 \<or> \<not> bit t 5"
    "bit t 3 = bit t 8" "bit t 3 = bit t 12" "\<not> bit t 13" "\<not> bit t 14" "\<not> bit t 15"
    using assms by (auto simp: timer_ok_def warp_stopped_iff)
  have "ciat_entry t = t"
  proof (rule state_eqI)
    fix k :: nat assume "k < 16"
    then show "bit (ciat_entry t) k = bit t k"
      by (elim word16_cases) (use b assms(3-) in \<open>simp_all add: bit_ciat_entry\<close>)
  qed
  then show "step_inc (cnt, t) = (cnt, t)" using b by (simp add: step_inc_def)
  show "\<not> underflow (cnt, t)" using b by (simp add: underflow_def)
  then show "settle latch (cnt, t) = (cnt, t)" using b assms by (intro settle_quiet)
qed

lemma stopped_cycles:
  assumes "timer_ok cnt t" "warp_stopped t" "\<not> bit t 4" "\<not> bit t 7" "\<not> bit t 9"
  shows "cycles latch k (cnt, t) = ((cnt, t), 0)"
  using stopped_cycle [OF assms] by (induction k) simp_all

lemma clock_add_diff: "clk < cclk \<Longrightarrow> clk + of_nat (unat cclk - unat clk) = (cclk :: clock)"
  by (simp add: flip: clock_diff)

lemma round_stopped:
  assumes "clk < cclk" "timer_ok cnt t" "warp_stopped t" "\<not> bit t 4" "\<not> bit t 7" "\<not> bit t 9"
  shows "round_ok cclk latch (clk, cnt, t, n)"
proof -
  have "\<not> warp_counting t" using assms(3) by (simp add: warp_counting_iff warp_stopped_iff)
  then have "update_advance cclk latch (clk, cnt, t, n)
      = Some (clk + of_nat (unat cclk - unat clk), cnt, t, n)"
    unfolding clock_add_diff [OF assms(1)] using assms by (simp add: update_advance_def)
  then show ?thesis
    by (rule round_okI [where u = 0 and cnt' = cnt and t' = t and t'' = t])
      (use assms stopped_cycle [OF assms(2-)] stopped_cycles [OF assms(2-)] in
        \<open>simp_all add: word_less_nat_alt\<close>)
qed

text \<open>The shortcut for a latch of one: two cycles are one underflow.\<close>

definition spinning :: u16 where
  "spinning = CIAT_COUNT OR CIAT_OUT OR CIAT_LOAD OR CIAT_PHI2IN OR CIAT_COUNT2 OR CIAT_CR_START"

lemma spinning_cycles: "cycles 1 (2 * k) (1, spinning) = ((1, spinning), k)"
proof -
  have two: "cycles 1 2 (1, spinning) = ((1, spinning), 1)" by code_simp
  show ?thesis
  proof (induction k)
    case 0
    then show ?case by simp
  next
    case (Suc k)
    have "2 * Suc k = 2 + 2 * k" by simp
    then show ?case using cycles_add [of 1 2 "2 * k" "(1, spinning)"] two Suc.IH by (simp only: split) simp
  qed
qed

lemma even_part:
  fixes d :: clock
  assumes "unat d < 2 ^ 31"
  shows "scast (ucast (d AND NOT 1) :: u32) = (of_nat (2 * (unat d div 2)) :: clock)"
proof -
  let ?h = "unat d div 2"
  have h: "2 * ?h < 2 ^ 31" using assms by linarith
  have e: "d AND NOT 1 = of_nat (2 * ?h)"
  proof (rule bit_word_eqI)
    fix n assume "n < LENGTH(64)"
    then show "bit (d AND NOT 1) n = bit (of_nat (2 * ?h) :: clock) n"
      by (cases n)
        (simp_all add: bit_and_iff bit_not_iff bit_1_iff bit_of_nat_iff bit_double_iff bit_unsigned_iff
          flip: bit_Suc del: of_nat_mult)
  qed
  have "ucast (of_nat (2 * ?h) :: clock) = (of_nat (2 * ?h) :: u32)"
    using h by (simp add: unsigned_of_nat take_bit_nat_eq_self del: of_nat_mult)
  then have "scast (ucast (d AND NOT 1) :: u32) = (scast (of_nat (2 * ?h) :: u32) :: clock)"
    by (simp only: e)
  also have "\<dots> = of_int (sint (of_nat (2 * ?h) :: u32))" by (rule scast_eq)
  also have "sint (of_nat (2 * ?h) :: u32) = int (2 * ?h)"
    using h by (simp add: signed_of_nat signed_take_bit_int_eq_self del: of_nat_mult)
  finally show ?thesis by (simp only: of_int_of_nat_eq)
qed

lemma bit_spinning [simp]: "bit spinning k \<longleftrightarrow> k \<in> {0, 1, 5, 9, 10, 11}"
  by (simp only: spinning_def bit_or_iff bit_CIAT insert_iff empty_iff) blast

lemma spinning_facts:
  "timer_ok 1 spinning" "settle 1 (1, spinning) = (1, spinning)" "\<not> underflow (1, spinning)"
  "\<not> warp_counting spinning" "\<not> warp_stopped spinning" "ciat_table spinning = Some (ciat_entry spinning)"
  "step_inc (1, spinning) = (1, ciat_entry spinning)"
proof -
  show u: "\<not> underflow (1, spinning)" by (simp add: underflow_def)
  have "spinning AND NOT CIAT_COUNT3 = spinning" by (rule state_eqI) (auto simp: bit_simps)
  then show "settle 1 (1, spinning) = (1, spinning)" using u by (simp add: settle_def)
qed (simp_all add: timer_ok_def warp_counting_iff warp_stopped_iff step_inc_def)

lemma round_spin:
  assumes "clk < cclk" "unat cclk - unat clk < 2 ^ 31"
  shows "round_ok cclk 1 (clk, 1, spinning, n)"
proof -
  let ?d = "unat cclk - unat clk"
  let ?h = "?d div 2"
  have d: "unat (cclk - clk) = ?d" "0 < ?d" using assms(1) by (simp_all add: clock_diff word_less_nat_alt)
  have m: "scast (ucast ((cclk - clk) AND NOT 1) :: u32) = (of_nat (2 * ?h) :: clock)"
    using even_part [of "cclk - clk"] assms(2) d by simp
  have "2 * (d div 2) < 2 ^ 32" if "d < 2 ^ 31" for d :: nat using that by simp
  from this [OF assms(2)] have lt: "2 * ?h < 2 ^ 32" .
  have u: "unat (of_nat (2 * ?h) :: clock) = 2 * ?h"
    using lt by (simp add: unsigned_of_nat take_bit_nat_eq_self del: of_nat_mult)
  show ?thesis
  proof (cases "?h = 0")
    case True
    then have "update_advance cclk 1 (clk, 1, spinning, n)
        = Some (clk + 1, fst (step_inc (1, spinning)), snd (step_inc (1, spinning)), n)"
      using spinning_facts m by (simp add: update_advance_def spinning_def [symmetric] Let_def)
    then show ?thesis by (rule round_inc [OF assms(1) spinning_facts(1)])
  next
    case False
    have "of_nat (2 * ?h) \<noteq> (0 :: clock)"
    proof
      assume "of_nat (2 * ?h) = (0 :: clock)"
      then have "unat (of_nat (2 * ?h) :: clock) = 0" by simp
      then show False using u False by simp
    qed
    moreover have "ucast (drop_bit 1 (of_nat (2 * ?h) :: clock)) = (of_nat ?h :: u32)"
    proof -
      have "unat (drop_bit 1 w) = unat w div 2" for w :: clock
        by (simp add: drop_bit_Suc unat_div_distrib)
      then have "unat (drop_bit 1 (of_nat (2 * ?h) :: clock)) = ?h" using u by (simp del: of_nat_mult)
      then have "drop_bit 1 (of_nat (2 * ?h) :: clock) = of_nat ?h"
        by (metis of_nat_unat ucast_id)
      then show ?thesis using lt by (simp add: unsigned_of_nat take_bit_nat_eq_self)
    qed
    ultimately have "update_advance cclk 1 (clk, 1, spinning, n)
        = Some (clk + of_nat (2 * ?h), 1, spinning, n + of_nat ?h)"
      using spinning_facts m
      by (simp add: update_advance_def spinning_def [symmetric] Let_def del: of_nat_mult)
    then show ?thesis
      by (rule round_okI [where cnt' = 1 and t' = spinning and t'' = spinning and u = ?h])
        (use False spinning_facts spinning_cycles [of ?h] in simp_all)
  qed
qed

subsection \<open>Warps over a count\<close>

lemma warp_counting_counting:
  assumes "warp_counting t" "timer_ok cnt t"
  shows "counting t" "t OR CIAT_COUNT = t" "cnt \<noteq> 0"
proof -
  show "counting t" using assms by (auto simp: warp_counting_iff timer_ok_def counting_def)
  show "cnt \<noteq> 0" using assms by (auto simp: warp_counting_iff timer_ok_def)
  have "bit t 11" using assms(1) by (simp add: warp_counting_iff)
  then show "t OR CIAT_COUNT = t" by (intro state_eqI) (auto simp: bit_simps)
qed

lemma counting_timer_ok: "counting t \<Longrightarrow> cnt \<noteq> 0 \<Longrightarrow> timer_ok cnt t"
  by (simp add: counting_def timer_ok_def)

lemma clock_plus_cnt:
  assumes "unat clk + 2 ^ 16 < 2 ^ 64"
  shows "unat (clk + ucast (cnt :: u16) :: clock) = unat clk + unat cnt"
proof -
  have c: "unat cnt < 2 ^ 16" using unsigned_less [of cnt] by simp
  then have "unat (ucast cnt :: clock) = unat cnt"
    by (simp add: unsigned_ucast_eq take_bit_nat_eq_self)
  then show ?thesis using assms c by (simp add: unat_word_ariths)
qed

lemma round_within:
  assumes "clk < cclk" "timer_ok cnt t" "warp_counting t" "unat clk + 2 ^ 16 < 2 ^ 64"
    and "cclk < clk + ucast cnt"
  shows "round_ok cclk latch (clk, cnt, t, n)"
proof -
  let ?k = "unat cclk - unat clk"
  note c = warp_counting_counting [OF assms(3,2)]
  have k: "0 < ?k" "?k < unat cnt"
    using assms(1,5) clock_plus_cnt [OF assms(4), of cnt] by (simp_all add: word_less_nat_alt)
  have "ucast (cclk - clk) = (of_nat ?k :: u16)"
    by (simp flip: clock_diff [OF assms(1)])
  then have a: "update_advance cclk latch (clk, cnt, t, n)
      = Some (clk + of_nat ?k, cnt - of_nat ?k, t, n)"
    unfolding clock_add_diff [OF assms(1)] using assms by (simp add: update_advance_def)
  have run: "cycles latch ?k (cnt, t) = ((cnt - of_nat ?k, t), 0)"
    using count_down [OF c(1) k(2)] c(2) by simp
  have "cnt - of_nat ?k \<noteq> 0"
  proof
    assume "cnt - of_nat ?k = 0"
    then have "unat cnt = unat (of_nat ?k :: u16)" by simp
    also have "\<dots> \<le> ?k" by (simp add: unsigned_of_nat take_bit_eq_mod)
    finally show False using k(2) by simp
  qed
  then show ?thesis
    by (intro round_okI [OF a, where cnt' = "cnt - of_nat ?k" and t' = t and t'' = t and u = 0])
      (use k run c counting_timer_ok [OF c(1)] in
        \<open>simp_all add: counting_underflow settle_quiet counting_bits\<close>)
qed


lemma round_oneshot:
  assumes "clk < cclk" "timer_ok cnt t" "warp_counting t" "unat clk + 2 ^ 16 < 2 ^ 64"
    and "\<not> cclk < clk + ucast cnt" "bit t 3"
  shows "round_ok cclk latch (clk, cnt, t, n)"
proof -
  note c = warp_counting_counting [OF assms(3,2)]
  have "clk + of_nat (unat cnt) = clk + ucast cnt" by simp
  then have a: "update_advance cclk latch (clk, cnt, t, n) = Some (clk + of_nat (unat cnt), 0, t, n)"
    using assms by (simp add: update_advance_def)
  have k: "0 < unat cnt" "unat cnt \<le> unat cclk - unat clk"
    using c(3) assms(5) clock_plus_cnt [OF assms(4), of cnt] by (simp_all add: unat_gt_0 word_less_nat_alt)
  obtain c' t' where s: "settle latch (0, t) = (c', t')" by (cases "settle latch (0, t)")
  have i: "step_inc (1, t) = (0, t)" using counting_step [OF c(1), of 1] c(2) by simp
  have "timer_ok c' t'" using timer_ok_step [of latch "(1, t)"] s i by simp
  then show ?thesis
    by (intro round_okI [OF a k s, where t'' = t' and u = 1])
      (use count_out [OF c(1,3), of latch] c s in \<open>simp_all add: counting_underflow\<close>)
qed

lemma round_periods:
  assumes "clk < cclk" "timer_ok cnt t" "warp_counting t" "unat clk + 2 ^ 16 < 2 ^ 64"
    and "\<not> cclk < clk + ucast cnt" "\<not> bit t 3"
    and "unat cclk - unat clk < 2 ^ 31"
  shows "round_ok cclk latch (clk, cnt, t, n)"
proof -
  note c = warp_counting_counting [OF assms(3,2)]
  let ?c1 = "clk + ucast cnt"
  let ?p = "unat latch + 1"
  let ?d = "unat cclk - unat ?c1"
  define m where "m = (if unat (ucast (cclk - ?c1) :: u16) \<ge> ?p then ?d div ?p else 0)"
  have c1: "unat ?c1 = unat clk + unat cnt" by (rule clock_plus_cnt [OF assms(4)])
  have le: "unat ?c1 \<le> unat cclk" using assms(5) by (simp add: word_less_nat_alt)
  have diff: "unat (cclk - ?c1) = ?d" using le by (simp add: unat_sub word_le_nat_alt)
  have lp: "unat (ucast latch + 1 :: clock) = ?p"
  proof -
    have "unat latch < 2 ^ 16" using unsigned_less [of latch] by simp
    then show ?thesis
      by (simp add: unat_word_ariths unsigned_ucast_eq take_bit_nat_eq_self)
  qed
  have "?d div ?p * ?p \<le> ?d" by (rule div_times_less_eq_dividend)
  then have mp: "m * ?p \<le> ?d" by (auto simp only: m_def mult_0 split: if_split)
  have dv: "(cclk - ?c1) div (ucast latch + 1) = of_nat (?d div ?p)"
  proof -
    have "unat ((cclk - ?c1) div (ucast latch + 1)) = ?d div ?p"
      by (simp only: unat_div_distrib diff lp)
    then show ?thesis by (metis of_nat_unat ucast_id)
  qed
  have "?d div ?p \<le> ?d" by simp
  also have "\<dots> < 2 ^ 31" using assms(7) c1 by linarith
  finally have small: "?d div ?p < 2 ^ 31" .
  have uc: "ucast (of_nat (?d div ?p) :: clock) = (of_nat (?d div ?p) :: u32)"
    using small by (simp add: unsigned_of_nat take_bit_nat_eq_self)
  have lw: "ucast latch + 1 = (of_nat ?p :: clock)" by simp
  have "update_advance cclk latch (clk, cnt, t, n)
      = (if unat (ucast (cclk - ?c1) :: u16) \<ge> ?p
         then Some (?c1 + (cclk - ?c1) div (ucast latch + 1) * (ucast latch + 1), 0, t,
                n + ucast ((cclk - ?c1) div (ucast latch + 1)))
         else Some (?c1, 0, t, n))"
    using assms by (simp add: update_advance_def Let_def warp_counting_iff)
  also have "\<dots> = Some (?c1 + of_nat (m * ?p), 0, t, n + of_nat m)"
    unfolding dv uc m_def of_nat_mult by (simp add: add.commute)
  finally have "update_advance cclk latch (clk, cnt, t, n)
      = Some (?c1 + of_nat (m * ?p), 0, t, n + of_nat m)" .
  moreover have "?c1 + of_nat (m * ?p) = clk + of_nat (unat cnt + m * ?p)" by (simp add: algebra_simps)
  ultimately have a: "update_advance cclk latch (clk, cnt, t, n)
      = Some (clk + of_nat (unat cnt + m * ?p), 0, t, n + of_nat m)" by simp
  have k: "0 < unat cnt + m * ?p" "unat cnt + m * ?p \<le> unat cclk - unat clk"
    using c(3) mp c1 le by (simp_all add: unat_gt_0)
  obtain t' where s: "settle latch (0, t) = (latch, t')" "reloading t'"
    using counting_settle_0 [OF c(1) assms(6), of latch] by (cases "settle latch (0, t)") auto
  obtain t'' where p: "reloading t''" "cycles latch (m * ?p) (latch, t') = ((latch, t''), m)"
    using periods [OF s(2), of latch m] by blast
  have i: "step_inc (1, t) = (0, t)" using counting_step [OF c(1), of 1] c(2) by simp
  have ok: "timer_ok latch t'" using timer_ok_step [of latch "(1, t)"] s i by simp
  have run: "cycles latch (unat cnt + m * ?p) (cnt, t) = ((latch, t''), 1 + m)"
    using cycles_add [of latch "unat cnt" "m * ?p" "(cnt, t)"] count_out [OF c(1,3), of latch] c(2) s(1) p(2)
    by (simp only: split)
  show ?thesis
    by (rule round_okI [OF a k s(1) ok _ run reloading_same [OF s(2) p(1)]])
      (simp add: counting_underflow [OF c(1)] algebra_simps)
qed

lemma round:
  assumes "clk < cclk" "timer_ok cnt t" "unat clk + 2 ^ 16 < 2 ^ 64" "unat cclk - unat clk < 2 ^ 31"
  shows "round_ok cclk latch (clk, cnt, t, n)"
proof -
  have inc: "ciat_inc (cnt, t) = Some (step_inc (cnt, t))"
    using assms(2) by (simp add: ciat_inc_step timer_ok_def)
  consider "warp_counting t" | "\<not> warp_counting t" "warp_stopped t" "\<not> bit t 4" "\<not> bit t 7" "\<not> bit t 9"
    | "\<not> warp_counting t" "\<not> (warp_stopped t \<and> \<not> bit t 4 \<and> \<not> bit t 7 \<and> \<not> bit t 9)"
      "t = spinning" "cnt = 1" "latch = 1"
    | "\<not> warp_counting t" "\<not> (warp_stopped t \<and> \<not> bit t 4 \<and> \<not> bit t 7 \<and> \<not> bit t 9)"
      "\<not> (t = spinning \<and> cnt = 1 \<and> latch = 1)" by blast
  then show ?thesis
  proof cases
    case 1
    then show ?thesis using assms round_within round_oneshot round_periods by blast
  next
    case 2
    then show ?thesis using assms round_stopped by blast
  next
    case 3
    then show ?thesis using assms round_spin by blast
  next
    case 4
    then have "update_advance cclk latch (clk, cnt, t, n)
        = Some (clk + 1, fst (step_inc (cnt, t)), snd (step_inc (cnt, t)), n)"
      using inc by (auto simp: update_advance_def spinning_def [symmetric] Let_def split: prod.split)
    then show ?thesis by (rule round_inc [OF assms(1,2)])
  qed
qed


section \<open>The whole loop\<close>

lemma update_loop_cycles:
  assumes "clk \<le> cclk" "timer_ok cnt t" "unat cclk + 2 ^ 16 < 2 ^ 64" "unat cclk - unat clk < 2 ^ 31"
    and "unat cclk - unat clk \<le> fuel"
  shows "\<exists>cnt' t' t'' u. update_loop fuel cclk latch (clk, cnt, t, n) = Some (cclk, cnt', t', n + of_nat u)
    \<and> timer_ok cnt' t'
    \<and> cycles latch (unat cclk - unat clk) (cnt, t) = ((cnt', t''), u) \<and> same_but_count t' t''"
  using assms
proof (induction fuel arbitrary: clk cnt t n)
  case 0
  then have "clk = cclk" by (simp add: word_le_nat_alt word_unat_eq_iff)
  then show ?case using 0 by auto
next
  case (Suc fuel)
  show ?case
  proof (cases "clk < cclk")
    case False
    then have "clk = cclk" using Suc.prems(1) by simp
    then show ?thesis using Suc.prems by auto
  next
    case True
    have "unat clk + 2 ^ 16 < 2 ^ 64" using Suc.prems(3) True by (simp add: word_less_nat_alt)
    from round [OF True Suc.prems(2) this Suc.prems(4), of latch n]
    obtain k v' c1 t1 t2 u where r: "0 < k" "k \<le> unat cclk - unat clk"
      "update_advance cclk latch (clk, cnt, t, n) = Some v'"
      "update_post latch v' = (clk + of_nat k, c1, t1, n + of_nat u)"
      "timer_ok c1 t1" "cycles latch k (cnt, t) = ((c1, t2), u)" "same_but_count t1 t2"
      unfolding round_ok_def prod.case by blast
    have clk: "unat (clk + of_nat k) = unat clk + k"
    proof -
      have "unat cclk < 2 ^ 64" using unsigned_less [of cclk] by simp
      then show ?thesis using r(2) True
        by (simp add: unat_word_ariths unsigned_of_nat take_bit_nat_eq_self word_less_nat_alt)
    qed
    have le: "clk + of_nat k \<le> cclk" using clk r(2) True by (simp add: word_le_nat_alt word_less_nat_alt)
    have left: "unat cclk - unat (clk + of_nat k) = unat cclk - unat clk - k" using clk by simp
    obtain c3 t3 t4 w where ih: "update_loop fuel cclk latch (clk + of_nat k, c1, t1, n + of_nat u)
        = Some (cclk, c3, t3, n + of_nat u + of_nat w)" "timer_ok c3 t3"
      "cycles latch (unat cclk - unat clk - k) (c1, t1) = ((c3, t4), w)" "same_but_count t3 t4"
      using Suc.IH [OF le r(5) Suc.prems(3)] Suc.prems(4,5) r(1) left by fastforce
    obtain t5 where t5: "cycles latch (unat cclk - unat clk - k) (c1, t2) = ((c3, t5), w)"
      "same_but_count t4 t5"
      using same_cycles [OF r(7), of latch "unat cclk - unat clk - k" c1] ih(3) by auto
    have "cycles latch (k + (unat cclk - unat clk - k)) (cnt, t) = ((c3, t5), u + w)"
      using cycles_add [of latch k "unat cclk - unat clk - k" "(cnt, t)"] r(6) t5(1) by simp
    moreover have "k + (unat cclk - unat clk - k) = unat cclk - unat clk" using r(2) by simp
    ultimately have "cycles latch (unat cclk - unat clk) (cnt, t) = ((c3, t5), u + w)" by (simp only:)
    moreover have "same_but_count t3 t5" using ih(4) t5(2) by (simp add: same_but_count_def)
    moreover have "update_loop (Suc fuel) cclk latch (clk, cnt, t, n) = Some (cclk, c3, t3, n + of_nat (u + w))"
      using True r(3,4) ih(1) by (simp add: add.assoc)
    ultimately show ?thesis using ih(2) by blast
  qed
qed


text \<open>A timer in continuous mode, latch and counter at three.\<close>

definition demo_timer :: ciat where
  "demo_timer = \<lparr>ct_state = CIAT_CR_START OR CIAT_PHI2IN OR CIAT_COUNT2 OR CIAT_COUNT3 OR CIAT_COUNT,
     ct_latch = 3, ct_cnt = 3, ct_alarmclk = CLOCK_MAX, ct_clk = 100, ct_alarm = 1\<rparr>"

lemma demo_timer_ok: "timer_ok (ct_cnt demo_timer) (ct_state demo_timer)"
  by (simp add: timer_ok_def demo_timer_def bit_or_iff)

lemma demo_timer_fields: "ct_latch demo_timer = 3" "ct_cnt demo_timer = 3" "ct_clk demo_timer = 100"
  by (simp_all add: demo_timer_def)


section \<open>The next underflow\<close>

text \<open>
  The alarm loop settles within five rounds: after that the pipeline repeats itself. The
  predicates say what is known of the state after each round.
\<close>

definition stage :: "nat \<Rightarrow> u16 \<Rightarrow> bool" where
  "stage k t \<longleftrightarrow> \<not> bit t 14 \<and> \<not> bit t 15
     \<and> (k \<ge> 1 \<longrightarrow> \<not> bit t 2 \<and> \<not> bit t 4 \<and> \<not> bit t 10 \<and> bit t 1 = (bit t 0 \<and> bit t 5) \<and> bit t 8 = bit t 3)
     \<and> (k \<ge> 2 \<longrightarrow> \<not> bit t 7 \<and> bit t 12 = bit t 3 \<and> (bit t 6 \<longrightarrow> bit t 0 \<and> bit t 5))
     \<and> (k \<ge> 3 \<longrightarrow> \<not> bit t 9 \<and> bit t 6 = (bit t 0 \<and> bit t 5) \<and> (bit t 11 \<longrightarrow> bit t 0 \<and> bit t 5))
     \<and> (k \<ge> 4 \<longrightarrow> bit t 11 = (bit t 0 \<and> bit t 5))"

lemma stage_4: "stage 4 t \<Longrightarrow> warp_counting t \<or> warp_stopped t"
  by (cases "bit t 0 \<and> bit t 5") (simp_all add: stage_def warp_counting_iff warp_stopped_iff)

lemma stage_step:
  assumes "stage k t" "\<not> underflow (step_inc (cnt, t))" "k < 4"
  shows "stage (k + 1) (snd (settle latch (step_inc (cnt, t))))"
proof -
  let ?t' = "snd (settle latch (step_inc (cnt, t)))"
  have "?t' = snd (settle latch (fst (step_inc (cnt, t)), ciat_entry t))" by (simp add: step_inc_def)
  moreover have "\<not> underflow (fst (step_inc (cnt, t)), ciat_entry t)"
    using assms(2) by (simp add: step_inc_def)
  ultimately have b:
    "bit ?t' 0 = bit t 0" "bit ?t' (Suc 0) = (bit t 0 \<and> bit t 5)" "\<not> bit ?t' 2" "bit ?t' 3 = bit t 3"
    "\<not> bit ?t' 4" "bit ?t' 5 = bit t 5" "bit ?t' 6 = ((bit t 1 \<or> (bit t 2 \<and> bit t 0)) \<and> \<not> bit t 7)"
    "bit ?t' 7 = bit t 4" "bit ?t' 8 = bit t 3" "bit ?t' 9 = bit t 7" "\<not> bit ?t' 10" "bit ?t' 11 = bit t 6"
    "bit ?t' 12 = bit t 8" "\<not> bit ?t' 14" "\<not> bit ?t' 15"
    by (simp_all add: bit_settle Let_def bit_ciat_entry)
  consider "k = 0" | "k = 1" | "k = 2" | "k = 3" using assms(3) by linarith
  then show ?thesis
  proof cases
    case 1
    then show ?thesis using assms(1) by (simp add: stage_def b)
  next
    case 2
    then show ?thesis using assms(1) by (cases "bit t 0"; cases "bit t 5"; simp add: stage_def b)
  next
    case 3
    then show ?thesis using assms(1) by (cases "bit t 0"; cases "bit t 5"; simp add: stage_def b)
  next
    case 4
    then show ?thesis using assms(1) by (cases "bit t 0"; cases "bit t 5"; simp add: stage_def b)
  qed
qed

text \<open>
  \<open>next_underflow latch s j\<close>: the first underflow of stepping from \<open>s\<close> comes with cycle \<open>j\<close>.
\<close>

definition next_underflow :: "u16 \<Rightarrow> u16 \<times> u16 \<Rightarrow> nat \<Rightarrow> bool" where
  "next_underflow latch s j \<longleftrightarrow> 0 < j \<and> snd (cycles latch j s) = 1 \<and> snd (cycles latch (j - 1) s) = 0"

lemma next_underflow_Suc:
  assumes "\<not> underflow (step_inc s)" "next_underflow latch (settle latch (step_inc s)) j"
  shows "next_underflow latch s (Suc j)"
  using assms unfolding next_underflow_def by (cases j) (auto split: prod.split)

lemma next_underflow_1: "underflow (step_inc s) \<Longrightarrow> next_underflow latch s 1"
  by (simp add: next_underflow_def)

lemma warp_counting_same:
  assumes "warp_counting t" "\<not> bit t 14" "\<not> bit t 15"
  shows "\<exists>u. counting u \<and> step_inc (cnt, t) = step_inc (cnt, u)"
proof -
  let ?u = "t AND (CIAT_CR_START OR CIAT_COUNT2 OR CIAT_CR_ONESHOT OR CIAT_PHI2IN OR CIAT_COUNT3
      OR CIAT_ONESHOT0 OR CIAT_COUNT OR CIAT_ONESHOT)"
  have b: "bit ?u k \<longleftrightarrow> bit t k \<and> k \<in> {0, 1, 3, 5, 6, 8, 11, 12}" for k
    by (simp only: bit_and_iff bit_or_iff bit_CIAT insert_iff empty_iff) blast
  have "counting ?u" using assms unfolding counting_def b warp_counting_iff by auto
  moreover have "ciat_entry ?u = ciat_entry t"
  proof (rule state_eqI)
    fix k :: nat
    have "k \<in> {0, 3, 5} \<and> bit ?u k \<longleftrightarrow> k \<in> {0, 3, 5} \<and> bit t k" by (auto simp: b)
    then show "bit (ciat_entry ?u) k = bit (ciat_entry t) k"
      using assms(1) unfolding bit_ciat_entry warp_counting_iff b by simp
  qed
  ultimately show ?thesis by (intro exI [of _ ?u]) (simp add: step_inc_def b)
qed

lemma cycles_cong_step: "step_inc s = step_inc r \<Longrightarrow> cycles latch (Suc k) s = cycles latch (Suc k) r"
  by simp

lemma counting_next_underflow:
  assumes "warp_counting t" "\<not> bit t 14" "\<not> bit t 15" "cnt \<noteq> 0"
  shows "next_underflow latch (cnt, t) (unat cnt)"
proof -
  obtain u where u: "counting u" "step_inc (cnt, t) = step_inc (cnt, u)"
    using warp_counting_same [OF assms(1-3)] by blast
  have k: "0 < unat cnt" using assms(4) by (simp add: unat_gt_0)
  then obtain j where j: "unat cnt = Suc j" by (cases "unat cnt") auto
  have "snd (cycles latch (unat cnt) (cnt, t)) = 1"
    using count_out [OF u(1) assms(4), of latch] cycles_cong_step [OF u(2), of latch j] j by simp
  moreover have "snd (cycles latch j (cnt, t)) = 0"
  proof (cases j)
    case 0
    then show ?thesis by simp
  next
    case (Suc i)
    then show ?thesis
      using count_down [OF u(1), of j cnt latch] cycles_cong_step [OF u(2), of latch i] j by simp
  qed
  ultimately show ?thesis using j by (simp add: next_underflow_def)
qed

lemma stopped_never:
  "warp_stopped t \<Longrightarrow> \<not> bit t 2 \<or> \<not> bit t 0 \<Longrightarrow> snd (cycles latch k (cnt, t)) = 0"
proof -
  define quiet where "quiet t \<longleftrightarrow> \<not> bit t 1 \<and> \<not> bit t 6 \<and> (\<not> bit t 0 \<or> (\<not> bit t 5 \<and> \<not> bit t 2))"
    for t :: u16
  have "snd (cycles latch k (cnt, t)) = 0" if "quiet t" for t
    using that
  proof (induction k arbitrary: cnt t)
    case 0
    then show ?case by simp
  next
    case (Suc k)
    have u: "\<not> underflow (step_inc (cnt, t))"
      using Suc.prems by (auto simp: underflow_def step_inc_def bit_ciat_entry quiet_def)
    obtain c' t' where s: "settle latch (step_inc (cnt, t)) = (c', t')"
      by (cases "settle latch (step_inc (cnt, t))")
    have "t' = snd (settle latch (fst (step_inc (cnt, t)), ciat_entry t))"
      using s by (simp add: step_inc_def)
    then have "quiet t'"
      using Suc.prems unfolding quiet_def
      by (auto simp: bit_settle Let_def bit_ciat_entry underflow_def)
    then show ?case using Suc.IH [of t' c'] u s by (simp split: prod.split)
  qed
  moreover assume "warp_stopped t"
  ultimately show ?thesis by (simp add: quiet_def warp_stopped_iff)
qed

lemma set_alarm_loop_next:
  assumes "stage k t" "k \<le> 4" "5 - k \<le> fuel" "bit t 6 \<longrightarrow> cnt \<noteq> 0"
  shows "(\<exists>j. set_alarm_loop fuel latch aclk cnt t = Some (aclk + of_nat j)
      \<and> next_underflow latch (cnt, t) j \<and> j < 2 ^ 16 + (5 - k))
    \<or> (set_alarm_loop fuel latch aclk cnt t = Some CLOCK_MAX \<and> (\<forall>j. snd (cycles latch j (cnt, t)) = 0))"
  using assms
proof (induction fuel arbitrary: k t cnt aclk)
  case 0
  then show ?case by simp
next
  case (Suc fuel)
  have v: "\<not> bit t 14" "\<not> bit t 15" using Suc.prems(1) by (simp_all add: stage_def)
  consider "warp_counting t" | "\<not> warp_counting t" "warp_stopped t"
    | "\<not> warp_counting t" "\<not> warp_stopped t" "underflow (step_inc (cnt, t))"
    | "\<not> warp_counting t" "\<not> warp_stopped t" "\<not> underflow (step_inc (cnt, t))" by blast
  then show ?case
  proof cases
    case 1
    then have c: "cnt \<noteq> 0" using Suc.prems(4) by (simp add: warp_counting_iff)
    have "set_alarm_loop (Suc fuel) latch aclk cnt t = Some (aclk + of_nat (unat cnt))" using 1 by simp
    moreover have "unat cnt < 2 ^ 16" using unsigned_less [of cnt] by simp
    ultimately show ?thesis using counting_next_underflow [OF 1 v c, of latch] by fastforce
  next
    case 2
    then have "\<not> bit t 2 \<or> \<not> bit t 0" by (auto simp: warp_stopped_iff)
    then show ?thesis using 2 stopped_never by simp
  next
    case 3
    obtain c1 t1 where s: "step_inc (cnt, t) = (c1, t1)" by (cases "step_inc (cnt, t)")
    have "set_alarm_loop (Suc fuel) latch aclk cnt t = Some (aclk + of_nat 1)"
      using 3 s by (simp add: ciat_inc_step [OF v] underflow_def)
    then show ?thesis using next_underflow_1 [OF 3(3), of latch] by fastforce
  next
    case 4
    then have k: "k < 4" using stage_4 Suc.prems(1,2) by (metis le_neq_implies_less)
    obtain c1 t1 where s: "step_inc (cnt, t) = (c1, t1)" by (cases "step_inc (cnt, t)")
    obtain c2 t2 where d: "settle latch (c1, t1) = (c2, t2)" by (cases "settle latch (c1, t1)")
    have loop: "set_alarm_loop (Suc fuel) latch aclk cnt t = set_alarm_loop fuel latch (aclk + 1) c2 t2"
      using 4 s d by (auto simp: ciat_inc_step [OF v] underflow_def settle_def Let_def split: if_splits)
    have st: "stage (k + 1) t2" using stage_step [OF Suc.prems(1) 4(3) k, of latch] s d by simp
    have "bit t2 6 \<longrightarrow> c2 \<noteq> 0"
      using timer_ok_step [of latch "(cnt, t)"] s d by (simp add: timer_ok_def)
    from Suc.IH [OF st _ _ this, of "aclk + 1"] k Suc.prems(3)
    have ih: "(\<exists>j. set_alarm_loop fuel latch (aclk + 1) c2 t2 = Some (aclk + 1 + of_nat j)
        \<and> next_underflow latch (c2, t2) j \<and> j < 2 ^ 16 + (5 - (k + 1)))
      \<or> (set_alarm_loop fuel latch (aclk + 1) c2 t2 = Some CLOCK_MAX
         \<and> (\<forall>j. snd (cycles latch j (c2, t2)) = 0))" by simp
    then show ?thesis
    proof (elim disjE exE conjE)
      fix j assume j: "set_alarm_loop fuel latch (aclk + 1) c2 t2 = Some (aclk + 1 + of_nat j)"
        "next_underflow latch (c2, t2) j" "j < 2 ^ 16 + (5 - (k + 1))"
      have "next_underflow latch (cnt, t) (Suc j)"
        using next_underflow_Suc [OF 4(3), of latch j] s d j(2) by simp
      moreover have "Suc j < 2 ^ 16 + (5 - k)" using j(3) k by linarith
      ultimately show ?thesis using loop j(1) by (intro disjI1 exI [of _ "Suc j"]) (simp add: algebra_simps)
    next
      assume never: "set_alarm_loop fuel latch (aclk + 1) c2 t2 = Some CLOCK_MAX"
        "\<forall>j. snd (cycles latch j (c2, t2)) = 0"
      have "snd (cycles latch j (cnt, t)) = 0" for j
      proof (cases j)
        case 0
        then show ?thesis by simp
      next
        case (Suc i)
        have "snd (cycles latch i (c2, t2)) = 0" using never(2) by blast
        then show ?thesis using s d 4(3) Suc by (simp split: prod.split)
      qed
      then show ?thesis using loop never(1) by simp
    qed
  qed
qed

text \<open>
  C23. \<^verbatim>\<open>ciat_set_alarm\<close> ends within five rounds and is exact: either the timer will
  underflow, and then the alarm of the timer is set for the very cycle of the first
  underflow, or it will never underflow, and then the alarm is not pending.
\<close>

theorem set_alarm_exact:
  assumes "unat (ct_state s) < CIAT_TABLEN" "bit (ct_state s) 6 \<longrightarrow> ct_cnt s \<noteq> 0"
    and "5 \<le> fuel" "unat (ct_clk s) + 2 ^ 17 < 2 ^ 64"
    and "alarm_wf xs ctx" "ct_alarm s \<in> set xs"
    and "deadline ctx (ct_alarm s) \<noteq> None \<or> num_pending_alarms ctx < max_pending_alarms"
  shows "\<exists>tmp ctx'. ciat_set_alarm fuel (s, ctx) = Some (s\<lparr>ct_alarmclk := tmp\<rparr>, ctx')
    \<and> alarm_wf xs ctx'
    \<and> ((\<exists>j. next_underflow (ct_latch s) (ct_cnt s, ct_state s) j \<and> tmp = ct_clk s + of_nat j
          \<and> deadline ctx' (ct_alarm s) = Some tmp)
       \<or> ((\<forall>j. snd (cycles (ct_latch s) j (ct_cnt s, ct_state s)) = 0)
          \<and> tmp = CLOCK_MAX \<and> deadline ctx' (ct_alarm s) = None))"
proof -
  let ?l = "set_alarm_loop fuel (ct_latch s) (ct_clk s) (ct_cnt s) (ct_state s)"
  have st: "stage 0 (ct_state s)" using assms(1) by (simp add: stage_def valid_state)
  from set_alarm_loop_next [OF st _ _ assms(2), of fuel "ct_latch s" "ct_clk s"] assms(3)
  have "(\<exists>j. ?l = Some (ct_clk s + of_nat j) \<and> next_underflow (ct_latch s) (ct_cnt s, ct_state s) j
       \<and> j < 2 ^ 16 + 5) \<or> (?l = Some CLOCK_MAX \<and> (\<forall>j. snd (cycles (ct_latch s) j (ct_cnt s, ct_state s)) = 0))"
    by simp
  then show ?thesis
  proof (elim disjE exE conjE)
    fix j assume j: "?l = Some (ct_clk s + of_nat j)"
      "next_underflow (ct_latch s) (ct_cnt s, ct_state s) j" "j < 2 ^ 16 + 5"
    have "unat (ct_clk s + of_nat j) = unat (ct_clk s) + j"
      using j(3) assms(4) by (simp add: unat_word_ariths unsigned_of_nat take_bit_nat_eq_self)
    moreover have "unat CLOCK_MAX = 2 ^ 64 - 1"
      by (simp add: CLOCK_MAX_def unsigned_minus_1_eq_mask mask_eq_exp_minus_1)
    ultimately have "unat (ct_clk s + of_nat j) \<noteq> unat CLOCK_MAX" using j(3) assms(4) by simp
    then have "ct_clk s + of_nat j \<noteq> CLOCK_MAX" by auto
    then show ?thesis
      using j contexts.ok_set [OF assms(5,6)] contexts.due_set [OF assms(5,6,6,7)]
      by (simp add: ciat_set_alarm_def) blast
  next
    assume n: "?l = Some CLOCK_MAX" "\<forall>j. snd (cycles (ct_latch s) j (ct_cnt s, ct_state s)) = 0"
    then show ?thesis
      using contexts.ok_unset [OF assms(5,6)] contexts.due_unset [OF assms(5,6,6)]
      by (intro exI [of _ CLOCK_MAX] exI [of _ "alarm_unset ctx (ct_alarm s)"]) (simp add: ciat_set_alarm_def)
  qed
qed

theorem set_alarm_exact_witness:
  "\<exists>tmp ctx'. ciat_set_alarm 5 (demo_timer, demo_context) = Some (demo_timer\<lparr>ct_alarmclk := tmp\<rparr>, ctx')
    \<and> (deadline ctx' 1 = Some tmp \<or> deadline ctx' 1 = None)"
proof -
  have a: "unat (ct_state demo_timer) < CIAT_TABLEN" "bit (ct_state demo_timer) 6 \<longrightarrow> ct_cnt demo_timer \<noteq> 0"
    using demo_timer_ok by (simp_all add: valid_state timer_ok_def)
  have b: "alarm_wf [2, 1] demo_context" by (rule alarm_reach_wf [OF demo_context_reach])
  have "num_pending_alarms demo_context < max_pending_alarms"
    by (simp add: demo_context_def alarm_new_def alarm_context_init_def max_pending_alarms_def)
  then show ?thesis
    using set_alarm_exact [OF a _ _ b, of 5] by (auto simp: demo_timer_fields demo_timer_def)
qed

section \<open>Damaged snapshots\<close>

text \<open>
  \<^verbatim>\<open>ciat_load_snapshot\<close> trusts the state it reads: a state with one of the two unused top
  bits set that is neither counting nor stopped makes \<^verbatim>\<open>ciat_set_alarm\<close> index the table out
  of bounds at once.
\<close>

theorem load_snapshot_out_of_bounds:
  assumes "mparses snapshot_module_read_word bs t" "sf_bytes f = pre @ bs @ post" "sf_pos f = length pre"
    and "length pre + length bs \<le> m_offset m + unat (m_size m)"
    and "CIAT_TABLEN \<le> unat t" "\<not> warp_counting t" "\<not> warp_stopped t" "0x101 \<le> ver"
  shows "ciat_load_snapshot fuel cclk cnt latch cr ver ((s, ctx), m, f) = None"
proof -
  have "set_alarm_loop fuel latch cclk cnt t = None"
    using assms(5-7) by (cases fuel) (simp_all add: ciat_inc_def ciat_table_def)
  then show ?thesis
    using mparsesD [OF assms(1-4)] assms(8)
    by (simp add: ciat_load_snapshot_def smr_def ciat_set_alarm_def)
qed

theorem load_snapshot_out_of_bounds_witness:
  "ciat_load_snapshot 9 100 7 7 0 0x202 ((demo_timer, demo_context),
     \<lparr>m_write_mode = False, m_size = 24, m_offset = 0, m_size_offset = 0\<rparr>,
     \<lparr>sf_bytes = replicate 22 0 @ enc_word 0x8021, sf_pos = 22, sf_limit = 24, sf_error = 0\<rparr>) = None"
proof -
  have "CIAT_TABLEN \<le> unat (0x8021 :: u16)" "\<not> warp_counting 0x8021" "\<not> warp_stopped 0x8021"
    by (simp_all add: CIAT_TABLEN_def warp_counting_iff warp_stopped_iff)
  from load_snapshot_out_of_bounds [OF word_field.get_ok _ _ _ this, of _ "replicate 22 0" "[]"]
  show ?thesis by simp
qed

end
