(* ===== verification/Flash040.thy ===== *)
theory Flash040
  imports Snapshot_Codec Alarm_Service
begin

text \<open>
  The (AM)29F0x0 flash chips, \<^verbatim>\<open>src/src/core/flash040core.c\<close> and \<^verbatim>\<open>src/src/flash040.h\<close>: the
  command state machine, programming, the erase alarm, status reads and the snapshot. The
  chip is a record of the fields of \<^verbatim>\<open>flash040_context_t\<close>; its alarm lives in the alarm
  context threaded beside it. \<open>None\<close> is an access outside the data or the erase mask. The
  globals \<^verbatim>\<open>maincpu_clk\<close> and \<^verbatim>\<open>maincpu_rmw_flag\<close> are arguments.
\<close>

section \<open>Chips\<close>

datatype flash040_type =
    FLASH040_TYPE_NORMAL
  | FLASH040_TYPE_B
  | FLASH040_TYPE_010
  | FLASH040_TYPE_032B_A0_1_SWAP
  | FLASH040_TYPE_064

text \<open>The last constructor is a value outside the enumeration, which a snapshot can bring in.\<close>

datatype flash040_state =
    FLASH040_STATE_READ
  | FLASH040_STATE_MAGIC_1
  | FLASH040_STATE_MAGIC_2
  | FLASH040_STATE_AUTOSELECT
  | FLASH040_STATE_BYTE_PROGRAM
  | FLASH040_STATE_BYTE_PROGRAM_ERROR
  | FLASH040_STATE_ERASE_MAGIC_1
  | FLASH040_STATE_ERASE_MAGIC_2
  | FLASH040_STATE_ERASE_SELECT
  | FLASH040_STATE_CHIP_ERASE
  | FLASH040_STATE_SECTOR_ERASE
  | FLASH040_STATE_SECTOR_ERASE_TIMEOUT
  | FLASH040_STATE_SECTOR_ERASE_SUSPEND
  | FLASH040_STATE_other u8

definition FLASH040_ERASE_MASK_SIZE :: nat where "FLASH040_ERASE_MASK_SIZE = 8"

record flash_types =
  manufacturer_ID :: u8
  device_ID :: u8
  device_ID_addr :: nat
  ft_size :: nat
  sector_mask :: nat
  sector_size :: nat
  sector_shift :: nat
  magic_1_addr :: nat
  magic_2_addr :: nat
  magic_1_mask :: nat
  magic_2_mask :: nat
  status_toggle_bits :: u8
  erase_sector_timeout_cycles :: clock
  erase_sector_cycles :: clock
  erase_chip_cycles :: clock

fun flash_type_data :: "flash040_type \<Rightarrow> flash_types" where
  "flash_type_data FLASH040_TYPE_NORMAL = \<lparr>manufacturer_ID = 0x01, device_ID = 0xa4, device_ID_addr = 1,
     ft_size = 0x80000, sector_mask = 0x70000, sector_size = 0x10000, sector_shift = 16,
     magic_1_addr = 0x5555, magic_2_addr = 0x2aaa, magic_1_mask = 0x7fff, magic_2_mask = 0x7fff,
     status_toggle_bits = 0x40,
     erase_sector_timeout_cycles = 80, erase_sector_cycles = 2000000, erase_chip_cycles = 14000000\<rparr>"
| "flash_type_data FLASH040_TYPE_B = \<lparr>manufacturer_ID = 0x01, device_ID = 0xa4, device_ID_addr = 1,
     ft_size = 0x80000, sector_mask = 0x70000, sector_size = 0x10000, sector_shift = 16,
     magic_1_addr = 0x555, magic_2_addr = 0x2aa, magic_1_mask = 0x7ff, magic_2_mask = 0x7ff,
     status_toggle_bits = 0x40,
     erase_sector_timeout_cycles = 50, erase_sector_cycles = 1000000, erase_chip_cycles = 8000000\<rparr>"
| "flash_type_data FLASH040_TYPE_010 = \<lparr>manufacturer_ID = 0x01, device_ID = 0x20, device_ID_addr = 1,
     ft_size = 0x20000, sector_mask = 0x1c000, sector_size = 0x04000, sector_shift = 14,
     magic_1_addr = 0x5555, magic_2_addr = 0x2aaa, magic_1_mask = 0x7fff, magic_2_mask = 0x7fff,
     status_toggle_bits = 0x40,
     erase_sector_timeout_cycles = 80, erase_sector_cycles = 1000000, erase_chip_cycles = 1000000\<rparr>"
| "flash_type_data FLASH040_TYPE_032B_A0_1_SWAP = \<lparr>manufacturer_ID = 0x01, device_ID = 0x41, device_ID_addr = 1,
     ft_size = 0x400000, sector_mask = 0x3f0000, sector_size = 0x10000, sector_shift = 16,
     magic_1_addr = 0x556, magic_2_addr = 0x2a9, magic_1_mask = 0x7ff, magic_2_mask = 0x7ff,
     status_toggle_bits = 0x44,
     erase_sector_timeout_cycles = 50, erase_sector_cycles = 1000000, erase_chip_cycles = 64000000\<rparr>"
| "flash_type_data FLASH040_TYPE_064 = \<lparr>manufacturer_ID = 0x01, device_ID = 0x7e, device_ID_addr = 2,
     ft_size = 0x800000, sector_mask = 0x7f0000, sector_size = 0x10000, sector_shift = 16,
     magic_1_addr = 0xaaa, magic_2_addr = 0x555, magic_1_mask = 0xfff, magic_2_mask = 0xfff,
     status_toggle_bits = 0x40,
     erase_sector_timeout_cycles = 50, erase_sector_cycles = 500000, erase_chip_cycles = 64000000\<rparr>"

record flash040_context =
  flash_data :: "nat \<Rightarrow> u8"
  flash_state :: flash040_state
  flash_base_state :: flash040_state
  program_byte :: u8
  erase_mask :: "u8 list"
  flash_dirty :: bool
  flash_type :: flash040_type
  last_read :: u8
  erase_alarm :: nat

abbreviation ftype :: "flash040_context \<Rightarrow> flash_types" where
  "ftype fc \<equiv> flash_type_data (flash_type fc)"

section \<open>Helpers of the core\<close>

definition flash_magic_1 :: "flash040_context \<Rightarrow> nat \<Rightarrow> bool" where
  "flash_magic_1 fc addr \<longleftrightarrow> (addr AND magic_1_mask (ftype fc)) = magic_1_addr (ftype fc)"

definition flash_magic_2 :: "flash040_context \<Rightarrow> nat \<Rightarrow> bool" where
  "flash_magic_2 fc addr \<longleftrightarrow> (addr AND magic_2_mask (ftype fc)) = magic_2_addr (ftype fc)"

definition flash_clear_erase_mask :: "flash040_context \<Rightarrow> flash040_context" where
  "flash_clear_erase_mask fc = fc\<lparr>erase_mask := replicate FLASH040_ERASE_MASK_SIZE 0\<rparr>"

definition flash_sector_to_addr :: "flash040_context \<Rightarrow> nat \<Rightarrow> nat" where
  "flash_sector_to_addr fc sector = sector * sector_size (ftype fc)"

definition flash_addr_to_sector_number :: "flash040_context \<Rightarrow> nat \<Rightarrow> nat" where
  "flash_addr_to_sector_number fc addr =
     drop_bit (sector_shift (ftype fc)) (sector_mask (ftype fc) AND addr)"

text \<open>\<^verbatim>\<open>erase_mask[i >> 3] |= 1 << (i & 7)\<close>, \<open>None\<close> beyond the array.\<close>

definition flash_add_sector_to_erase_mask :: "flash040_context \<Rightarrow> nat \<Rightarrow> flash040_context option" where
  "flash_add_sector_to_erase_mask fc addr =
     (let sector_num = flash_addr_to_sector_number fc addr; j = sector_num div 8
      in if j < length (erase_mask fc)
         then Some (fc\<lparr>erase_mask := (erase_mask fc)[j := erase_mask fc ! j OR push_bit (sector_num mod 8) 1]\<rparr>)
         else None)"

definition flash_erase_sector :: "flash040_context \<Rightarrow> nat \<Rightarrow> flash040_context option" where
  "flash_erase_sector fc sector =
     (let sector_addr = flash_sector_to_addr fc sector
      in if sector_addr + sector_size (ftype fc) \<le> ft_size (ftype fc)
         then Some (fc\<lparr>flash_data := memset (flash_data fc) sector_addr 0xff (sector_size (ftype fc)),
                       flash_dirty := True\<rparr>)
         else None)"

definition flash_erase_chip :: "flash040_context \<Rightarrow> flash040_context" where
  "flash_erase_chip fc = fc\<lparr>flash_data := memset (flash_data fc) 0 0xff (ft_size (ftype fc)),
     flash_dirty := True\<rparr>"

definition flash_program_byte :: "flash040_context \<Rightarrow> nat \<Rightarrow> u8 \<Rightarrow> (bool \<times> flash040_context) option" where
  "flash_program_byte fc addr byte =
     (if addr < ft_size (ftype fc)
      then let new_data = flash_data fc addr AND byte
           in Some (new_data = byte, fc\<lparr>program_byte := byte,
                flash_data := (flash_data fc)(addr := new_data), flash_dirty := True\<rparr>)
      else None)"

definition flash_write_operation_status :: "flash040_context \<Rightarrow> clock \<Rightarrow> u8" where
  "flash_write_operation_status fc maincpu_clk =
     ((program_byte fc XOR 0x80) AND 0x80) OR push_bit 5 (ucast (maincpu_clk AND 2)) OR push_bit 5 1"

definition flash_erase_operation_status :: "flash040_context \<Rightarrow> u8 \<times> flash040_context" where
  "flash_erase_operation_status fc =
     (let v = program_byte fc;
          fc = fc\<lparr>program_byte := program_byte fc XOR status_toggle_bits (ftype fc)\<rparr>
      in (if flash_state fc \<noteq> FLASH040_STATE_SECTOR_ERASE_TIMEOUT then v OR 0x08 else v, fc))"

section \<open>The erase alarm\<close>

type_synonym flash_machine = "flash040_context \<times> alarm_context"

definition mask_bit :: "u8 list \<Rightarrow> nat \<Rightarrow> bool" where
  "mask_bit m i \<longleftrightarrow> m ! (i div 8) AND push_bit (i mod 8) 1 \<noteq> 0"

text \<open>The search stops at the first marked sector, erases it and clears its mark.\<close>

definition erase_first_sector :: "flash040_context \<Rightarrow> flash040_context option" where
  "erase_first_sector fc =
     (case find (mask_bit (erase_mask fc)) [0..<8 * FLASH040_ERASE_MASK_SIZE] of
        None \<Rightarrow> Some fc
      | Some i \<Rightarrow> map_option (\<lambda>fc. fc\<lparr>erase_mask :=
            (erase_mask fc)[i div 8 := erase_mask fc ! (i div 8) AND NOT (push_bit (i mod 8) 1)]\<rparr>)
          (flash_erase_sector fc i))"

definition erase_alarm_handler :: "clock \<Rightarrow> flash_machine \<Rightarrow> flash_machine option" where
  "erase_alarm_handler maincpu_clk fm = (case fm of (fc, ctx) \<Rightarrow>
     let ctx = alarm_unset ctx (erase_alarm fc)
     in case flash_state fc of
          FLASH040_STATE_SECTOR_ERASE_TIMEOUT \<Rightarrow>
            Some (fc\<lparr>flash_state := FLASH040_STATE_SECTOR_ERASE\<rparr>,
              alarm_set ctx (erase_alarm fc) (maincpu_clk + erase_sector_cycles (ftype fc)))
        | FLASH040_STATE_SECTOR_ERASE \<Rightarrow>
            (case erase_first_sector fc of
               None \<Rightarrow> None
             | Some fc \<Rightarrow>
                 if fold (OR) (erase_mask fc) 0 \<noteq> 0
                 then Some (fc, alarm_set ctx (erase_alarm fc) (maincpu_clk + erase_sector_cycles (ftype fc)))
                 else Some (fc\<lparr>flash_state := flash_base_state fc\<rparr>, ctx))
        | FLASH040_STATE_CHIP_ERASE \<Rightarrow>
            (let fc = flash_erase_chip fc in Some (fc\<lparr>flash_state := flash_base_state fc\<rparr>, ctx))
        | _ \<Rightarrow> Some (fc, ctx))"

section \<open>Stores\<close>

definition to_base :: "flash040_context \<Rightarrow> flash040_context" where
  "to_base fc = fc\<lparr>flash_state := flash_base_state fc\<rparr>"

definition flash040core_store_internal :: "clock \<Rightarrow> nat \<Rightarrow> u8 \<Rightarrow> flash_machine \<Rightarrow> flash_machine option" where
  "flash040core_store_internal maincpu_clk addr byte fm = (case fm of (fc, ctx) \<Rightarrow>
     (case flash_state fc of
        FLASH040_STATE_READ \<Rightarrow>
          Some (if flash_magic_1 fc addr \<and> byte = 0xaa
                then fc\<lparr>flash_state := FLASH040_STATE_MAGIC_1\<rparr> else fc, ctx)
      | FLASH040_STATE_MAGIC_1 \<Rightarrow>
          Some (if flash_magic_2 fc addr \<and> byte = 0x55
                then fc\<lparr>flash_state := FLASH040_STATE_MAGIC_2\<rparr> else to_base fc, ctx)
      | FLASH040_STATE_MAGIC_2 \<Rightarrow>
          Some (if flash_magic_1 fc addr then
                  (if byte = 0x90 then fc\<lparr>flash_state := FLASH040_STATE_AUTOSELECT,
                                         flash_base_state := FLASH040_STATE_AUTOSELECT\<rparr>
                   else if byte = 0xf0 then fc\<lparr>flash_state := FLASH040_STATE_READ,
                                              flash_base_state := FLASH040_STATE_READ\<rparr>
                   else if byte = 0xa0 then fc\<lparr>flash_state := FLASH040_STATE_BYTE_PROGRAM\<rparr>
                   else if byte = 0x80 then fc\<lparr>flash_state := FLASH040_STATE_ERASE_MAGIC_1\<rparr>
                   else to_base fc)
                else to_base fc, ctx)
      | FLASH040_STATE_BYTE_PROGRAM \<Rightarrow>
          (case flash_program_byte fc addr byte of
             None \<Rightarrow> None
           | Some (True, fc) \<Rightarrow> Some (to_base fc, ctx)
           | Some (False, fc) \<Rightarrow> Some (fc\<lparr>flash_state := FLASH040_STATE_BYTE_PROGRAM_ERROR\<rparr>, ctx))
      | FLASH040_STATE_ERASE_MAGIC_1 \<Rightarrow>
          Some (if flash_magic_1 fc addr \<and> byte = 0xaa
                then fc\<lparr>flash_state := FLASH040_STATE_ERASE_MAGIC_2\<rparr> else to_base fc, ctx)
      | FLASH040_STATE_ERASE_MAGIC_2 \<Rightarrow>
          Some (if flash_magic_2 fc addr \<and> byte = 0x55
                then fc\<lparr>flash_state := FLASH040_STATE_ERASE_SELECT\<rparr> else to_base fc, ctx)
      | FLASH040_STATE_ERASE_SELECT \<Rightarrow>
          if flash_magic_1 fc addr \<and> byte = 0x10 then
            Some (fc\<lparr>flash_state := FLASH040_STATE_CHIP_ERASE, program_byte := 0\<rparr>,
              alarm_set ctx (erase_alarm fc) (maincpu_clk + erase_chip_cycles (ftype fc)))
          else if byte = 0x30 then
            (case flash_add_sector_to_erase_mask fc addr of
               None \<Rightarrow> None
             | Some fc \<Rightarrow> Some (fc\<lparr>program_byte := 0, flash_state := FLASH040_STATE_SECTOR_ERASE_TIMEOUT\<rparr>,
                 alarm_set ctx (erase_alarm fc) (maincpu_clk + erase_sector_timeout_cycles (ftype fc))))
          else Some (to_base fc, ctx)
      | FLASH040_STATE_SECTOR_ERASE_TIMEOUT \<Rightarrow>
          if byte = 0x30 then map_option (\<lambda>fc. (fc, ctx)) (flash_add_sector_to_erase_mask fc addr)
          else Some (flash_clear_erase_mask (to_base fc), alarm_unset ctx (erase_alarm fc))
      | FLASH040_STATE_SECTOR_ERASE \<Rightarrow>
          Some (if byte = 0xb0
                then (fc\<lparr>flash_state := FLASH040_STATE_SECTOR_ERASE_SUSPEND\<rparr>, alarm_unset ctx (erase_alarm fc))
                else (fc, ctx))
      | FLASH040_STATE_SECTOR_ERASE_SUSPEND \<Rightarrow>
          Some (if byte = 0x30
                then (fc\<lparr>flash_state := FLASH040_STATE_SECTOR_ERASE\<rparr>,
                      alarm_set ctx (erase_alarm fc) (maincpu_clk + erase_sector_cycles (ftype fc)))
                else (fc, ctx))
      | FLASH040_STATE_CHIP_ERASE \<Rightarrow> Some (fc, ctx)
      | FLASH040_STATE_other _ \<Rightarrow> Some (fc, ctx)
      | _ \<Rightarrow>
          (let fc = (if flash_magic_1 fc addr \<and> byte = 0xaa
                     then fc\<lparr>flash_state := FLASH040_STATE_MAGIC_1\<rparr> else fc);
               fc = (if byte = 0xf0 then fc\<lparr>flash_state := FLASH040_STATE_READ,
                                           flash_base_state := FLASH040_STATE_READ\<rparr> else fc)
           in Some (fc, ctx))))"

definition flash040core_store :: "bool \<Rightarrow> clock \<Rightarrow> nat \<Rightarrow> u8 \<Rightarrow> flash_machine \<Rightarrow> flash_machine option" where
  "flash040core_store maincpu_rmw_flag maincpu_clk addr byte fm =
     (case (if maincpu_rmw_flag
            then flash040core_store_internal (maincpu_clk - 1) addr (last_read (fst fm)) fm
            else Some fm) of
        None \<Rightarrow> None
      | Some fm \<Rightarrow> flash040core_store_internal maincpu_clk addr byte fm)"

section \<open>Reads, reset and initialisation\<close>

definition peek_data :: "flash040_context \<Rightarrow> nat \<Rightarrow> u8 option" where
  "peek_data fc addr = (if addr < ft_size (ftype fc) then Some (flash_data fc addr) else None)"

definition swap_A0_1 :: "nat \<Rightarrow> nat" where
  "swap_A0_1 addr = [0, 2, 1, 3] ! (addr mod 4)"

definition autoselect_value :: "flash040_context \<Rightarrow> nat \<Rightarrow> u8 option" where
  "autoselect_value fc addr =
     (let addr = (if flash_type fc = FLASH040_TYPE_032B_A0_1_SWAP \<and> addr mod 256 < 4
                  then swap_A0_1 addr else addr)
      in if addr mod 256 = 0 then Some (manufacturer_ID (ftype fc))
         else if addr mod 256 = device_ID_addr (ftype fc) then Some (device_ID (ftype fc))
         else if addr mod 256 = 2 then Some 0
         else peek_data fc addr)"

definition flash040core_read :: "clock \<Rightarrow> nat \<Rightarrow> flash040_context \<Rightarrow> (u8 \<times> flash040_context) option" where
  "flash040core_read maincpu_clk addr fc =
     (let r = (case flash_state fc of
          FLASH040_STATE_AUTOSELECT \<Rightarrow> map_option (\<lambda>v. (v, fc)) (autoselect_value fc addr)
        | FLASH040_STATE_BYTE_PROGRAM_ERROR \<Rightarrow> Some (flash_write_operation_status fc maincpu_clk, fc)
        | FLASH040_STATE_SECTOR_ERASE_SUSPEND \<Rightarrow> Some (flash_erase_operation_status fc)
        | FLASH040_STATE_CHIP_ERASE \<Rightarrow> Some (flash_erase_operation_status fc)
        | FLASH040_STATE_SECTOR_ERASE \<Rightarrow> Some (flash_erase_operation_status fc)
        | FLASH040_STATE_SECTOR_ERASE_TIMEOUT \<Rightarrow> Some (flash_erase_operation_status fc)
        | _ \<Rightarrow> map_option (\<lambda>v. (v, fc)) (peek_data fc addr))
      in map_option (\<lambda>(v, fc). (v, fc\<lparr>last_read := v\<rparr>)) r)"

definition flash040core_peek :: "flash040_context \<Rightarrow> nat \<Rightarrow> u8 option" where
  "flash040core_peek fc addr = peek_data fc addr"

definition flash040core_reset :: "flash_machine \<Rightarrow> flash_machine" where
  "flash040core_reset fm = (case fm of (fc, ctx) \<Rightarrow>
     (flash_clear_erase_mask (fc\<lparr>flash_state := FLASH040_STATE_READ,
        flash_base_state := FLASH040_STATE_READ, program_byte := 0\<rparr>),
      alarm_unset ctx (erase_alarm fc)))"

text \<open>The callback identifier is the address of \<^verbatim>\<open>erase_alarm_handler\<close>, \<open>p\<close> the new alarm.\<close>

definition flash040core_init :: "nat \<Rightarrow> nat \<Rightarrow> nat \<Rightarrow> flash040_type \<Rightarrow> (nat \<Rightarrow> u8) \<Rightarrow> flash_machine \<Rightarrow> flash_machine" where
  "flash040core_init p callback self type data fm = (case fm of (fc, ctx) \<Rightarrow>
     (let fc = flash_clear_erase_mask (fc\<lparr>flash_data := data, flash_type := type,
              flash_state := FLASH040_STATE_READ, flash_base_state := FLASH040_STATE_READ, program_byte := 0\<rparr>);
          (al, ctx) = alarm_new p ctx ''Flash040Alarm'' callback self
      in (fc\<lparr>flash_dirty := False, erase_alarm := al\<rparr>, ctx)))"

section \<open>Snapshots\<close>

fun state_byte :: "flash040_state \<Rightarrow> u8" where
  "state_byte FLASH040_STATE_READ = 0"
| "state_byte FLASH040_STATE_MAGIC_1 = 1"
| "state_byte FLASH040_STATE_MAGIC_2 = 2"
| "state_byte FLASH040_STATE_AUTOSELECT = 3"
| "state_byte FLASH040_STATE_BYTE_PROGRAM = 4"
| "state_byte FLASH040_STATE_BYTE_PROGRAM_ERROR = 5"
| "state_byte FLASH040_STATE_ERASE_MAGIC_1 = 6"
| "state_byte FLASH040_STATE_ERASE_MAGIC_2 = 7"
| "state_byte FLASH040_STATE_ERASE_SELECT = 8"
| "state_byte FLASH040_STATE_CHIP_ERASE = 9"
| "state_byte FLASH040_STATE_SECTOR_ERASE = 10"
| "state_byte FLASH040_STATE_SECTOR_ERASE_TIMEOUT = 11"
| "state_byte FLASH040_STATE_SECTOR_ERASE_SUSPEND = 12"
| "state_byte (FLASH040_STATE_other b) = b"

definition byte_state :: "u8 \<Rightarrow> flash040_state" where
  "byte_state b = (if unat b < 13
     then [FLASH040_STATE_READ, FLASH040_STATE_MAGIC_1, FLASH040_STATE_MAGIC_2, FLASH040_STATE_AUTOSELECT,
           FLASH040_STATE_BYTE_PROGRAM, FLASH040_STATE_BYTE_PROGRAM_ERROR, FLASH040_STATE_ERASE_MAGIC_1,
           FLASH040_STATE_ERASE_MAGIC_2, FLASH040_STATE_ERASE_SELECT, FLASH040_STATE_CHIP_ERASE,
           FLASH040_STATE_SECTOR_ERASE, FLASH040_STATE_SECTOR_ERASE_TIMEOUT,
           FLASH040_STATE_SECTOR_ERASE_SUSPEND] ! unat b
     else FLASH040_STATE_other b)"

definition FLASH040_DUMP_VER_MAJOR :: u8 where "FLASH040_DUMP_VER_MAJOR = 2"
definition FLASH040_DUMP_VER_MINOR :: u8 where "FLASH040_DUMP_VER_MINOR = 0"

definition flash_write_fields :: "flash040_context \<Rightarrow> mstate \<Rightarrow> bool \<times> mstate" where
  "flash_write_fields fc =
     wseq (snapshot_module_write_byte (state_byte (flash_state fc)))
    (wseq (snapshot_module_write_byte (state_byte (flash_base_state fc)))
    (wseq (snapshot_module_write_byte (program_byte fc))
    (wseq (snapshot_module_write_byte_array (erase_mask fc))
          (snapshot_module_write_byte (last_read fc)))))"

definition flash040core_snapshot_write_module :: "flash040_context \<Rightarrow> u8 list \<Rightarrow> sfile \<Rightarrow> bool \<times> sfile" where
  "flash040core_snapshot_write_module fc name f =
     (case snapshot_module_create name FLASH040_DUMP_VER_MAJOR FLASH040_DUMP_VER_MINOR f of
        (None, f) \<Rightarrow> (False, f)
      | (Some m, f) \<Rightarrow> (case flash_write_fields fc (m, f) of
          (ok, st) \<Rightarrow> (ok, snd (snapshot_module_close st))))"

text \<open>The two state bytes are read into locals and stored only when every field was read.\<close>

definition flash_read_fields ::
  "(flash040_context \<times> u8 \<times> u8) \<times> mstate \<Rightarrow> bool \<times> (flash040_context \<times> u8 \<times> u8) \<times> mstate" where
  "flash_read_fields =
     wseq (smr snapshot_module_read_byte (\<lambda>x (fc, st, bst). (fc, x, bst)))
    (wseq (smr snapshot_module_read_byte (\<lambda>x (fc, st, bst). (fc, st, x)))
    (wseq (smr snapshot_module_read_byte (\<lambda>x (fc, st, bst). (fc\<lparr>program_byte := x\<rparr>, st, bst)))
    (wseq (smr (snapshot_module_read_byte_array FLASH040_ERASE_MASK_SIZE)
             (\<lambda>x (fc, st, bst). (fc\<lparr>erase_mask := x\<rparr>, st, bst)))
          (smr snapshot_module_read_byte (\<lambda>x (fc, st, bst). (fc\<lparr>last_read := x\<rparr>, st, bst))))))"

definition flash040core_snapshot_read_module ::
  "nat \<Rightarrow> nat \<Rightarrow> clock \<Rightarrow> u8 list \<Rightarrow> flash_machine \<Rightarrow> sfile \<Rightarrow> (bool \<times> flash_machine \<times> sfile) option" where
  "flash040core_snapshot_read_module fuel first_module_offset maincpu_clk name fm f = (case fm of (fc, ctx) \<Rightarrow>
     (case snapshot_module_open fuel first_module_offset name f of
        None \<Rightarrow> None
      | Some (None, f) \<Rightarrow> Some (False, (fc, ctx), f)
      | Some (Some (m, vmajor, vminor), f) \<Rightarrow>
          if vmajor \<noteq> FLASH040_DUMP_VER_MAJOR
          then Some (False, (fc, ctx), snd (snapshot_module_close (m, f)))
          else (case flash_read_fields ((fc, 0, 0), m, f) of
              (False, (fc, _, _), st) \<Rightarrow> Some (False, (fc, ctx), snd (snapshot_module_close st))
            | (True, (fc, state, base_state), st) \<Rightarrow>
                (let fc = fc\<lparr>flash_state := byte_state state, flash_base_state := byte_state base_state\<rparr>;
                     ctx = (if flash_state fc \<in> {FLASH040_STATE_SECTOR_ERASE_TIMEOUT,
                              FLASH040_STATE_SECTOR_ERASE, FLASH040_STATE_CHIP_ERASE}
                            then alarm_set ctx (erase_alarm fc) (maincpu_clk + erase_sector_cycles (ftype fc))
                            else ctx)
                 in Some (True, (fc, ctx), snd (snapshot_module_close st))))))"

end
