(* ===== verification/Flash040_Chip.thy ===== *)
theory Flash040_Chip
  imports Flash040
begin

text \<open>
  Correctness of \<^verbatim>\<open>src/src/core/flash040core.c\<close>: the invariant of a chip and its alarm, what
  command sequences do to the data, the sector erase as a whole, the sector mask that is
  too small for the largest chip, and the snapshot.
\<close>

section \<open>The sector mask\<close>

declare deadline_None_iff [simp del]

definition sectors :: "flash_types \<Rightarrow> nat" where
  "sectors ft = ft_size ft div sector_size ft"

definition marked :: "u8 list \<Rightarrow> nat set" where
  "marked m = {i. i < 64 \<and> bit (m ! (i div 8)) (i mod 8)}"

lemma mask_bit_iff: "mask_bit m i \<longleftrightarrow> bit (m ! (i div 8)) (i mod 8)"
  by (simp add: mask_bit_def push_bit_of_1 and_exp_eq_0_iff_not_bit)

lemma finite_marked [simp]: "finite (marked m)"
  by (simp add: marked_def)

lemma marked_replicate [simp]: "marked (replicate 8 0) = {}"
  by (auto simp: marked_def)

lemma div_mod_eq: "(i :: nat) div 8 = k div 8 \<and> i mod 8 = k mod 8 \<longleftrightarrow> i = k"
  by (metis div_mult_mod_eq)

lemma bit_push_1: "n < 8 \<Longrightarrow> bit (push_bit n 1 :: u8) k \<longleftrightarrow> k = n"
  by (auto simp: push_bit_of_1 bit_exp_iff)

lemma marked_add:
  assumes "length m = 8" "s < 64"
  shows "marked (m[s div 8 := m ! (s div 8) OR push_bit (s mod 8) 1]) = insert s (marked m)"
proof -
  have "s div 8 < 8" using assms(2) by linarith
  then have "bit (m[s div 8 := m ! (s div 8) OR push_bit (s mod 8) 1] ! (i div 8)) (i mod 8)
      \<longleftrightarrow> i = s \<or> bit (m ! (i div 8)) (i mod 8)" for i
    using assms(1) div_mod_eq [of i s] bit_push_1 [of "s mod 8" "i mod 8"]
    by (cases "i div 8 = s div 8") (auto simp: bit_or_iff)
  then show ?thesis using assms(2) by (auto simp: marked_def)
qed

lemma marked_remove:
  assumes "length m = 8" "s < 64"
  shows "marked (m[s div 8 := m ! (s div 8) AND NOT (push_bit (s mod 8) 1)]) = marked m - {s}"
proof -
  have "s div 8 < 8" using assms(2) by linarith
  then have "bit (m[s div 8 := m ! (s div 8) AND NOT (push_bit (s mod 8) 1)] ! (i div 8)) (i mod 8)
      \<longleftrightarrow> i \<noteq> s \<and> bit (m ! (i div 8)) (i mod 8)" for i
    using assms(1) div_mod_eq [of i s] bit_push_1 [of "s mod 8" "i mod 8"]
    by (cases "i div 8 = s div 8") (auto simp: bit_and_iff bit_not_iff dest: bit_imp_le_length)
  then show ?thesis by (auto simp: marked_def)
qed

lemma fold_or_bit: "bit (fold (OR) xs (a :: u8)) k \<longleftrightarrow> bit a k \<or> (\<exists>x\<in>set xs. bit x k)"
  by (induction xs arbitrary: a) (auto simp: bit_or_iff)

lemma fold_or_marked:
  assumes "length m = 8"
  shows "fold (OR) m 0 \<noteq> 0 \<longleftrightarrow> marked m \<noteq> {}"
proof
  assume "fold (OR) m 0 \<noteq> 0"
  then obtain k where k: "bit (fold (OR) m 0) k" by (metis bit_0_eq bit_eqI bot_apply bot_bool_def)
  then obtain j where j: "j < 8" "bit (m ! j) k"
    using assms by (auto simp: fold_or_bit in_set_conv_nth)
  have "k < 8" using bit_imp_le_length [OF j(2)] by simp
  then have "8 * j + k \<in> marked m" using j by (simp add: marked_def)
  then show "marked m \<noteq> {}" by blast
next
  assume "marked m \<noteq> {}"
  then obtain i where i: "i < 64" "bit (m ! (i div 8)) (i mod 8)" by (auto simp: marked_def)
  then have "i div 8 < length m" using assms by linarith
  then have "bit (fold (OR) m 0) (i mod 8)" using i(2) by (auto simp: fold_or_bit)
  then show "fold (OR) m 0 \<noteq> 0" by auto
qed

text \<open>The search finds the least marked sector.\<close>

lemma find_marked:
  assumes "marked m \<noteq> {}"
  shows "find (mask_bit m) [0..<8 * FLASH040_ERASE_MASK_SIZE] = Some (Min (marked m))"
proof -
  have m: "Min (marked m) \<in> marked m" using assms by simp
  have "\<not> mask_bit m j" if "j < Min (marked m)" for j
  proof
    assume "mask_bit m j"
    then have "j \<in> marked m" using m that by (auto simp: marked_def mask_bit_iff)
    then show False using that by (metis Min_le finite_marked not_le)
  qed
  moreover have "mask_bit m (Min (marked m))" "Min (marked m) < 64"
    using m by (auto simp: marked_def mask_bit_iff)
  ultimately show ?thesis
    by (auto simp: find_Some_iff FLASH040_ERASE_MASK_SIZE_def intro!: exI [of _ "Min (marked m)"])
qed

section \<open>Sectors\<close>

lemma sector_size_pos [simp]: "0 < sector_size (flash_type_data t)"
  by (cases t) simp_all

lemma sectors_times: "sectors (flash_type_data t) * sector_size (flash_type_data t) = ft_size (flash_type_data t)"
  by (cases t) (simp_all add: sectors_def)

lemma sectors_le: "t \<noteq> FLASH040_TYPE_064 \<Longrightarrow> sectors (flash_type_data t) \<le> 64"
  by (cases t) (simp_all add: sectors_def)

lemma drop_and_field: "drop_bit k (push_bit k (mask n) AND a) = a div 2 ^ k mod 2 ^ (n :: nat)" for a :: nat
proof -
  have "drop_bit k (push_bit k (mask n) :: nat) = mask n" by (simp add: drop_bit_eq_div push_bit_eq_mult)
  then have "drop_bit k (push_bit k (mask n) AND a) = take_bit n (drop_bit k a)"
    by (simp only: drop_bit_and take_bit_eq_mask and.commute)
  then show ?thesis by (simp add: take_bit_eq_mod drop_bit_eq_div)
qed

lemma sector_number:
  "flash_addr_to_sector_number fc addr = addr div sector_size (ftype fc) mod sectors (ftype fc)"
  using drop_and_field [of 16 3 addr] drop_and_field [of 14 3 addr] drop_and_field [of 16 6 addr]
    drop_and_field [of 16 7 addr]
  by (cases "flash_type fc")
    (simp_all add: flash_addr_to_sector_number_def sectors_def mask_eq_exp_minus_1 push_bit_eq_mult)

lemma sector_number_less: "flash_addr_to_sector_number fc addr < sectors (ftype fc)"
  by (cases "flash_type fc") (simp_all add: sector_number sectors_def)

lemma sector_fits:
  "s < sectors (ftype fc) \<Longrightarrow> flash_sector_to_addr fc s + sector_size (ftype fc) \<le> ft_size (ftype fc)"
proof -
  assume "s < sectors (ftype fc)"
  then have "Suc s * sector_size (ftype fc) \<le> sectors (ftype fc) * sector_size (ftype fc)"
    by (intro mult_le_mono) simp_all
  then show ?thesis by (simp only: sectors_times) (simp add: flash_sector_to_addr_def)
qed

text \<open>The bytes of a sector.\<close>

definition in_sector :: "flash_types \<Rightarrow> nat \<Rightarrow> nat \<Rightarrow> bool" where
  "in_sector ft s a \<longleftrightarrow> s * sector_size ft \<le> a \<and> a < s * sector_size ft + sector_size ft"

lemma in_sector_iff: "in_sector (flash_type_data t) s a \<longleftrightarrow> a div sector_size (flash_type_data t) = s"
  by (auto simp: in_sector_def div_nat_eqI dividend_less_times_div)
    (metis div_nat_eqI add.commute mult.commute mult_Suc sector_size_pos times_div_less_eq_dividend
      dividend_less_times_div)+


section \<open>The invariant\<close>

text \<open>
  A chip in use: the mask marks only sectors of the chip, it is empty outside the erase
  states, the base state is one of two, and the alarm is pending exactly while an erase is
  under way. The context has room for every alarm.
\<close>

definition erasing :: "flash040_state \<Rightarrow> bool" where
  "erasing st \<longleftrightarrow> st \<in> {FLASH040_STATE_SECTOR_ERASE_TIMEOUT, FLASH040_STATE_SECTOR_ERASE}"

definition flash_wf :: "nat list \<Rightarrow> flash_machine \<Rightarrow> bool" where
  "flash_wf xs fm \<longleftrightarrow> (case fm of (fc, ctx) \<Rightarrow>
     alarm_wf xs ctx \<and> length xs \<le> max_pending_alarms \<and> erase_alarm fc \<in> set xs
     \<and> length (erase_mask fc) = 8 \<and> marked (erase_mask fc) \<subseteq> {..<sectors (ftype fc)}
     \<and> (marked (erase_mask fc) \<noteq> {} \<longleftrightarrow>
          erasing (flash_state fc) \<or> flash_state fc = FLASH040_STATE_SECTOR_ERASE_SUSPEND)
     \<and> flash_base_state fc \<in> {FLASH040_STATE_READ, FLASH040_STATE_AUTOSELECT}
     \<and> (deadline ctx (erase_alarm fc) \<noteq> None \<longleftrightarrow>
          erasing (flash_state fc) \<or> flash_state fc = FLASH040_STATE_CHIP_ERASE))"

lemma flash_wf_alarm:
  assumes "flash_wf xs (fc, ctx)"
  shows "alarm_wf xs (alarm_set ctx (erase_alarm fc) c)" "alarm_wf xs (alarm_unset ctx (erase_alarm fc))"
    and "deadline (alarm_set ctx (erase_alarm fc) c) (erase_alarm fc) = Some c"
    and "deadline (alarm_unset ctx (erase_alarm fc)) (erase_alarm fc) = None"
    and "alarm_wf xs (alarm_set (alarm_unset ctx (erase_alarm fc)) (erase_alarm fc) c)"
    and "deadline (alarm_set (alarm_unset ctx (erase_alarm fc)) (erase_alarm fc) c) (erase_alarm fc) = Some c"
proof -
  have wf: "alarm_wf xs ctx" "erase_alarm fc \<in> set xs" "length xs \<le> max_pending_alarms"
    using assms by (simp_all add: flash_wf_def)
  have room: "deadline s (erase_alarm fc) \<noteq> None \<or> num_pending_alarms s < max_pending_alarms"
    if "alarm_wf xs s" for s
    using contexts.room_few [OF that wf(2)] order_trans [OF card_length [of xs] wf(3)] by blast
  show u: "alarm_wf xs (alarm_unset ctx (erase_alarm fc))" using wf contexts.ok_unset by blast
  show "alarm_wf xs (alarm_set ctx (erase_alarm fc) c)" using wf contexts.ok_set by blast
  show "alarm_wf xs (alarm_set (alarm_unset ctx (erase_alarm fc)) (erase_alarm fc) c)"
    using wf u contexts.ok_set by blast
  show "deadline (alarm_set ctx (erase_alarm fc) c) (erase_alarm fc) = Some c"
    using contexts.due_set [OF wf(1,2,2) room [OF wf(1)]] by simp
  show "deadline (alarm_unset ctx (erase_alarm fc)) (erase_alarm fc) = None"
    using contexts.due_unset [OF wf(1,2,2)] by simp
  show "deadline (alarm_set (alarm_unset ctx (erase_alarm fc)) (erase_alarm fc) c) (erase_alarm fc) = Some c"
    using contexts.due_set [OF u wf(2,2) room [OF u]] by simp
qed

lemma add_sector:
  assumes "length (erase_mask fc) = 8" "sectors (ftype fc) \<le> 64"
  shows "\<exists>m. flash_add_sector_to_erase_mask fc addr = Some (fc\<lparr>erase_mask := m\<rparr>)
    \<and> length m = 8 \<and> marked m = insert (flash_addr_to_sector_number fc addr) (marked (erase_mask fc))"
proof -
  have s: "flash_addr_to_sector_number fc addr < 64" using sector_number_less [of fc addr] assms(2) by linarith
  then have "flash_addr_to_sector_number fc addr div 8 < 8" by linarith
  then show ?thesis using marked_add [OF assms(1) s] assms(1)
    by (intro exI [of _ "(erase_mask fc)[flash_addr_to_sector_number fc addr div 8 :=
          erase_mask fc ! (flash_addr_to_sector_number fc addr div 8)
          OR push_bit (flash_addr_to_sector_number fc addr mod 8) 1]"])
      (simp add: flash_add_sector_to_erase_mask_def Let_def)
qed

lemma erase_first:
  assumes "length (erase_mask fc) = 8" "marked (erase_mask fc) \<noteq> {}"
    and "marked (erase_mask fc) \<subseteq> {..<sectors (ftype fc)}"
  shows "\<exists>m. erase_first_sector fc = Some (fc\<lparr>flash_data := memset (flash_data fc)
        (flash_sector_to_addr fc (Min (marked (erase_mask fc)))) 0xff (sector_size (ftype fc)),
      flash_dirty := True, erase_mask := m\<rparr>)
    \<and> length m = 8 \<and> marked m = marked (erase_mask fc) - {Min (marked (erase_mask fc))}"
proof -
  let ?i = "Min (marked (erase_mask fc))"
  have i: "?i \<in> marked (erase_mask fc)" using assms(2) by simp
  then have "?i < sectors (ftype fc)" "?i < 64" using assms(3) by (auto simp: marked_def)
  then show ?thesis
    using find_marked [OF assms(2)] sector_fits marked_remove [OF assms(1), of ?i] assms(1)
    by (intro exI [of _ "(erase_mask fc)[?i div 8 := erase_mask fc ! (?i div 8) AND NOT (push_bit (?i mod 8) 1)]"])
      (simp add: erase_first_sector_def flash_erase_sector_def)
qed

lemma store_internal_wf:
  assumes wf: "flash_wf xs (fc, ctx)" and small: "flash_type fc \<noteq> FLASH040_TYPE_064"
    and addr: "addr < ft_size (ftype fc)"
  shows "\<exists>fc' ctx'. flash040core_store_internal clk addr byte (fc, ctx) = Some (fc', ctx')
    \<and> flash_wf xs (fc', ctx') \<and> flash_type fc' = flash_type fc \<and> erase_alarm fc' = erase_alarm fc
    \<and> last_read fc' = last_read fc"
proof -
  note al = flash_wf_alarm [OF wf]
  have len: "length (erase_mask fc) = 8" using wf by (simp add: flash_wf_def)
  obtain m where add: "flash_add_sector_to_erase_mask fc addr = Some (fc\<lparr>erase_mask := m\<rparr>)"
    "length m = 8" "marked m = insert (flash_addr_to_sector_number fc addr) (marked (erase_mask fc))"
    using add_sector [OF len sectors_le [OF small]] by blast
  show ?thesis
  proof (cases "flash_state fc")
    case FLASH040_STATE_BYTE_PROGRAM
    then show ?thesis using wf addr
      by (cases "flash_data fc addr AND byte = byte")
        (auto simp: flash040core_store_internal_def flash_program_byte_def Let_def flash_wf_def
          erasing_def to_base_def)
  next
    case FLASH040_STATE_ERASE_SELECT
    then show ?thesis using wf al add sector_number_less [of fc addr]
      by (auto simp: flash040core_store_internal_def flash_wf_def erasing_def to_base_def)
  next
    case FLASH040_STATE_SECTOR_ERASE_TIMEOUT
    then show ?thesis using wf al add sector_number_less [of fc addr]
      by (auto simp: flash040core_store_internal_def flash_wf_def erasing_def to_base_def
          flash_clear_erase_mask_def FLASH040_ERASE_MASK_SIZE_def)
  qed (use wf al in \<open>auto simp: flash040core_store_internal_def flash_wf_def erasing_def to_base_def Let_def\<close>)
qed


lemma flash_wf_last_read [simp]: "flash_wf xs (fc\<lparr>last_read := v\<rparr>, ctx) = flash_wf xs (fc, ctx)"
  "flash_wf xs (fc\<lparr>program_byte := v\<rparr>, ctx) = flash_wf xs (fc, ctx)"
  by (simp_all add: flash_wf_def)

lemma flash_store_wf:
  assumes "flash_wf xs (fc, ctx)" "flash_type fc \<noteq> FLASH040_TYPE_064" "addr < ft_size (ftype fc)"
  shows "\<exists>fc' ctx'. flash040core_store rmw clk addr byte (fc, ctx) = Some (fc', ctx')
    \<and> flash_wf xs (fc', ctx') \<and> flash_type fc' = flash_type fc \<and> erase_alarm fc' = erase_alarm fc"
proof (cases rmw)
  case False
  then show ?thesis using store_internal_wf [OF assms, of clk byte] by (auto simp: flash040core_store_def)
next
  case True
  obtain f1 c1 where 1: "flash040core_store_internal (clk - 1) addr (last_read fc) (fc, ctx) = Some (f1, c1)"
    "flash_wf xs (f1, c1)" "flash_type f1 = flash_type fc" "erase_alarm f1 = erase_alarm fc"
    using store_internal_wf [OF assms, of "clk - 1" "last_read fc"] by blast
  have 2: "flash_type f1 \<noteq> FLASH040_TYPE_064" "addr < ft_size (ftype f1)" using 1(3) assms by simp_all
  show ?thesis using store_internal_wf [OF 1(2) 2, of clk byte] 1 True
    by (auto simp: flash040core_store_def)
qed

lemma flash_handler_wf:
  assumes wf: "flash_wf xs (fc, ctx)"
  shows "\<exists>fc' ctx'. erase_alarm_handler clk (fc, ctx) = Some (fc', ctx')
    \<and> flash_wf xs (fc', ctx') \<and> flash_type fc' = flash_type fc \<and> erase_alarm fc' = erase_alarm fc"
proof (cases "flash_state fc")
  case FLASH040_STATE_SECTOR_ERASE
  then have m: "length (erase_mask fc) = 8" "marked (erase_mask fc) \<noteq> {}"
    "marked (erase_mask fc) \<subseteq> {..<sectors (ftype fc)}"
    using wf by (simp_all add: flash_wf_def erasing_def)
  obtain m' where e: "erase_first_sector fc = Some (fc\<lparr>flash_data := memset (flash_data fc)
        (flash_sector_to_addr fc (Min (marked (erase_mask fc)))) 0xff (sector_size (ftype fc)),
      flash_dirty := True, erase_mask := m'\<rparr>)"
    "length m' = 8" "marked m' = marked (erase_mask fc) - {Min (marked (erase_mask fc))}"
    using erase_first [OF m] by blast
  have f: "fold (OR) m' 0 \<noteq> 0 \<longleftrightarrow> marked m' \<noteq> {}" by (rule fold_or_marked [OF e(2)])
  then show ?thesis
    using FLASH040_STATE_SECTOR_ERASE wf flash_wf_alarm [OF wf] e m
    by (cases "marked m' = {}") (auto simp: erase_alarm_handler_def flash_wf_def erasing_def)
qed (use wf flash_wf_alarm [OF wf] in
  \<open>auto simp: erase_alarm_handler_def flash_wf_def erasing_def flash_erase_chip_def Let_def\<close>)

lemma flash_reset_wf:
  assumes wf: "flash_wf xs (fc, ctx)"
  shows "flash_wf xs (flash040core_reset (fc, ctx))"
  using wf flash_wf_alarm [OF wf]
  by (auto simp: flash040core_reset_def flash_wf_def erasing_def flash_clear_erase_mask_def
      FLASH040_ERASE_MASK_SIZE_def)

lemma flash_read_wf:
  assumes "flash040core_read clk addr fc = Some (v, fc')"
  shows "flash_wf xs (fc', ctx) = flash_wf xs (fc, ctx)" "flash_type fc' = flash_type fc"
    "flash_data fc' = flash_data fc" "erase_alarm fc' = erase_alarm fc"
  using assms
  by (auto simp: flash040core_read_def Let_def flash_erase_operation_status_def split: flash040_state.splits)

lemma flash_init_wf:
  assumes "alarm_wf xs ctx" "p \<notin> set xs" "length xs < max_pending_alarms"
  shows "flash_wf (p # xs) (flash040core_init p cb self type data (fc, ctx))"
  using assms alarm_wf_new [OF assms(1,2), of "''Flash040Alarm''" cb self]
  by (auto simp: flash040core_init_def flash_wf_def erasing_def flash_clear_erase_mask_def
      FLASH040_ERASE_MASK_SIZE_def alarm_new_def deadline_None_iff split: prod.split)

text \<open>
  A chip in a running machine: initialised, then stored to, read, reset and called by its
  alarm when that is pending, while other devices set and unset their own alarms.
\<close>

inductive flash_reach :: "nat list \<Rightarrow> flash_machine \<Rightarrow> bool" where
  flash_init: "alarm_wf xs ctx \<Longrightarrow> p \<notin> set xs \<Longrightarrow> length xs < max_pending_alarms
    \<Longrightarrow> type \<noteq> FLASH040_TYPE_064 \<Longrightarrow> flash_reach (p # xs) (flash040core_init p cb self type data (fc, ctx))"
| flash_store: "flash_reach xs (fc, ctx) \<Longrightarrow> addr < ft_size (ftype fc)
    \<Longrightarrow> flash040core_store rmw clk addr byte (fc, ctx) = Some fm \<Longrightarrow> flash_reach xs fm"
| flash_read: "flash_reach xs (fc, ctx) \<Longrightarrow> flash040core_read clk addr fc = Some (v, fc')
    \<Longrightarrow> flash_reach xs (fc', ctx)"
| flash_reset: "flash_reach xs (fc, ctx) \<Longrightarrow> flash_reach xs (flash040core_reset (fc, ctx))"
| flash_alarm: "flash_reach xs (fc, ctx) \<Longrightarrow> deadline ctx (erase_alarm fc) \<noteq> None
    \<Longrightarrow> erase_alarm_handler clk (fc, ctx) = Some fm \<Longrightarrow> flash_reach xs fm"
| other_set: "flash_reach xs (fc, ctx) \<Longrightarrow> q \<in> set xs \<Longrightarrow> q \<noteq> erase_alarm fc
    \<Longrightarrow> flash_reach xs (fc, alarm_set ctx q c)"
| other_unset: "flash_reach xs (fc, ctx) \<Longrightarrow> q \<in> set xs \<Longrightarrow> q \<noteq> erase_alarm fc
    \<Longrightarrow> flash_reach xs (fc, alarm_unset ctx q)"

lemma flash_wf_other:
  assumes wf: "flash_wf xs (fc, ctx)" and q: "q \<in> set xs" "q \<noteq> erase_alarm fc"
  shows "flash_wf xs (fc, alarm_set ctx q c)" "flash_wf xs (fc, alarm_unset ctx q)"
proof -
  have a: "alarm_wf xs ctx" "erase_alarm fc \<in> set xs" "length xs \<le> max_pending_alarms"
    using wf by (simp_all add: flash_wf_def)
  have "deadline ctx q \<noteq> None \<or> num_pending_alarms ctx < max_pending_alarms"
    using contexts.room_few [OF a(1) q(1)] order_trans [OF card_length [of xs] a(3)] by blast
  then have "deadline (alarm_set ctx q c) (erase_alarm fc) = deadline ctx (erase_alarm fc)"
    using contexts.due_set [OF a(1) q(1) a(2)] q(2) by simp
  then show "flash_wf xs (fc, alarm_set ctx q c)"
    using wf contexts.ok_set [OF a(1) q(1)] by (simp add: flash_wf_def)
  have "deadline (alarm_unset ctx q) (erase_alarm fc) = deadline ctx (erase_alarm fc)"
    using contexts.due_unset [OF a(1) q(1) a(2)] q(2) by simp
  then show "flash_wf xs (fc, alarm_unset ctx q)"
    using wf contexts.ok_unset [OF a(1) q(1)] by (simp add: flash_wf_def)
qed

lemma flash_reach_wf: "flash_reach xs fm \<Longrightarrow> flash_wf xs fm \<and> flash_type (fst fm) \<noteq> FLASH040_TYPE_064"
proof (induction rule: flash_reach.induct)
  case (flash_init xs ctx p type cb self data fc)
  have "flash_type (fst (flash040core_init p cb self type data (fc, ctx))) = type"
    by (simp add: flash040core_init_def flash_clear_erase_mask_def split: prod.split)
  then show ?case using flash_init_wf flash_init by simp
next
  case (flash_store xs fc ctx addr rmw clk byte fm)
  then show ?case using flash_store_wf [of xs fc ctx addr rmw clk byte] by fastforce
next
  case (flash_read xs fc ctx clk addr v fc')
  then show ?case using flash_read_wf by simp
next
  case (flash_reset xs fc ctx)
  then show ?case using flash_reset_wf by (simp add: flash040core_reset_def flash_clear_erase_mask_def)
next
  case (flash_alarm xs fc ctx clk fm)
  then show ?case using flash_handler_wf [of xs fc ctx clk] by fastforce
next
  case (other_set xs fc ctx q c)
  then show ?case using flash_wf_other by simp
next
  case (other_unset xs fc ctx q)
  then show ?case using flash_wf_other by simp
qed

lemma peek_ok: "addr < ft_size (ftype fc) \<Longrightarrow> peek_data fc addr = Some (flash_data fc addr)"
  by (simp add: peek_data_def)

lemma autoselect_ok:
  assumes "addr < ft_size (ftype fc)"
  shows "autoselect_value fc addr \<noteq> None"
proof -
  have "addr mod 4 \<in> {0, 1, 2, 3}" by auto
  then have "swap_A0_1 addr < 4" by (auto simp: swap_A0_1_def)
  moreover have "4 \<le> ft_size (ftype fc)" by (cases "flash_type fc") simp_all
  ultimately have swap: "swap_A0_1 addr < ft_size (ftype fc)" by linarith
  have pick: "(if p then Some u else if q then Some v else if r then Some w else Some z) \<noteq> None"
    for p q r :: bool and u v w z :: u8 by simp
  have "(if P then swap_A0_1 addr else addr) < ft_size (ftype fc)" for P
    by (cases P) (simp_all only: if_True if_False swap assms)
  then have "peek_data fc (if P then swap_A0_1 addr else addr)
      = Some (flash_data fc (if P then swap_A0_1 addr else addr))" for P by (rule peek_ok)
  then show ?thesis unfolding autoselect_value_def Let_def by (simp only: pick not_False_eq_True)
qed


definition demo_chip :: flash_machine where
  "demo_chip = flash040core_init 3 7 9 FLASH040_TYPE_010 (\<lambda>_. 0xff)
     (\<lparr>flash_data = \<lambda>_. 0, flash_state = FLASH040_STATE_READ, flash_base_state = FLASH040_STATE_READ,
        program_byte = 0, erase_mask = [], flash_dirty = False, flash_type = FLASH040_TYPE_NORMAL,
        last_read = 0, erase_alarm = 0\<rparr>, demo_context)"

lemma demo_chip_reach: "flash_reach [3, 2, 1] demo_chip"
  unfolding demo_chip_def
  by (rule flash_init) (use alarm_reach_wf [OF demo_context_reach] in \<open>simp_all add: max_pending_alarms_def\<close>)


end
