(* ===== verification/Flash040_Commands.thy ===== *)
theory Flash040_Commands
  imports Flash040_Chip
begin

text \<open>
  What the commands of \<^verbatim>\<open>src/src/core/flash040core.c\<close> do: the byte program sequence, the
  direction in which stores may change the data, the complete sector erase and the snapshot.
\<close>

section \<open>Programming\<close>

fun run_stores :: "clock \<Rightarrow> (nat \<times> u8) list \<Rightarrow> flash_machine \<Rightarrow> flash_machine option" where
  "run_stores clk [] fm = Some fm"
| "run_stores clk ((addr, byte) # ss) fm =
     (case flash040core_store False clk addr byte fm of None \<Rightarrow> None | Some fm \<Rightarrow> run_stores clk ss fm)"

text \<open>
  C34. The program command writes one byte the way a flash cell does: after the unlock
  sequence, the addressed byte is the old one AND the new one, no other byte changes, and the
  chip is back in its base state exactly when the cell now holds the byte asked for;
  otherwise it reports a program error.
\<close>

theorem flash_program_sequence:
  assumes "flash_state fc = FLASH040_STATE_READ" "flash_magic_1 fc a1" "flash_magic_2 fc a2"
    and "addr < ft_size (ftype fc)"
  shows "\<exists>fc'. run_stores clk [(a1, 0xaa), (a2, 0x55), (a1, 0xa0), (addr, byte)] (fc, ctx) = Some (fc', ctx)
    \<and> flash_data fc' = (flash_data fc)(addr := flash_data fc addr AND byte)
    \<and> flash_state fc' = (if flash_data fc addr AND byte = byte then flash_base_state fc
                         else FLASH040_STATE_BYTE_PROGRAM_ERROR)
    \<and> flash_dirty fc'"
  using assms
  by (simp add: flash040core_store_def flash040core_store_internal_def flash_magic_1_def
      flash_magic_2_def flash_program_byte_def to_base_def Let_def)

theorem flash_program_sequence_witness:
  "\<exists>fc'. run_stores 7 [(0x5555, 0xaa), (0x2aaa, 0x55), (0x5555, 0xa0), (0x100, 0x3c)] demo_chip
     = Some (fc', snd demo_chip) \<and> flash_data fc' 0x100 = 0x3c"
proof -
  have s: "flash_state (fst demo_chip) = FLASH040_STATE_READ" "flash_type (fst demo_chip) = FLASH040_TYPE_010"
    "flash_data (fst demo_chip) = (\<lambda>_. 0xff)"
    by (simp_all add: demo_chip_def flash040core_init_def flash_clear_erase_mask_def split: prod.split)
  have m: "flash_magic_1 (fst demo_chip) 0x5555" "flash_magic_2 (fst demo_chip) 0x2aaa"
    by (simp_all add: s flash_magic_1_def flash_magic_2_def)
  show ?thesis
    using flash_program_sequence [OF s(1) m, where addr = "0x100" and clk = 7 and byte = "0x3c"
        and ctx = "snd demo_chip"] s by auto
qed

text \<open>
  Stores never set a bit of the data: whatever a store does, each byte of the array keeps
  a subset of the bits it had. Only the erase alarm turns bits back to one.
\<close>

theorem flash_stores_only_clear_bits:
  assumes "flash040core_store rmw clk addr byte (fc, ctx) = Some (fc', ctx')"
  shows "flash_data fc' a AND flash_data fc a = flash_data fc' a"
proof -
  have sub: "x AND b AND x = x AND b" "x AND b = b \<Longrightarrow> b AND x = b" for x b :: u8
    by (metis and.assoc and.commute and.idem)+
  have step: "flash_data fc' a AND flash_data fc a = flash_data fc' a"
    if "flash040core_store_internal clk addr byte (fc, ctx) = Some (fc', ctx')"
    for clk addr byte fc ctx fc' ctx'
  proof (cases "flash_state fc")
    case FLASH040_STATE_BYTE_PROGRAM
    then show ?thesis using that
      by (auto simp: flash040core_store_internal_def flash_program_byte_def to_base_def Let_def
          sub split: if_splits bool.splits)
  qed (use that in \<open>auto simp: flash040core_store_internal_def to_base_def Let_def
      flash_add_sector_to_erase_mask_def flash_clear_erase_mask_def split: if_splits option.splits\<close>)
  show ?thesis
  proof (cases rmw)
    case False
    then show ?thesis using assms step by (simp add: flash040core_store_def)
  next
    case True
    then obtain fc1 ctx1 where
      1: "flash040core_store_internal (clk - 1) addr (last_read fc) (fc, ctx) = Some (fc1, ctx1)" and
      2: "flash040core_store_internal clk addr byte (fc1, ctx1) = Some (fc', ctx')"
      using assms by (auto simp: flash040core_store_def split: option.splits)
    show ?thesis using step [OF 1] step [OF 2] by (metis and.assoc)
  qed
qed

theorem flash_stores_only_clear_bits_witness:
  "\<exists>fc' ctx'. flash040core_store False 3 0x5555 0xaa demo_chip = Some (fc', ctx')
     \<and> flash_data fc' 9 AND flash_data (fst demo_chip) 9 = flash_data fc' 9"
proof (cases demo_chip)
  case (Pair fc ctx)
  then have "flash_state fc = FLASH040_STATE_READ"
    by (auto simp: demo_chip_def flash040core_init_def flash_clear_erase_mask_def Let_def split: prod.splits)
  then obtain fc' ctx' where "flash040core_store False 3 0x5555 0xaa (fc, ctx) = Some (fc', ctx')"
    by (simp add: flash040core_store_def flash040core_store_internal_def)
  with flash_stores_only_clear_bits [OF this, of 9] show ?thesis by (auto simp: Pair)
qed

lemma run_stores_reach:
  assumes "run_stores clk ss (fc, ctx) = Some fm" "flash_reach xs (fc, ctx)"
    and "\<forall>(a, b) \<in> set ss. a < ft_size (ftype fc)"
  shows "flash_reach xs fm"
  using assms
proof (induction ss arbitrary: fc ctx)
  case (Cons p ss)
  obtain a b where p: "p = (a, b)" by (cases p)
  have wf: "flash_wf xs (fc, ctx)" "flash_type fc \<noteq> FLASH040_TYPE_064" and a: "a < ft_size (ftype fc)"
    using flash_reach_wf [OF Cons.prems(2)] Cons.prems(3) p by auto
  obtain fc' ctx' where st: "flash040core_store False clk a b (fc, ctx) = Some (fc', ctx')"
    "flash_type fc' = flash_type fc"
    using flash_store_wf [OF wf a, of False clk b] by blast
  have "flash_reach xs (fc', ctx')" using flash_store [OF Cons.prems(2) a st(1)] .
  then show ?case using Cons st p by simp
qed simp

section \<open>Erasing\<close>

fun run_erase :: "clock list \<Rightarrow> flash_machine \<Rightarrow> flash_machine option" where
  "run_erase [] fm = Some fm"
| "run_erase (clk # clks) fm =
     (case erase_alarm_handler clk fm of None \<Rightarrow> None | Some fm \<Rightarrow> run_erase clks fm)"

lemma handler_erases:
  assumes wf: "flash_wf xs (fc, ctx)" and st: "flash_state fc = FLASH040_STATE_SECTOR_ERASE"
  shows "\<exists>fc' ctx'. erase_alarm_handler clk (fc, ctx) = Some (fc', ctx')
    \<and> flash_wf xs (fc', ctx')
    \<and> (\<forall>a. flash_data fc' a = (if in_sector (ftype fc) (Min (marked (erase_mask fc))) a then 0xff else flash_data fc a))
    \<and> marked (erase_mask fc') = marked (erase_mask fc) - {Min (marked (erase_mask fc))}
    \<and> flash_type fc' = flash_type fc \<and> erase_alarm fc' = erase_alarm fc
    \<and> flash_base_state fc' = flash_base_state fc
    \<and> flash_state fc' = (if marked (erase_mask fc') = {} then flash_base_state fc
                         else FLASH040_STATE_SECTOR_ERASE)"
proof -
  have m: "length (erase_mask fc) = 8" "marked (erase_mask fc) \<noteq> {}"
    "marked (erase_mask fc) \<subseteq> {..<sectors (ftype fc)}"
    using wf st by (simp_all add: flash_wf_def erasing_def)
  obtain n where n: "erase_first_sector fc = Some (fc\<lparr>flash_data := memset (flash_data fc)
        (flash_sector_to_addr fc (Min (marked (erase_mask fc)))) 0xff (sector_size (ftype fc)),
      flash_dirty := True, erase_mask := n\<rparr>)"
    "length n = 8" "marked n = marked (erase_mask fc) - {Min (marked (erase_mask fc))}"
    using erase_first [OF m] by blast
  obtain fc' ctx' where h: "erase_alarm_handler clk (fc, ctx) = Some (fc', ctx')" "flash_wf xs (fc', ctx')"
    using flash_handler_wf [OF wf, of clk] by blast
  have "fc' = fc\<lparr>flash_data := memset (flash_data fc)
        (flash_sector_to_addr fc (Min (marked (erase_mask fc)))) 0xff (sector_size (ftype fc)),
      flash_dirty := True, erase_mask := n,
      flash_state := (if marked n = {} then flash_base_state fc else FLASH040_STATE_SECTOR_ERASE)\<rparr>"
    using h(1) st n(1) fold_or_marked [OF n(2)]
    by (cases "marked n = {}") (simp_all add: erase_alarm_handler_def Let_def, auto simp: st)
  then show ?thesis using h n(3)
    by (simp add: memset_def in_sector_def flash_sector_to_addr_def)
qed

lemma run_erase_marked:
  assumes "flash_wf xs (fc, ctx)" "flash_state fc = FLASH040_STATE_SECTOR_ERASE"
    and "length clks = card (marked (erase_mask fc))"
  shows "\<exists>fc' ctx'. run_erase clks (fc, ctx) = Some (fc', ctx') \<and> flash_wf xs (fc', ctx')
    \<and> (\<forall>a. flash_data fc' a = (if \<exists>s\<in>marked (erase_mask fc). in_sector (ftype fc) s a then 0xff else flash_data fc a))
    \<and> marked (erase_mask fc') = {} \<and> erase_alarm fc' = erase_alarm fc
    \<and> flash_state fc' = flash_base_state fc \<and> flash_base_state fc' = flash_base_state fc"
  using assms
proof (induction clks arbitrary: fc ctx)
  case Nil
  then have "marked (erase_mask fc) \<noteq> {}" by (simp add: flash_wf_def erasing_def)
  then show ?case using Nil.prems(3) by simp
next
  case (Cons clk clks)
  let ?M = "marked (erase_mask fc)"
  have ne: "?M \<noteq> {}" using Cons.prems by (simp add: flash_wf_def erasing_def)
  then have mn: "Min ?M \<in> ?M" by simp
  obtain fc1 ctx1 where 1: "erase_alarm_handler clk (fc, ctx) = Some (fc1, ctx1)" "flash_wf xs (fc1, ctx1)"
    "\<forall>a. flash_data fc1 a = (if in_sector (ftype fc) (Min ?M) a then 0xff else flash_data fc a)"
    "marked (erase_mask fc1) = ?M - {Min ?M}"
    "flash_type fc1 = flash_type fc" "erase_alarm fc1 = erase_alarm fc" "flash_base_state fc1 = flash_base_state fc"
    "flash_state fc1 = (if marked (erase_mask fc1) = {} then flash_base_state fc else FLASH040_STATE_SECTOR_ERASE)"
    using handler_erases [OF Cons.prems(1,2), of clk] by blast
  have len: "length clks = card (marked (erase_mask fc1))"
    using Cons.prems(3) mn 1(4) by simp
  show ?case
  proof (cases "marked (erase_mask fc1) = {}")
    case True
    then have "?M = {Min ?M}" using 1(4) mn by blast
    then have "(\<exists>s\<in>?M. in_sector (ftype fc) s a) \<longleftrightarrow> in_sector (ftype fc) (Min ?M) a" for a by (metis singleton_iff)
    moreover have "clks = []" using len True by simp
    ultimately show ?thesis using 1 True by (simp only: run_erase.simps option.case) auto
  next
    case False
    then have "flash_state fc1 = FLASH040_STATE_SECTOR_ERASE" using 1(8) by simp
    from Cons.IH [OF 1(2) this len] obtain fc' ctx' where
      2: "run_erase clks (fc1, ctx1) = Some (fc', ctx')" "flash_wf xs (fc', ctx')"
      "\<forall>a. flash_data fc' a = (if \<exists>s\<in>marked (erase_mask fc1). in_sector (ftype fc1) s a then 0xff else flash_data fc1 a)"
      "marked (erase_mask fc') = {}" "erase_alarm fc' = erase_alarm fc1"
      "flash_state fc' = flash_base_state fc1" "flash_base_state fc' = flash_base_state fc1" by blast
    have "flash_data fc' a = (if \<exists>s\<in>?M. in_sector (ftype fc) s a then 0xff else flash_data fc a)" for a
      using 2(3) 1(3,4,5) mn by auto
    then show ?thesis using 1 2 by simp
  qed
qed

text \<open>
  C11. A sector erase erases what was asked for and nothing else: after one alarm per marked
  sector, the bytes of the marked sectors are all ones, every other byte is what it was, no
  sector is marked, the alarm is not pending and the chip is back in its base state.
\<close>

theorem flash_sector_erase_complete:
  assumes "flash_reach xs (fc, ctx)" "flash_state fc = FLASH040_STATE_SECTOR_ERASE"
    and "length clks = card (marked (erase_mask fc))"
  shows "\<exists>fc' ctx'. run_erase clks (fc, ctx) = Some (fc', ctx')
    \<and> (\<forall>a. flash_data fc' a = (if a div sector_size (ftype fc) \<in> marked (erase_mask fc) then 0xff else flash_data fc a))
    \<and> marked (erase_mask fc') = {} \<and> flash_state fc' = flash_base_state fc
    \<and> deadline ctx' (erase_alarm fc') = None"
proof -
  have wf: "flash_wf xs (fc, ctx)" using flash_reach_wf [OF assms(1)] by simp
  have sec: "(\<exists>s\<in>M. in_sector (ftype fc) s a) \<longleftrightarrow> a div sector_size (ftype fc) \<in> M" for M a
    unfolding in_sector_iff by blast
  obtain fc' ctx' where r: "run_erase clks (fc, ctx) = Some (fc', ctx')" "flash_wf xs (fc', ctx')"
    "\<forall>a. flash_data fc' a = (if a div sector_size (ftype fc) \<in> marked (erase_mask fc) then 0xff else flash_data fc a)"
    "marked (erase_mask fc') = {}" "flash_state fc' = flash_base_state fc" "flash_base_state fc' = flash_base_state fc"
    using run_erase_marked [OF wf assms(2,3)] unfolding sec by blast
  moreover have "deadline ctx' (erase_alarm fc') = None"
    using r(2,5,6) by (auto simp: flash_wf_def erasing_def)
  ultimately show ?thesis by blast
qed

lemma erase_sequence:
  assumes "flash_state fc = FLASH040_STATE_READ" "flash_magic_1 fc a1" "flash_magic_2 fc a2"
    and "length (erase_mask fc) = 8" "sectors (ftype fc) \<le> 64"
  shows "\<exists>m. run_stores clk [(a1, 0xaa), (a2, 0x55), (a1, 0x80), (a1, 0xaa), (a2, 0x55), (addr, 0x30)] (fc, ctx)
     = Some (fc\<lparr>erase_mask := m, program_byte := 0, flash_state := FLASH040_STATE_SECTOR_ERASE_TIMEOUT\<rparr>,
             alarm_set ctx (erase_alarm fc) (clk + erase_sector_timeout_cycles (ftype fc)))
    \<and> marked m = insert (flash_addr_to_sector_number fc addr) (marked (erase_mask fc))"
proof -
  let ?fc = "fc\<lparr>flash_state := FLASH040_STATE_ERASE_SELECT\<rparr>"
  have five: "run_stores clk [(a1, 0xaa), (a2, 0x55), (a1, 0x80), (a1, 0xaa), (a2, 0x55)] (fc, ctx) = Some (?fc, ctx)"
    using assms(1-3)
    by (simp add: flash040core_store_def flash040core_store_internal_def flash_magic_1_def flash_magic_2_def)
  obtain m where m: "flash_add_sector_to_erase_mask ?fc addr = Some (?fc\<lparr>erase_mask := m\<rparr>)"
    "marked m = insert (flash_addr_to_sector_number ?fc addr) (marked (erase_mask fc))"
    using add_sector [of ?fc addr] assms(4,5) by auto
  have app: "run_stores clk (xs @ ys) fm = (case run_stores clk xs fm of None \<Rightarrow> None | Some fm \<Rightarrow> run_stores clk ys fm)"
    for xs ys fm by (induction xs arbitrary: fm) (auto split: option.split prod.split)
  have six: "run_stores clk [(addr, 0x30)] (?fc, ctx) = Some (?fc\<lparr>erase_mask := m, program_byte := 0,
        flash_state := FLASH040_STATE_SECTOR_ERASE_TIMEOUT\<rparr>,
      alarm_set ctx (erase_alarm fc) (clk + erase_sector_timeout_cycles (ftype fc)))"
    using m(1) by (simp add: flash040core_store_def flash040core_store_internal_def)
  have "flash_addr_to_sector_number ?fc addr = flash_addr_to_sector_number fc addr"
    by (simp add: flash_addr_to_sector_number_def)
  then show ?thesis
    using app [of "[(a1, 0xaa), (a2, 0x55), (a1, 0x80), (a1, 0xaa), (a2, 0x55)]" "[(addr, 0x30)]" "(fc, ctx)"]
      five six m(2) by (intro exI [of _ m]) simp
qed

theorem flash_sector_erase_complete_witness:
  "\<exists>fm fc' ctx'. run_stores 7 [(0x5555, 0xaa), (0x2aaa, 0x55), (0x5555, 0x80), (0x5555, 0xaa),
       (0x2aaa, 0x55), (0x8000, 0x30)] demo_chip = Some fm
     \<and> run_erase [90, 2000000] fm = Some (fc', ctx')
     \<and> flash_state fc' = FLASH040_STATE_READ \<and> flash_data fc' 0x9000 = 0xff"
proof -
  define fc ctx where "fc = fst demo_chip" and "ctx = snd demo_chip"
  have d: "demo_chip = (fc, ctx)" by (simp add: fc_def ctx_def)
  have s: "flash_state fc = FLASH040_STATE_READ" "flash_base_state fc = FLASH040_STATE_READ"
    "flash_type fc = FLASH040_TYPE_010" "erase_mask fc = replicate 8 0"
    by (simp_all add: fc_def demo_chip_def flash040core_init_def flash_clear_erase_mask_def
        FLASH040_ERASE_MASK_SIZE_def Let_def split: prod.split)
  have m: "flash_magic_1 fc 0x5555" "flash_magic_2 fc 0x2aaa"
    by (simp_all add: s flash_magic_1_def flash_magic_2_def)
  obtain e where r1: "run_stores 7 [(0x5555, 0xaa), (0x2aaa, 0x55), (0x5555, 0x80), (0x5555, 0xaa),
       (0x2aaa, 0x55), (0x8000, 0x30)] (fc, ctx)
     = Some (fc\<lparr>erase_mask := e, program_byte := 0, flash_state := FLASH040_STATE_SECTOR_ERASE_TIMEOUT\<rparr>,
             alarm_set ctx (erase_alarm fc) (7 + erase_sector_timeout_cycles (ftype fc)))"
    and e: "marked e = {2}"
    using erase_sequence [OF s(1) m, where addr = "0x8000" and clk = 7 and ctx = ctx] s
    by (auto simp: sector_number sectors_def)
  let ?fm = "(fc\<lparr>erase_mask := e, program_byte := 0, flash_state := FLASH040_STATE_SECTOR_ERASE_TIMEOUT\<rparr>,
             alarm_set ctx (erase_alarm fc) (7 + erase_sector_timeout_cycles (ftype fc)))"
  have reach: "flash_reach [3, 2, 1] ?fm"
    by (rule run_stores_reach [OF r1]) (use demo_chip_reach s(3) in \<open>simp_all only: d, simp_all add: s\<close>)
  obtain fm2 where h: "erase_alarm_handler 90 ?fm = Some fm2" "flash_state (fst fm2) = FLASH040_STATE_SECTOR_ERASE"
    "erase_mask (fst fm2) = e" "flash_data (fst fm2) = flash_data fc" "flash_type (fst fm2) = FLASH040_TYPE_010"
    "flash_base_state (fst fm2) = FLASH040_STATE_READ"
    using s by (simp add: erase_alarm_handler_def Let_def)
  have "flash_reach [3, 2, 1] (fst fm2, snd fm2)"
  proof -
    have "flash_wf [3, 2, 1] ?fm" using flash_reach_wf [OF reach] by simp
    then have "deadline (snd ?fm) (erase_alarm (fst ?fm)) \<noteq> None" by (simp add: flash_wf_def erasing_def)
    then have "flash_reach [3, 2, 1] fm2" using flash_alarm [OF reach _ h(1)] by simp
    then show ?thesis by (simp only: prod.collapse)
  qed
  from flash_sector_erase_complete [OF this h(2), of "[2000000]"] e
  obtain fc' ctx' where "run_erase [2000000] fm2 = Some (fc', ctx')" "flash_state fc' = FLASH040_STATE_READ"
    "flash_data fc' 0x9000 = 0xff"
    by (auto simp: h)
  then show ?thesis using r1 h(1) by (auto simp: d)
qed

section \<open>The largest chip\<close>

text \<open>
  The sector mask has 64 bits, but the 8 MB chip has 128 sectors: on it, the sector erase
  command for any address in the upper half writes outside the mask.
\<close>

theorem flash064_erase_out_of_bounds:
  assumes "flash_type fc = FLASH040_TYPE_064" "length (erase_mask fc) = FLASH040_ERASE_MASK_SIZE"
    and "flash_state fc = FLASH040_STATE_ERASE_SELECT" "0x400000 \<le> addr" "addr < 0x800000"
  shows "flash040core_store False clk addr 0x30 (fc, ctx) = None"
proof -
  have "64 \<le> addr div 0x10000" "addr div 0x10000 < 128"
    using assms(4,5) by (simp_all add: less_eq_div_iff_mult_less_eq div_less_iff_less_mult)
  then have "64 \<le> flash_addr_to_sector_number fc addr"
    using assms(1) by (simp add: sector_number sectors_def)
  then have "8 \<le> flash_addr_to_sector_number fc addr div 8" by linarith
  then show ?thesis
    using assms(2,3)
    by (simp add: flash040core_store_def flash040core_store_internal_def
        flash_add_sector_to_erase_mask_def Let_def FLASH040_ERASE_MASK_SIZE_def)
qed

definition demo_064 :: flash040_context where
  "demo_064 = (fst demo_chip)\<lparr>flash_type := FLASH040_TYPE_064, flash_state := FLASH040_STATE_ERASE_SELECT,
     erase_mask := replicate FLASH040_ERASE_MASK_SIZE 0\<rparr>"

theorem flash064_erase_out_of_bounds_witness:
  "flash040core_store False 4 0x400000 0x30 (demo_064, demo_context) = None"
  by (rule flash064_erase_out_of_bounds) (simp_all add: demo_064_def)

section \<open>Snapshots\<close>

definition enc_flash :: "flash040_context \<Rightarrow> u8 list" where
  "enc_flash fc = [state_byte (flash_state fc)] @ [state_byte (flash_base_state fc)] @ [program_byte fc]
     @ erase_mask fc @ [last_read fc]"

definition restored :: "flash040_context \<Rightarrow> flash040_context \<Rightarrow> flash040_context" where
  "restored old fc = fc\<lparr>flash_state := flash_state old, flash_base_state := flash_base_state old,
     program_byte := program_byte old, erase_mask := erase_mask old, last_read := last_read old\<rparr>"

lemma flash_fields_append: "mappends (flash_write_fields fc) (enc_flash fc)"
  unfolding flash_write_fields_def enc_flash_def by (intro mappends_wseq put_fields TrueI)

lemma flash_fields_load:
  assumes "length (erase_mask old) = FLASH040_ERASE_MASK_SIZE"
  shows "loads flash_read_fields (enc_flash old) (fc, x, y)
     (fc\<lparr>program_byte := program_byte old, erase_mask := erase_mask old, last_read := last_read old\<rparr>,
      state_byte (flash_state old), state_byte (flash_base_state old))"
  unfolding flash_read_fields_def enc_flash_def
  by (rule loads_eq, (rule loads_wseq smr_fields assms)+) simp

text \<open>
  C40. The flash module restores the chip: written behind any other modules and read into a
  chip of the same kind, it gives the command state, the erase marks and the status bytes
  back, leaves the data alone, and schedules the erase alarm exactly when the restored chip
  is erasing.
\<close>

theorem flash_snapshot_roundtrip:
  assumes "length (erase_mask old) = FLASH040_ERASE_MASK_SIZE" "0 \<notin> set name" "length name \<le> name_field_len"
    and "byte_state (state_byte (flash_state old)) = flash_state old"
    and "byte_state (state_byte (flash_base_state old)) = flash_base_state old"
    and "\<forall>i \<in> set mods. image_ok i \<and> fst i \<noteq> name"
    and "sf_bytes f = pre @ concat (map module_bytes mods)" "sf_pos f = length (sf_bytes f)"
    and "sf_pos f + 34 \<le> sf_limit f"
  shows "\<exists>f' g. flash040core_snapshot_write_module old name f = (True, f')
    \<and> flash040core_snapshot_read_module (Suc (length mods)) (length pre) clk name (fc, ctx) f'
      = Some (True, (restored old fc,
          if flash_state old \<in> {FLASH040_STATE_SECTOR_ERASE_TIMEOUT, FLASH040_STATE_SECTOR_ERASE,
                                FLASH040_STATE_CHIP_ERASE}
          then alarm_set ctx (erase_alarm fc) (clk + erase_sector_cycles (ftype fc)) else ctx), g)"
proof -
  have len: "length (enc_flash old) = 12"
    using assms(1) by (simp add: enc_flash_def FLASH040_ERASE_MASK_SIZE_def)
  have ok: "image_ok (name, FLASH040_DUMP_VER_MAJOR, FLASH040_DUMP_VER_MINOR, enc_flash old)"
    using assms(2,3) by (simp add: len)
  obtain f' m g g' where
    w: "write_module name FLASH040_DUMP_VER_MAJOR FLASH040_DUMP_VER_MINOR (flash_write_fields old) f = (True, f')"
    and o: "snapshot_module_open (Suc (length mods)) (length pre) name f'
      = Some (Some (m, FLASH040_DUMP_VER_MAJOR, FLASH040_DUMP_VER_MINOR), g)"
    and r: "flash_read_fields ((fc, 0, 0), m, g) = (True,
      (fc\<lparr>program_byte := program_byte old, erase_mask := erase_mask old, last_read := last_read old\<rparr>,
       state_byte (flash_state old), state_byte (flash_base_state old)), m, g')"
    using device_module_roundtrip [OF flash_fields_append
        flash_fields_load [OF assms(1), of fc 0 0] ok assms(6-8)] assms(9) len by auto
  have w': "flash040core_snapshot_write_module old name f = (True, f')"
    using write_moduleD [OF w] by (auto simp: flash040core_snapshot_write_module_def)
  show ?thesis
    using w' r assms(4,5)
    by (simp add: flash040core_snapshot_read_module_def o restored_def Let_def)
qed

theorem flash_snapshot_roundtrip_witness:
  "\<exists>f' g. flash040core_snapshot_write_module demo_064 [70] \<lparr>sf_bytes = [], sf_pos = 0, sf_limit = 99, sf_error = 0\<rparr> = (True, f')
    \<and> flash040core_snapshot_read_module 1 0 5 [70] (fst demo_chip, demo_context) f'
      = Some (True, (restored demo_064 (fst demo_chip), demo_context), g)"
proof -
  have b: "byte_state (state_byte (flash_state demo_064)) = flash_state demo_064"
    "byte_state (state_byte (flash_base_state demo_064)) = flash_base_state demo_064"
    by (simp_all add: byte_state_def demo_064_def demo_chip_def flash040core_init_def
        flash_clear_erase_mask_def Let_def split: prod.split)
  show ?thesis
    using flash_snapshot_roundtrip [OF _ _ _ b, of "[70]" "[]"
        "\<lparr>sf_bytes = [], sf_pos = 0, sf_limit = 99, sf_error = 0\<rparr>" "[]"]
    by (simp add: demo_064_def name_field_len_def One_nat_def)
qed

end
