(* ===== verification/Spec2Isabelle.thy ===== *)
theory Spec2Isabelle
  imports Cbmdos_Names Charset_Conv Crc32 Iecbus_Lines Spi_Flash_Memory Kbdbuf_Runs Vdrive_Bam_Store M93c86_Pins Gcr_Format Alarm_Service Snapshot_Files Interrupt_Lines Cia_Timer_Steps Flash040_Commands
begin

text \<open>
  A verification library for the parts of the VICE emulator that keep time, carry data to files
  and back, and run disks: each theory models one C file (or one group of functions of it), and
  the theories that import it prove what its operations promise. Source paths are relative to
  the repository.

  \<^bold>\<open>The program.\<close> The machines schedule events of their chips as alarms; the CIA timers and the flash
  chips set such alarms, and the CPU core dispatches them and polls the interrupt lines the chips
  raise. Everything with a state is written to snapshot files and read back. Keys for the emulated
  machine wait in a queue, converted from host text to PETSCII. Computer and drives talk over the
  lines of a serial bus, in commands with file names. Disk images hold sectors, either
  plainly or as group coded tracks, and the virtual drive manages the free sectors of a disk in
  its block availability map (BAM).

  \<^bold>\<open>Prelude.\<close> \<open>Vice_Prelude\<close>: the integer types of \<^verbatim>\<open>src/src/types.h\<close> as words, byte arrays, and lemmas
  the components share. A C access outside its array, a use of an uninitialised or null pointer is
  the value \<open>None\<close> of the operation that makes it, so that an operation that returns \<open>Some\<close> is
  memory safe. Errors the program itself reports are the values its functions return.

  \<^bold>\<open>Alarms\<close> (\<^verbatim>\<open>src/src/alarm.c\<close>, \<^verbatim>\<open>alarm.h\<close>): \<open>Alarm\<close> has the contexts with their array of pending
  alarms and the back index of every alarm; \<open>Alarm_Service\<close> states the service clients use as the
  locale \<open>alarm_service\<close> over a map from alarms to deadlines, interprets it on the model and proves
  that any sequence of requests refines the map and that dispatch calls the earliest alarm.

  \<^bold>\<open>Snapshot files\<close> (\<^verbatim>\<open>src/src/snapshot.c\<close>): \<open>Snapshot\<close> has the file as bytes with a position, the
  readers and writers, modules and the header; \<open>Snapshot_Codec\<close> states a field that can be written
  and read back as the locale \<open>snapshot_codec\<close>, interpreted for every kind of field;
  \<open>Snapshot_Files\<close> proves that a file of any modules reads back and that reads of a fixed number of
  bytes fail at the end of a module and are exact before it (\<open>reads_inside\<close>).

  \<^bold>\<open>Interrupt lines\<close> (\<^verbatim>\<open>src/src/interrupt.c\<close>, \<^verbatim>\<open>interrupt.h\<close>): \<open>Interrupt\<close> has the IRQ and NMI sources, the
  request clocks, the traps and the snapshot blocks; \<open>Interrupt_Lines\<close> proves that counts and flags
  are those of the set of active sources (locale \<open>line_bank\<close>, interpreted for IRQ and NMI), that
  traps run in order, also when the first of a batch schedules others, and the bounds of the
  correction for DMA.

  \<^bold>\<open>CIA timers\<close> (\<^verbatim>\<open>src/src/core/ciatimer.c\<close>, \<^verbatim>\<open>ciatimer.h\<close>): \<open>Cia_Timer\<close> has the pipeline table and the
  update loop with its shortcuts; \<open>Cia_Timer_Steps\<close> proves that the shortcuts equal single steps
  and that the alarm is set exactly for the next underflow.

  \<^bold>\<open>Flash chips\<close> (\<^verbatim>\<open>src/src/core/flash040core.c\<close>): \<open>Flash040\<close> has the command states, \<open>Flash040_Chip\<close> the
  invariant of a chip with its erase alarm, \<open>Flash040_Commands\<close> what the command sequences do.

  \<^bold>\<open>Group coded recording\<close> (\<^verbatim>\<open>src/src/gcr.c\<close>): \<open>Gcr\<close> has the operations, \<open>Gcr_Code\<close> the code as bits,
  \<open>Gcr_Track\<close> raw tracks as circular bit streams, \<open>Gcr_Sectors\<close> and \<open>Gcr_Format\<close> that a sector laid
  down or written is found and read. Scans take \<open>fuel\<close>, one unit for each bit; \<open>gcr_fuel\<close> is more than
  a turn of the largest track, and the theorems on reading show that it suffices.

  \<^bold>\<open>Serial EEPROM\<close> (\<^verbatim>\<open>src/src/core/m93c86.c\<close>): \<open>M93c86\<close> has the pins and the image file,
  \<open>M93c86_Protocol\<close> the instructions clocked in bit by bit, \<open>M93c86_Memory\<close> the refinement of a memory
  of 1024 words, \<open>M93c86_Pins\<close> safety under arbitrary pins, the image and the snapshot.

  \<^bold>\<open>Text and keys\<close> (\<^verbatim>\<open>src/src/charset.c\<close>, \<^verbatim>\<open>src/src/kbdbuf.c\<close>): \<open>Charset\<close> and \<open>Charset_Conv\<close> have the
  conversions and what they keep; \<open>Kbdbuf\<close> has the ring of waiting keys, \<open>Kbdbuf_Queue\<close> the locale
  \<open>key_queue\<close> and its interpretation on the ring, \<open>Kbdbuf_Flow\<close> runs in which callers, flushes, alarms
  and machine take turns, without resets (\<open>kb_run\<close>) and with them (\<open>kb_life\<close>), \<open>Kbdbuf_Runs\<close> the order
  of keys, that operations return and queues drain.

  \<^bold>\<open>Disk images\<close> (\<^verbatim>\<open>src/src/diskimage/\<close>): \<open>Disk_Geometry\<close> has the tracks and block numbers of every type,
  \<open>Disk_Layout\<close> proves that the blocks fill the image (locale \<open>track_layout\<close>); \<open>Disk_Image\<close> has reading
  and writing of sectors with error bytes and raw tracks.

  \<^bold>\<open>Virtual drive\<close> (\<^verbatim>\<open>src/src/vdrive/vdrive.c\<close>, \<^verbatim>\<open>vdrive-bam.c\<close>): \<open>Vdrive\<close> has geometry and the way from
  logical to physical sectors; \<open>Disk_Sectors\<close> states a store of sectors as the locale \<open>sector_store\<close>,
  interpreted on images and on drives. \<open>Vdrive_Bam\<close> and \<open>Vdrive_Bam_Disk\<close> have the BAM operations. The
  locale \<open>bam_layout\<close> of \<open>Vdrive_Bam_Map\<close> says where bits and counts lie; \<open>Vdrive_Bam_Layouts\<close> interprets
  it for the formats with a fixed layout (2040, 1541, 1571, 1581, 8050, 8250, and native partitions).
  \<open>Vdrive_Bam_Alloc\<close> and \<open>Vdrive_Bam_Sets\<close> prove that sequences of operations refine the set of free
  sectors and mark what they change; \<open>Vdrive_Bam_Search\<close> and \<open>Vdrive_Bam_Free\<close> that the searches are
  complete; \<open>Vdrive_Bam_Count\<close> that the count of free blocks
  follows the BAM's counts, and is right when they are; \<open>Vdrive_Bam_Store\<close> that the BAM survives being
  written and read by the next start. The search loops count down the tracks and sectors they may
  visit, as the source's loops do. \<open>allocate_chain_loop\<close> follows links of the disk and has fuel:
  a chain allocates a new sector at each step, so it ends after as many steps as the disk has sectors.

  \<^bold>\<open>Serial bus\<close> (\<^verbatim>\<open>src/src/iecbus/iecbus.c\<close>, \<^verbatim>\<open>src/src/c64/c64iec.c\<close>, \<^verbatim>\<open>src/src/drive/iec/\<close>): \<open>Iecbus\<close> has the
  lines, the choice of devices and of the handlers for one drive or many, and the stores of the
  bus ports of the drives; \<open>Iecbus_Lines\<close> proves that devices and handlers follow the settings, that
  the handlers for one drive are the general ones, and that the lines stay the wired and of what
  everybody drives, over runs in which the computer, drives and devices take turns.

  \<^bold>\<open>Serial flash\<close> (\<^verbatim>\<open>src/src/core/spi-flash.c\<close>): \<open>Spi_Flash\<close> has the pins and the snapshot module,
  \<open>Spi_Flash_Memory\<close> the refinement of a memory whose programs clear bits and whose erases set blocks.

  \<^bold>\<open>DOS file names\<close> (\<^verbatim>\<open>src/src/cbmdos.c\<close>): \<open>Cbmdos\<close> has wildcards, directory slots and the parser of file
  names; \<open>Cbmdos_Names\<close> proves that matching is pattern matching, that the parser gives back the parts
  a command was put together from, and for which commands it reads outside its buffer. The loop
  over the commas has the length of the command as fuel, of which each comma takes at least one.

  \<^bold>\<open>Checksums\<close> (\<^verbatim>\<open>src/src/crc32.c\<close>): \<open>Crc32\<close> has the table driven checksum, and proves that it is the
  bitwise shift register and detects every burst of up to 32 bits.

  \<^bold>\<open>Parameters.\<close> The P64 library and the calls into other chips are arguments of the definitions that
  use them (\<open>disk_env\<close>, the callbacks of alarms and traps); what a drive CPU and a serial device store
  when they are run is the argument \<open>iec_env\<close>.

  \<^bold>\<open>Not modelled.\<close> CPU cores, video, sound synthesis, the monitor, user interfaces, drive CPUs, cartridge
  glue, network play and host files are outside this library: they are interpreters written as
  macros, rendering and host input and output. Of disk images, probing, opening and creating files
  are left out; of the virtual drive, the DOS commands, directories and partition tables; of file
  names, the longer form with partitions and paths (\<^verbatim>\<open>cbmdos_command_parse_plus\<close>); of the serial bus,
  the other ports of the drives, the direction of the fast serial lines and the other machines; of
  snapshots, the two routines for host doubles and the dialogs. Log output is left out everywhere.
\<close>

end
